(* ===== verification/Prelude.thy ===== *)
theory Prelude
  imports Complex_Main "HOL-Library.Word"
begin

text \<open>
  Shared vocabulary of the development: the machine integers of the Rust code, the
  arithmetic helpers of its standard library (\<open>saturating_*\<close>, \<open>checked_*\<close>,
  \<open>div_ceil\<close>, \<open>clamp\<close>, \<open>partition_point\<close>), time, and the generic list, word and
  interval lemmas that the component theories use.

  Integers keep their width. A plain \<open>+\<close>, \<open>-\<close> or \<open>*\<close> on words wraps around, which
  is what the release profile of the workspace does (\<^verbatim>\<open>Cargo.toml\<close> sets no
  \<^verbatim>\<open>overflow-checks\<close>); a theorem that needs the absence of overflow says so. Panics that
  every profile has (\<open>Ord::clamp\<close> with \<open>min > max\<close>) are the value \<open>None\<close>.

  \<open>Instant\<close> and \<open>Duration\<close> are natural numbers of nanoseconds;
  \<open>saturating_duration_since\<close> is then the truncated subtraction of \<open>nat\<close>.
\<close>

type_synonym u8 = "8 word"
type_synonym u16 = "16 word"
type_synonym u32 = "32 word"
type_synonym u64 = "64 word"
type_synonym instant = nat
type_synonym duration = nat

named_theorems word_std "the standard library's integer operations, read through unat"

section \<open>Integer operations of the standard library\<close>

abbreviation u64_MAX :: u64 where
  "u64_MAX \<equiv> - 1"

definition saturating_add :: "'a::len word \<Rightarrow> 'a word \<Rightarrow> 'a word" where
  "saturating_add a b = (if unat a + unat b < 2 ^ LENGTH('a) then a + b else - 1)"

definition saturating_sub :: "'a::len word \<Rightarrow> 'a word \<Rightarrow> 'a word" where
  "saturating_sub a b = (if a < b then 0 else a - b)"

definition saturating_mul :: "'a::len word \<Rightarrow> 'a word \<Rightarrow> 'a word" where
  "saturating_mul a b = (if unat a * unat b < 2 ^ LENGTH('a) then a * b else - 1)"

definition checked_add :: "'a::len word \<Rightarrow> 'a word \<Rightarrow> 'a word option" where
  "checked_add a b = (if unat a + unat b < 2 ^ LENGTH('a) then Some (a + b) else None)"

definition checked_sub :: "'a::len word \<Rightarrow> 'a word \<Rightarrow> 'a word option" where
  "checked_sub a b = (if a < b then None else Some (a - b))"

definition div_ceil :: "'a::len word \<Rightarrow> 'a word \<Rightarrow> 'a word" where
  "div_ceil a b = (if a mod b > 0 then a div b + 1 else a div b)"

text \<open>\<open>Ord::clamp\<close> asserts \<open>min <= max\<close> in every build profile.\<close>

definition clamp_checked :: "'a::linorder \<Rightarrow> 'a \<Rightarrow> 'a \<Rightarrow> 'a option" where
  "clamp_checked v lo hi =
     (if lo \<le> hi then Some (if v < lo then lo else if v > hi then hi else v) else None)"

text \<open>\<open>slice::partition_point\<close> on a slice that is partitioned by the predicate.\<close>

definition partition_point :: "('a \<Rightarrow> bool) \<Rightarrow> 'a list \<Rightarrow> nat" where
  "partition_point P xs = length (takeWhile P xs)"

definition nth_opt :: "'a list \<Rightarrow> nat \<Rightarrow> 'a option" where
  "nth_opt xs i = (if i < length xs then Some (xs ! i) else None)"

definition slice :: "nat \<Rightarrow> nat \<Rightarrow> 'a list \<Rightarrow> 'a list" where
  "slice lo hi xs = take (hi - lo) (drop lo xs)"

definition splice :: "nat \<Rightarrow> nat \<Rightarrow> 'a list \<Rightarrow> 'a list \<Rightarrow> 'a list" where
  "splice lo hi ys xs = take lo xs @ ys @ drop hi xs"

section \<open>Their meaning on natural numbers\<close>

lemma unat_less_exp: "unat (a :: 'a::len word) < 2 ^ LENGTH('a)"
  by (rule unsigned_less)

lemma unat_minus_one_word [simp]: "unat (- 1 :: 'a::len word) = 2 ^ LENGTH('a) - 1"
  by (simp add: unsigned_minus_1_eq_mask mask_eq_exp_minus_1)

lemma unat_u64_less: "unat (a :: u64) < 18446744073709551616"
  using unat_less_exp [of a] by simp

lemma unat_saturating_add [word_std]:
  "unat (saturating_add a (b :: 'a::len word)) = min (unat a + unat b) (2 ^ LENGTH('a) - 1)"
  by (auto simp: saturating_add_def unat_word_ariths min_def)

lemma unat_saturating_sub [word_std]:
  "unat (saturating_sub a b) = unat a - unat b"
  by (auto simp: saturating_sub_def word_less_nat_alt unat_sub_if')

lemma unat_saturating_mul [word_std]:
  "unat (saturating_mul a (b :: 'a::len word)) = min (unat a * unat b) (2 ^ LENGTH('a) - 1)"
proof (cases "unat a * unat b < 2 ^ LENGTH('a)")
  case True
  then have "min (unat a * unat b) (2 ^ LENGTH('a) - 1) = unat a * unat b" by linarith
  with True show ?thesis by (simp add: saturating_mul_def unat_word_ariths)
next
  case False
  then have "min (unat a * unat b) (2 ^ LENGTH('a) - 1) = 2 ^ LENGTH('a) - 1" by linarith
  with False show ?thesis by (simp add: saturating_mul_def)
qed

lemma saturating_sub_le: "saturating_sub a b \<le> a"
  by (simp add: word_le_nat_alt unat_saturating_sub)

lemma checked_add_Some_iff:
  "checked_add a (b :: 'a::len word) = Some c \<longleftrightarrow>
     unat a + unat b < 2 ^ LENGTH('a) \<and> c = a + b"
  by (auto simp: checked_add_def)

lemma checked_add_SomeD:
  "checked_add a (b :: 'a::len word) = Some c \<Longrightarrow> unat c = unat a + unat b"
  by (auto simp: checked_add_Some_iff unat_word_ariths)

lemma clamp_checked_Some_iff:
  "clamp_checked v lo hi = Some w \<longleftrightarrow> lo \<le> hi \<and> w = max lo (min v hi)"
  by (auto simp: clamp_checked_def max_def min_def)

lemma clamp_checked_None_iff: "clamp_checked v lo hi = None \<longleftrightarrow> hi < lo"
  by (auto simp: clamp_checked_def)

lemma unat_div_ceil [word_std]:
  "0 < b \<Longrightarrow> unat (div_ceil a (b :: 'a::len word)) =
     unat a div unat b + (if 0 < unat a mod unat b then 1 else 0)"
proof -
  assume "0 < b"
  have "unat (a div b + 1) = unat a div unat b + 1" if r: "0 < unat a mod unat b"
  proof -
    have "unat b \<noteq> 1" using r by (auto intro: gr0I)
    moreover have "0 < unat b" using \<open>0 < b\<close> by (simp add: word_less_nat_alt)
    ultimately have "1 < unat b" by linarith
    then have "unat a div unat b < unat a"
      using r by (cases "unat a = 0") (auto intro: div_less_dividend)
    then have "unat a div unat b + 1 < 2 ^ LENGTH('a)"
      using unat_less_exp [of a] by linarith
    then show ?thesis by (simp add: unat_word_ariths unat_div_distrib)
  qed
  then show ?thesis
    by (simp add: div_ceil_def word_less_nat_alt unat_mod_distrib unat_div_distrib)
qed

section \<open>Sorted lists and partition points\<close>

lemma dropWhile_partitioned:
  assumes "sorted_wrt R xs" and "\<And>x y. R x y \<Longrightarrow> P y \<Longrightarrow> P x" and "y \<in> set (dropWhile P xs)"
  shows "\<not> P y"
  using assms
proof (induction xs)
  case (Cons x xs)
  show ?case
  proof (cases "P x")
    case False
    with Cons.prems show ?thesis by auto
  qed (use Cons in auto)
qed simp

lemma takeWhile_append_all:
  "(\<And>x. x \<in> set xs \<Longrightarrow> P x) \<Longrightarrow> takeWhile P (xs @ ys) = xs @ takeWhile P ys"
  by (induction xs) auto

lemma take_partition_point [simp]: "take (partition_point P xs) xs = takeWhile P xs"
  by (simp add: partition_point_def takeWhile_eq_take [symmetric])

lemma drop_partition_point [simp]: "drop (partition_point P xs) xs = dropWhile P xs"
  by (simp add: partition_point_def dropWhile_eq_drop [symmetric])

lemma partition_point_le_length: "partition_point P xs \<le> length xs"
  by (simp add: partition_point_def length_takeWhile_le)

lemma nth_opt_simps [simp]:
  "nth_opt [] i = None" "nth_opt (y # ys) 0 = Some y" "nth_opt (y # ys) (Suc i) = nth_opt ys i"
  by (simp_all add: nth_opt_def)

lemma nth_opt_append_length [simp]:
  "nth_opt (xs @ ys) (length xs) = (case ys of [] \<Rightarrow> None | y # _ \<Rightarrow> Some y)"
  "nth_opt (xs @ ys) (Suc (length xs)) = nth_opt ys 1"
  by (auto simp: nth_opt_def nth_append split: list.split)

lemma nth_opt_partition_point:
  "nth_opt xs (partition_point P xs) = (case dropWhile P xs of [] \<Rightarrow> None | y # _ \<Rightarrow> Some y)"
  "nth_opt xs (Suc (partition_point P xs)) = nth_opt (dropWhile P xs) 1"
  unfolding partition_point_def
  by (subst (1) takeWhile_dropWhile_id [of P xs, symmetric], simp only: nth_opt_append_length)+

lemma sum_list_replace:
  "i < length as \<Longrightarrow> sum_list (map w (as[i := a])) + (w (as ! i) :: nat) = sum_list (map w as) + w a"
proof (induction as arbitrary: i)
  case (Cons b bs)
  then show ?case by (cases i) auto
qed simp

section \<open>Word intervals\<close>

lemma word_atLeastLessThan_card: "card {a..<b :: 'a::len word} = unat b - unat a"
proof -
  have "unat ` {a..<b} = {unat a..<unat b}"
  proof
    show "unat ` {a..<b} \<subseteq> {unat a..<unat b}"
      by (auto simp: word_le_nat_alt word_less_nat_alt)
    show "{unat a..<unat b} \<subseteq> unat ` {a..<b}"
    proof
      fix n assume n: "n \<in> {unat a..<unat b}"
      then have "n < unat b" by simp
      then have "n < 2 ^ LENGTH('a)" using unat_less_exp by (rule order.strict_trans)
      then have "unat (of_nat n :: 'a word) = n" by (simp add: unat_of_nat)
      with n show "n \<in> unat ` {a..<b}"
        by (intro image_eqI [of _ _ "of_nat n"]) (auto simp: word_le_nat_alt word_less_nat_alt)
    qed
  qed
  then have "card (unat ` {a..<b}) = unat b - unat a" by simp
  moreover have "inj_on (unat :: 'a word \<Rightarrow> nat) {a..<b}"
    by (rule inj_onI) (simp add: word_unat_eq_iff)
  ultimately show ?thesis by (simp only: card_image)
qed

lemma unat_diff_word: "a \<le> b \<Longrightarrow> unat (b - a) = unat b - unat a"
  by (simp add: unat_sub word_le_nat_alt)

end
