(* ===== verification/Ranges.thy ===== *)
theory Ranges
  imports Prelude
begin

text \<open>
  \<^verbatim>\<open>src/crates/xde/src/core/ranges.rs\<close>: half-open byte ranges and the normalized set of them.
  The definitions follow the Rust line by line on 64-bit words; \<open>br_set\<close> and \<open>rs_set\<close> give
  the set of byte offsets that a range and a range set stand for, and the lemmas show that
  every operation on the sorted vector is the corresponding operation on sets of bytes.
\<close>

section \<open>Byte ranges\<close>

record byte_range =
  r_start :: u64
  r_end :: u64

definition ByteRange_new :: "u64 \<Rightarrow> u64 \<Rightarrow> byte_range" where
  "ByteRange_new s e = \<lparr>r_start = s, r_end = e\<rparr>"

definition ByteRange_at :: "u64 \<Rightarrow> u64 \<Rightarrow> byte_range" where
  "ByteRange_at s len = \<lparr>r_start = s, r_end = s + len\<rparr>"

definition br_len :: "byte_range \<Rightarrow> u64" where
  "br_len r = r_end r - r_start r"

definition br_is_empty :: "byte_range \<Rightarrow> bool" where
  "br_is_empty r \<longleftrightarrow> r_start r \<ge> r_end r"

definition br_contains :: "byte_range \<Rightarrow> u64 \<Rightarrow> bool" where
  "br_contains r off \<longleftrightarrow> off \<ge> r_start r \<and> off < r_end r"

definition intersects :: "byte_range \<Rightarrow> byte_range \<Rightarrow> bool" where
  "intersects r q \<longleftrightarrow> r_start r < r_end q \<and> r_start q < r_end r"

definition intersection :: "byte_range \<Rightarrow> byte_range \<Rightarrow> byte_range option" where
  "intersection r q =
     (let s = max (r_start r) (r_start q); e = min (r_end r) (r_end q)
      in if s < e then Some (ByteRange_new s e) else None)"

text \<open>\<open>u64::clamp\<close> panics on a range whose start lies behind its end.\<close>

definition split_at :: "byte_range \<Rightarrow> u64 \<Rightarrow> (byte_range \<times> byte_range) option" where
  "split_at r p =
     map_option (\<lambda>c. (ByteRange_new (r_start r) c, ByteRange_new c (r_end r)))
       (clamp_checked p (r_start r) (r_end r))"

definition truncated_to :: "byte_range \<Rightarrow> u64 \<Rightarrow> byte_range" where
  "truncated_to r len = ByteRange_new (r_start r) (min (r_end r) (r_start r + len))"

section \<open>Range sets\<close>

record range_set =
  ranges :: "byte_range list"
  covered :: u64

definition rs_new :: range_set where
  "rs_new = \<lparr>ranges = [], covered = 0\<rparr>"

definition sum_len :: "byte_range list \<Rightarrow> u64" where
  "sum_len rs = sum_list (map br_len rs)"

definition rs_insert :: "range_set \<Rightarrow> byte_range \<Rightarrow> range_set" where
  "rs_insert s r =
     (if br_is_empty r then s
      else
        let lo = partition_point (\<lambda>x. r_end x < r_start r) (ranges s);
            hi = partition_point (\<lambda>x. r_start x \<le> r_end r) (ranges s)
        in
          if lo = hi then
            \<lparr>ranges = splice lo lo [r] (ranges s), covered = covered s + br_len r\<rparr>
          else
            let removed = sum_len (slice lo hi (ranges s));
                merged = ByteRange_new (min (r_start r) (r_start (ranges s ! lo)))
                                       (max (r_end r) (r_end (ranges s ! (hi - 1))))
            in \<lparr>ranges = splice lo hi [merged] (ranges s),
                covered = covered s - removed + br_len merged\<rparr>)"

definition rs_remove :: "range_set \<Rightarrow> byte_range \<Rightarrow> range_set" where
  "rs_remove s r =
     (if br_is_empty r \<or> ranges s = [] then s
      else
        let lo = partition_point (\<lambda>x. r_end x \<le> r_start r) (ranges s);
            hi = partition_point (\<lambda>x. r_start x < r_end r) (ranges s)
        in
          if lo \<ge> hi then s
          else
            let removed = sum_len (slice lo hi (ranges s));
                first = ranges s ! lo;
                last = ranges s ! (hi - 1);
                replacement =
                  (if r_start first < r_start r
                   then [ByteRange_new (r_start first) (r_start r)] else []) @
                  (if r_end last > r_end r
                   then [ByteRange_new (r_end r) (r_end last)] else []);
                added = sum_len replacement
            in \<lparr>ranges = splice lo hi replacement (ranges s),
                covered = covered s - removed + added\<rparr>)"

definition from_ranges :: "byte_range list \<Rightarrow> range_set" where
  "from_ranges rs = foldl rs_insert rs_new rs"

definition rs_clear :: "range_set \<Rightarrow> range_set" where
  "rs_clear s = s\<lparr>ranges := [], covered := 0\<rparr>"

definition rs_contains :: "range_set \<Rightarrow> u64 \<Rightarrow> bool" where
  "rs_contains s off =
     (let i = partition_point (\<lambda>x. r_end x \<le> off) (ranges s)
      in case nth_opt (ranges s) i of None \<Rightarrow> False | Some x \<Rightarrow> br_contains x off)"

definition contains_range :: "range_set \<Rightarrow> byte_range \<Rightarrow> bool" where
  "contains_range s r =
     (if br_is_empty r then True
      else
        let i = partition_point (\<lambda>x. r_end x \<le> r_start r) (ranges s)
        in case nth_opt (ranges s) i of
             None \<Rightarrow> False
           | Some x \<Rightarrow> r_start x \<le> r_start r \<and> r_end x \<ge> r_end r)"

definition first_gap :: "range_set \<Rightarrow> u64 \<Rightarrow> u64 \<Rightarrow> byte_range option" where
  "first_gap s from limit =
     (if from \<ge> limit then None
      else
        let i = partition_point (\<lambda>x. r_end x \<le> from) (ranges s)
        in case nth_opt (ranges s) i of
             None \<Rightarrow> Some (ByteRange_new from limit)
           | Some cur \<Rightarrow>
               if r_start cur > from then Some (ByteRange_new from (min (r_start cur) limit))
               else if r_end cur \<ge> limit then None
               else Some (ByteRange_new (r_end cur)
                      (case nth_opt (ranges s) (i + 1) of
                         None \<Rightarrow> limit
                       | Some n \<Rightarrow> min (r_start n) limit)))"

text \<open>The loop of \<open>gaps\<close>; \<open>cur\<close> is its running end.\<close>

fun gaps_loop :: "byte_range list \<Rightarrow> u64 \<Rightarrow> u64 \<Rightarrow> byte_range list" where
  "gaps_loop [] cur limit = (if cur < limit then [ByteRange_new cur limit] else [])"
| "gaps_loop (r # rs) cur limit =
     (if r_start r \<ge> limit then (if cur < limit then [ByteRange_new cur limit] else [])
      else (if r_start r > cur then [ByteRange_new cur (min (r_start r) limit)] else []) @
           gaps_loop rs (max cur (r_end r)) limit)"

definition gaps :: "range_set \<Rightarrow> u64 \<Rightarrow> byte_range list" where
  "gaps s limit = gaps_loop (ranges s) 0 limit"

definition rs_is_complete :: "range_set \<Rightarrow> u64 \<Rightarrow> bool" where
  "rs_is_complete s tot =
     (case ranges s of
        [only] \<Rightarrow> r_start only = 0 \<and> r_end only \<ge> tot
      | [] \<Rightarrow> tot = 0
      | _ \<Rightarrow> False)"

definition contiguous_prefix :: "range_set \<Rightarrow> u64" where
  "contiguous_prefix s =
     (case ranges s of [] \<Rightarrow> 0 | r # _ \<Rightarrow> if r_start r = 0 then r_end r else 0)"

definition union_with :: "range_set \<Rightarrow> range_set \<Rightarrow> range_set" where
  "union_with s t = foldl rs_insert s (ranges t)"

text \<open>\<open>assert_normalized\<close>: the loop with its running \<open>prev\<close> and \<open>sum\<close>; \<open>False\<close> is a failed
  assertion.\<close>

fun assert_loop :: "byte_range list \<Rightarrow> byte_range option \<Rightarrow> u64 \<Rightarrow> u64 \<Rightarrow> bool" where
  "assert_loop [] prev acc cov \<longleftrightarrow> acc = cov"
| "assert_loop (r # rs) prev acc cov \<longleftrightarrow>
     \<not> br_is_empty r \<and>
     (case prev of None \<Rightarrow> True | Some p \<Rightarrow> r_end p < r_start r) \<and>
     assert_loop rs (Some r) (acc + br_len r) cov"

definition assert_normalized :: "range_set \<Rightarrow> bool" where
  "assert_normalized s \<longleftrightarrow> assert_loop (ranges s) None 0 (covered s)"

text \<open>Serialized form: the list of \<open>(start, end)\<close> pairs.\<close>

definition rs_serialize :: "range_set \<Rightarrow> (u64 \<times> u64) list" where
  "rs_serialize s = map (\<lambda>r. (r_start r, r_end r)) (ranges s)"

definition rs_deserialize :: "(u64 \<times> u64) list \<Rightarrow> range_set" where
  "rs_deserialize raw =
     from_ranges (map (\<lambda>(s, e). ByteRange_new s e) (filter (\<lambda>(s, e). s < e) raw))"

section \<open>The bytes a range set stands for\<close>

definition br_set :: "byte_range \<Rightarrow> u64 set" where
  "br_set r = {r_start r..<r_end r}"

definition list_set :: "byte_range list \<Rightarrow> u64 set" where
  "list_set rs = (\<Union>r\<in>set rs. br_set r)"

definition rs_set :: "range_set \<Rightarrow> u64 set" where
  "rs_set s = list_set (ranges s)"

abbreviation before :: "byte_range \<Rightarrow> byte_range \<Rightarrow> bool" where
  "before p q \<equiv> r_end p < r_start q"

definition norm_list :: "byte_range list \<Rightarrow> bool" where
  "norm_list rs \<longleftrightarrow> (\<forall>r\<in>set rs. r_start r < r_end r) \<and> sorted_wrt before rs"

definition normalized :: "range_set \<Rightarrow> bool" where
  "normalized s \<longleftrightarrow> norm_list (ranges s) \<and> covered s = sum_len (ranges s)"

text \<open>Ranges that pairwise share no byte, as the owners of bytes do.\<close>

definition disjoint_ranges :: "byte_range list \<Rightarrow> bool" where
  "disjoint_ranges rs \<longleftrightarrow> sorted_wrt (\<lambda>x y. br_set x \<inter> br_set y = {}) rs"

lemma ByteRange_new_sel [simp]:
  "r_start (ByteRange_new a b) = a" "r_end (ByteRange_new a b) = b"
  by (simp_all add: ByteRange_new_def)

lemma br_set_new [simp]: "br_set (ByteRange_new a b) = {a..<b}"
  by (simp add: br_set_def)

lemma br_is_empty_iff: "br_is_empty r \<longleftrightarrow> br_set r = {}"
  by (simp add: br_is_empty_def br_set_def not_less)

lemma br_contains_iff: "br_contains r x \<longleftrightarrow> x \<in> br_set r"
  by (simp add: br_contains_def br_set_def)

lemma intersects_iff:
  "\<not> br_is_empty r \<Longrightarrow> \<not> br_is_empty q \<Longrightarrow> intersects r q \<longleftrightarrow> br_set r \<inter> br_set q \<noteq> {}"
  by (auto simp: intersects_def br_is_empty_def br_set_def)

lemma intersection_Some_iff:
  "intersection r q = Some i \<longleftrightarrow>
     i = ByteRange_new (max (r_start r) (r_start q)) (min (r_end r) (r_end q)) \<and> br_set i \<noteq> {}"
  by (auto simp: intersection_def Let_def)

lemma intersection_set:
  "br_set r \<inter> br_set q = (case intersection r q of None \<Rightarrow> {} | Some i \<Rightarrow> br_set i)"
  by (auto simp: intersection_def br_set_def Let_def)

lemma card_br_set: "r_start r \<le> r_end r \<Longrightarrow> card (br_set r) = unat (br_len r)"
  by (simp add: br_set_def br_len_def word_atLeastLessThan_card unat_diff_word)

lemma list_set_simps [simp]:
  "list_set [] = {}" "list_set (r # rs) = br_set r \<union> list_set rs"
  "list_set (rs @ qs) = list_set rs \<union> list_set qs"
  by (auto simp: list_set_def)

lemma disjoint_ranges_insert:
  "disjoint_ranges (A @ r # B) \<longleftrightarrow> disjoint_ranges (A @ B) \<and> br_set r \<inter> list_set (A @ B) = {}"
  by (simp add: disjoint_ranges_def sorted_wrt_append list_set_def) blast

lemma disjoint_ranges_shrink:
  "disjoint_ranges (A @ r # B) \<Longrightarrow> br_set q \<subseteq> br_set r \<Longrightarrow> disjoint_ranges (A @ q # B)"
  unfolding disjoint_ranges_insert by blast

lemma sum_len_simps [simp]:
  "sum_len [] = 0" "sum_len (r # rs) = br_len r + sum_len rs"
  "sum_len (rs @ qs) = sum_len rs + sum_len qs"
  by (simp_all add: sum_len_def)

lemma norm_list_simps:
  "norm_list []"
  "norm_list (r # rs) \<longleftrightarrow> r_start r < r_end r \<and> (\<forall>q\<in>set rs. before r q) \<and> norm_list rs"
  "norm_list (rs @ qs) \<longleftrightarrow> norm_list rs \<and> norm_list qs \<and> (\<forall>r\<in>set rs. \<forall>q\<in>set qs. before r q)"
  by (auto simp: norm_list_def sorted_wrt_append)

lemma norm_list_nonempty: "norm_list rs \<Longrightarrow> r \<in> set rs \<Longrightarrow> r_start r < r_end r"
  by (simp add: norm_list_def)

section \<open>Insertion and removal\<close>

text \<open>
  Cutting a normalized list at the two partition points of an operation gives the ranges
  strictly left of it, the ranges it touches and the ranges strictly right of it.
\<close>

lemma norm_list_cut:
  assumes "norm_list rs"
    and down_P: "\<And>x y. before x y \<Longrightarrow> r_start x < r_end x \<Longrightarrow> r_start y < r_end y \<Longrightarrow> P y \<Longrightarrow> P x"
    and down_Q: "\<And>x y. before x y \<Longrightarrow> r_start x < r_end x \<Longrightarrow> r_start y < r_end y \<Longrightarrow> Q y \<Longrightarrow> Q x"
    and PQ: "\<And>x. r_start x < r_end x \<Longrightarrow> P x \<Longrightarrow> Q x"
  obtains L M R where "rs = L @ M @ R"
    and "partition_point P rs = length L" and "partition_point Q rs = length L + length M"
    and "\<forall>x\<in>set L. P x" and "\<forall>x\<in>set M. \<not> P x \<and> Q x" and "\<forall>x\<in>set R. \<not> Q x"
proof -
  let ?ne = "\<lambda>x :: byte_range. r_start x < r_end x"
  have ne: "\<forall>x\<in>set rs. ?ne x" and srt: "sorted_wrt before rs"
    using assms(1) by (auto simp: norm_list_def)
  have srt': "sorted_wrt (\<lambda>x y. before x y \<and> ?ne x \<and> ?ne y) rs"
    by (rule sorted_wrt_mono_rel [OF _ srt]) (use ne in auto)
  define L where "L = takeWhile P rs"
  define D where "D = dropWhile P rs"
  define M where "M = takeWhile Q D"
  define R where "R = dropWhile Q D"
  have split: "rs = L @ D" "D = M @ R" by (simp_all add: L_def D_def M_def R_def)
  have LP: "\<forall>x\<in>set L. P x" by (auto simp: L_def dest: set_takeWhileD)
  have nP: "\<not> P x" if "x \<in> set D" for x
    using dropWhile_partitioned [OF srt', of P x] down_P that by (auto simp: D_def)
  have LQ: "\<forall>x\<in>set L. Q x" using LP PQ ne by (auto simp: L_def dest: set_takeWhileD)
  have srtD: "sorted_wrt (\<lambda>x y. before x y \<and> ?ne x \<and> ?ne y) D"
    using srt' unfolding D_def by (simp add: sorted_wrt_dropWhile)
  have nQ: "\<not> Q x" if "x \<in> set R" for x
    using dropWhile_partitioned [OF srtD, of Q x] down_Q that by (auto simp: R_def)
  have "takeWhile Q rs = L @ M"
    unfolding M_def using LQ by (subst split(1)) (rule takeWhile_append_all, blast)
  then have hi: "partition_point Q rs = length L + length M" by (simp add: partition_point_def)
  have lo: "partition_point P rs = length L" by (simp add: partition_point_def L_def)
  have MQ: "\<forall>x\<in>set M. \<not> P x \<and> Q x"
  proof
    fix x assume "x \<in> set M"
    then show "\<not> P x \<and> Q x" using nP by (auto simp: M_def dest: set_takeWhileD)
  qed
  have "rs = L @ M @ R" using split by (simp only:)
  then show thesis
    by (rule that [OF _ lo hi LP MQ]) (use nQ in blast)
qed

lemma splice_cut [simp]:
  "splice (length L) (length L + length M) ys (L @ M @ R) = L @ ys @ R"
  "slice (length L) (length L + length M) (L @ M @ R) = M"
  "splice (length L) (length L) ys (L @ R) = L @ ys @ R"
  by (simp_all add: splice_def slice_def)

lemma nth_cut:
  "M \<noteq> [] \<Longrightarrow> (L @ M @ R) ! length L = hd M"
  "M \<noteq> [] \<Longrightarrow> (L @ M @ R) ! (length L + length M - Suc 0) = last M"
proof -
  show "(L @ M @ R) ! length L = hd M" if "M \<noteq> []"
    using that by (cases M) auto
  show "(L @ M @ R) ! (length L + length M - Suc 0) = last M" if "M \<noteq> []"
    using that by (cases M rule: rev_cases) (auto simp: nth_append)
qed

text \<open>The effect of \<open>rs_insert\<close>, with the index arithmetic discharged.\<close>

lemma rs_insert_cut:
  assumes "norm_list (ranges s)" and "\<not> br_is_empty r"
  obtains L M R where "ranges s = L @ M @ R"
    and "\<forall>x\<in>set L. r_end x < r_start r"
    and "\<forall>x\<in>set M. r_start r \<le> r_end x \<and> r_start x \<le> r_end r"
    and "\<forall>x\<in>set R. r_end r < r_start x"
    and "rs_insert s r = (if M = [] then \<lparr>ranges = L @ [r] @ R, covered = covered s + br_len r\<rparr>
           else let m = ByteRange_new (min (r_start r) (r_start (hd M))) (max (r_end r) (r_end (last M)))
                in \<lparr>ranges = L @ [m] @ R, covered = covered s - sum_len M + br_len m\<rparr>)"
proof -
  have lt: "r_start r < r_end r" using assms(2) by (simp add: br_is_empty_def)
  obtain L M R where cut: "ranges s = L @ M @ R"
    and lo: "partition_point (\<lambda>x. r_end x < r_start r) (ranges s) = length L"
    and hi: "partition_point (\<lambda>x. r_start x \<le> r_end r) (ranges s) = length L + length M"
    and L: "\<forall>x\<in>set L. r_end x < r_start r"
    and M: "\<forall>x\<in>set M. \<not> r_end x < r_start r \<and> r_start x \<le> r_end r"
    and R: "\<forall>x\<in>set R. \<not> r_start x \<le> r_end r"
    by (rule norm_list_cut [OF assms(1), of "\<lambda>x. r_end x < r_start r" "\<lambda>x. r_start x \<le> r_end r"])
      (use lt in auto)
  have "rs_insert s r = (if M = [] then \<lparr>ranges = L @ [r] @ R, covered = covered s + br_len r\<rparr>
           else let m = ByteRange_new (min (r_start r) (r_start (hd M))) (max (r_end r) (r_end (last M)))
                in \<lparr>ranges = L @ [m] @ R, covered = covered s - sum_len M + br_len m\<rparr>)"
    using assms(2) unfolding rs_insert_def lo hi Let_def
    by (cases "M = []") (simp_all add: cut nth_cut)
  with that [OF cut L _ _] M R show thesis by (auto simp: not_less not_le)
qed

lemma norm_list_hd_last:
  assumes "norm_list M" and "x \<in> set M"
  shows "r_start (hd M) \<le> r_start x" and "r_end x \<le> r_end (last M)"
proof -
  from assms obtain A B where M: "M = A @ x # B" by (auto simp: in_set_conv_decomp)
  show "r_start (hd M) \<le> r_start x"
    using assms(1) unfolding M by (cases A) (auto simp: norm_list_simps)
  show "r_end x \<le> r_end (last M)"
    using assms(1) unfolding M by (cases B rule: rev_cases) (auto simp: norm_list_simps)
qed

lemma norm_list_replace:
  assumes "norm_list (L @ M @ R)" and "r_start m < r_end m"
    and "\<forall>x\<in>set L. r_end x < r_start m" and "\<forall>x\<in>set R. r_end m < r_start x"
  shows "norm_list (L @ [m] @ R)"
  using assms by (auto simp: norm_list_simps)

lemma br_set_merged:
  assumes nM: "norm_list M" and ne: "M \<noteq> []"
    and M: "\<forall>x\<in>set M. r_start r \<le> r_end x \<and> r_start x \<le> r_end r"
  shows "br_set (ByteRange_new (min (r_start r) (r_start (hd M))) (max (r_end r) (r_end (last M))))
           = br_set r \<union> list_set M" (is "br_set ?m = _")
proof
  have hdM: "hd M \<in> set M" "last M \<in> set M" using ne by auto
  show "br_set ?m \<subseteq> br_set r \<union> list_set M"
  proof
    fix x assume x: "x \<in> br_set ?m"
    consider "x < r_start r" | "r_start r \<le> x \<and> x < r_end r" | "r_end r \<le> x" by force
    then show "x \<in> br_set r \<union> list_set M"
    proof cases
      case 1
      then have "x \<in> br_set (hd M)" using x M hdM(1) by (auto simp: br_set_def min_le_iff_disj)
      then show ?thesis using hdM by (auto simp: list_set_def)
    next
      case 3
      then have "x \<in> br_set (last M)" using x M hdM(2)
        by (auto simp: br_set_def less_max_iff_disj)
      then show ?thesis using hdM by (auto simp: list_set_def)
    qed (auto simp: br_set_def)
  qed
  show "br_set r \<union> list_set M \<subseteq> br_set ?m"
    using norm_list_hd_last [OF nM]
    by (fastforce simp: br_set_def list_set_def min_le_iff_disj less_max_iff_disj)
qed

lemma rs_insert_correct:
  assumes "normalized s"
  shows "normalized (rs_insert s r)" and "rs_set (rs_insert s r) = rs_set s \<union> br_set r"
proof -
  have "normalized (rs_insert s r) \<and> rs_set (rs_insert s r) = rs_set s \<union> br_set r"
  proof (cases "br_is_empty r")
    case True
    then show ?thesis using assms by (simp add: rs_insert_def br_is_empty_iff)
  next
    case False
    have norm: "norm_list (ranges s)" and cov: "covered s = sum_len (ranges s)"
      using assms by (simp_all add: normalized_def)
    have lt: "r_start r < r_end r" using False by (simp add: br_is_empty_def)
    obtain L M R where cut: "ranges s = L @ M @ R"
      and L: "\<forall>x\<in>set L. r_end x < r_start r"
      and M: "\<forall>x\<in>set M. r_start r \<le> r_end x \<and> r_start x \<le> r_end r"
      and R: "\<forall>x\<in>set R. r_end r < r_start x"
      and ins: "rs_insert s r = (if M = [] then \<lparr>ranges = L @ [r] @ R, covered = covered s + br_len r\<rparr>
           else let m = ByteRange_new (min (r_start r) (r_start (hd M))) (max (r_end r) (r_end (last M)))
                in \<lparr>ranges = L @ [m] @ R, covered = covered s - sum_len M + br_len m\<rparr>)"
      by (rule rs_insert_cut [OF norm False])
    show ?thesis
    proof (cases "M = []")
      case True
      have "norm_list (L @ [r] @ R)"
        using norm_list_replace [of L "[]" R r] norm lt L R True by (simp add: cut)
      then show ?thesis using True
        by (auto simp: ins normalized_def rs_set_def cut cov algebra_simps)
    next
      case ne: False
      define m where "m = ByteRange_new (min (r_start r) (r_start (hd M))) (max (r_end r) (r_end (last M)))"
      have nM: "norm_list M" using norm by (simp add: cut norm_list_simps)
      have hdM: "hd M \<in> set M" "last M \<in> set M" using ne by auto
      have "norm_list (L @ [m] @ R)"
      proof (rule norm_list_replace [OF norm [unfolded cut]])
        show "r_start m < r_end m" using lt by (auto simp: m_def min_less_iff_disj less_max_iff_disj)
        show "\<forall>x\<in>set L. r_end x < r_start m"
          using L norm hdM(1) by (auto simp: m_def cut norm_list_simps)
        show "\<forall>x\<in>set R. r_end m < r_start x"
          using R norm hdM(2) by (auto simp: m_def cut norm_list_simps)
      qed
      moreover have "br_set m = br_set r \<union> list_set M"
        unfolding m_def by (rule br_set_merged [OF nM ne M])
      ultimately show ?thesis using ne
        by (auto simp: ins Let_def m_def [symmetric] normalized_def rs_set_def cut cov algebra_simps)
    qed
  qed
  then show "normalized (rs_insert s r)" "rs_set (rs_insert s r) = rs_set s \<union> br_set r" by auto
qed

text \<open>Removal: the pieces that stay of the touched ranges \<open>M\<close>.\<close>

definition remnants :: "byte_range list \<Rightarrow> byte_range \<Rightarrow> byte_range list" where
  "remnants M r =
     (if r_start (hd M) < r_start r then [ByteRange_new (r_start (hd M)) (r_start r)] else []) @
     (if r_end (last M) > r_end r then [ByteRange_new (r_end r) (r_end (last M))] else [])"

lemma rs_remove_cut:
  assumes "norm_list (ranges s)" and "\<not> br_is_empty r"
  obtains L M R where "ranges s = L @ M @ R"
    and "\<forall>x\<in>set L. r_end x \<le> r_start r"
    and "\<forall>x\<in>set M. r_start r < r_end x \<and> r_start x < r_end r"
    and "\<forall>x\<in>set R. r_end r \<le> r_start x"
    and "rs_remove s r = (if M = [] then s
           else \<lparr>ranges = L @ remnants M r @ R,
                 covered = covered s - sum_len M + sum_len (remnants M r)\<rparr>)"
proof -
  have lt: "r_start r < r_end r" using assms(2) by (simp add: br_is_empty_def)
  obtain L M R where cut: "ranges s = L @ M @ R"
    and lo: "partition_point (\<lambda>x. r_end x \<le> r_start r) (ranges s) = length L"
    and hi: "partition_point (\<lambda>x. r_start x < r_end r) (ranges s) = length L + length M"
    and L: "\<forall>x\<in>set L. r_end x \<le> r_start r"
    and M: "\<forall>x\<in>set M. \<not> r_end x \<le> r_start r \<and> r_start x < r_end r"
    and R: "\<forall>x\<in>set R. \<not> r_start x < r_end r"
    by (rule norm_list_cut [OF assms(1), of "\<lambda>x. r_end x \<le> r_start r" "\<lambda>x. r_start x < r_end r"])
      (use lt in auto)
  have "rs_remove s r = (if M = [] then s
           else \<lparr>ranges = L @ remnants M r @ R,
                 covered = covered s - sum_len M + sum_len (remnants M r)\<rparr>)"
    using assms(2) unfolding rs_remove_def lo hi Let_def
    by (cases "M = []") (simp_all add: cut nth_cut remnants_def)
  with that [OF cut L _ _] M R show thesis by (auto simp: not_less not_le)
qed

lemma remnants_correct:
  assumes nM: "norm_list M" and ne: "M \<noteq> []" and lt: "r_start r < r_end r"
    and M: "\<forall>x\<in>set M. r_start r < r_end x \<and> r_start x < r_end r"
  shows "norm_list (remnants M r)" and "list_set (remnants M r) = list_set M - br_set r"
    and "\<forall>x\<in>set (remnants M r). r_start (hd M) \<le> r_start x \<and> r_end x \<le> r_end (last M)"
proof -
  have hdM: "hd M \<in> set M" "last M \<in> set M" using ne by auto
  show "norm_list (remnants M r)"
    using lt by (auto simp: remnants_def norm_list_simps)
  show "\<forall>x\<in>set (remnants M r). r_start (hd M) \<le> r_start x \<and> r_end x \<le> r_end (last M)"
    using M hdM by (fastforce simp: remnants_def)
  have first: "m = hd M" if "m \<in> set M" "r_start m < r_start r" for m
  proof (rule ccontr)
    assume "m \<noteq> hd M"
    then have "r_end (hd M) < r_start m"
      using nM that(1) by (cases M) (auto simp: norm_list_simps)
    then show False using that(2) M hdM(1) by fastforce
  qed
  have lst: "m = last M" if "m \<in> set M" "r_end r < r_end m" for m
  proof (rule ccontr)
    assume "m \<noteq> last M"
    then have "r_end m < r_start (last M)"
      using nM that(1) by (cases M rule: rev_cases) (auto simp: norm_list_simps)
    then show False using that(2) M hdM(2) by fastforce
  qed
  show "list_set (remnants M r) = list_set M - br_set r"
  proof
    have "{r_start (hd M)..<r_start r} \<subseteq> br_set (hd M) - br_set r"
      "{r_end r..<r_end (last M)} \<subseteq> br_set (last M) - br_set r"
      using M hdM by (fastforce simp: br_set_def)+
    moreover have "br_set (hd M) \<subseteq> list_set M" "br_set (last M) \<subseteq> list_set M"
      using hdM by (auto simp: list_set_def)
    ultimately show "list_set (remnants M r) \<subseteq> list_set M - br_set r"
      by (auto simp: remnants_def)
    show "list_set M - br_set r \<subseteq> list_set (remnants M r)"
    proof
      fix x assume "x \<in> list_set M - br_set r"
      then obtain m where m: "m \<in> set M" "r_start m \<le> x" "x < r_end m" "x < r_start r \<or> r_end r \<le> x"
        by (force simp: list_set_def br_set_def)
      then consider "x < r_start r" "m = hd M" | "r_end r \<le> x" "m = last M"
        using first [of m] lst [of m] by fastforce
      then show "x \<in> list_set (remnants M r)"
        using m by cases (auto simp: remnants_def)
    qed
  qed
qed

lemma rs_remove_correct:
  assumes "normalized s"
  shows "normalized (rs_remove s r)" and "rs_set (rs_remove s r) = rs_set s - br_set r"
proof -
  have "normalized (rs_remove s r) \<and> rs_set (rs_remove s r) = rs_set s - br_set r"
  proof (cases "br_is_empty r")
    case True
    then show ?thesis using assms by (simp add: rs_remove_def br_is_empty_iff)
  next
    case False
    have norm: "norm_list (ranges s)" and cov: "covered s = sum_len (ranges s)"
      using assms by (simp_all add: normalized_def)
    have lt: "r_start r < r_end r" using False by (simp add: br_is_empty_def)
    obtain L M R where cut: "ranges s = L @ M @ R"
      and L: "\<forall>x\<in>set L. r_end x \<le> r_start r"
      and M: "\<forall>x\<in>set M. r_start r < r_end x \<and> r_start x < r_end r"
      and R: "\<forall>x\<in>set R. r_end r \<le> r_start x"
      and rem: "rs_remove s r = (if M = [] then s
             else \<lparr>ranges = L @ remnants M r @ R,
                   covered = covered s - sum_len M + sum_len (remnants M r)\<rparr>)"
      by (rule rs_remove_cut [OF norm False])
    have LR: "list_set L \<inter> br_set r = {}" "list_set R \<inter> br_set r = {}"
      using L R by (fastforce simp: list_set_def br_set_def)+
    show ?thesis
    proof (cases "M = []")
      case True
      then show ?thesis using assms LR by (auto simp: rem rs_set_def cut)
    next
      case ne: False
      have nM: "norm_list M" using norm by (simp add: cut norm_list_simps)
      note rest = remnants_correct [OF nM ne lt M]
      have "before x (hd M)" if "x \<in> set L" for x
        using norm ne that by (auto simp: cut norm_list_simps)
      moreover have "before (last M) x" if "x \<in> set R" for x
        using norm ne that by (auto simp: cut norm_list_simps)
      moreover have "before x q" if "x \<in> set L" "q \<in> set R" for x q
        using norm that by (auto simp: cut norm_list_simps)
      ultimately have "norm_list (L @ remnants M r @ R)"
        using rest(1,3) norm unfolding cut norm_list_simps
        by (auto intro: order.strict_trans2 order.strict_trans1)
      then show ?thesis using ne rest(2) LR
        by (auto simp: rem normalized_def rs_set_def cut cov algebra_simps)
    qed
  qed
  then show "normalized (rs_remove s r)" "rs_set (rs_remove s r) = rs_set s - br_set r" by auto
qed

section \<open>Queries\<close>

text \<open>Every query starts at the first range that ends behind an offset.\<close>

lemma dropWhile_from:
  assumes "norm_list rs" and "D = dropWhile (\<lambda>x. r_end x \<le> a) rs"
  shows "norm_list D" and "\<forall>x\<in>set D. a < r_end x" and "list_set rs \<inter> {a..} = list_set D \<inter> {a..}"
    and "set D \<subseteq> set rs"
proof -
  have split: "rs = takeWhile (\<lambda>x. r_end x \<le> a) rs @ D" by (simp add: assms(2))
  show "norm_list D" using assms(1) by (subst (asm) split) (simp add: norm_list_simps)
  have "sorted_wrt (\<lambda>x y. before x y \<and> r_start y < r_end y) rs"
    by (rule sorted_wrt_mono_rel [of _ before]) (use assms(1) in \<open>auto simp: norm_list_def\<close>)
  then have "\<not> r_end x \<le> a" if "x \<in> set D" for x
    by (rule dropWhile_partitioned) (use that assms(2) in auto)
  then show "\<forall>x\<in>set D. a < r_end x" by (auto simp: not_le)
  have "list_set (takeWhile (\<lambda>x. r_end x \<le> a) rs) \<inter> {a..} = {}"
    by (fastforce simp: list_set_def br_set_def dest: set_takeWhileD)
  then show "list_set rs \<inter> {a..} = list_set D \<inter> {a..}"
    by (subst split) auto
  show "set D \<subseteq> set rs" by (auto simp: assms(2) dest: set_dropWhileD)
qed

lemma rs_contains_correct: "normalized s \<Longrightarrow> rs_contains s off \<longleftrightarrow> off \<in> rs_set s"
proof -
  assume "normalized s"
  then have norm: "norm_list (ranges s)" by (simp add: normalized_def)
  define D where "D = dropWhile (\<lambda>x. r_end x \<le> off) (ranges s)"
  note D = dropWhile_from [OF norm D_def]
  have "off \<in> rs_set s \<longleftrightarrow> off \<in> list_set D" using D(3) by (auto simp: rs_set_def)
  also have "\<dots> \<longleftrightarrow> rs_contains s off"
    using D(1,2) by (cases D)
      (fastforce simp: rs_contains_def nth_opt_partition_point D_def [symmetric] Let_def
        br_contains_iff norm_list_simps list_set_def br_set_def)+
  finally show ?thesis by simp
qed

lemma contains_range_correct: "normalized s \<Longrightarrow> contains_range s r \<longleftrightarrow> br_set r \<subseteq> rs_set s"
proof (cases "br_is_empty r")
  case True
  then show ?thesis by (simp add: contains_range_def br_is_empty_iff)
next
  case ne: False
  assume "normalized s"
  then have norm: "norm_list (ranges s)" by (simp add: normalized_def)
  have lt: "r_start r < r_end r" using ne by (simp add: br_is_empty_def)
  define D where "D = dropWhile (\<lambda>x. r_end x \<le> r_start r) (ranges s)"
  note D = dropWhile_from [OF norm D_def]
  have set_eq: "br_set r \<subseteq> rs_set s \<longleftrightarrow> br_set r \<subseteq> list_set D"
    using D(3) by (fastforce simp: rs_set_def br_set_def)
  show ?thesis
  proof (cases D)
    case Nil
    then show ?thesis
      using ne by (simp add: contains_range_def nth_opt_partition_point D_def [symmetric] set_eq
          br_is_empty_iff)
  next
    case (Cons y ys)
    have y: "r_start r < r_end y" and ys: "\<forall>q\<in>set ys. before y q" using D(1,2) Cons
      by (auto simp: norm_list_simps)
    have "br_set r \<subseteq> list_set D \<longleftrightarrow> r_start y \<le> r_start r \<and> r_end r \<le> r_end y"
    proof
      assume sub: "br_set r \<subseteq> list_set D"
      have "r_start r \<in> list_set D" using sub lt by (auto simp: br_set_def)
      then have s: "r_start y \<le> r_start r" using ys y Cons by (fastforce simp: list_set_def br_set_def)
      have "r_end y \<notin> list_set D" using ys Cons by (fastforce simp: list_set_def br_set_def)
      then have "r_end y \<notin> br_set r" using sub by blast
      then have "r_end r \<le> r_end y" using y by (auto simp: br_set_def)
      with s show "r_start y \<le> r_start r \<and> r_end r \<le> r_end y" by simp
    qed (auto simp: Cons br_set_def)
    then show ?thesis using ne
      by (simp add: contains_range_def nth_opt_partition_point D_def [symmetric] Cons set_eq)
  qed
qed

text \<open>The first gap: nothing is missing before it, nothing of it is covered, and it ends where
  coverage resumes or at the limit.\<close>

definition is_first_gap :: "u64 set \<Rightarrow> u64 \<Rightarrow> u64 \<Rightarrow> byte_range option \<Rightarrow> bool" where
  "is_first_gap S from limit g =
     (case g of
        None \<Rightarrow> {from..<limit} \<subseteq> S
      | Some g \<Rightarrow> from \<le> r_start g \<and> r_start g < r_end g \<and> r_end g \<le> limit \<and>
          {from..<r_start g} \<subseteq> S \<and> br_set g \<inter> S = {} \<and> (r_end g = limit \<or> r_end g \<in> S))"

lemma first_gap_correct:
  assumes "normalized s"
  shows "is_first_gap (rs_set s) from limit (first_gap s from limit)"
proof (cases "limit \<le> from")
  case True
  then show ?thesis by (simp add: first_gap_def is_first_gap_def)
next
  case lt: False
  have norm: "norm_list (ranges s)" using assms by (simp add: normalized_def)
  define D where "D = dropWhile (\<lambda>x. r_end x \<le> from) (ranges s)"
  note D = dropWhile_from [OF norm D_def]
  have in_D: "x \<in> rs_set s \<longleftrightarrow> x \<in> list_set D" if "from \<le> x" for x
    using D(3) that by (auto simp: rs_set_def)
  note unfold = first_gap_def nth_opt_partition_point D_def [symmetric] is_first_gap_def
  show ?thesis
  proof (cases D)
    case Nil
    then show ?thesis using lt in_D by (auto simp: unfold not_le)
  next
    case (Cons y ys)
    have y: "from < r_end y" and ys: "\<forall>q\<in>set ys. before y q" and ney: "r_start y < r_end y"
      and nys: "norm_list ys"
      using D(1,2) Cons by (auto simp: norm_list_simps)
    have above: "x \<notin> list_set ys" if "x \<le> r_end y" for x
      using ys that by (fastforce simp: list_set_def br_set_def)
    have in_y: "x \<in> rs_set s \<longleftrightarrow> r_start y \<le> x \<and> x < r_end y \<or> x \<in> list_set ys" if "from \<le> x" for x
      using in_D [OF that] Cons by (auto simp: br_set_def)
    consider "from < r_start y" | "r_start y \<le> from" "limit \<le> r_end y"
      | "r_start y \<le> from" "r_end y < limit" by force
    then show ?thesis
    proof cases
      case 1
      have "x \<notin> rs_set s" if "from \<le> x" "x < r_start y" for x
        using in_y [of x] above [of x] that ney by auto
      moreover have "r_start y \<in> rs_set s" using in_y [of "r_start y"] 1 ney by simp
      ultimately show ?thesis using 1 lt
        by (auto simp: unfold Cons not_le min_def)
    next
      case 2
      then show ?thesis using lt y in_y by (auto simp: unfold Cons not_le)
    next
      case 3
      have next_gap: "x \<notin> rs_set s" if "r_end y \<le> x" "\<forall>q\<in>set ys. x < r_start q" for x
        using in_y [of x] y that by (fastforce simp: list_set_def br_set_def)
      show ?thesis
      proof (cases ys)
        case Nil
        then show ?thesis using 3 lt y in_y next_gap
          by (auto simp: unfold Cons not_le) (blast dest: leD)
      next
        case ys_Cons: (Cons q qs)
        have q: "r_end y < r_start q" "r_start q < r_end q" "\<forall>z\<in>set qs. before q z"
          using ys nys ys_Cons by (auto simp: norm_list_simps)
        have "r_start q \<in> rs_set s" using in_y [of "r_start q"] q y ys_Cons by (simp add: br_set_def)
        moreover have "x \<notin> rs_set s" if "r_end y \<le> x" "x < r_start q" for x
          using next_gap [OF that(1)] that q ys_Cons by fastforce
        ultimately show ?thesis using 3 lt y in_y q
          by (auto simp: unfold Cons ys_Cons not_le min_def)
      qed
    qed
  qed
qed

text \<open>The gap list is the complement, in order.\<close>

lemma gaps_loop_correct:
  assumes "norm_list rs" and "\<forall>r\<in>set rs. cur < r_start r \<or> cur = 0"
  shows "list_set (gaps_loop rs cur limit) = {cur..<limit} - list_set rs"
    and "norm_list (gaps_loop rs cur limit)"
    and "\<forall>g\<in>set (gaps_loop rs cur limit). cur \<le> r_start g \<and> r_end g \<le> limit"
proof -
  have "list_set (gaps_loop rs cur limit) = {cur..<limit} - list_set rs \<and>
    norm_list (gaps_loop rs cur limit) \<and>
    (\<forall>g\<in>set (gaps_loop rs cur limit). cur \<le> r_start g \<and> r_end g \<le> limit)"
    using assms
  proof (induction rs cur limit rule: gaps_loop.induct)
    case (1 cur limit)
    then show ?case by (simp add: norm_list_simps)
  next
    case (2 r rs cur limit)
    have r: "r_start r < r_end r" and rs: "\<forall>q\<in>set rs. before r q" and n: "norm_list rs"
      using "2.prems"(1) by (auto simp: norm_list_simps)
    show ?case
    proof (cases "limit \<le> r_start r")
      case True
      then have "{cur..<limit} - list_set (r # rs) = {cur..<limit}"
        using r rs by (fastforce simp: list_set_def br_set_def)
      with True show ?thesis by (simp add: norm_list_simps)
    next
      case False
      have cur: "cur \<le> r_start r" using "2.prems"(2) by fastforce
      then have mx: "max cur (r_end r) = r_end r" using r by (intro max_absorb2) order
      have "\<forall>q\<in>set rs. max cur (r_end r) < r_start q \<or> max cur (r_end r) = 0"
        using rs by (simp add: mx)
      note IH = "2.IH" [OF False n this, unfolded mx]
      have below: "x \<notin> list_set rs" if "x < r_end r" for x
        using rs that by (fastforce simp: list_set_def br_set_def)
      have "list_set (gaps_loop (r # rs) cur limit) = {cur..<r_start r} \<union> ({r_end r..<limit} - list_set rs)"
        using False cur IH by (auto simp: mx min_def not_le)
      also have "\<dots> = {cur..<limit} - list_set (r # rs)"
        using False cur r below by (force simp: br_set_def not_le)
      finally have sets: "list_set (gaps_loop (r # rs) cur limit) = {cur..<limit} - list_set (r # rs)" .
      have "norm_list (gaps_loop (r # rs) cur limit)"
        using IH False r by (auto simp: mx norm_list_simps min_def not_le)
      moreover have "\<forall>g\<in>set (gaps_loop (r # rs) cur limit). cur \<le> r_start g \<and> r_end g \<le> limit"
        using IH False cur r by (auto simp: mx intro: order.trans)
      ultimately show ?thesis using sets by blast
    qed
  qed
  then show "list_set (gaps_loop rs cur limit) = {cur..<limit} - list_set rs"
    and "norm_list (gaps_loop rs cur limit)"
    and "\<forall>g\<in>set (gaps_loop rs cur limit). cur \<le> r_start g \<and> r_end g \<le> limit"
    by blast+
qed

lemma gaps_correct:
  assumes "normalized s"
  shows "list_set (gaps s limit) = {0..<limit} - rs_set s" and "norm_list (gaps s limit)"
    and "\<forall>g\<in>set (gaps s limit). r_end g \<le> limit"
  using gaps_loop_correct [of "ranges s" 0 limit] assms
  by (simp_all add: gaps_def rs_set_def normalized_def)

text \<open>The counter: it is the number of covered bytes, which always fits 64 bits.\<close>

lemma rs_set_finite [simp]: "finite (rs_set s)"
  by simp

lemma card_list_set:
  "norm_list rs \<Longrightarrow> card (list_set rs) = (\<Sum>r\<leftarrow>rs. unat (br_len r))"
proof (induction rs)
  case (Cons r rs)
  have "br_set r \<inter> list_set rs = {}"
    using Cons.prems by (fastforce simp: norm_list_simps list_set_def br_set_def)
  moreover have "card (br_set r) = unat (br_len r)"
    by (rule card_br_set) (use Cons.prems in \<open>simp add: norm_list_simps less_imp_le\<close>)
  ultimately show ?case using Cons by (simp add: card_Un_disjoint norm_list_simps)
qed simp

lemma card_list_set_bound: "card (list_set rs) < 2 ^ 64"
proof -
  have "list_set rs \<subseteq> {0..<u64_MAX}"
    by (fastforce simp: list_set_def br_set_def intro: order.strict_trans2 [OF _ word_n1_ge])
  then have "card (list_set rs) \<le> card {0..<u64_MAX}" by (intro card_mono) auto
  then show ?thesis by (simp add: word_atLeastLessThan_card)
qed

lemma covered_is_card: "normalized s \<Longrightarrow> unat (covered s) = card (rs_set s)"
proof -
  assume n: "normalized s"
  have "sum_len rs = of_nat (\<Sum>r\<leftarrow>rs. unat (br_len r))" for rs
    by (induction rs) simp_all
  then have "covered s = of_nat (card (rs_set s))"
    using n by (simp add: normalized_def rs_set_def card_list_set)
  then show ?thesis using card_list_set_bound [of "ranges s"]
    by (simp add: unat_of_nat rs_set_def)
qed

text \<open>A normalized set is determined by its bytes.\<close>

lemma norm_list_Cons_bounds:
  assumes "norm_list (x # xs)"
  shows "p \<in> list_set (x # xs) \<Longrightarrow> r_start x \<le> p" and "r_end x \<notin> list_set (x # xs)"
    and "r_start x \<le> p \<Longrightarrow> p < r_end x \<Longrightarrow> p \<in> list_set (x # xs)"
    and "list_set xs = list_set (x # xs) \<inter> {p. r_end x < p}"
  using assms by (fastforce simp: norm_list_simps list_set_def br_set_def)+

lemma norm_list_ext:
  "norm_list xs \<Longrightarrow> norm_list ys \<Longrightarrow> list_set xs = list_set ys \<Longrightarrow> xs = ys"
proof (induction xs arbitrary: ys)
  case Nil
  then show ?case by (cases ys) (auto simp: norm_list_simps br_set_def)
next
  case (Cons x xs)
  then obtain y zs where ys: "ys = y # zs"
    by (cases ys) (auto simp: norm_list_simps br_set_def)
  note nx = Cons.prems(1) and ny = Cons.prems(2) [unfolded ys] and eq = Cons.prems(3) [unfolded ys]
  have ne: "r_start x < r_end x" "r_start y < r_end y" using nx ny by (auto simp: norm_list_simps)
  have start: "r_start x = r_start y"
    using norm_list_Cons_bounds(1,3) [OF nx, of "r_start y"] norm_list_Cons_bounds(1,3) [OF ny, of "r_start x"]
      norm_list_Cons_bounds(3) [OF nx, of "r_start x"] norm_list_Cons_bounds(3) [OF ny, of "r_start y"]
      ne eq by (intro antisym) blast+
  moreover have "r_end x = r_end y"
  proof (rule antisym)
    show "r_end x \<le> r_end y"
      using norm_list_Cons_bounds(2) [OF ny] norm_list_Cons_bounds(3) [OF nx, of "r_end y"] ne start eq
      by (metis less_imp_le not_le)
    show "r_end y \<le> r_end x"
      using norm_list_Cons_bounds(2) [OF nx] norm_list_Cons_bounds(3) [OF ny, of "r_end x"] ne start eq
      by (metis less_imp_le not_le)
  qed
  ultimately have xy: "x = y" by simp
  have "list_set xs = list_set zs"
    using norm_list_Cons_bounds(4) [OF nx] norm_list_Cons_bounds(4) [OF ny] eq xy by simp
  with Cons xy show ?case by (auto simp: ys norm_list_simps)
qed

lemma normalized_ext:
  "normalized s \<Longrightarrow> normalized t \<Longrightarrow> rs_set s = rs_set t \<Longrightarrow> s = t"
  by (rule range_set.equality) (auto simp: normalized_def rs_set_def dest: norm_list_ext)

section \<open>The interface the clients rely on\<close>

text \<open>
  The segment plan, the journal and the assignments use a range set only through these laws:
  what insertion and removal do to the set of bytes, that both keep the invariant, and that
  the representation is canonical. The loops of the clients (insert every committed range,
  remove every gap) are folds, and their effect is proved once here.
\<close>

locale byte_set =
  fixes empty :: "'s" and ins :: "'s \<Rightarrow> byte_range \<Rightarrow> 's" and del :: "'s \<Rightarrow> byte_range \<Rightarrow> 's"
    and invar :: "'s \<Rightarrow> bool" and bytes :: "'s \<Rightarrow> u64 set"
  assumes invar_empty: "invar empty" and bytes_empty: "bytes empty = {}"
    and invar_ins: "invar s \<Longrightarrow> invar (ins s r)"
    and bytes_ins: "invar s \<Longrightarrow> bytes (ins s r) = bytes s \<union> br_set r"
    and invar_del: "invar s \<Longrightarrow> invar (del s r)"
    and bytes_del: "invar s \<Longrightarrow> bytes (del s r) = bytes s - br_set r"
begin

lemma foldl_ins:
  "invar s \<Longrightarrow> invar (foldl ins s rs)"
  "invar s \<Longrightarrow> bytes (foldl ins s rs) = bytes s \<union> list_set rs"
  by (induction rs arbitrary: s) (auto simp: invar_ins bytes_ins)

lemma foldl_del:
  "invar s \<Longrightarrow> invar (foldl del s rs)"
  "invar s \<Longrightarrow> bytes (foldl del s rs) = bytes s - list_set rs"
  by (induction rs arbitrary: s) (auto simp: invar_del bytes_del)

lemmas bytes_laws = invar_empty bytes_empty invar_ins bytes_ins invar_del bytes_del foldl_ins foldl_del

end

locale canonical_byte_set = byte_set +
  assumes ext: "invar s \<Longrightarrow> invar t \<Longrightarrow> bytes s = bytes t \<Longrightarrow> s = t"
begin

lemma ins_absorb: "invar s \<Longrightarrow> br_set r \<subseteq> bytes s \<Longrightarrow> ins s r = s"
  by (rule ext) (auto simp: bytes_laws)

lemma foldl_ins_cong:
  "invar s \<Longrightarrow> list_set rs = list_set qs \<Longrightarrow> foldl ins s rs = foldl ins s qs"
  by (rule ext) (auto simp: bytes_laws)

lemma del_disjoint: "invar s \<Longrightarrow> br_set r \<inter> bytes s = {} \<Longrightarrow> del s r = s"
  by (rule ext) (auto simp: bytes_laws)

end

lemma normalized_new: "normalized rs_new" and rs_set_new: "rs_set rs_new = {}"
  by (simp_all add: rs_new_def normalized_def rs_set_def norm_list_simps)

interpretation rs: canonical_byte_set rs_new rs_insert rs_remove normalized rs_set
  by unfold_locales
    (auto simp: normalized_new rs_set_new rs_insert_correct rs_remove_correct intro: normalized_ext)

lemmas rs_laws = rs.bytes_laws
declare rs_laws [simp]

lemma from_ranges_correct [simp]:
  "normalized (from_ranges rs)" "rs_set (from_ranges rs) = list_set rs"
  by (simp_all add: from_ranges_def rs_laws)

lemma union_with_correct [simp]:
  "normalized s \<Longrightarrow> normalized (union_with s t)"
  "normalized s \<Longrightarrow> rs_set (union_with s t) = rs_set s \<union> rs_set t"
  by (simp_all add: union_with_def rs_laws rs_set_def [of t])

lemma rs_is_complete_correct:
  assumes "normalized s" and "rs_set s \<subseteq> {0..<tot}"
  shows "rs_is_complete s tot \<longleftrightarrow> rs_set s = {0..<tot}"
proof -
  have norm: "norm_list (ranges s)" using assms(1) by (simp add: normalized_def)
  have "rs_is_complete s tot \<Longrightarrow> {0..<tot} \<subseteq> rs_set s"
    by (auto simp: rs_is_complete_def rs_set_def br_set_def split: list.splits)
  moreover have "rs_is_complete s tot" if eq: "rs_set s = {0..<tot}"
  proof (cases "tot = 0")
    case True
    then have "ranges s = []"
      using eq norm_list_ext [OF norm norm_list_simps(1)] by (simp add: rs_set_def)
    with True show ?thesis by (simp add: rs_is_complete_def)
  next
    case False
    then have "ranges s = [ByteRange_new 0 tot]"
      using eq norm by (intro norm_list_ext)
        (auto simp: rs_set_def norm_list_simps word_gt_0)
    then show ?thesis by (simp add: rs_is_complete_def)
  qed
  ultimately show ?thesis using assms(2) by blast
qed

lemma contiguous_prefix_correct:
  assumes "normalized s"
  shows "{0..<contiguous_prefix s} \<subseteq> rs_set s" and "contiguous_prefix s \<notin> rs_set s"
proof -
  have norm: "norm_list (ranges s)" using assms by (simp add: normalized_def)
  show "{0..<contiguous_prefix s} \<subseteq> rs_set s"
    by (auto simp: contiguous_prefix_def rs_set_def br_set_def split: list.splits if_splits)
  show "contiguous_prefix s \<notin> rs_set s"
  proof (cases "ranges s")
    case (Cons r rs)
    then show ?thesis
      using norm_list_Cons_bounds(1) [of r rs 0] norm_list_Cons_bounds(2) [of r rs] norm
      by (auto simp: contiguous_prefix_def rs_set_def)
  qed (simp add: contiguous_prefix_def rs_set_def)
qed

text \<open>The run-time check \<open>assert_normalized\<close> is exactly the invariant.\<close>

lemma assert_loop_iff:
  "assert_loop rs prev acc cov \<longleftrightarrow>
     norm_list rs \<and> (\<forall>p. prev = Some p \<longrightarrow> rs \<noteq> [] \<longrightarrow> before p (hd rs)) \<and> acc + sum_len rs = cov"
proof (induction rs arbitrary: prev acc)
  case (Cons r rs)
  have "norm_list (r # rs) \<longleftrightarrow>
      \<not> br_is_empty r \<and> norm_list rs \<and> (rs \<noteq> [] \<longrightarrow> before r (hd rs))"
    by (cases rs) (auto simp: norm_list_simps br_is_empty_def not_le)
  with Cons show ?case by (auto simp: add.assoc split: option.splits)
qed (simp add: norm_list_simps)

lemma assert_normalized_iff: "assert_normalized s \<longleftrightarrow> normalized s"
  by (simp add: assert_normalized_def normalized_def assert_loop_iff) auto

section \<open>Properties\<close>

text \<open>The abstract byte model of the unit tests: a set of offsets, filled and cleared.\<close>

datatype rs_op = Op_insert byte_range | Op_remove byte_range

fun apply_op :: "range_set \<Rightarrow> rs_op \<Rightarrow> range_set" where
  "apply_op s (Op_insert r) = rs_insert s r"
| "apply_op s (Op_remove r) = rs_remove s r"

fun model_op :: "u64 set \<Rightarrow> rs_op \<Rightarrow> u64 set" where
  "model_op S (Op_insert r) = S \<union> br_set r"
| "model_op S (Op_remove r) = S - br_set r"

lemma apply_ops_normalized: "normalized s \<Longrightarrow> normalized (foldl apply_op s ops)"
  and apply_ops_set: "normalized s \<Longrightarrow> rs_set (foldl apply_op s ops) = foldl model_op (rs_set s) ops"
proof (induction ops arbitrary: s)
  case (Cons x ops)
  { case 1 then show ?case using Cons.IH(1) by (cases x) simp_all }
  { case 2 then show ?case using Cons.IH(2) by (cases x) simp_all }
qed simp_all

text \<open>C30: For every sequence of insertions and removals that starts at the empty set, the sorted
  vector passes its own assertion, holds exactly the bytes of the byte model, its counter is the
  number of those bytes (without overflow), membership is answered from the model, and the list
  of gaps below any limit is the complement.\<close>

theorem range_set_matches_byte_model:
  "assert_normalized (foldl apply_op rs_new ops) \<and>
   rs_set (foldl apply_op rs_new ops) = foldl model_op {} ops \<and>
   unat (covered (foldl apply_op rs_new ops)) = card (foldl model_op {} ops) \<and>
   (\<forall>off. rs_contains (foldl apply_op rs_new ops) off = (off \<in> foldl model_op {} ops)) \<and>
   (\<forall>limit. list_set (gaps (foldl apply_op rs_new ops) limit) = {0..<limit} - foldl model_op {} ops)"
  using apply_ops_normalized [OF normalized_new, of ops] apply_ops_set [OF normalized_new, of ops]
  by (simp add: assert_normalized_iff covered_is_card rs_contains_correct gaps_correct)

text \<open>The set built from a list of ranges depends only on the bytes they cover: order,
  duplicates and overlaps of the input do not change the resulting vector or its counter.\<close>

theorem from_ranges_canonical:
  assumes "list_set xs = list_set ys"
  shows "from_ranges xs = from_ranges ys"
  unfolding from_ranges_def using normalized_new assms by (rule rs.foldl_ins_cong)

theorem from_ranges_canonical_witness:
  "from_ranges [ByteRange_new 0 4, ByteRange_new 2 8] =
   from_ranges [ByteRange_new 4 8, ByteRange_new 0 5, ByteRange_new 0 5]"
proof (rule from_ranges_canonical)
  show "list_set [ByteRange_new 0 4, ByteRange_new 2 8] =
    list_set [ByteRange_new 4 8, ByteRange_new 0 5, ByteRange_new 0 5]"
    by (auto simp: not_less word_le_nat_alt word_less_nat_alt)
qed

text \<open>\<open>first_gap\<close> returns the first uncovered span at or after \<open>from\<close>, bounded by \<open>limit\<close>:
  everything before it is covered, nothing in it is, and it ends at the limit or where coverage
  resumes; \<open>None\<close> means that the whole window is covered.\<close>

theorem first_gap_is_first:
  assumes "normalized s"
  shows "is_first_gap (rs_set s) from limit (first_gap s from limit)"
  using assms by (rule first_gap_correct)

theorem first_gap_is_first_witness:
  "is_first_gap (rs_set (from_ranges [ByteRange_new 0 4, ByteRange_new 6 9])) 2 20
     (first_gap (from_ranges [ByteRange_new 0 4, ByteRange_new 6 9]) 2 20) \<and>
   first_gap (from_ranges [ByteRange_new 0 4, ByteRange_new 6 9]) 2 20 = Some (ByteRange_new 4 6)"
  using first_gap_is_first [OF from_ranges_correct(1)] by (rule conjI) code_simp

text \<open>Against a total length that bounds the set, \<open>is_complete\<close> holds exactly when every byte
  below the total is present.\<close>

theorem is_complete_iff_all_bytes:
  assumes "normalized s" and "rs_set s \<subseteq> {0..<tot}"
  shows "rs_is_complete s tot \<longleftrightarrow> rs_set s = {0..<tot}"
  using assms by (rule rs_is_complete_correct)

theorem is_complete_iff_all_bytes_witness:
  "rs_is_complete (from_ranges [ByteRange_new 3 7, ByteRange_new 0 3]) 7 \<longleftrightarrow>
   rs_set (from_ranges [ByteRange_new 3 7, ByteRange_new 0 3]) = {0..<7}"
  by (rule is_complete_iff_all_bytes) auto

text \<open>The journalled form of a range set reads back as the same set, and whatever list of pairs
  a journal contains, reading it yields a normalized set with exactly the bytes of the
  well-formed pairs.\<close>

theorem range_set_serde:
  "normalized (rs_deserialize raw) \<and>
   rs_set (rs_deserialize raw) = (\<Union>(s, e)\<in>set raw. {s..<e}) \<and>
   (normalized t \<longrightarrow> rs_deserialize (rs_serialize t) = t)"
proof (intro conjI impI)
  show n: "normalized (rs_deserialize raw)" for raw by (simp add: rs_deserialize_def)
  show set: "rs_set (rs_deserialize raw) = (\<Union>(s, e)\<in>set raw. {s..<e})" for raw
    by (fastforce simp: rs_deserialize_def list_set_def)
  assume t: "normalized t"
  have "(\<Union>(s, e)\<in>set (rs_serialize t). {s..<e}) = rs_set t"
    by (auto simp: rs_serialize_def rs_set_def list_set_def br_set_def)
  then have "rs_set (rs_deserialize (rs_serialize t)) = rs_set t" by (simp only: set)
  then show "rs_deserialize (rs_serialize t) = t"
    using n t by (intro rs.ext)
qed

theorem range_set_serde_witness:
  "rs_deserialize (rs_serialize (from_ranges [ByteRange_new 5 9, ByteRange_new 0 2])) =
     from_ranges [ByteRange_new 5 9, ByteRange_new 0 2]"
  using range_set_serde [of "[]" "from_ranges [ByteRange_new 5 9, ByteRange_new 0 2]"] by simp

end
