(* ===== verification/Float64.thy ===== *)
theory Float64
  imports Prelude
begin

text \<open>
  The \<open>f64\<close> arithmetic the rate code uses, as IEEE 754 binary64 with round-to-nearest-even on
  rational values: a finite value is the rational it denotes, \<open>Inf True\<close> is minus infinity. The
  sign of zero is not represented: none of the modelled code divides by a zero or reads the
  sign bit. \<open>exp\<close> has no specified precision in Rust, so the definitions that call it take it
  as a parameter.
\<close>

datatype f64 = NaN | Inf bool | Fin rat

section \<open>Rounding\<close>

function bit_len :: "int \<Rightarrow> int" where
  "bit_len n = (if n \<le> 0 then 0 else 1 + bit_len (n div 2))"
  by pat_completeness auto
termination by (relation "measure nat") auto

declare bit_len.simps [simp del]

definition pow2 :: "int \<Rightarrow> rat" where
  "pow2 e = (if 0 \<le> e then 2 ^ nat e else 1 / 2 ^ nat (- e))"

text \<open>The exponent of a positive rational: the largest \<open>e\<close> with \<open>2 ^ e \<le> x\<close>.\<close>

definition ilog2 :: "rat \<Rightarrow> int" where
  "ilog2 x =
     (let (n, d) = quotient_of x; k = bit_len n - bit_len d
      in if pow2 k \<le> x then k else k - 1)"

definition round_half_even :: "rat \<Rightarrow> int" where
  "round_half_even x =
     (let f = \<lfloor>x\<rfloor>; d = x - of_int f
      in if d < 1 / 2 then f else if d > 1 / 2 then f + 1 else if even f then f else f + 1)"

text \<open>The spacing of representable numbers around \<open>a\<close>: 53 significant bits, subnormals below
  \<open>2 ^ -1022\<close>.\<close>

definition ulp :: "rat \<Rightarrow> rat" where
  "ulp a = pow2 (max (ilog2 a) (- 1022) - 52)"

definition f64_round :: "rat \<Rightarrow> f64" where
  "f64_round x =
     (if x = 0 then Fin 0
      else
        let m = of_int (round_half_even (\<bar>x\<bar> / ulp \<bar>x\<bar>)) * ulp \<bar>x\<bar>
        in if m \<ge> pow2 1024 then Inf (x < 0) else Fin (if x < 0 then - m else m))"

section \<open>Operations\<close>

fun f64_add :: "f64 \<Rightarrow> f64 \<Rightarrow> f64" where
  "f64_add (Fin a) (Fin b) = f64_round (a + b)"
| "f64_add (Inf s) (Inf t) = (if s = t then Inf s else NaN)"
| "f64_add (Inf s) (Fin _) = Inf s"
| "f64_add (Fin _) (Inf s) = Inf s"
| "f64_add _ _ = NaN"

fun f64_neg :: "f64 \<Rightarrow> f64" where
  "f64_neg (Fin a) = Fin (- a)"
| "f64_neg (Inf s) = Inf (\<not> s)"
| "f64_neg NaN = NaN"

definition f64_sub :: "f64 \<Rightarrow> f64 \<Rightarrow> f64" where
  "f64_sub a b = f64_add a (f64_neg b)"

fun f64_mul :: "f64 \<Rightarrow> f64 \<Rightarrow> f64" where
  "f64_mul (Fin a) (Fin b) = f64_round (a * b)"
| "f64_mul (Inf s) (Inf t) = Inf (s \<noteq> t)"
| "f64_mul (Inf s) (Fin b) = (if b = 0 then NaN else Inf (s \<noteq> (b < 0)))"
| "f64_mul (Fin a) (Inf t) = (if a = 0 then NaN else Inf ((a < 0) \<noteq> t))"
| "f64_mul _ _ = NaN"

fun f64_div :: "f64 \<Rightarrow> f64 \<Rightarrow> f64" where
  "f64_div (Fin a) (Fin b) =
     (if b = 0 then (if a = 0 then NaN else Inf (a < 0)) else f64_round (a / b))"
| "f64_div (Inf s) (Inf t) = NaN"
| "f64_div (Inf s) (Fin b) = Inf (s \<noteq> (b < 0))"
| "f64_div (Fin a) (Inf t) = Fin 0"
| "f64_div _ _ = NaN"

fun f64_lt :: "f64 \<Rightarrow> f64 \<Rightarrow> bool" where
  "f64_lt (Fin a) (Fin b) \<longleftrightarrow> a < b"
| "f64_lt (Inf s) (Inf t) \<longleftrightarrow> s \<and> \<not> t"
| "f64_lt (Inf s) (Fin _) \<longleftrightarrow> s"
| "f64_lt (Fin _) (Inf t) \<longleftrightarrow> \<not> t"
| "f64_lt _ _ \<longleftrightarrow> False"

fun f64_le :: "f64 \<Rightarrow> f64 \<Rightarrow> bool" where
  "f64_le (Fin a) (Fin b) \<longleftrightarrow> a \<le> b"
| "f64_le (Inf s) (Inf t) \<longleftrightarrow> s \<or> \<not> t"
| "f64_le (Inf s) (Fin _) \<longleftrightarrow> s"
| "f64_le (Fin _) (Inf t) \<longleftrightarrow> \<not> t"
| "f64_le _ _ \<longleftrightarrow> False"

text \<open>\<open>f64::max\<close> and \<open>f64::min\<close> return the other operand when one is \<open>NaN\<close>.\<close>

definition f64_max :: "f64 \<Rightarrow> f64 \<Rightarrow> f64" where
  "f64_max a b = (if a = NaN then b else if b = NaN then a else if f64_lt a b then b else a)"

definition f64_min :: "f64 \<Rightarrow> f64 \<Rightarrow> f64" where
  "f64_min a b = (if a = NaN then b else if b = NaN then a else if f64_lt b a then b else a)"

text \<open>\<open>f64::clamp\<close> with the constant bounds of the code; \<open>NaN\<close> stays \<open>NaN\<close>.\<close>

definition f64_clamp :: "f64 \<Rightarrow> f64 \<Rightarrow> f64 \<Rightarrow> f64" where
  "f64_clamp x lo hi = (if f64_lt x lo then lo else if f64_lt hi x then hi else x)"

fun is_finite :: "f64 \<Rightarrow> bool" where
  "is_finite (Fin _) \<longleftrightarrow> True"
| "is_finite _ \<longleftrightarrow> False"

definition f64_of_nat :: "nat \<Rightarrow> f64" where
  "f64_of_nat n = f64_round (of_nat n)"

definition f64_of_u64 :: "u64 \<Rightarrow> f64" where
  "f64_of_u64 n = f64_of_nat (unat n)"

text \<open>\<open>x as u64\<close>: truncates, saturates, and maps \<open>NaN\<close> to 0.\<close>

fun f64_to_u64 :: "f64 \<Rightarrow> u64" where
  "f64_to_u64 (Fin a) =
     (if a \<le> 0 then 0 else if a \<ge> 2 ^ 64 then u64_MAX else of_int \<lfloor>a\<rfloor>)"
| "f64_to_u64 (Inf s) = (if s then 0 else u64_MAX)"
| "f64_to_u64 NaN = 0"

text \<open>Correctly rounded square root: the root of \<open>a / ulp\<^sup>2\<close> to the nearest integer (the root of
  a representable number is never half-way between two).\<close>

function isqrt_from :: "int \<Rightarrow> int \<Rightarrow> int \<Rightarrow> int" where
  "isqrt_from n lo hi =
     (if hi \<le> lo + 1 then lo
      else let m = (lo + hi) div 2 in if m * m \<le> n then isqrt_from n m hi else isqrt_from n lo m)"
  by pat_completeness auto
termination by (relation "measure (\<lambda>(n, lo, hi). nat (hi - lo))") (auto simp: Let_def)

declare isqrt_from.simps [simp del]

definition isqrt :: "int \<Rightarrow> int" where
  "isqrt n = isqrt_from n 0 (2 ^ nat ((bit_len n + 2) div 2))"

fun f64_sqrt :: "f64 \<Rightarrow> f64" where
  "f64_sqrt (Fin a) =
     (if a < 0 then NaN else if a = 0 then Fin 0
      else
        let q = pow2 (ilog2 a div 2 - 54); r = isqrt \<lfloor>a / (q * q)\<rfloor>;
            exact = (of_int (r * r) * (q * q) = a)
        in f64_round ((if exact then of_int r else of_int r + 1 / 2) * q))"
| "f64_sqrt (Inf s) = (if s then NaN else Inf False)"
| "f64_sqrt NaN = NaN"

section \<open>Durations as seconds\<close>

definition as_secs_f64 :: "duration \<Rightarrow> f64" where
  "as_secs_f64 d =
     f64_add (f64_of_nat (d div 1000000000)) (f64_div (f64_of_nat (d mod 1000000000)) (Fin 1000000000))"

text \<open>\<open>Duration::from_secs_f64\<close> panics on a negative, infinite or too large argument.\<close>

fun from_secs_f64 :: "f64 \<Rightarrow> duration option" where
  "from_secs_f64 (Fin v) =
     (if v < 0 \<or> v \<ge> 2 ^ 64 then None else Some (nat (round_half_even (v * 1000000000))))"
| "from_secs_f64 _ = None"

section \<open>How far rounding moves a value\<close>

lemma pow2_pos [simp]: "0 < pow2 e" and pow2_nonneg [simp]: "0 \<le> pow2 e"
  by (simp_all add: pow2_def)

lemma pow2_of_int: "0 \<le> e \<Longrightarrow> pow2 e = of_int (2 ^ nat e)"
  by (simp add: pow2_def)

lemma pow2_Suc: "pow2 (e + 1) = 2 * pow2 e"
proof (cases "0 \<le> e")
  case True
  then show ?thesis by (simp add: pow2_def nat_add_distrib)
next
  case False
  then have "nat (- e) = Suc (nat (- (e + 1)))" by simp
  then show ?thesis using False by (auto simp: pow2_def)
qed

lemma pow2_step: "pow2 (e + int n) = 2 ^ n * pow2 e"
proof (induction n)
  case (Suc n)
  have "pow2 (e + int (Suc n)) = pow2 (e + int n + 1)" by (simp add: ac_simps)
  also have "\<dots> = 2 ^ Suc n * pow2 e" by (simp add: pow2_Suc Suc.IH)
  finally show ?case .
qed simp

lemma pow2_mono: "a \<le> b \<Longrightarrow> pow2 a \<le> pow2 b"
  using pow2_step [of a "nat (b - a)"] mult_right_mono [of 1 "2 ^ nat (b - a)" "pow2 a"] by simp

lemma pow2_diff: "pow2 (a - b) = pow2 a / pow2 b"
proof (cases "0 \<le> b")
  case True
  then show ?thesis using pow2_step [of "a - b" "nat b"] by (simp add: pow2_def)
next
  case False
  then show ?thesis using pow2_step [of a "nat (- b)"] by (simp add: pow2_def)
qed

lemma bit_len_bounds:
  "0 < n \<Longrightarrow> 1 \<le> bit_len n \<and> 2 ^ nat (bit_len n - 1) \<le> n \<and> n < 2 ^ nat (bit_len n)"
proof (induction n rule: bit_len.induct)
  case (1 n)
  show ?case
  proof (cases "n = 1")
    case True
    then show ?thesis by (simp add: bit_len.simps)
  next
    case False
    define h where "h = n div 2"
    define b where "b = bit_len h"
    have pos: "0 < h" and n: "bit_len n = 1 + b"
      using False "1.prems" by (auto simp: bit_len.simps [of n] h_def b_def)
    have IH: "1 \<le> b" "2 ^ nat (b - 1) \<le> h" "h < 2 ^ nat b"
      using "1.IH" "1.prems" pos by (auto simp: h_def b_def)
    have two: "2 * h \<le> n" "n \<le> 2 * h + 1" by (simp_all add: h_def)
    have "(2::int) ^ nat b = 2 * 2 ^ nat (b - 1)" "(2::int) ^ nat (1 + b) = 2 * 2 ^ nat b"
      using IH(1) by (simp_all add: power_Suc [symmetric] Suc_nat_eq_nat_zadd1 del: power_Suc)
    then show ?thesis using IH two n by simp
  qed
qed

lemma pow2_ilog2_le:
  assumes "0 < x"
  shows "pow2 (ilog2 x) \<le> x"
proof -
  obtain n d where q: "quotient_of x = (n, d)" by (cases "quotient_of x")
  have d: "0 < d" using quotient_of_denom_pos [OF q] .
  have x: "x = of_int n / of_int d" using quotient_of_div [OF q] .
  have n: "0 < n" using assms d by (simp add: x zero_less_divide_iff)
  have "pow2 (bit_len n - 1) \<le> of_int n"
    using bit_len_bounds [OF n] by (subst pow2_of_int) (simp, simp only: of_int_le_iff)
  moreover have "of_int d < pow2 (bit_len d)"
    using bit_len_bounds [OF d] by (subst pow2_of_int) (simp, simp only: of_int_less_iff)
  ultimately have "pow2 (bit_len n - 1) / pow2 (bit_len d) \<le> of_int n / of_int d"
    using d n by (intro frac_le) auto
  moreover have "pow2 (bit_len n - bit_len d - 1) = pow2 (bit_len n - 1) / pow2 (bit_len d)"
    by (subst pow2_diff [symmetric]) (simp add: algebra_simps)
  ultimately have "pow2 (bit_len n - bit_len d - 1) \<le> x" by (simp only: x)
  then show ?thesis by (simp add: ilog2_def q Let_def)
qed

lemma ulp_le: "0 < a \<Longrightarrow> ulp a \<le> max a 1"
proof -
  assume a: "0 < a"
  have "ulp a \<le> pow2 (max (ilog2 a) (- 1022))" by (simp add: ulp_def pow2_mono)
  also have "\<dots> \<le> max a 1"
    using pow2_ilog2_le [OF a] by (auto simp: max_def pow2_def [of "- 1022"] field_simps
        intro: order.trans [of _ 1] one_le_power)
  finally show ?thesis .
qed

lemma ulp_pos [simp]: "0 < ulp a"
  by (simp add: ulp_def)

lemma round_half_even_bounds:
  "x - 1 / 2 \<le> of_int (round_half_even x)" "of_int (round_half_even x) \<le> x + 1 / 2"
  using floor_correct [of x] by (simp_all add: round_half_even_def Let_def) linarith+

lemma round_half_even_nonneg: "0 \<le> x \<Longrightarrow> 0 \<le> round_half_even x"
proof -
  assume "0 \<le> x"
  then have "- 1 < of_int (round_half_even x) + (0 :: rat)"
    using round_half_even_bounds(1) [of x] by linarith
  then have "- 1 < round_half_even x" by simp
  then show ?thesis by simp
qed

lemma f64_round_bound:
  assumes "0 \<le> x" and "x \<le> 2 ^ 70"
  obtains m where "f64_round x = Fin m" and "0 \<le> m" and "m \<le> 2 * x + 1"
proof (cases "x = 0")
  case True
  then show thesis using that [of 0] by (simp add: f64_round_def)
next
  case False
  with assms have x: "0 < x" by simp
  define m where "m = of_int (round_half_even (x / ulp x)) * ulp x"
  have nonneg: "0 \<le> m"
    using round_half_even_nonneg [of "x / ulp x"] x by (simp add: m_def less_imp_le)
  have "of_int (round_half_even (x / ulp x)) * ulp x \<le> (x / ulp x + 1 / 2) * ulp x"
    by (intro mult_right_mono round_half_even_bounds) (simp add: less_imp_le)
  also have "\<dots> = x + ulp x / 2"
    using ulp_pos [of x] by (simp add: distrib_right less_imp_neq [THEN not_sym])
  also have "\<dots> \<le> 2 * x + 1"
    using ulp_le [OF x] x by (auto simp: max_def split: if_splits)
  finally have m: "m \<le> 2 * x + 1" by (simp add: m_def)
  also have "\<dots> < pow2 72" using assms(2) by (simp add: pow2_def)
  also have "\<dots> \<le> pow2 1024" by (rule pow2_mono) simp
  finally have "m < pow2 1024" .
  then have "f64_round x = Fin m"
    using x False by (simp add: f64_round_def Let_def m_def not_le)
  then show thesis using nonneg m by (rule that)
qed

end
