(* ===== verification/Rates.thy ===== *)
theory Rates
  imports Float64
begin

text \<open>
  \<^verbatim>\<open>src/crates/xde/src/core/units.rs\<close> (the \<open>Rate\<close> newtype), \<^verbatim>\<open>core/ewma.rs\<close> (the two decayed
  averages and the windowed rate meter) and \<^verbatim>\<open>core/metrics.rs\<close> (the sample arithmetic), on the
  \<open>f64\<close> of \<open>Float64\<close>. A \<open>Rate\<close> is the \<open>f64\<close> it wraps. \<open>exp\<close> is the parameter \<open>fexp\<close>.
\<close>

section \<open>Rate\<close>

type_synonym rate = f64

definition Rate_ZERO :: rate where "Rate_ZERO = Fin 0"

definition Rate_FLOOR :: rate where "Rate_FLOOR = Fin 1024"

definition Rate_COLD_START :: rate where "Rate_COLD_START = Fin (128 * 1024 * 1024)"

definition from_bps :: "f64 \<Rightarrow> rate" where
  "from_bps v = (if is_finite v \<and> f64_lt (Fin 0) v then v else Fin 0)"

definition from_mbps :: "f64 \<Rightarrow> rate" where
  "from_mbps v = from_bps (f64_mul v (Fin 125000))"

definition rate_nonzero :: "rate \<Rightarrow> f64" where
  "rate_nonzero r = f64_max r Rate_FLOOR"

definition bytes_in :: "rate \<Rightarrow> duration \<Rightarrow> u64" where
  "bytes_in r d = f64_to_u64 (f64_max (f64_mul r (as_secs_f64 d)) (Fin 0))"

text \<open>\<open>None\<close> is the panic of \<open>Duration::from_secs_f64\<close>.\<close>

definition time_for :: "rate \<Rightarrow> u64 \<Rightarrow> duration option" where
  "time_for r n = from_secs_f64 (f64_div (f64_of_u64 n) (rate_nonzero r))"

definition rate_is_zero :: "rate \<Rightarrow> bool" where
  "rate_is_zero r \<longleftrightarrow> f64_le r (Fin 0)"

definition rate_add :: "rate \<Rightarrow> rate \<Rightarrow> rate" where
  "rate_add r q = f64_add r q"

definition rate_sub :: "rate \<Rightarrow> rate \<Rightarrow> rate" where
  "rate_sub r q = f64_max (f64_sub r q) (Fin 0)"

definition rate_mul :: "rate \<Rightarrow> f64 \<Rightarrow> rate" where
  "rate_mul r k = from_bps (f64_mul r k)"

definition rate_sum :: "rate list \<Rightarrow> rate" where
  "rate_sum rs = foldl f64_add (Fin 0) rs"

section \<open>Decayed averages\<close>

record ewma_var =
  ev_mean :: f64
  ev_var :: f64
  ev_tau :: f64
  ev_samples :: u32

definition ewma_var_new :: "duration \<Rightarrow> ewma_var" where
  "ewma_var_new tau =
     \<lparr>ev_mean = Fin 0, ev_var = Fin 0, ev_tau = f64_max (as_secs_f64 tau) (f64_round (1 / 1000)),
      ev_samples = 0\<rparr>"

definition decay_alpha :: "(f64 \<Rightarrow> f64) \<Rightarrow> duration \<Rightarrow> f64 \<Rightarrow> f64" where
  "decay_alpha fexp dt tau =
     f64_clamp (f64_sub (Fin 1) (fexp (f64_div (f64_neg (as_secs_f64 dt)) tau)))
       (f64_round (1 / 10000)) (Fin 1)"

definition ewma_var_observe :: "(f64 \<Rightarrow> f64) \<Rightarrow> ewma_var \<Rightarrow> f64 \<Rightarrow> duration \<Rightarrow> ewma_var" where
  "ewma_var_observe fexp e value dt =
     (if \<not> is_finite value then e
      else if ev_samples e = 0 then e\<lparr>ev_mean := value, ev_var := Fin 0, ev_samples := 1\<rparr>
      else
        let alpha = decay_alpha fexp dt (ev_tau e);
            delta = f64_sub value (ev_mean e)
        in e\<lparr>ev_mean := f64_add (ev_mean e) (f64_mul alpha delta),
             ev_var := f64_mul (f64_sub (Fin 1) alpha)
               (f64_add (ev_var e) (f64_mul (f64_mul alpha delta) delta)),
             ev_samples := saturating_add (ev_samples e) 1\<rparr>)"

definition ev_stddev :: "ewma_var \<Rightarrow> f64" where
  "ev_stddev e = f64_sqrt (f64_max (ev_var e) (Fin 0))"

definition is_warm :: "ewma_var \<Rightarrow> bool" where
  "is_warm e \<longleftrightarrow> ev_samples e \<ge> 3"

definition ev_rate :: "ewma_var \<Rightarrow> rate" where
  "ev_rate e = from_bps (ev_mean e)"

definition z_below :: "ewma_var \<Rightarrow> f64 \<Rightarrow> f64" where
  "z_below e value =
     (let sd = ev_stddev e
      in if f64_lt sd (f64_round (1 / 1000000000))
         then (if f64_lt value (f64_mul (ev_mean e) (Fin (1 / 2))) then Fin 4 else Fin 0)
         else f64_div (f64_sub (ev_mean e) value) sd)"

record ewma =
  ew_v :: f64
  ew_tau :: f64
  ew_init :: bool

definition ewma_new :: "duration \<Rightarrow> ewma" where
  "ewma_new tau =
     \<lparr>ew_v = Fin 0, ew_tau = f64_max (as_secs_f64 tau) (f64_round (1 / 1000)), ew_init = False\<rparr>"

definition ewma_observe :: "(f64 \<Rightarrow> f64) \<Rightarrow> ewma \<Rightarrow> f64 \<Rightarrow> duration \<Rightarrow> ewma" where
  "ewma_observe fexp e value dt =
     (if \<not> is_finite value then e
      else if \<not> ew_init e then e\<lparr>ew_v := value, ew_init := True\<rparr>
      else e\<lparr>ew_v := f64_add (ew_v e)
               (f64_mul (decay_alpha fexp dt (ew_tau e)) (f64_sub value (ew_v e)))\<rparr>)"

record rate_meter =
  rm_acc :: u64
  rm_window_start :: instant
  rm_window :: duration
  rm_ewma :: ewma_var
  rm_last :: rate

definition rate_meter_new :: "instant \<Rightarrow> duration \<Rightarrow> duration \<Rightarrow> rate_meter" where
  "rate_meter_new now window tau =
     \<lparr>rm_acc = 0, rm_window_start = now, rm_window = window, rm_ewma = ewma_var_new tau,
      rm_last = Rate_ZERO\<rparr>"

definition rate_meter_add :: "rate_meter \<Rightarrow> u64 \<Rightarrow> rate_meter" where
  "rate_meter_add m n = m\<lparr>rm_acc := rm_acc m + n\<rparr>"

definition rate_meter_tick :: "(f64 \<Rightarrow> f64) \<Rightarrow> rate_meter \<Rightarrow> instant \<Rightarrow> rate option \<times> rate_meter" where
  "rate_meter_tick fexp m now =
     (let dt = now - rm_window_start m
      in if dt < rm_window m then (None, m)
         else
           let r = from_bps (f64_div (f64_of_u64 (rm_acc m)) (as_secs_f64 dt))
           in (Some r, m\<lparr>rm_ewma := ewma_var_observe fexp (rm_ewma m) r dt, rm_last := r,
                         rm_acc := 0, rm_window_start := now\<rparr>))"

section \<open>Transfer samples\<close>

record transfer_sample =
  ts_bytes :: u64
  ts_response_wall :: duration
  ts_receive_active :: duration
  ts_memory_blocked :: duration
  ts_destination_blocked :: duration

definition receive_rate :: "transfer_sample \<Rightarrow> f64" where
  "receive_rate t =
     f64_div (f64_of_u64 (ts_bytes t))
       (f64_max (as_secs_f64 (ts_receive_active t)) (f64_round (1 / 1000000000)))"

definition effective_rate :: "transfer_sample \<Rightarrow> f64" where
  "effective_rate t =
     f64_div (f64_of_u64 (ts_bytes t))
       (f64_max (as_secs_f64 (ts_response_wall t)) (f64_round (1 / 1000000000)))"

definition stall_fraction :: "transfer_sample \<Rightarrow> f64" where
  "stall_fraction t =
     (if ts_response_wall t = 0 then Fin 0
      else f64_clamp
        (f64_div (as_secs_f64 (ts_memory_blocked t + ts_destination_blocked t))
           (as_secs_f64 (ts_response_wall t)))
        (Fin 0) (Fin 1))"

section \<open>Properties\<close>

lemma from_bps_valid: "\<exists>v. from_bps x = Fin v \<and> 0 \<le> v"
  by (cases x) (auto simp: from_bps_def)

lemma rate_nonzero_cases:
  obtains v where "rate_nonzero r = Fin v" "1024 \<le> v" | "rate_nonzero r = Inf False"
proof (cases r)
  case (Inf s)
  then show thesis using that by (cases s) (auto simp: rate_nonzero_def Rate_FLOOR_def f64_max_def)
next
  case (Fin v)
  then show thesis using that by (cases "v < 1024") (auto simp: rate_nonzero_def Rate_FLOOR_def f64_max_def)
qed (use that in \<open>auto simp: rate_nonzero_def Rate_FLOOR_def f64_max_def\<close>)

text \<open>The time to move any number of bytes at any rate, zero, infinite and \<open>NaN\<close> included, is a
  duration: the floor on the divisor excludes the panic of \<open>Duration::from_secs_f64\<close>, and the
  result is below \<open>2 ^ 57\<close> seconds.\<close>

theorem time_for_total: "\<exists>d. time_for r n = Some d \<and> d < 2 ^ 57 * 1000000000"
proof -
  define k where "k = unat n"
  have "k \<le> 2 ^ 64" using unat_u64_less [of n] by (simp add: k_def)
  then have k: "(of_nat k :: rat) \<le> 2 ^ 64" by (metis of_nat_le_iff of_nat_numeral of_nat_power)
  then obtain m where m: "f64_of_u64 n = Fin m" "0 \<le> m" "m \<le> 2 * of_nat k + 1"
    using f64_round_bound [of "of_nat k"] by (auto simp: f64_of_u64_def f64_of_nat_def k_def [symmetric])
  have m65: "m \<le> 2 ^ 65 + 1" using m(3) k by simp
  have small: "nat (round_half_even (w * 1000000000)) < 2 ^ 57 * 1000000000" if "w \<le> 2 ^ 56 + 4" "0 \<le> w" for w :: rat
  proof -
    have "of_int (round_half_even (w * 1000000000)) \<le> w * 1000000000 + (1 / 2 :: rat)"
      by (rule round_half_even_bounds)
    also have "\<dots> < of_int (2 ^ 57 * 1000000000)" using that(1) by simp
    finally have "round_half_even (w * 1000000000) < 2 ^ 57 * 1000000000" by (simp only: of_int_less_iff)
    then show ?thesis by (simp add: nat_less_iff)
  qed
  show ?thesis
  proof (cases rule: rate_nonzero_cases [of r])
    case (1 v)
    have le: "m / v \<le> m / 1024" using 1(2) m(2) by (intro divide_left_mono) auto
    also have "\<dots> \<le> 2 ^ 70" using m65 by simp
    finally have up: "m / v \<le> 2 ^ 70" .
    have "0 \<le> m / v" using m(2) 1(2) by simp
    then obtain w where w: "f64_round (m / v) = Fin w" "0 \<le> w" "w \<le> 2 * (m / v) + 1"
      using up by (rule f64_round_bound)
    have "w \<le> 2 * (m / 1024) + 1" using w(3) le by linarith
    also have "\<dots> \<le> 2 ^ 56 + 4" using m65 by simp
    finally have "w \<le> 2 ^ 56 + 4" .
    then have "w < 2 ^ 64" by simp
    then show ?thesis using 1 m w small [of w] \<open>w \<le> 2 ^ 56 + 4\<close> by (simp add: time_for_def)
  next
    case 2
    then show ?thesis using m small [of 0] by (simp add: time_for_def round_half_even_def)
  qed
qed

end
