(* ===== verification/Policy.thy ===== *)
theory Policy
  imports Rates
begin

text \<open>
  \<^verbatim>\<open>src/crates/xde/src/core/policy.rs\<close>: per-job knobs, engine-wide limits and how the engine
  clamps a job's policy, the retry backoff, and the two-axis concurrency value.
\<close>

record segmentation_policy =
  min_piece :: u64
  max_piece :: u64
  tail_threshold :: u64
  tail_min_piece :: u64
  alignment :: u64
  straggler_z :: f64
  straggler_share :: f64
  straggler_grace :: duration

definition segmentation_default :: segmentation_policy where
  "segmentation_default =
     \<lparr>min_piece = 256 * 1024, max_piece = 512 * (1024 * 1024), tail_threshold = 64 * (1024 * 1024),
      tail_min_piece = 64 * 1024, alignment = 64 * 1024, straggler_z = Fin 2,
      straggler_share = Fin (1 / 2), straggler_grace = 2000000000\<rparr>"

record transport_limits =
  max_physical_connections :: u8
  max_streams_per_connection :: u16
  max_active_assignments :: u16

definition transport_limits_default :: transport_limits where
  "transport_limits_default =
     \<lparr>max_physical_connections = 8, max_streams_per_connection = 16, max_active_assignments = 8\<rparr>"

record retry_policy =
  max_attempts_per_range :: u32
  base_backoff :: duration
  max_backoff :: duration
  jitter :: bool

definition retry_default :: retry_policy where
  "retry_default =
     \<lparr>max_attempts_per_range = 6, base_backoff = 250000000, max_backoff = 30000000000, jitter = True\<rparr>"

record redirect_policy =
  allow_https_to_http :: bool
  forward_credentials_cross_origin :: bool

datatype http_version_policy = Auto | Http1Only | Http2PriorKnowledge

record transfer_policy =
  transport :: transport_limits
  initial_physical_connections :: u8
  initial_streams_per_connection :: u16
  segmentation :: segmentation_policy
  retry :: retry_policy
  max_redirects :: u8
  redirects :: redirect_policy
  allow_compressed :: bool
  http_version :: http_version_policy

definition transfer_policy_default :: transfer_policy where
  "transfer_policy_default =
     \<lparr>transport = transport_limits_default, initial_physical_connections = 1,
      initial_streams_per_connection = 1, segmentation = segmentation_default,
      retry = retry_default, max_redirects = 10,
      redirects = \<lparr>allow_https_to_http = False, forward_credentials_cross_origin = False\<rparr>,
      allow_compressed = False, http_version = Auto\<rparr>"

section \<open>The builder\<close>

definition with_max_physical_connections :: "u8 \<Rightarrow> transfer_policy \<Rightarrow> transfer_policy" where
  "with_max_physical_connections v p =
     p\<lparr>transport := (transport p)\<lparr>max_physical_connections := max v 1\<rparr>\<rparr>"

definition with_max_streams_per_connection :: "u16 \<Rightarrow> transfer_policy \<Rightarrow> transfer_policy" where
  "with_max_streams_per_connection v p =
     p\<lparr>transport := (transport p)\<lparr>max_streams_per_connection := max v 1\<rparr>\<rparr>"

definition with_initial_streams_per_connection :: "u16 \<Rightarrow> transfer_policy \<Rightarrow> transfer_policy" where
  "with_initial_streams_per_connection v p = p\<lparr>initial_streams_per_connection := max v 1\<rparr>"

definition with_allow_compressed :: "bool \<Rightarrow> transfer_policy \<Rightarrow> transfer_policy" where
  "with_allow_compressed v p = p\<lparr>allow_compressed := v\<rparr>"

section \<open>Engine limits\<close>

record engine_limits =
  memory_bytes :: u64
  max_jobs :: nat
  el_max_physical_connections :: u16
  max_connections_per_origin :: u16
  el_max_active_assignments :: u32

definition engine_limits_default :: engine_limits where
  "engine_limits_default =
     \<lparr>memory_bytes = 256 * 1024 * 1024, max_jobs = 128, el_max_physical_connections = 64,
      max_connections_per_origin = 16, el_max_active_assignments = 32\<rparr>"

text \<open>The cast \<open>as u8\<close> keeps the low eight bits.\<close>

definition clamp_policy :: "engine_limits \<Rightarrow> transfer_policy \<Rightarrow> transfer_policy" where
  "clamp_policy el p =
     (let max_p = max (ucast (max_connections_per_origin el)) (1 :: u8);
          mpc = min (max_physical_connections (transport p)) max_p
      in p\<lparr>transport := (transport p)\<lparr>max_physical_connections := mpc\<rparr>,
           initial_physical_connections := min (initial_physical_connections p) mpc,
           initial_streams_per_connection :=
             min (max (initial_streams_per_connection p) 1) (max_streams_per_connection (transport p))\<rparr>)"

section \<open>Backoff\<close>

text \<open>\<open>rng\<close> is the value the caller's closure returns; \<open>None\<close> is the panic of
  \<open>from_secs_f64\<close>.\<close>

definition backoff :: "retry_policy \<Rightarrow> u32 \<Rightarrow> f64 \<Rightarrow> duration option" where
  "backoff rp attempt rng =
     (let expo = f64_mul (as_secs_f64 (base_backoff rp)) (Fin (2 ^ unat (min attempt 16)));
          capped = f64_min expo (as_secs_f64 (max_backoff rp));
          v = (if jitter rp then f64_mul capped rng else capped)
      in from_secs_f64 (f64_max v (f64_round (1 / 1000))))"

section \<open>Concurrency\<close>

record concurrency =
  physical_connections :: u8
  logical_streams :: u16

definition concurrency_clamped :: "concurrency \<Rightarrow> transfer_policy \<Rightarrow> concurrency option" where
  "concurrency_clamped c p =
     (case clamp_checked (physical_connections c) 1 (max_physical_connections (transport p)) of
        None \<Rightarrow> None
      | Some pc \<Rightarrow>
          (case clamp_checked (logical_streams c) 1 (max_streams_per_connection (transport p)) of
             None \<Rightarrow> None
           | Some ls \<Rightarrow> Some \<lparr>physical_connections = pc, logical_streams = ls\<rparr>))"

section \<open>Properties\<close>

lemma ucast_u16_u8_le: "unat (ucast (w :: u16) :: u8) \<le> unat w"
  by (simp add: unsigned_ucast_eq unsigned_take_bit_eq take_bit_nat_less_eq_self)

text \<open>Clamping a job's policy to the engine's limits never raises a ceiling: the connection
  ceiling drops to at most the job's own and at most the engine's per-origin limit (one
  connection always stays allowed), and the starting values never exceed their ceilings.\<close>

theorem clamp_policy_only_lowers:
  fixes el p
  defines "q \<equiv> clamp_policy el p"
  shows "max_physical_connections (transport q) \<le> max_physical_connections (transport p) \<and>
    unat (max_physical_connections (transport q)) \<le> max 1 (unat (max_connections_per_origin el)) \<and>
    initial_physical_connections q \<le> max_physical_connections (transport q) \<and>
    initial_physical_connections q \<le> initial_physical_connections p \<and>
    initial_streams_per_connection q \<le> max_streams_per_connection (transport q) \<and>
    max_streams_per_connection (transport q) = max_streams_per_connection (transport p) \<and>
    segmentation q = segmentation p \<and> retry q = retry p"
proof -
  have "unat (min a (max (ucast w) (1 :: u8))) \<le> max 1 (unat w)" for a and w :: u16
    using ucast_u16_u8_le [of w]
    by (auto simp: min_def max_def word_le_nat_alt split: if_splits)
  then show ?thesis by (simp add: q_def clamp_policy_def Let_def min.coboundedI2)
qed

text \<open>The engine limit is narrowed to eight bits before it is applied: a per-origin limit of 256
  connections clamps every job to a single connection, one of 255 leaves the default alone.\<close>

theorem clamp_policy_truncates_limit:
  "max_physical_connections (transport
     (clamp_policy (engine_limits_default\<lparr>max_connections_per_origin := 256\<rparr>) transfer_policy_default)) = 1 \<and>
   max_physical_connections (transport
     (clamp_policy (engine_limits_default\<lparr>max_connections_per_origin := 255\<rparr>) transfer_policy_default)) = 8"
  by (simp add: clamp_policy_def transfer_policy_default_def transport_limits_default_def
      engine_limits_default_def)

end
