(* ===== verification/Segment.thy ===== *)
theory Segment
  imports Ranges Policy
begin

text \<open>
  \<^verbatim>\<open>src/crates/xde/src/core/segment.rs\<close>: the segment plan of a job, that is which bytes are
  verified, claimed, owned by a running assignment or deferred after a failure, and the
  speed-aware choice of what to give a free worker.

  \<open>slotmap::SlotMap\<close> is third-party code. Its content is a list of key/value pairs in iteration
  order; the key and the place it gives a new element are the parameter \<open>slot\<close> of every
  operation that inserts, and what the code relies on (the new key is not in use) is the
  hypothesis \<open>fresh_slot\<close>. \<open>SmallVec\<close> is a list. Instants are passed in; \<open>has_unclaimed\<close> reads
  the clock itself, which here is its \<open>now\<close>. \<open>None\<close> as the result of an operation is a panic.
\<close>

type_synonym assign_id = nat
type_synonym connection_id = nat
type_synonym slot = "assign_id \<times> nat"

section \<open>Slot maps\<close>

definition sm_get :: "('k \<times> 'v) list \<Rightarrow> 'k \<Rightarrow> 'v option" where
  "sm_get m k = map_of m k"

definition sm_insert :: "'k \<times> nat \<Rightarrow> 'v \<Rightarrow> ('k \<times> 'v) list \<Rightarrow> ('k \<times> 'v) list" where
  "sm_insert slot v m = take (snd slot) m @ (fst slot, v) # drop (snd slot) m"

definition sm_remove :: "'k \<Rightarrow> ('k \<times> 'v) list \<Rightarrow> ('k \<times> 'v) list" where
  "sm_remove k m = filter (\<lambda>kv. fst kv \<noteq> k) m"

definition sm_update :: "'k \<Rightarrow> ('v \<Rightarrow> 'v) \<Rightarrow> ('k \<times> 'v) list \<Rightarrow> ('k \<times> 'v) list" where
  "sm_update k f m = map (\<lambda>(k', v). (k', if k' = k then f v else v)) m"

section \<open>Assignments\<close>

record assignment =
  a_range :: byte_range
  wire_received :: u64
  destination_submitted :: u64
  destination_committed :: u64
  committed_ranges :: range_set
  a_started :: instant
  last_progress :: instant
  a_rate :: ewma_var
  a_overlap :: u32
  truncated :: bool
  a_connection :: "connection_id option"
  a_attempt :: u32

record deferred_work =
  d_range :: byte_range
  d_until :: instant
  d_attempt :: u32

definition cursor :: "assignment \<Rightarrow> u64" where
  "cursor a =
     (case first_gap (committed_ranges a) (r_start (a_range a)) (r_end (a_range a)) of
        None \<Rightarrow> r_end (a_range a)
      | Some gap \<Rightarrow> r_start gap)"

definition a_remaining :: "assignment \<Rightarrow> u64" where
  "a_remaining a = saturating_sub (r_end (a_range a)) (cursor a)"

definition a_is_done :: "assignment \<Rightarrow> bool" where
  "a_is_done a \<longleftrightarrow> cursor a \<ge> r_end (a_range a)"

definition a_eta :: "assignment \<Rightarrow> duration option" where
  "a_eta a = time_for (from_bps (ev_mean (a_rate a))) (a_remaining a)"

definition wire_range :: "assignment \<Rightarrow> byte_range" where
  "wire_range a =
     (let start = cursor a; ov = ucast (a_overlap a)
      in ByteRange_new (saturating_sub start (min ov start)) (r_end (a_range a)))"

datatype claim = Fresh assign_id | Stolen assign_id assign_id | Saturated | Complete

section \<open>The plan\<close>

record segment_plan =
  plan_total :: "u64 option"
  completed :: range_set
  claimed :: range_set
  assignments :: "(assign_id \<times> assignment) list"
  cfg :: segmentation_policy
  piece_duration :: duration
  overlap_bytes :: u32
  single_stream :: bool
  deferred :: "deferred_work list"

definition plan_new ::
  "u64 option \<Rightarrow> range_set \<Rightarrow> segmentation_policy \<Rightarrow> duration \<Rightarrow> u32 \<Rightarrow> segment_plan" where
  "plan_new tot compl c pd ov =
     \<lparr>plan_total = tot, completed = compl, claimed = compl, assignments = [], cfg = c,
      piece_duration = pd, overlap_bytes = ov, single_stream = False, deferred = []\<rparr>"

definition set_single_stream :: "bool \<Rightarrow> segment_plan \<Rightarrow> segment_plan" where
  "set_single_stream on p = p\<lparr>single_stream := on\<rparr>"

definition set_total :: "u64 \<Rightarrow> segment_plan \<Rightarrow> segment_plan" where
  "set_total tot p = p\<lparr>plan_total := Some tot\<rparr>"

definition bytes_done :: "segment_plan \<Rightarrow> u64" where
  "bytes_done p = covered (completed p)"

definition bytes_remaining :: "segment_plan \<Rightarrow> u64 option" where
  "bytes_remaining p = map_option (\<lambda>t. saturating_sub t (covered (completed p))) (plan_total p)"

definition gap_is_deferred :: "segment_plan \<Rightarrow> byte_range \<Rightarrow> instant \<Rightarrow> bool" where
  "gap_is_deferred p gap now \<longleftrightarrow> (\<exists>d\<in>set (deferred p). d_until d > now \<and> intersects (d_range d) gap)"

definition has_unclaimed :: "segment_plan \<Rightarrow> instant \<Rightarrow> bool" where
  "has_unclaimed p now =
     (case plan_total p of
        None \<Rightarrow> False
      | Some tot \<Rightarrow>
          (case first_gap (claimed p) 0 tot of
             None \<Rightarrow> False
           | Some gap \<Rightarrow> \<not> gap_is_deferred p gap now) \<or>
          (\<exists>d\<in>set (deferred p). d_until d \<le> now))"

definition admits_worker :: "segment_plan \<Rightarrow> instant \<Rightarrow> bool" where
  "admits_worker p now =
     (case plan_total p of
        Some tot \<Rightarrow>
          if single_stream p then assignments p = [] \<and> \<not> rs_is_complete (completed p) tot
          else has_unclaimed p now \<and> \<not> rs_is_complete (completed p) tot
      | None \<Rightarrow> assignments p = [])"

definition defer_range :: "segment_plan \<Rightarrow> byte_range \<Rightarrow> instant \<Rightarrow> u32 \<Rightarrow> segment_plan" where
  "defer_range p r until attempt =
     (if br_is_empty r then p
      else p\<lparr>claimed := (if r_end r \<noteq> u64_MAX then rs_insert (claimed p) r else claimed p),
             deferred := deferred p @ [\<lparr>d_range = r, d_until = until, d_attempt = attempt\<rparr>]\<rparr>)"

text \<open>The loop of \<open>release_due\<close> over the drained entries.\<close>

fun release_loop ::
  "instant \<Rightarrow> deferred_work list \<Rightarrow> range_set \<Rightarrow> u32 \<Rightarrow> deferred_work list
   \<Rightarrow> range_set \<times> u32 \<times> deferred_work list" where
  "release_loop now [] clm mx keep = (clm, mx, keep)"
| "release_loop now (d # ds) clm mx keep =
     (if d_until d \<le> now then
        release_loop now ds
          (if r_end (d_range d) \<noteq> u64_MAX then rs_remove clm (d_range d) else clm)
          (max mx (d_attempt d)) keep
      else release_loop now ds clm mx (keep @ [d]))"

definition release_due :: "segment_plan \<Rightarrow> instant \<Rightarrow> u32 \<times> segment_plan" where
  "release_due p now =
     (let (clm, mx, keep) = release_loop now (deferred p) (claimed p) 0 []
      in (mx, p\<lparr>claimed := clm, deferred := keep\<rparr>))"

definition max_opt :: "'a::linorder list \<Rightarrow> 'a option" where
  "max_opt xs = (if xs = [] then None else Some (foldl max (hd xs) (tl xs)))"

definition pending_attempt_for :: "segment_plan \<Rightarrow> byte_range \<Rightarrow> u32" where
  "pending_attempt_for p r =
     (case max_opt (map d_attempt (filter (\<lambda>d. intersects (d_range d) r) (deferred p))) of
        None \<Rightarrow> 0
      | Some m \<Rightarrow> m)"

definition clamp_max_piece :: "u64 \<Rightarrow> segment_plan \<Rightarrow> segment_plan" where
  "clamp_max_piece mp p =
     (if mp > 0 then p\<lparr>cfg := (cfg p)\<lparr>max_piece := min (max_piece (cfg p)) mp\<rparr>\<rparr> else p)"

definition plan_is_complete :: "segment_plan \<Rightarrow> bool" where
  "plan_is_complete p =
     (case plan_total p of Some t \<Rightarrow> rs_is_complete (completed p) t | None \<Rightarrow> False)"

section \<open>Choosing a gap\<close>

text \<open>The scan strictly advances: a gap starts at or behind \<open>pos\<close> and below the total.\<close>

lemma first_gap_start: "first_gap s from limit = Some g \<Longrightarrow> from \<le> r_start g \<and> r_start g < limit"
proof -
  assume g: "first_gap s from limit = Some g"
  then have lt: "from < limit" by (cases "limit \<le> from") (auto simp: first_gap_def)
  have "from < r_end y" if "dropWhile (\<lambda>x. r_end x \<le> from) (ranges s) = y # ys" for y ys
    using that by (metis dropWhile_eq_Cons_conv not_le)
  then show ?thesis
    using g lt by (fastforce simp: first_gap_def Let_def nth_opt_partition_point not_le not_less
        split: list.splits if_splits)
qed

function next_claimable_gap_from :: "segment_plan \<Rightarrow> u64 \<Rightarrow> instant \<Rightarrow> u64 \<Rightarrow> byte_range option" where
  "next_claimable_gap_from p tot now pos =
     (if pos < tot then
        (case first_gap (claimed p) pos tot of
           None \<Rightarrow> None
         | Some gap \<Rightarrow>
             if \<not> gap_is_deferred p gap now then Some gap
             else
               let skip = (case max_opt (map (\<lambda>d. r_end (d_range d))
                             (filter (\<lambda>d. d_until d > now \<and> intersects (d_range d) gap) (deferred p)))
                           of None \<Rightarrow> r_end gap | Some m \<Rightarrow> m)
               in next_claimable_gap_from p tot now (max skip (saturating_add (r_start gap) 1)))
      else None)"
  by pat_completeness auto
termination
proof (relation "measure (\<lambda>(p, tot, now, pos). unat tot - unat pos)", goal_cases)
  case (2 p tot now pos gap skip)
  then have "pos \<le> r_start gap" "r_start gap < tot" by (auto dest: first_gap_start)
  then have "unat pos < unat (saturating_add (r_start gap) 1)"
    using unat_u64_less [of tot]
    by (simp add: unat_saturating_add word_le_nat_alt word_less_nat_alt)
  then have "unat pos < unat (max skip (saturating_add (r_start gap) 1))"
    by (auto simp: max_def word_le_nat_alt)
  then show ?case using 2(1) by (simp add: word_less_nat_alt)
qed simp

declare next_claimable_gap_from.simps [simp del]

definition next_claimable_gap :: "segment_plan \<Rightarrow> u64 \<Rightarrow> instant \<Rightarrow> byte_range option" where
  "next_claimable_gap p tot now = next_claimable_gap_from p tot now 0"

section \<open>Piece sizes\<close>

definition align_up :: "u64 \<Rightarrow> u64 \<Rightarrow> u64" where
  "align_up v align = (if align \<le> 1 then v else div_ceil v align * align)"

definition snap_end :: "byte_range \<Rightarrow> u64 \<Rightarrow> u64 \<Rightarrow> byte_range" where
  "snap_end r align tot =
     (let e = min (min (align_up (r_end r) align) tot) (max (r_end r) (r_start r + 1))
      in ByteRange_new (r_start r) (min (max e (r_start r + 1)) tot))"

definition piece_len_for :: "segment_plan \<Rightarrow> rate \<Rightarrow> u64 \<Rightarrow> u64 option" where
  "piece_len_for p est remaining_total =
     (let by_duration = bytes_in est (piece_duration p);
          tail = (remaining_total \<le> tail_threshold (cfg p));
          mn = (if tail then tail_min_piece (cfg p) else min_piece (cfg p));
          mx = (if tail \<and> remaining_total < max_piece (cfg p)
                then max (max_piece (cfg p) div 8) mn else max_piece (cfg p))
      in map_option (\<lambda>v. align_up v (alignment (cfg p))) (clamp_checked by_duration mn mx))"

section \<open>Claiming\<close>

definition new_assignment :: "byte_range \<Rightarrow> instant \<Rightarrow> u32 \<Rightarrow> assignment" where
  "new_assignment r now ov =
     \<lparr>a_range = r, wire_received = 0, destination_submitted = 0, destination_committed = 0,
      committed_ranges = rs_new, a_started = now, last_progress = now,
      a_rate = ewma_var_new 4000000000, a_overlap = ov, truncated = False,
      a_connection = None, a_attempt = 0\<rparr>"

definition push_assignment ::
  "slot \<Rightarrow> segment_plan \<Rightarrow> byte_range \<Rightarrow> instant \<Rightarrow> u32 \<Rightarrow> assign_id \<times> segment_plan" where
  "push_assignment slot p r now ov =
     (fst slot,
      p\<lparr>claimed := (if r_end r \<noteq> u64_MAX then rs_insert (claimed p) r else claimed p),
        assignments := sm_insert slot (new_assignment r now ov) (assignments p)\<rparr>)"

text \<open>\<open>Iterator::max_by_key\<close>: the last of several maximal elements.\<close>

fun max_by_key :: "('a \<Rightarrow> 'b::linorder) \<Rightarrow> 'a list \<Rightarrow> 'a option" where
  "max_by_key f [] = None"
| "max_by_key f (x # xs) =
     Some (foldl (\<lambda>best y. if f y \<ge> f best then y else best) x xs)"

definition steal_key :: "rate \<Rightarrow> assignment \<Rightarrow> u64" where
  "steal_key est a =
     (let r = (if is_warm (a_rate a) then f64_max (ev_mean (a_rate a)) Rate_FLOOR else rate_nonzero est)
      in f64_to_u64 (f64_mul (f64_div (f64_of_u64 (a_remaining a)) (f64_max r (Fin 1))) (Fin 1000000)))"

definition plan_steal :: "segment_plan \<Rightarrow> rate \<Rightarrow> instant \<Rightarrow> (assign_id \<times> u64) option option" where
  "plan_steal p est now =
     (case max_by_key (\<lambda>ka. steal_key est (snd ka))
         (filter (\<lambda>ka. now - a_started (snd ka) \<ge> straggler_grace (cfg p))
            (filter (\<lambda>ka. \<not> truncated (snd ka)) (assignments p))) of
        None \<Rightarrow> Some None
      | Some (victim, a) \<Rightarrow>
          let protected = saturating_add (r_start (a_range a))
                (max (wire_received a) (destination_submitted a));
              rem = saturating_sub (r_end (a_range a)) protected;
              tail = (case bytes_remaining p of None \<Rightarrow> False | Some r \<Rightarrow> r \<le> tail_threshold (cfg p));
              mn = (if tail then tail_min_piece (cfg p) else min_piece (cfg p))
          in if rem < saturating_mul mn 2 then Some None
             else
               let v1 = f64_max (if is_warm (a_rate a) then ev_mean (a_rate a) else rate_nonzero est)
                          Rate_FLOOR;
                   v2 = rate_nonzero est;
                   keep0 = f64_to_u64 (f64_mul (f64_of_u64 rem) (f64_div v1 (f64_add v1 v2)))
               in case clamp_checked keep0 mn (rem - mn) of
                    None \<Rightarrow> None
                  | Some keep \<Rightarrow>
                      let cutp = min (align_up (protected + keep) (alignment (cfg p)))
                                    (r_end (a_range a) - mn)
                      in Some (if cutp > cursor a \<and> cutp < r_end (a_range a)
                               then Some (victim, cutp) else None))"

text \<open>How much of a gap the worker takes.\<close>

definition take_len_for :: "segment_plan \<Rightarrow> u64 \<Rightarrow> u64 \<Rightarrow> bool \<Rightarrow> u8 \<Rightarrow> u64" where
  "take_len_for p tot piece solo peer_slots =
     (let take_len = max piece 1
      in if solo then take_len
         else
           let inflight = (if length (assignments p) < 256 then of_nat (length (assignments p)) else 255);
               slots_left = max (saturating_sub (max peer_slots 1) inflight) 1
           in if slots_left > 1 then
                let unclaimed = saturating_sub tot (covered (claimed p))
                in if unclaimed > saturating_mul (min_piece (cfg p)) 2
                   then max (min take_len (unclaimed div ucast slots_left)) (min_piece (cfg p))
                   else take_len
              else take_len)"

definition overlap_for :: "segment_plan \<Rightarrow> byte_range \<Rightarrow> u32" where
  "overlap_for p r =
     (let desired = min (ucast (overlap_bytes p)) (r_start r)
      in if desired > 0 \<and> contains_range (claimed p) (ByteRange_new (r_start r - desired) (r_start r))
         then ucast desired else 0)"

definition claim_with ::
  "slot \<Rightarrow> segment_plan \<Rightarrow> rate \<Rightarrow> instant \<Rightarrow> bool \<Rightarrow> u8 \<Rightarrow> (claim \<times> segment_plan) option" where
  "claim_with slot p est now solo peer_slots =
     (case plan_total p of
        None \<Rightarrow>
          if assignments p \<noteq> [] then Some (Saturated, p)
          else
            let (i, q) = push_assignment slot p
                  (ByteRange_new (contiguous_prefix (completed p)) u64_MAX) now 0
            in Some (Fresh i, q)
      | Some tot \<Rightarrow>
          if rs_is_complete (completed p) tot then Some (Complete, p)
          else if single_stream p then
            if assignments p \<noteq> [] then Some (Saturated, p)
            else
              let start = contiguous_prefix (completed p)
              in if start \<ge> tot then Some (Complete, p)
                 else
                   let (i, q) = push_assignment slot p (ByteRange_new start tot) now 0
                   in Some (Fresh i, q)
          else
            (case piece_len_for p est (tot - covered (completed p)) of
               None \<Rightarrow> None
             | Some piece \<Rightarrow>
                 (case next_claimable_gap p tot now of
                    Some gap \<Rightarrow>
                      let take = snap_end
                            (truncated_to gap (take_len_for p tot piece solo peer_slots))
                            (alignment (cfg p)) tot;
                          ov = overlap_for p take;
                          attempt = pending_attempt_for p take;
                          (i, q) = push_assignment slot p take now ov
                      in Some (Fresh i, q\<lparr>assignments :=
                           sm_update i (\<lambda>a. a\<lparr>a_attempt := attempt\<rparr>) (assignments q)\<rparr>)
                  | None \<Rightarrow>
                      if solo then Some (Saturated, p)
                      else
                        (case plan_steal p est now of
                           None \<Rightarrow> None
                         | Some None \<Rightarrow> Some (Saturated, p)
                         | Some (Some (victim, cutp)) \<Rightarrow>
                             (case sm_get (assignments p) victim of
                                None \<Rightarrow> None
                              | Some v \<Rightarrow>
                                  let p1 = p\<lparr>assignments := sm_update victim
                                        (\<lambda>a. a\<lparr>a_range := ByteRange_new (r_start (a_range v)) cutp,
                                               truncated := True\<rparr>) (assignments p)\<rparr>;
                                      (i, q) = push_assignment slot p1
                                        (ByteRange_new cutp (r_end (a_range v))) now 0
                                  in Some (Stolen i victim, q))))))"

definition claim_next ::
  "slot \<Rightarrow> segment_plan \<Rightarrow> rate \<Rightarrow> instant \<Rightarrow> (claim \<times> segment_plan) option" where
  "claim_next slot p est now = claim_with slot p est now False 2"

section \<open>Progress reports\<close>

definition on_wire_received :: "segment_plan \<Rightarrow> assign_id \<Rightarrow> u64 \<Rightarrow> segment_plan" where
  "on_wire_received p i n =
     p\<lparr>assignments := sm_update i
        (\<lambda>a. a\<lparr>wire_received := saturating_add (wire_received a) n\<rparr>) (assignments p)\<rparr>"

definition on_submitted :: "segment_plan \<Rightarrow> assign_id \<Rightarrow> u64 \<Rightarrow> segment_plan" where
  "on_submitted p i n =
     p\<lparr>assignments := sm_update i
        (\<lambda>a. a\<lparr>destination_submitted := saturating_add (destination_submitted a) n\<rparr>) (assignments p)\<rparr>"

definition commit_assignment ::
  "(f64 \<Rightarrow> f64) \<Rightarrow> byte_range \<Rightarrow> instant \<Rightarrow> assignment \<Rightarrow> assignment" where
  "commit_assignment fexp r now a =
     (let q = (case intersection r (a_range a) of
                 None \<Rightarrow> ByteRange_new (r_start (a_range a)) (r_start (a_range a))
               | Some i \<Rightarrow> i);
          before = cursor a;
          cr = rs_insert (committed_ranges a) q;
          a1 = a\<lparr>committed_ranges := cr, destination_committed := covered cr\<rparr>;
          advanced = saturating_sub (cursor a1) before
      in if advanced = 0 then a1
         else
           let dt = now - last_progress a1
           in (if dt > 20000000
               then a1\<lparr>a_rate := ewma_var_observe fexp (a_rate a1)
                         (f64_div (f64_of_u64 advanced) (as_secs_f64 dt)) dt\<rparr>
               else a1)\<lparr>last_progress := now\<rparr>)"

definition on_destination_committed ::
  "(f64 \<Rightarrow> f64) \<Rightarrow> segment_plan \<Rightarrow> assign_id \<Rightarrow> byte_range \<Rightarrow> instant \<Rightarrow> segment_plan" where
  "on_destination_committed fexp p i r now =
     (if br_is_empty r then p
      else p\<lparr>assignments := sm_update i (commit_assignment fexp r now) (assignments p)\<rparr>)"

definition on_response_verified :: "segment_plan \<Rightarrow> assign_id \<Rightarrow> byte_range \<Rightarrow> segment_plan" where
  "on_response_verified p i r =
     (if br_is_empty r then p
      else
        (case sm_get (assignments p) i of
           None \<Rightarrow> p
         | Some a \<Rightarrow>
             let q = (case intersection r (a_range a) of
                        None \<Rightarrow> ByteRange_new (r_start (a_range a)) (r_start (a_range a))
                      | Some i \<Rightarrow> i)
             in if br_is_empty q then p
                else p\<lparr>completed := rs_insert (completed p) q, claimed := rs_insert (claimed p) q\<rparr>))"

text \<open>The release loop of \<open>finish_verified\<close> and \<open>abandon\<close>: the parts of the assignment that are
  still gaps of \<open>completed\<close> leave \<open>claimed\<close>.\<close>

definition unverified_parts :: "range_set \<Rightarrow> byte_range \<Rightarrow> byte_range list" where
  "unverified_parts compl r =
     List.map_filter (\<lambda>gap. intersection gap r) (gaps compl (r_end r))"

definition finish_verified :: "segment_plan \<Rightarrow> assign_id \<Rightarrow> assignment option \<times> segment_plan" where
  "finish_verified p i =
     (case sm_get (assignments p) i of
        None \<Rightarrow> (None, p)
      | Some a \<Rightarrow>
          let compl = foldl rs_insert (completed p) (ranges (committed_ranges a));
              clm = foldl rs_insert (claimed p) (ranges (committed_ranges a));
              clm' = (if r_end (a_range a) \<noteq> u64_MAX
                      then foldl rs_remove clm
                        (filter (\<lambda>u. \<not> br_is_empty u) (unverified_parts compl (a_range a)))
                      else clm)
          in (Some a, p\<lparr>completed := compl, claimed := clm',
                        assignments := sm_remove i (assignments p)\<rparr>))"

definition finish :: "segment_plan \<Rightarrow> assign_id \<Rightarrow> assignment option \<times> segment_plan" where
  "finish p i = finish_verified p i"

definition abandon :: "segment_plan \<Rightarrow> assign_id \<Rightarrow> assignment option \<times> segment_plan" where
  "abandon p i =
     (case sm_get (assignments p) i of
        None \<Rightarrow> (None, p)
      | Some a \<Rightarrow>
          (Some a, p\<lparr>claimed := (if r_end (a_range a) \<noteq> u64_MAX
                        then foldl rs_remove (claimed p) (unverified_parts (completed p) (a_range a))
                        else claimed p),
                      assignments := sm_remove i (assignments p)\<rparr>))"

definition plan_invalidate :: "segment_plan \<Rightarrow> byte_range \<Rightarrow> segment_plan" where
  "plan_invalidate p r = p\<lparr>completed := rs_remove (completed p) r, claimed := rs_remove (claimed p) r\<rparr>"

section \<open>Stragglers\<close>

definition rate_stats :: "(f64 \<Rightarrow> f64) \<Rightarrow> segment_plan \<Rightarrow> ewma_var" where
  "rate_stats fexp p =
     foldl (\<lambda>agg a. ewma_var_observe fexp agg (ev_mean (a_rate a)) 1000000000)
       (ewma_var_new 4000000000) (filter (\<lambda>a. is_warm (a_rate a)) (map snd (assignments p)))"

definition fleet_stats :: "segment_plan \<Rightarrow> (f64 \<times> f64) option" where
  "fleet_stats p =
     (let rates = map (\<lambda>a. ev_mean (a_rate a)) (filter (\<lambda>a. is_warm (a_rate a)) (map snd (assignments p)))
      in if rates = [] then None
         else
           let n = f64_of_nat (length rates);
               mean = f64_div (foldl f64_add (Fin 0) rates) n;
               var = f64_div (foldl f64_add (Fin 0)
                       (map (\<lambda>r. f64_mul (f64_sub r mean) (f64_sub r mean)) rates)) n
           in Some (mean, f64_sqrt (f64_max var (Fin 0))))"

definition is_straggler :: "segment_plan \<Rightarrow> f64 \<Rightarrow> f64 \<Rightarrow> instant \<Rightarrow> assignment \<Rightarrow> bool" where
  "is_straggler p fleet_mean fleet_sd now a =
     (if now - a_started a < straggler_grace (cfg p) then False
      else if \<not> is_warm (a_rate a) then False
      else if a_remaining a < tail_min_piece (cfg p) then False
      else
        let m = ev_mean (a_rate a);
            z = (if f64_lt fleet_sd (f64_round (1 / 1000000000))
                 then (if f64_lt m (f64_mul fleet_mean (Fin (1 / 2))) then Fin 4 else Fin 0)
                 else f64_div (f64_sub fleet_mean m) fleet_sd);
            below_share = f64_lt m (f64_mul fleet_mean (straggler_share (cfg p)))
        in f64_le (straggler_z (cfg p)) z \<or> below_share)"

definition stragglers :: "segment_plan \<Rightarrow> instant \<Rightarrow> assign_id list" where
  "stragglers p now =
     (if length (assignments p) < 2 then []
      else
        (case fleet_stats p of
           None \<Rightarrow> []
         | Some (mean, sd) \<Rightarrow>
             map fst (filter (\<lambda>ka. is_straggler p mean sd now (snd ka)) (assignments p))))"

definition stalled :: "segment_plan \<Rightarrow> instant \<Rightarrow> duration \<Rightarrow> assign_id list" where
  "stalled p now limit = map fst (filter (\<lambda>ka. now - last_progress (snd ka) > limit) (assignments p))"

text \<open>The inner loop of \<open>rebalance_stragglers\<close> over the completed ranges: it returns the claimed
  set and the position behind the last completed range it met.\<close>

fun release_tail :: "byte_range list \<Rightarrow> u64 \<Rightarrow> u64 \<Rightarrow> range_set \<Rightarrow> u64 \<times> range_set" where
  "release_tail [] pos e clm = (pos, clm)"
| "release_tail (c # cs) pos e clm =
     (if r_end c \<le> pos then release_tail cs pos e clm
      else if r_start c \<ge> e then (pos, clm)
      else
        let clm' = (if r_start c > pos then rs_remove clm (ByteRange_new pos (min (r_start c) e)) else clm);
            pos' = max pos (r_end c)
        in if pos' \<ge> e then (pos', clm') else release_tail cs pos' e clm')"

definition keep_len :: "segment_plan \<Rightarrow> assignment \<Rightarrow> u64" where
  "keep_len p a =
     max (max (f64_to_u64 (f64_mul (f64_max (ev_mean (a_rate a)) Rate_FLOOR)
                 (as_secs_f64 (piece_duration p))))
           (min_piece (cfg p)))
         (tail_min_piece (cfg p))"

definition rebalance_one :: "segment_plan \<Rightarrow> assign_id \<Rightarrow> (assign_id \<times> u64) option \<times> segment_plan" where
  "rebalance_one p i =
     (case sm_get (assignments p) i of
        None \<Rightarrow> (None, p)
      | Some a \<Rightarrow>
          if \<not> is_warm (a_rate a) then (None, p)
          else
            let keep = keep_len p a;
                cur = cursor a;
                e = r_end (a_range a);
                remaining = saturating_sub e cur
            in if remaining \<le> saturating_mul keep 2 then (None, p)
               else
                 let new_end = min (align_up (cur + keep) (alignment (cfg p))) e
                 in if new_end \<ge> e \<or> new_end \<le> cur then (None, p)
                    else
                      let (pos, clm) = release_tail (ranges (completed p)) new_end e (claimed p);
                          clm' = (if pos < e then rs_remove clm (ByteRange_new pos e) else clm)
                      in (Some (i, new_end),
                          p\<lparr>claimed := clm',
                            assignments := sm_update i
                              (\<lambda>a. a\<lparr>a_range := ByteRange_new (r_start (a_range a)) new_end,
                                     truncated := True\<rparr>) (assignments p)\<rparr>))"

fun rebalance_loop :: "assign_id list \<Rightarrow> segment_plan \<Rightarrow> (assign_id \<times> u64) list \<times> segment_plan" where
  "rebalance_loop [] p = ([], p)"
| "rebalance_loop (i # is) p =
     (let (cutp, q) = rebalance_one p i; (cuts, r) = rebalance_loop is q
      in ((case cutp of None \<Rightarrow> cuts | Some c \<Rightarrow> c # cuts), r))"

definition rebalance_stragglers :: "segment_plan \<Rightarrow> instant \<Rightarrow> (assign_id \<times> u64) list \<times> segment_plan" where
  "rebalance_stragglers p now =
     (if length (assignments p) < 2 then ([], p) else rebalance_loop (stragglers p now) p)"

definition plan_eta :: "segment_plan \<Rightarrow> rate \<Rightarrow> duration option option" where
  "plan_eta p spare =
     (case plan_total p of
        None \<Rightarrow> Some None
      | Some tot \<Rightarrow>
          if saturating_sub tot (covered (completed p)) = 0 then Some (Some 0)
          else
            let etas = map (\<lambda>ka. a_eta (snd ka)) (assignments p);
                unclaimed = sum_len (gaps (claimed p) tot)
            in if None \<in> set etas then None
               else
                 (case time_for spare unclaimed of
                    None \<Rightarrow> None
                  | Some ue \<Rightarrow>
                      Some (Some (max (case max_opt (map the etas) of None \<Rightarrow> 0 | Some m \<Rightarrow> m) ue))))"

text \<open>\<open>assert_invariants\<close> of the plan.\<close>

definition plan_assert_invariants :: "segment_plan \<Rightarrow> bool" where
  "plan_assert_invariants p \<longleftrightarrow>
     assert_normalized (completed p) \<and> assert_normalized (claimed p) \<and>
     (\<forall>(i, a)\<in>set (assignments p).
        (destination_committed a \<le> br_len (a_range a) \<or> r_end (a_range a) = u64_MAX) \<and>
        (r_end (a_range a) \<noteq> u64_MAX \<longrightarrow>
           contains_range (claimed p)
             (ByteRange_new (r_start (a_range a)) (max (cursor a) (r_start (a_range a)))))) \<and>
     (\<forall>r\<in>set (ranges (completed p)). contains_range (claimed p) r)"

end
