(* ===== verification/Segment_Inv.thy ===== *)
theory Segment_Inv
  imports Segment
begin

text \<open>
  The ownership invariant of a segmented plan (known length, range-capable source): every
  claimed byte is verified, or owned by exactly one running assignment, or parked by exactly
  one deferred entry, and every owned or parked byte is claimed. All operations the controller
  performs keep it, so two workers never own the same byte and no byte is lost.
\<close>

section \<open>Slot maps\<close>

definition fresh_slot :: "slot \<Rightarrow> segment_plan \<Rightarrow> bool" where
  "fresh_slot slot p \<longleftrightarrow> fst slot \<notin> fst ` set (assignments p)"

text \<open>The interface of the arena as the plan uses it, stated on any key/value store; the clients'
  facts about a looked-up, updated or removed element are proved from it.\<close>

locale key_store =
  fixes get :: "'m \<Rightarrow> 'k \<Rightarrow> 'v option" and insert_at :: "'k \<times> 'pos \<Rightarrow> 'v \<Rightarrow> 'm \<Rightarrow> 'm"
    and remove :: "'k \<Rightarrow> 'm \<Rightarrow> 'm" and update :: "'k \<Rightarrow> ('v \<Rightarrow> 'v) \<Rightarrow> 'm \<Rightarrow> 'm"
    and ok :: "'m \<Rightarrow> bool"
  assumes get_insert: "ok m \<Longrightarrow> get m (fst s) = None \<Longrightarrow>
      get (insert_at s v m) k = (if k = fst s then Some v else get m k)"
    and get_remove: "ok m \<Longrightarrow> get (remove j m) k = (if k = j then None else get m k)"
    and get_update: "ok m \<Longrightarrow> get (update j f m) k = (if k = j then map_option f (get m k) else get m k)"
    and ok_insert: "ok m \<Longrightarrow> get m (fst s) = None \<Longrightarrow> ok (insert_at s v m)"
    and ok_remove: "ok m \<Longrightarrow> ok (remove j m)"
    and ok_update: "ok m \<Longrightarrow> ok (update j f m)"
begin

lemma insert_then_update:
  "ok m \<Longrightarrow> get m (fst s) = None \<Longrightarrow> get (update (fst s) f (insert_at s v m)) (fst s) = Some (f v)"
  by (simp add: get_update get_insert ok_insert)

lemma insert_then_remove:
  "ok m \<Longrightarrow> get m (fst s) = None \<Longrightarrow> get (remove (fst s) (insert_at s v m)) k = get m k"
  by (simp add: get_remove get_insert ok_insert)

lemmas store_laws = get_insert get_remove get_update ok_insert ok_remove ok_update

end

definition keys_ok :: "('k \<times> 'v) list \<Rightarrow> bool" where
  "keys_ok m \<longleftrightarrow> distinct (map fst m)"

lemma sm_get_split:
  assumes "keys_ok m" and "sm_get m k = Some v"
  obtains A B where "m = A @ (k, v) # B" and "k \<notin> fst ` set A" and "k \<notin> fst ` set B"
proof -
  have "(k, v) \<in> set m" using assms(2) by (auto simp: sm_get_def dest: map_of_SomeD)
  then obtain A B where m: "m = A @ (k, v) # B" by (auto simp: in_set_conv_decomp)
  then show thesis using assms(1) that by (auto simp: keys_ok_def)
qed

lemma sm_update_notin: "k \<notin> fst ` set A \<Longrightarrow> sm_update k f A = A"
  by (induction A) (auto simp: sm_update_def)

lemma sm_remove_notin: "k \<notin> fst ` set A \<Longrightarrow> sm_remove k A = A"
  by (induction A) (auto simp: sm_remove_def)

lemma sm_append:
  "sm_update k f (A @ B) = sm_update k f A @ sm_update k f B"
  "sm_remove k (A @ B) = sm_remove k A @ sm_remove k B"
  "sm_update k f ((j, v) # B) = (j, if j = k then f v else v) # sm_update k f B"
  "sm_remove k ((j, v) # B) = (if j = k then sm_remove k B else (j, v) # sm_remove k B)"
  by (simp_all add: sm_update_def sm_remove_def)

lemma sm_decomp:
  assumes "k \<notin> fst ` set A" and "k \<notin> fst ` set B"
  shows "sm_update k f (A @ (k, v) # B) = A @ (k, f v) # B" and "sm_remove k (A @ (k, v) # B) = A @ B"
    and "sm_get (A @ (k, v) # B) k = Some v"
  using assms by (simp_all add: sm_append sm_update_notin sm_remove_notin sm_get_def map_add_def
      map_of_eq_None_iff [THEN iffD2])

lemma sm_update_missing: "sm_get m k = None \<Longrightarrow> sm_update k f m = m"
  by (rule sm_update_notin) (simp add: sm_get_def map_of_eq_None_iff)

lemma sm_keys [simp]:
  "fst ` set (sm_update k f m) = fst ` set m"
  "keys_ok (sm_update k f m) \<longleftrightarrow> keys_ok m"
  "map fst (sm_update k f m) = map fst m"
  by (auto simp: sm_update_def keys_ok_def comp_def case_prod_beta image_image)

lemma sm_insert_split:
  obtains A B where "m = A @ B" and "sm_insert s v m = A @ (fst s, v) # B"
  using that [of "take (snd s) m" "drop (snd s) m"] by (simp add: sm_insert_def)

interpretation assign_store: key_store sm_get sm_insert sm_remove sm_update keys_ok
proof
  fix m :: "('a \<times> 'b) list" and s :: "'a \<times> nat" and v k j f
  assume ok: "keys_ok m"
  show "sm_get (sm_update j f m) k = (if k = j then map_option f (sm_get m k) else sm_get m k)"
    by (induction m) (auto simp: sm_get_def sm_update_def)
  show "sm_get (sm_remove j m) k = (if k = j then None else sm_get m k)"
    by (induction m) (auto simp: sm_get_def sm_remove_def)
  show "keys_ok (sm_remove j m)" using ok
    by (auto simp: keys_ok_def sm_remove_def distinct_map inj_on_def)
  show "keys_ok (sm_update j f m)" using ok by simp
  assume new: "sm_get m (fst s) = None"
  obtain A B where m: "m = A @ B" and ins: "sm_insert s v m = A @ (fst s, v) # B"
    by (rule sm_insert_split)
  have notin: "fst s \<notin> fst ` set A" "fst s \<notin> fst ` set B"
    using new by (auto simp: m sm_get_def map_of_eq_None_iff)
  show "keys_ok (sm_insert s v m)" using ok notin by (simp add: ins keys_ok_def) (simp add: m)
  show "sm_get (sm_insert s v m) k = (if k = fst s then Some v else sm_get m k)"
    using sm_decomp(3) [OF notin, of v] unfolding ins
    by (auto simp: m sm_get_def map_add_def split: option.splits)
qed

section \<open>Owners\<close>

definition owners :: "segment_plan \<Rightarrow> byte_range list" where
  "owners p = map (\<lambda>ka. a_range (snd ka)) (assignments p) @ map d_range (deferred p)"

text \<open>\<open>range_ok\<close>: what holds of every owner; \<open>work_ok\<close>: of every running assignment.\<close>

definition range_ok :: "u64 \<Rightarrow> byte_range \<Rightarrow> bool" where
  "range_ok tot r \<longleftrightarrow> r_start r \<le> r_end r \<and> r_end r \<le> tot"

definition work_ok :: "u64 \<Rightarrow> assignment \<Rightarrow> bool" where
  "work_ok tot a \<longleftrightarrow> range_ok tot (a_range a) \<and> normalized (committed_ranges a) \<and>
     rs_set (committed_ranges a) \<subseteq> {0..<tot}"

definition seg_inv :: "u64 \<Rightarrow> segment_plan \<Rightarrow> bool" where
  "seg_inv tot p \<longleftrightarrow>
     plan_total p = Some tot \<and> \<not> single_stream p \<and> tot \<noteq> u64_MAX \<and>
     normalized (completed p) \<and> normalized (claimed p) \<and>
     rs_set (completed p) \<subseteq> {0..<tot} \<and>
     keys_ok (assignments p) \<and>
     (\<forall>(i, a)\<in>set (assignments p). work_ok tot a) \<and>
     (\<forall>d\<in>set (deferred p). range_ok tot (d_range d) \<and> \<not> br_is_empty (d_range d)) \<and>
     disjoint_ranges (owners p) \<and>
     list_set (owners p) \<subseteq> rs_set (claimed p) \<and>
     rs_set (claimed p) \<subseteq> rs_set (completed p) \<union> list_set (owners p)"

lemma seg_invD:
  assumes "seg_inv tot p"
  shows "plan_total p = Some tot" "\<not> single_stream p" "tot \<noteq> u64_MAX"
    "normalized (completed p)" "normalized (claimed p)" "rs_set (completed p) \<subseteq> {0..<tot}"
    "keys_ok (assignments p)" "\<And>i a. (i, a) \<in> set (assignments p) \<Longrightarrow> work_ok tot a"
    "\<And>d. d \<in> set (deferred p) \<Longrightarrow> range_ok tot (d_range d) \<and> \<not> br_is_empty (d_range d)"
    "disjoint_ranges (owners p)" "list_set (owners p) \<subseteq> rs_set (claimed p)"
    "rs_set (claimed p) \<subseteq> rs_set (completed p) \<union> list_set (owners p)"
  using assms by (auto simp: seg_inv_def)

lemma range_ok_not_MAX: "range_ok tot r \<Longrightarrow> tot \<noteq> u64_MAX \<Longrightarrow> r_end r \<noteq> u64_MAX"
  by (metis range_ok_def word_n1_ge antisym)

lemma owners_within: "seg_inv tot p \<Longrightarrow> list_set (owners p) \<subseteq> {0..<tot}"
  by (fastforce simp: owners_def list_set_def br_set_def work_ok_def range_ok_def
      dest: seg_invD(8,9))

lemma claimed_within: "seg_inv tot p \<Longrightarrow> rs_set (claimed p) \<subseteq> {0..<tot}"
  using owners_within seg_invD(6,12) by blast

text \<open>Replacing one assignment by another value leaves an invariant state when the new range is
  within the old one and the claimed set follows.\<close>

lemma owners_split:
  assumes "assignments p = A @ (i, a) # B"
  shows "owners p = map (\<lambda>ka. a_range (snd ka)) A @ a_range a #
    (map (\<lambda>ka. a_range (snd ka)) B @ map d_range (deferred p))"
  by (simp add: owners_def assms)

lemma seg_inv_same_range:
  assumes "seg_inv tot p" and "\<And>a. (i, a) \<in> set (assignments p) \<Longrightarrow> a_range (f a) = a_range a \<and> work_ok tot (f a)"
  shows "seg_inv tot (p\<lparr>assignments := sm_update i f (assignments p)\<rparr>)"
proof -
  have "owners (p\<lparr>assignments := sm_update i f (assignments p)\<rparr>) = owners p"
    using assms(2) by (auto simp: owners_def sm_update_def)
  moreover have "work_ok tot b" if "(j, b) \<in> set (sm_update i f (assignments p))" for j b
    using that assms(2) seg_invD(8) [OF assms(1)] by (auto simp: sm_update_def split: if_splits)
  ultimately show ?thesis using assms(1) by (auto simp: seg_inv_def)
qed

section \<open>Claiming keeps the invariant\<close>

lemma word_Suc_le: "(s :: 'a::len word) < e \<Longrightarrow> s + 1 \<le> e \<and> s < s + 1"
proof -
  assume lt: "s < e"
  then have "unat s < unat e" by (simp add: word_less_nat_alt)
  with unat_less_exp [of e] have "Suc (unat s) < 2 ^ LENGTH('a)" by linarith
  then have "unat (s + 1) = Suc (unat s)" by (simp add: unat_word_ariths)
  with lt show ?thesis by (simp add: word_less_nat_alt word_le_nat_alt)
qed

lemma snap_end_within:
  assumes "r_start gap < r_end gap" and "r_end gap \<le> tot" and r_def: "r = snap_end (truncated_to gap n) al tot"
  shows "r_start r = r_start gap" and "r_start r < r_end r" and "r_end r \<le> r_end gap"
proof -
  have s: "r_start gap + 1 \<le> r_end gap" "r_start gap < r_start gap + 1"
    using word_Suc_le [OF assms(1)] by auto
  show "r_start r = r_start gap" by (simp add: r_def snap_end_def truncated_to_def Let_def)
  show "r_start r < r_end r"
    using s assms(1,2) by (simp add: r_def snap_end_def truncated_to_def Let_def less_max_iff_disj)
  show "r_end r \<le> r_end gap"
    using s by (auto simp: r_def snap_end_def truncated_to_def Let_def min_le_iff_disj)
qed

lemma next_claimable_gap_first_gap:
  "next_claimable_gap_from p tot now pos = Some g \<Longrightarrow> \<exists>q. first_gap (claimed p) q tot = Some g"
proof (induction p tot now pos rule: next_claimable_gap_from.induct)
  case (1 p tot now pos)
  show ?case
    using "1.prems" "1.IH" by (subst (asm) next_claimable_gap_from.simps)
      (auto simp: Let_def split: if_splits option.splits)
qed

lemma next_claimable_gap_unclaimed:
  assumes "normalized (claimed p)" and "next_claimable_gap p tot now = Some g"
  shows "r_start g < r_end g" and "r_end g \<le> tot" and "br_set g \<inter> rs_set (claimed p) = {}"
proof -
  obtain q where "first_gap (claimed p) q tot = Some g"
    using next_claimable_gap_first_gap assms(2) unfolding next_claimable_gap_def by blast
  with first_gap_correct [OF assms(1), of q tot]
  show "r_start g < r_end g" and "r_end g \<le> tot" and "br_set g \<inter> rs_set (claimed p) = {}"
    by (auto simp: is_first_gap_def)
qed

lemma owners_insert:
  assumes "assignments q = sm_insert slot a (assignments p)" and "deferred q = deferred p"
  obtains A B where "owners p = A @ B" and "owners q = A @ a_range a # B"
proof -
  obtain A B where "assignments p = A @ B" and "assignments q = A @ (fst slot, a) # B"
    using sm_insert_split [of "assignments p" slot a] assms(1) by metis
  then show thesis
    using that [of "map (\<lambda>ka. a_range (snd ka)) A" "map (\<lambda>ka. a_range (snd ka)) B @ map d_range (deferred p)"]
      assms(2) by (simp add: owners_def)
qed

text \<open>A new owner on bytes nobody owned.\<close>

lemma seg_inv_push:
  assumes inv: "seg_inv tot p" and slot: "fresh_slot slot p"
    and r: "range_ok tot (a_range a)" "br_set (a_range a) \<inter> list_set (owners p) = {}"
    and a: "committed_ranges a = rs_new"
  shows "seg_inv tot (p\<lparr>claimed := rs_insert (claimed p) (a_range a),
                        assignments := sm_insert slot a (assignments p)\<rparr>)" (is "seg_inv tot ?q")
proof -
  obtain A B where own: "owners p = A @ B" "owners ?q = A @ a_range a # B"
    by (rule owners_insert [of ?q slot a p]) simp_all
  have "disjoint_ranges (owners ?q)"
    using seg_invD(10) [OF inv] r(2) by (simp add: own disjoint_ranges_insert)
  moreover have "list_set (owners ?q) = list_set (owners p) \<union> br_set (a_range a)"
    by (auto simp: own)
  moreover have "keys_ok (sm_insert slot a (assignments p))"
    by (rule assign_store.ok_insert [OF seg_invD(7) [OF inv]])
      (use slot in \<open>simp add: fresh_slot_def sm_get_def map_of_eq_None_iff\<close>)
  moreover have "work_ok tot b" if "(j, b) \<in> set (sm_insert slot a (assignments p))" for j b
    using that seg_invD(8) [OF inv] r(1) a
    by (auto simp: sm_insert_def work_ok_def dest: in_set_takeD in_set_dropD)
  ultimately show ?thesis
    using inv by (auto simp: seg_inv_def)
qed

lemma seg_inv_fresh:
  assumes inv: "seg_inv tot p" and slot: "fresh_slot slot p"
    and gap: "next_claimable_gap p tot now = Some gap"
    and q: "push_assignment slot p (snap_end (truncated_to gap n) al tot) now ov = (i, q)"
  shows "seg_inv tot (q\<lparr>assignments := sm_update i (\<lambda>a. a\<lparr>a_attempt := att\<rparr>) (assignments q)\<rparr>)"
proof -
  define r where "r = snap_end (truncated_to gap n) al tot"
  note g = next_claimable_gap_unclaimed [OF seg_invD(5) [OF inv] gap]
  note w = snap_end_within [OF g(1,2) r_def]
  have ok: "range_ok tot r" using w g(2) by (auto simp: range_ok_def)
  have "br_set r \<subseteq> br_set gap" using w by (auto simp: br_set_def)
  then have "br_set r \<inter> list_set (owners p) = {}" using g(3) seg_invD(11) [OF inv] by blast
  then have "seg_inv tot q"
    using seg_inv_push [OF inv slot, of "new_assignment r now ov"] ok q
      range_ok_not_MAX [OF ok seg_invD(3) [OF inv]]
    by (auto simp: push_assignment_def new_assignment_def r_def [symmetric])
  then show ?thesis
    by (rule seg_inv_same_range)
      (use seg_invD(8) [OF \<open>seg_inv tot q\<close>, of i] in \<open>simp add: work_ok_def\<close>)
qed

text \<open>Stealing: the victim keeps the front, the new assignment owns the tail.\<close>

lemma cursor_bounds:
  assumes "normalized (committed_ranges a)" and "r_start (a_range a) \<le> r_end (a_range a)"
  shows "r_start (a_range a) \<le> cursor a" and "cursor a \<le> r_end (a_range a)"
  using first_gap_correct [OF assms(1), of "r_start (a_range a)" "r_end (a_range a)"] assms(2)
  by (auto simp: cursor_def is_first_gap_def split: option.splits)

lemma max_by_key_mem: "max_by_key f xs = Some x \<Longrightarrow> x \<in> set xs"
proof (cases xs)
  case (Cons y ys)
  have "foldl (\<lambda>best z. if f z \<ge> f best then z else best) b zs \<in> insert b (set zs)" for b zs
    by (induction zs arbitrary: b) (auto split: if_splits)
  moreover assume "max_by_key f xs = Some x"
  ultimately show ?thesis using Cons by auto
qed simp

lemma plan_steal_SomeD:
  assumes "plan_steal p est now = Some (Some (victim, c))"
  obtains a where "(victim, a) \<in> set (assignments p)" and "\<not> truncated a"
    and "cursor a < c" and "c < r_end (a_range a)"
proof -
  let ?xs = "filter (\<lambda>ka. now - a_started (snd ka) \<ge> straggler_grace (cfg p))
            (filter (\<lambda>ka. \<not> truncated (snd ka)) (assignments p))"
  obtain v a where m: "max_by_key (\<lambda>ka. steal_key est (snd ka)) ?xs = Some (v, a)"
    using assms by (auto simp: plan_steal_def split: option.splits)
  have "v = victim" "cursor a < c" "c < r_end (a_range a)"
    using assms m by (auto simp: plan_steal_def Let_def split: option.splits if_splits)
  moreover have "(v, a) \<in> set ?xs" using m by (rule max_by_key_mem)
  ultimately show thesis using that by auto
qed

lemma seg_inv_steal:
  assumes inv: "seg_inv tot p" and slot: "fresh_slot slot p"
    and v: "sm_get (assignments p) victim = Some v" and c: "cursor v < c" "c < r_end (a_range v)"
    and p1: "p1 = p\<lparr>assignments := sm_update victim
          (\<lambda>a. a\<lparr>a_range := ByteRange_new (r_start (a_range v)) c, truncated := True\<rparr>) (assignments p)\<rparr>"
    and q: "push_assignment slot p1 (ByteRange_new c (r_end (a_range v))) now 0 = (i, q)"
  shows "seg_inv tot q"
proof -
  obtain A B where m: "assignments p = A @ (victim, v) # B"
    and notin: "victim \<notin> fst ` set A" "victim \<notin> fst ` set B"
    using sm_get_split [OF seg_invD(7) [OF inv] v] .
  have vok: "work_ok tot v" using seg_invD(8) [OF inv, of victim v] by (simp add: m)
  have start: "r_start (a_range v) \<le> c"
    using cursor_bounds [of v] vok c(1) by (auto simp: work_ok_def range_ok_def)
  define v' where "v' = v\<lparr>a_range := ByteRange_new (r_start (a_range v)) c, truncated := True\<rparr>"
  define A' B' where "A' = map (\<lambda>ka. a_range (snd ka)) A"
    and "B' = map (\<lambda>ka. a_range (snd ka)) B @ map d_range (deferred p)"
  have as1: "assignments p1 = A @ (victim, v') # B" by (simp add: p1 m sm_decomp [OF notin] v'_def)
  have own: "owners p = A' @ a_range v # B'" "owners p1 = A' @ a_range v' # B'"
    using owners_split [OF m] owners_split [OF as1] by (simp_all add: A'_def B'_def p1)
  have parts: "br_set (a_range v) = br_set (a_range v') \<union> {c..<r_end (a_range v)}"
    using start c(2) by (auto simp: v'_def br_set_def)
  let ?new = "new_assignment (ByteRange_new c (r_end (a_range v))) now 0"
  obtain L R where own_q: "owners p1 = L @ R" "owners q = L @ a_range ?new # R"
    by (rule owners_insert [of q slot ?new p1]) (use q in \<open>auto simp: push_assignment_def\<close>)
  have new_range: "a_range ?new = ByteRange_new c (r_end (a_range v))" by (simp add: new_assignment_def)
  have dis: "disjoint_ranges (owners p1)" "br_set (a_range v) \<inter> list_set (A' @ B') = {}"
    using seg_invD(10) [OF inv] parts unfolding own disjoint_ranges_insert by blast+
  have "br_set (a_range ?new) \<inter> list_set (owners p1) = {}"
    using dis(2) parts by (auto simp: own new_range v'_def)
  then have "disjoint_ranges (owners q)"
    using dis(1) unfolding own_q disjoint_ranges_insert by simp
  moreover have "list_set (owners q) = list_set (owners p)"
  proof -
    have "list_set (owners q) = list_set (owners p1) \<union> {c..<r_end (a_range v)}"
      by (auto simp: own_q new_range)
    also have "\<dots> = list_set (owners p)" using parts by (auto simp: own)
    finally show ?thesis .
  qed
  moreover have "r_end (a_range v) \<noteq> u64_MAX"
    using vok range_ok_not_MAX seg_invD(3) [OF inv] by (auto simp: work_ok_def)
  then have claimed: "claimed q = rs_insert (claimed p) (ByteRange_new c (r_end (a_range v)))"
    using q by (auto simp: push_assignment_def p1)
  moreover have "{c..<r_end (a_range v)} \<subseteq> rs_set (claimed p)"
    using parts seg_invD(11) [OF inv] by (auto simp: own)
  moreover have "keys_ok (assignments q)"
  proof -
    have "assignments q = sm_insert slot ?new (assignments p1)"
      using q by (auto simp: push_assignment_def)
    moreover have "keys_ok (assignments p1)" "fst slot \<notin> fst ` set (assignments p1)"
      using seg_invD(7) [OF inv] slot by (simp_all add: p1 fresh_slot_def)
    ultimately show ?thesis
      using assign_store.ok_insert [of "assignments p1" slot ?new]
      by (simp add: sm_get_def map_of_eq_None_iff)
  qed
  moreover have "work_ok tot b" if "(j, b) \<in> set (assignments q)" for j b
  proof -
    have "(j, b) \<in> set (assignments p1) \<or> b = ?new"
      using that q by (auto simp: push_assignment_def sm_insert_def dest: in_set_takeD in_set_dropD)
    moreover have "work_ok tot ?new" "work_ok tot v'"
      using vok c start by (auto simp: work_ok_def range_ok_def new_assignment_def v'_def)
    moreover have "work_ok tot b" if "(j, b) \<in> set A \<union> set B" for j b
      using that seg_invD(8) [OF inv, of j b] by (auto simp: m)
    ultimately show ?thesis by (auto simp: as1)
  qed
  ultimately show ?thesis
    using inv q by (auto simp: seg_inv_def push_assignment_def p1)
qed

lemma seg_inv_claim:
  assumes inv: "seg_inv tot p" and slot: "fresh_slot slot p"
    and c: "claim_with slot p est now solo ps = Some (cl, q)"
  shows "seg_inv tot q"
proof -
  note tot = seg_invD(1,2) [OF inv]
  show ?thesis
  proof (cases "rs_is_complete (completed p) tot")
    case True
    then show ?thesis using c inv tot by (auto simp: claim_with_def)
  next
    case False
    then obtain piece where piece: "piece_len_for p est (tot - covered (completed p)) = Some piece"
      using c tot by (auto simp: claim_with_def split: option.splits)
    show ?thesis
    proof (cases "next_claimable_gap p tot now")
      case (Some gap)
      then show ?thesis
        using c tot False piece seg_inv_fresh [OF inv slot Some]
        by (auto simp: claim_with_def Let_def split: prod.splits)
    next
      case None
      show ?thesis
      proof (cases "cl = Saturated")
        case True
        then show ?thesis
          using c tot False piece None inv
          by (auto simp: claim_with_def Let_def split: prod.splits option.splits if_splits)
      next
        case nsat: False
        then obtain victim cutp v i q' where steal: "plan_steal p est now = Some (Some (victim, cutp))"
          and v: "sm_get (assignments p) victim = Some v"
          and push: "push_assignment slot (p\<lparr>assignments := sm_update victim
              (\<lambda>a. a\<lparr>a_range := ByteRange_new (r_start (a_range v)) cutp, truncated := True\<rparr>)
              (assignments p)\<rparr>) (ByteRange_new cutp (r_end (a_range v))) now 0 = (i, q)"
          using c tot False piece None
          by (auto simp: claim_with_def Let_def split: prod.splits option.splits if_splits)
        obtain a where a: "(victim, a) \<in> set (assignments p)" "cursor a < cutp" "cutp < r_end (a_range a)"
          using plan_steal_SomeD [OF steal] by blast
        have "a = v"
          using a(1) v seg_invD(7) [OF inv] by (simp add: keys_ok_def sm_get_def)
        then show ?thesis
          using seg_inv_steal [OF inv slot v _ _ refl push] a by blast
      qed
    qed
  qed
qed

section \<open>Reports keep the invariant\<close>

lemma seg_inv_reports:
  "seg_inv tot p \<Longrightarrow> seg_inv tot (on_wire_received p i n)"
  "seg_inv tot p \<Longrightarrow> seg_inv tot (on_submitted p i n)"
  unfolding on_wire_received_def on_submitted_def
  by (rule seg_inv_same_range; simp add: work_ok_def seg_inv_def; fastforce simp: work_ok_def)+

lemma intersection_default_set:
  "br_set (case intersection r q of None \<Rightarrow> ByteRange_new s s | Some i \<Rightarrow> i) = br_set r \<inter> br_set q"
  by (simp add: intersection_set split: option.splits)

lemma commit_assignment_ranges:
  "a_range (commit_assignment fexp r now a) = a_range a"
  "committed_ranges (commit_assignment fexp r now a) = rs_insert (committed_ranges a)
     (case intersection r (a_range a) of None \<Rightarrow> ByteRange_new (r_start (a_range a)) (r_start (a_range a))
      | Some i \<Rightarrow> i)"
  by (simp_all add: commit_assignment_def Let_def)

lemma range_ok_within: "range_ok tot r \<Longrightarrow> br_set r \<subseteq> {0..<tot}"
  by (auto simp: range_ok_def br_set_def intro: order.strict_trans2)

lemma seg_inv_committed:
  assumes inv: "seg_inv tot p"
  shows "seg_inv tot (on_destination_committed fexp p i r now)"
proof (cases "br_is_empty r")
  case False
  have "work_ok tot (commit_assignment fexp r now a)" if "work_ok tot a" for a
    using that range_ok_within [of tot "a_range a"] unfolding work_ok_def
    by (auto simp: commit_assignment_ranges intersection_default_set simp del: atLeastLessThan_iff)
  then have "seg_inv tot (p\<lparr>assignments := sm_update i (commit_assignment fexp r now) (assignments p)\<rparr>)"
    using seg_invD(8) [OF inv] by (intro seg_inv_same_range [OF inv]) (auto simp: commit_assignment_ranges)
  with False show ?thesis by (simp add: on_destination_committed_def)
qed (simp add: on_destination_committed_def inv)

lemma owners_get:
  assumes "seg_inv tot p" and "sm_get (assignments p) i = Some a"
  obtains L R where "owners p = L @ a_range a # R"
    and "\<And>c d. owners (p\<lparr>completed := c, claimed := d, assignments := sm_remove i (assignments p)\<rparr>) = L @ R"
    and "work_ok tot a" and "br_set (a_range a) \<inter> list_set (L @ R) = {}" and "disjoint_ranges (L @ R)"
proof -
  obtain A B where m: "assignments p = A @ (i, a) # B"
    and notin: "i \<notin> fst ` set A" "i \<notin> fst ` set B"
    using sm_get_split [OF seg_invD(7) [OF assms(1)] assms(2)] .
  let ?L = "map (\<lambda>ka. a_range (snd ka)) A" and ?R = "map (\<lambda>ka. a_range (snd ka)) B @ map d_range (deferred p)"
  have own: "owners p = ?L @ a_range a # ?R" by (rule owners_split [OF m])
  have own': "owners (p\<lparr>completed := c, claimed := d, assignments := sm_remove i (assignments p)\<rparr>) = ?L @ ?R" for c d
    by (simp add: owners_def m sm_decomp [OF notin])
  have "disjoint_ranges (?L @ ?R) \<and> br_set (a_range a) \<inter> list_set (?L @ ?R) = {}"
    using seg_invD(10) [OF assms(1)] unfolding own disjoint_ranges_insert .
  then show thesis
    using that [OF own own'] seg_invD(8) [OF assms(1), of i a] by (simp add: m)
qed

lemma on_response_verified_effect:
  assumes inv: "seg_inv tot p"
  shows "rs_set (completed (on_response_verified p i r)) =
      rs_set (completed p) \<union> (case sm_get (assignments p) i of None \<Rightarrow> {} | Some a \<Rightarrow> br_set r \<inter> br_set (a_range a))"
    and "seg_inv tot (on_response_verified p i r)"
proof -
  define S where "S = (case sm_get (assignments p) i of None \<Rightarrow> {} | Some a \<Rightarrow> br_set r \<inter> br_set (a_range a))"
  have sub: "S \<subseteq> list_set (owners p)" "S \<subseteq> {0..<tot}"
  proof -
    show "S \<subseteq> list_set (owners p)"
      by (auto simp: S_def sm_get_def owners_def list_set_def split: option.splits dest!: map_of_SomeD)
    then show "S \<subseteq> {0..<tot}" using owners_within [OF inv] by blast
  qed
  let ?q = "on_response_verified p i r"
  have same: "plan_total ?q = plan_total p" "single_stream ?q = single_stream p"
    "assignments ?q = assignments p" "deferred ?q = deferred p" "owners ?q = owners p"
    by (simp_all add: on_response_verified_def Let_def owners_def split: option.splits)
  have sets: "rs_set (completed ?q) = rs_set (completed p) \<union> S" "rs_set (claimed ?q) = rs_set (claimed p) \<union> S"
    "normalized (completed ?q)" "normalized (claimed ?q)"
    using seg_invD(4,5) [OF inv]
    by (cases "sm_get (assignments p) i"; auto simp: on_response_verified_def S_def Let_def
        br_is_empty_iff intersection_default_set)+
  show "rs_set (completed ?q) = rs_set (completed p) \<union>
      (case sm_get (assignments p) i of None \<Rightarrow> {} | Some a \<Rightarrow> br_set r \<inter> br_set (a_range a))"
    using sets(1) by (simp add: S_def)
  show "seg_inv tot ?q"
    using inv sub unfolding seg_inv_def same sets(1,2) by (simp add: sets(3,4)) blast
qed

section \<open>Finishing, abandoning and deferring keep the invariant\<close>

lemma unverified_parts_set:
  assumes "normalized compl"
  shows "list_set (unverified_parts compl r) = br_set r - rs_set compl"
proof -
  have "list_set (List.map_filter (\<lambda>gap. intersection gap r) gs) = list_set gs \<inter> br_set r" for gs
    by (induction gs) (auto simp: List.map_filter_simps Int_Un_distrib2 intersection_set split: option.splits)
  then show ?thesis
    using gaps_correct(1) [OF assms, of "r_end r"] by (auto simp: unverified_parts_def br_set_def)
qed

lemma list_set_nonempty: "list_set (filter (\<lambda>u. \<not> br_is_empty u) rs) = list_set rs"
  by (induction rs) (auto simp: br_is_empty_iff)

text \<open>An owner leaves: its bytes are verified or no longer claimed.\<close>

lemma seg_inv_leave:
  assumes inv: "seg_inv tot p" and a: "sm_get (assignments p) i = Some a"
    and compl: "normalized compl" "rs_set (completed p) \<subseteq> rs_set compl" "rs_set compl \<subseteq> {0..<tot}"
    and clm: "normalized clm" "rs_set clm = rs_set (claimed p) \<union> S - (br_set (a_range a) - rs_set compl)"
    and S: "S \<subseteq> rs_set compl"
  shows "seg_inv tot (p\<lparr>completed := compl, claimed := clm, assignments := sm_remove i (assignments p)\<rparr>)"
proof -
  obtain L R where own: "owners p = L @ a_range a # R"
    and own': "\<And>c d. owners (p\<lparr>completed := c, claimed := d, assignments := sm_remove i (assignments p)\<rparr>) = L @ R"
    and dis: "br_set (a_range a) \<inter> list_set (L @ R) = {}" "disjoint_ranges (L @ R)"
    using owners_get [OF inv a] by metis
  have "list_set (L @ R) \<subseteq> rs_set clm" "rs_set clm \<subseteq> rs_set compl \<union> list_set (L @ R)"
    using seg_invD(11,12) [OF inv] dis(1) S compl(2) by (auto simp: own clm(2))
  moreover have "keys_ok (sm_remove i (assignments p))"
    by (rule assign_store.ok_remove [OF seg_invD(7) [OF inv]])
  moreover have "set (sm_remove i (assignments p)) \<subseteq> set (assignments p)" by (auto simp: sm_remove_def)
  ultimately show ?thesis
    using inv dis(2) compl(1,3) clm(1) unfolding seg_inv_def own' by auto
qed

lemma finish_verified_effect:
  assumes inv: "seg_inv tot p"
  shows "seg_inv tot (snd (finish_verified p i))"
    and "rs_set (completed (snd (finish_verified p i))) = rs_set (completed p) \<union>
      (case sm_get (assignments p) i of None \<Rightarrow> {} | Some a \<Rightarrow> rs_set (committed_ranges a))"
proof -
  show "rs_set (completed (snd (finish_verified p i))) = rs_set (completed p) \<union>
      (case sm_get (assignments p) i of None \<Rightarrow> {} | Some a \<Rightarrow> rs_set (committed_ranges a))"
    using seg_invD(4) [OF inv] by (simp add: finish_verified_def Let_def rs_set_def [of "committed_ranges _"] split: option.splits)
  show "seg_inv tot (snd (finish_verified p i))"
  proof (cases "sm_get (assignments p) i")
    case None
    then show ?thesis using inv by (simp add: finish_verified_def)
  next
    case (Some a)
    then have "work_ok tot a" using seg_invD(8) [OF inv, of i a] by (simp add: sm_get_def map_of_SomeD)
    moreover from this have "r_end (a_range a) \<noteq> u64_MAX"
      using range_ok_not_MAX seg_invD(3) [OF inv] unfolding work_ok_def by blast
    ultimately show ?thesis
      using Some seg_invD(4,5,6) [OF inv]
      by (simp add: finish_verified_def Let_def,
          intro seg_inv_leave [OF inv Some, where S = "rs_set (committed_ranges a)"])
        (auto simp: work_ok_def unverified_parts_set list_set_nonempty rs_set_def [of "committed_ranges a"])
  qed
qed

lemma abandon_effect:
  assumes inv: "seg_inv tot p"
  shows "seg_inv tot (snd (abandon p i))" and "completed (snd (abandon p i)) = completed p"
    and "fst (abandon p i) = sm_get (assignments p) i"
proof -
  show "completed (snd (abandon p i)) = completed p" "fst (abandon p i) = sm_get (assignments p) i"
    by (simp_all add: abandon_def split: option.splits)
  show "seg_inv tot (snd (abandon p i))"
  proof (cases "sm_get (assignments p) i")
    case None
    then show ?thesis using inv by (simp add: abandon_def)
  next
    case (Some a)
    then have "work_ok tot a" using seg_invD(8) [OF inv, of i a] by (simp add: sm_get_def map_of_SomeD)
    then have "r_end (a_range a) \<noteq> u64_MAX"
      using range_ok_not_MAX seg_invD(3) [OF inv] unfolding work_ok_def by blast
    moreover have "seg_inv tot (p\<lparr>completed := completed p, claimed := foldl rs_remove (claimed p)
        (unverified_parts (completed p) (a_range a)), assignments := sm_remove i (assignments p)\<rparr>)"
      using seg_invD(4,5,6) [OF inv]
      by (intro seg_inv_leave [OF inv Some, where S = "{}"]) (auto simp: unverified_parts_set)
    ultimately show ?thesis using Some by (simp add: abandon_def)
  qed
qed

text \<open>Lines 3487 to 3492 of \<^verbatim>\<open>core/controller.rs\<close>: a failed assignment is abandoned, and its range is
  parked when the next attempt is within the budget.\<close>

definition abandon_and_defer :: "segment_plan \<Rightarrow> assign_id \<Rightarrow> instant \<Rightarrow> u32 \<Rightarrow> u32 \<Rightarrow> segment_plan" where
  "abandon_and_defer p i until nxt max_attempts =
     (case abandon p i of
        (Some a, q) \<Rightarrow> if nxt \<le> max_attempts then defer_range q (a_range a) until nxt else q
      | (None, q) \<Rightarrow> q)"

lemma seg_inv_defer:
  assumes inv: "seg_inv tot p" and r: "range_ok tot r" "br_set r \<inter> list_set (owners p) = {}"
  shows "seg_inv tot (defer_range p r until att)"
proof -
  have "list_set (A @ B @ [r]) = list_set (A @ B) \<union> br_set r" for A B by auto
  moreover have "disjoint_ranges (A @ B @ [r]) \<longleftrightarrow> disjoint_ranges (A @ B) \<and> br_set r \<inter> list_set (A @ B) = {}" for A B
    using disjoint_ranges_insert [of "A @ B" r "[]"] by simp
  ultimately show ?thesis
    using inv r range_ok_not_MAX [OF r(1) seg_invD(3) [OF inv]]
    by (auto simp: defer_range_def seg_inv_def owners_def)
qed

lemma abandon_and_defer_effect:
  assumes inv: "seg_inv tot p"
  shows "seg_inv tot (abandon_and_defer p i until nxt mx)"
    and "completed (abandon_and_defer p i until nxt mx) = completed p"
proof -
  show "completed (abandon_and_defer p i until nxt mx) = completed p"
    by (simp add: abandon_and_defer_def abandon_def defer_range_def split: option.splits)
  note ab = abandon_effect [OF inv, of i]
  show "seg_inv tot (abandon_and_defer p i until nxt mx)"
  proof (cases "sm_get (assignments p) i")
    case None
    then show ?thesis using inv by (simp add: abandon_and_defer_def abandon_def)
  next
    case (Some a)
    obtain L R where own': "owners (snd (abandon p i)) = L @ R" and "work_ok tot a"
      and dis: "br_set (a_range a) \<inter> list_set (L @ R) = {}"
    proof (rule owners_get [OF inv Some])
      fix L R
      assume "\<And>c d. owners (p\<lparr>completed := c, claimed := d, assignments := sm_remove i (assignments p)\<rparr>) = L @ R"
      then have "owners (snd (abandon p i)) = L @ R" using Some by (simp add: abandon_def owners_def)
      moreover assume "work_ok tot a" and "br_set (a_range a) \<inter> list_set (L @ R) = {}"
      ultimately show thesis by (rule that)
    qed
    then have "seg_inv tot (defer_range (snd (abandon p i)) (a_range a) until nxt)"
      by (intro seg_inv_defer ab(1)) (simp_all add: work_ok_def own')
    then show ?thesis
      using ab(1,3) Some by (auto simp: abandon_and_defer_def split: prod.splits option.splits)
  qed
qed

section \<open>Releasing deferred work keeps the invariant\<close>

lemma release_loop_result:
  assumes "\<forall>d\<in>set ds. r_end (d_range d) \<noteq> u64_MAX"
  shows "release_loop now ds clm mx keep =
    (foldl rs_remove clm (map d_range (filter (\<lambda>d. d_until d \<le> now) ds)),
     foldl max mx (map d_attempt (filter (\<lambda>d. d_until d \<le> now) ds)),
     keep @ filter (\<lambda>d. now < d_until d) ds)"
  using assms by (induction ds arbitrary: clm mx keep) (simp_all add: not_le)

lemma disjoint_ranges_filter:
  "disjoint_ranges (A @ map f ds) \<Longrightarrow>
     disjoint_ranges (A @ map f (filter P ds)) \<and>
     list_set (A @ map f (filter P ds)) \<inter> list_set (map f (filter (\<lambda>d. \<not> P d) ds)) = {}"
proof (induction ds rule: rev_induct)
  case (snoc d ds)
  then show ?case
    using disjoint_ranges_insert [of "A @ map f ds" "f d" "[]"]
      disjoint_ranges_insert [of "A @ map f (filter P ds)" "f d" "[]"]
    by (auto simp: list_set_def)
qed simp

lemma release_due_effect:
  assumes inv: "seg_inv tot p"
  shows "seg_inv tot (snd (release_due p now))"
    and "completed (snd (release_due p now)) = completed p"
    and "deferred (snd (release_due p now)) = filter (\<lambda>d. now < d_until d) (deferred p)"
proof -
  let ?A = "map (\<lambda>ka. a_range (snd ka)) (assignments p)"
    and ?due = "list_set (map d_range (filter (\<lambda>d. d_until d \<le> now) (deferred p)))"
  define clm where "clm = foldl rs_remove (claimed p) (map d_range (filter (\<lambda>d. d_until d \<le> now) (deferred p)))"
  define keep where "keep = filter (\<lambda>d. now < d_until d) (deferred p)"
  have noMAX: "\<forall>d\<in>set (deferred p). r_end (d_range d) \<noteq> u64_MAX"
    using seg_invD(9) [OF inv] range_ok_not_MAX seg_invD(3) [OF inv] by blast
  have out: "snd (release_due p now) = p\<lparr>claimed := clm, deferred := keep\<rparr>"
    by (simp add: release_due_def release_loop_result [OF noMAX] clm_def keep_def)
  have clm: "normalized clm" "rs_set clm = rs_set (claimed p) - ?due"
    using seg_invD(5) [OF inv] by (simp_all add: clm_def)
  show "completed (snd (release_due p now)) = completed p"
    and "deferred (snd (release_due p now)) = filter (\<lambda>d. now < d_until d) (deferred p)"
    by (simp_all add: out keep_def)
  have own: "owners p = ?A @ map d_range (deferred p)"
    "owners (p\<lparr>claimed := clm, deferred := keep\<rparr>) = ?A @ map d_range keep"
    by (simp_all add: owners_def)
  have dis: "disjoint_ranges (?A @ map d_range keep)" "list_set (?A @ map d_range keep) \<inter> ?due = {}"
    using disjoint_ranges_filter [of ?A d_range "deferred p" "\<lambda>d. now < d_until d"] seg_invD(10) [OF inv]
    by (simp_all add: own keep_def not_less)
  have split: "list_set (map d_range (deferred p)) = list_set (map d_range keep) \<union> ?due"
    by (auto simp: keep_def list_set_def not_le [symmetric])
  have "list_set (?A @ map d_range keep) \<subseteq> rs_set clm"
    "rs_set clm \<subseteq> rs_set (completed p) \<union> list_set (?A @ map d_range keep)"
    using seg_invD(11,12) [OF inv] dis(2) split by (auto simp: own clm(2))
  then show "seg_inv tot (snd (release_due p now))"
    using inv dis(1) clm(1) unfolding out seg_inv_def own(2) by (auto simp: keep_def)
qed

section \<open>Cutting stragglers keeps the invariant\<close>

lemma release_tail_correct:
  assumes "release_tail cs pos e clm = (pos', clm')" and "normalized clm" and "norm_list cs"
  shows "normalized (if pos' < e then rs_remove clm' (ByteRange_new pos' e) else clm')"
    and "rs_set (if pos' < e then rs_remove clm' (ByteRange_new pos' e) else clm') =
      rs_set clm - ({pos..<e} - list_set cs)"
proof -
  have "normalized (if pos' < e then rs_remove clm' (ByteRange_new pos' e) else clm') \<and>
    rs_set (if pos' < e then rs_remove clm' (ByteRange_new pos' e) else clm') =
      rs_set clm - ({pos..<e} - list_set cs)"
    using assms
  proof (induction cs pos e clm arbitrary: pos' clm' rule: release_tail.induct)
    case (1 pos e clm)
    then show ?case by auto
  next
    case (2 c cs pos e clm)
    have c: "r_start c < r_end c" "norm_list cs" and later: "\<forall>q\<in>set cs. r_end c < r_start q"
      using 2(5) by (auto simp: norm_list_simps)
    consider (below) "r_end c \<le> pos" | (above) "pos < r_end c" "e \<le> r_start c"
      | (hit) "pos < r_end c" "r_start c < e" by fastforce
    then show ?case
    proof cases
      case below
      then have "{pos..<e} - list_set (c # cs) = {pos..<e} - list_set cs" by (auto simp: br_set_def)
      moreover have "release_tail cs pos e clm = (pos', clm')" using below 2(3) by simp
      ultimately show ?thesis using 2(1) [OF below] 2(4) c(2) by presburger
    next
      case above
      have "{pos..<e} \<inter> list_set (c # cs) = {}"
        using above(2) c(1) later by (fastforce simp: list_set_def br_set_def)
      then have "{pos..<e} - list_set (c # cs) = {pos..<e}" by (rule Diff_triv)
      moreover have "pos' = pos" "clm' = clm" using above 2(3) by (simp_all add: not_le [symmetric])
      ultimately show ?thesis using 2(4) by (simp del: list_set_simps)
    next
      case hit
      have neg: "\<not> r_end c \<le> pos" "\<not> e \<le> r_start c" "max pos (r_end c) = r_end c"
        using hit by (auto simp: max_def)
      define clm1 where "clm1 = (if r_start c > pos then rs_remove clm (ByteRange_new pos (min (r_start c) e)) else clm)"
      have clm1: "normalized clm1" "rs_set clm1 = rs_set clm - {pos..<r_start c}"
        using 2(4) hit(2) by (auto simp: clm1_def min_absorb1)
      have step: "release_tail (c # cs) pos e clm =
          (if r_end c \<ge> e then (r_end c, clm1) else release_tail cs (r_end c) e clm1)"
        by (simp only: release_tail.simps neg if_False Let_def clm1_def [symmetric])
      show ?thesis
      proof (cases "r_end c \<ge> e")
        case True
        then have "{pos..<e} - list_set (c # cs) = {pos..<r_start c}"
          using hit later by (fastforce simp: list_set_def br_set_def)
        then show ?thesis using True 2(3) clm1 step by (auto simp: not_le)
      next
        case False
        have diff: "{pos..<e} - list_set (c # cs) = {pos..<r_start c} \<union> ({r_end c..<e} - list_set cs)"
          using hit False c(1) later by (fastforce simp: list_set_def br_set_def)
        have "release_tail cs (r_end c) e clm1 = (pos', clm')" using 2(3) step False by simp
        then have "normalized (if pos' < e then rs_remove clm' (ByteRange_new pos' e) else clm') \<and>
            rs_set (if pos' < e then rs_remove clm' (ByteRange_new pos' e) else clm') =
            rs_set clm1 - ({r_end c..<e} - list_set cs)"
          using 2(2) [OF neg(1,2) clm1_def, of "r_end c" pos' clm'] neg(3) False clm1(1) c(2) by presburger
        then show ?thesis unfolding diff clm1(2) by blast
      qed
    qed
  qed
  then show "normalized (if pos' < e then rs_remove clm' (ByteRange_new pos' e) else clm')"
    and "rs_set (if pos' < e then rs_remove clm' (ByteRange_new pos' e) else clm') =
      rs_set clm - ({pos..<e} - list_set cs)" by blast+
qed

text \<open>An owner gives up the tail \<open>[c, e)\<close> of its range.\<close>

lemma seg_inv_truncate:
  assumes inv: "seg_inv tot p" and a: "sm_get (assignments p) i = Some a"
    and c: "r_start (a_range a) \<le> c" "c \<le> r_end (a_range a)"
    and clm: "normalized clm" "rs_set clm = rs_set (claimed p) - ({c..<r_end (a_range a)} - rs_set (completed p))"
  shows "seg_inv tot (p\<lparr>claimed := clm, assignments := sm_update i
      (\<lambda>a. a\<lparr>a_range := ByteRange_new (r_start (a_range a)) c, truncated := True\<rparr>) (assignments p)\<rparr>)"
    (is "seg_inv tot ?q")
proof -
  obtain A B where m: "assignments p = A @ (i, a) # B"
    and notin: "i \<notin> fst ` set A" "i \<notin> fst ` set B"
    using sm_get_split [OF seg_invD(7) [OF inv] a] .
  define a' where "a' = a\<lparr>a_range := ByteRange_new (r_start (a_range a)) c, truncated := True\<rparr>"
  define L R where "L = map (\<lambda>ka. a_range (snd ka)) A"
    and "R = map (\<lambda>ka. a_range (snd ka)) B @ map d_range (deferred p)"
  have q: "assignments ?q = A @ (i, a') # B" by (simp add: m sm_decomp [OF notin] a'_def)
  have own: "owners p = L @ a_range a # R" "owners ?q = L @ a_range a' # R"
    using owners_split [OF m] owners_split [OF q] by (simp_all add: L_def R_def)
  have parts: "br_set (a_range a) = br_set (a_range a') \<union> {c..<r_end (a_range a)}"
    "br_set (a_range a') \<inter> {c..<r_end (a_range a)} = {}"
    using c by (auto simp: a'_def br_set_def)
  have dis: "br_set (a_range a) \<inter> list_set (L @ R) = {}" "disjoint_ranges (owners ?q)"
    using seg_invD(10) [OF inv] parts(1) unfolding own disjoint_ranges_insert by blast+
  have "list_set (owners ?q) \<subseteq> rs_set clm" "rs_set clm \<subseteq> rs_set (completed p) \<union> list_set (owners ?q)"
    using seg_invD(11,12) [OF inv] dis(1) parts by (auto simp: own clm(2))
  moreover have "work_ok tot b" if "(j, b) \<in> set (assignments ?q)" for j b
  proof -
    have "work_ok tot a" using seg_invD(8) [OF inv, of i a] by (simp add: m)
    then have "work_ok tot a'" using c by (auto simp: work_ok_def range_ok_def a'_def)
    then show ?thesis using that seg_invD(8) [OF inv, of j b] by (auto simp: q) (auto simp: m)
  qed
  ultimately show ?thesis
    using inv clm(1) dis(2) by (auto simp: seg_inv_def)
qed

lemma rebalance_one_effect:
  assumes inv: "seg_inv tot p"
  shows "seg_inv tot (snd (rebalance_one p i))" and "completed (snd (rebalance_one p i)) = completed p"
proof -
  show "completed (snd (rebalance_one p i)) = completed p"
    by (simp add: rebalance_one_def Let_def split: option.splits prod.splits)
  show "seg_inv tot (snd (rebalance_one p i))"
  proof (cases "snd (rebalance_one p i) = p")
    case True
    then show ?thesis using inv by simp
  next
    case False
    then obtain a where a: "sm_get (assignments p) i = Some a"
      by (cases "sm_get (assignments p) i") (auto simp: rebalance_one_def)
    define e where "e = r_end (a_range a)"
    define new_end where "new_end = min (align_up (cursor a + keep_len p a) (alignment (cfg p))) e"
    obtain pos clm where rt: "release_tail (ranges (completed p)) new_end e (claimed p) = (pos, clm)"
      by fastforce
    have cut: "\<not> (new_end \<ge> e \<or> new_end \<le> cursor a)"
      and out: "snd (rebalance_one p i) = p\<lparr>claimed := if pos < e then rs_remove clm (ByteRange_new pos e) else clm,
        assignments := sm_update i (\<lambda>a. a\<lparr>a_range := ByteRange_new (r_start (a_range a)) new_end,
          truncated := True\<rparr>) (assignments p)\<rparr>"
      using False rt
      by (auto simp: rebalance_one_def Let_def a new_end_def [symmetric] e_def [symmetric] split: if_splits)
    have "work_ok tot a" using seg_invD(8) [OF inv, of i a] a by (simp add: sm_get_def map_of_SomeD)
    then have "r_start (a_range a) \<le> cursor a" using cursor_bounds(1) by (simp add: work_ok_def range_ok_def)
    then have c: "r_start (a_range a) \<le> new_end" "new_end \<le> r_end (a_range a)" using cut e_def by auto
    have "norm_list (ranges (completed p))" using seg_invD(4) [OF inv] by (simp add: normalized_def)
    note rel = release_tail_correct [OF rt seg_invD(5) [OF inv] this]
    show ?thesis unfolding out
      by (rule seg_inv_truncate [OF inv a c rel(1)]) (use rel(2) in \<open>simp add: e_def rs_set_def [of "completed p"]\<close>)
  qed
qed

lemma rebalance_effect:
  assumes inv: "seg_inv tot p"
  shows "seg_inv tot (snd (rebalance_stragglers p now))"
    and "completed (snd (rebalance_stragglers p now)) = completed p"
proof -
  have "seg_inv tot (snd (rebalance_loop is q)) \<and> completed (snd (rebalance_loop is q)) = completed q"
    if "seg_inv tot q" for "is" q
    using that
  proof (induction "is" arbitrary: q)
    case (Cons i "is")
    show ?case
      using Cons.IH [OF rebalance_one_effect(1) [OF Cons.prems, of i]] rebalance_one_effect(2) [OF Cons.prems, of i]
      by (simp add: case_prod_beta Let_def)
  qed simp
  from this [OF inv] show "seg_inv tot (snd (rebalance_stragglers p now))"
    and "completed (snd (rebalance_stragglers p now)) = completed p"
    by (simp_all add: rebalance_stragglers_def inv)
qed

lemma seg_inv_clamp_max_piece: "seg_inv tot p \<Longrightarrow> seg_inv tot (clamp_max_piece n p)"
  by (auto simp: clamp_max_piece_def seg_inv_def owners_def)

lemma seg_inv_new:
  "normalized compl \<Longrightarrow> rs_set compl \<subseteq> {0..<tot} \<Longrightarrow> tot \<noteq> u64_MAX \<Longrightarrow>
     seg_inv tot (plan_new (Some tot) compl c pd ov)"
  by (simp add: plan_new_def seg_inv_def owners_def keys_ok_def disjoint_ranges_def)

end
