(* ===== verification/Segment_Steps.thy ===== *)
theory Segment_Steps
  imports Segment_Inv
begin

text \<open>
  The segment plan as a state machine: \<open>plan_step\<close> is one call of its interface, in the order any
  caller may make them, \<open>controller_step\<close> the calls \<^verbatim>\<open>core/controller.rs\<close> makes. The invariant of
  \<open>Segment_Inv\<close> holds in every reachable plan, and the properties of the plan follow.
\<close>

section \<open>Steps\<close>

inductive plan_step :: "segment_plan \<Rightarrow> segment_plan \<Rightarrow> bool" where
  claim: "fresh_slot slot p \<Longrightarrow> claim_with slot p est now solo ps = Some (cl, q) \<Longrightarrow> plan_step p q"
| wire: "plan_step p (on_wire_received p i n)"
| submitted: "plan_step p (on_submitted p i n)"
| committed: "plan_step p (on_destination_committed fexp p i r now)"
| verified: "plan_step p (on_response_verified p i r)"
| finished: "plan_step p (snd (finish_verified p i))"
| abandoned: "plan_step p (snd (abandon p i))"
| failed: "plan_step p (abandon_and_defer p i until nxt mx)"
| released: "plan_step p (snd (release_due p now))"
| rebalanced: "plan_step p (snd (rebalance_stragglers p now))"
| clamped: "plan_step p (clamp_max_piece n p)"

text \<open>The calls of the controller: a verified response is recorded and its assignment finished in
  one go; the progress reports are never made.\<close>

inductive controller_step :: "segment_plan \<Rightarrow> segment_plan \<Rightarrow> bool" where
  ctl_claim: "fresh_slot slot p \<Longrightarrow> claim_with slot p est now solo ps = Some (cl, q) \<Longrightarrow> controller_step p q"
| ctl_response: "controller_step p (snd (finish_verified (on_response_verified p i r) i))"
| ctl_abandon: "controller_step p (snd (abandon p i))"
| ctl_fail: "controller_step p (abandon_and_defer p i until nxt mx)"
| ctl_release: "controller_step p (snd (release_due p now))"
| ctl_rebalance: "controller_step p (snd (rebalance_stragglers p now))"
| ctl_clamp: "controller_step p (clamp_max_piece n p)"

lemma plan_step_inv: "plan_step p q \<Longrightarrow> seg_inv tot p \<Longrightarrow> seg_inv tot q"
  by (induction rule: plan_step.induct)
    (blast intro: seg_inv_claim seg_inv_reports seg_inv_committed on_response_verified_effect(2)
      finish_verified_effect(1) abandon_effect(1) abandon_and_defer_effect(1) release_due_effect(1)
      rebalance_effect(1) seg_inv_clamp_max_piece)+

lemma plan_reach_inv: "plan_step\<^sup>*\<^sup>* p q \<Longrightarrow> seg_inv tot p \<Longrightarrow> seg_inv tot q"
  by (induction rule: rtranclp_induct) (blast intro: plan_step_inv)+

lemma controller_step_plan: "controller_step p q \<Longrightarrow> plan_step\<^sup>*\<^sup>* p q"
  by (induction rule: controller_step.induct)
    (blast intro: plan_step.intros r_into_rtranclp rtranclp.rtrancl_into_rtrancl)+

lemma controller_reach_plan: "controller_step\<^sup>*\<^sup>* p q \<Longrightarrow> plan_step\<^sup>*\<^sup>* p q"
  by (induction rule: rtranclp_induct) (auto dest: controller_step_plan)

lemma claim_completed: "claim_with slot p est now solo ps = Some (cl, q) \<Longrightarrow> completed q = completed p"
  by (auto simp: claim_with_def push_assignment_def Let_def split: option.splits if_splits prod.splits)

lemma plan_step_completed: "plan_step p q \<Longrightarrow> seg_inv tot p \<Longrightarrow> rs_set (completed p) \<subseteq> rs_set (completed q)"
proof (induction rule: plan_step.induct)
  case (released p now)
  then show ?case by (simp add: release_due_effect(2))
qed (auto simp: claim_completed on_wire_received_def on_submitted_def on_destination_committed_def
    on_response_verified_effect(1) finish_verified_effect(2) abandon_effect(2)
    abandon_and_defer_effect(2) rebalance_effect(2) clamp_max_piece_def)

section \<open>What a claim returns\<close>

lemma claim_with_fresh:
  assumes "plan_total p = Some tot" and "\<not> single_stream p" and "\<not> rs_is_complete (completed p) tot"
    and "piece_len_for p est (tot - covered (completed p)) = Some piece"
    and "next_claimable_gap p tot now = Some gap"
    and "snap_end (truncated_to gap (take_len_for p tot piece solo ps)) (alignment (cfg p)) tot = r"
  shows "claim_with slot p est now solo ps = Some (Fresh (fst slot),
    p\<lparr>claimed := (if r_end r \<noteq> u64_MAX then rs_insert (claimed p) r else claimed p),
      assignments := sm_update (fst slot) (\<lambda>a. a\<lparr>a_attempt := pending_attempt_for p r\<rparr>)
        (sm_insert slot (new_assignment r now (overlap_for p r)) (assignments p))\<rparr>)"
  using assms by (simp add: claim_with_def Let_def push_assignment_def)

lemma claim_with_FreshD:
  assumes "claim_with slot p est now solo ps = Some (Fresh i, q)"
    and "plan_total p = Some tot" and "\<not> single_stream p"
  obtains piece gap r where "next_claimable_gap p tot now = Some gap"
    and "r = snap_end (truncated_to gap (take_len_for p tot piece solo ps)) (alignment (cfg p)) tot"
    and "i = fst slot" and "piece_len_for p est (tot - covered (completed p)) = Some piece"
    and "q = p\<lparr>claimed := (if r_end r \<noteq> u64_MAX then rs_insert (claimed p) r else claimed p),
      assignments := sm_update (fst slot) (\<lambda>a. a\<lparr>a_attempt := pending_attempt_for p r\<rparr>)
        (sm_insert slot (new_assignment r now (overlap_for p r)) (assignments p))\<rparr>"
proof -
  obtain piece gap where pg: "piece_len_for p est (tot - covered (completed p)) = Some piece"
    "next_claimable_gap p tot now = Some gap" "\<not> rs_is_complete (completed p) tot"
    using assms by (auto simp: claim_with_def Let_def push_assignment_def split: option.splits if_splits)
  show thesis
    using that [OF pg(2) refl _ pg(1)] claim_with_fresh [OF assms(2,3) pg(3,1,2) refl, of slot solo ps] assms(1)
    by simp
qed

text \<open>With nothing parked, the scan stops at the first unclaimed byte.\<close>

lemma next_claimable_gap_idle:
  "deferred p = [] \<Longrightarrow> next_claimable_gap p tot now = first_gap (claimed p) 0 tot"
  by (subst next_claimable_gap_def, subst next_claimable_gap_from.simps)
    (auto simp: gap_is_deferred_def first_gap_def word_gt_0 split: option.splits)

lemma piece_len_for_defined:
  assumes "min_piece (cfg p) \<le> max_piece (cfg p)"
    and "tail_min_piece (cfg p) \<le> max_piece (cfg p)"
  shows "\<exists>v. piece_len_for p est n = Some v"
  using assms by (auto simp: piece_len_for_def Let_def clamp_checked_def split: if_splits)

text \<open>The parked bytes are claimed, so a fresh range meets no parked entry.\<close>

lemma pending_attempt_fresh:
  assumes inv: "seg_inv tot p" and gap: "next_claimable_gap p tot now = Some gap"
    and r: "r = snap_end (truncated_to gap n) al tot"
  shows "pending_attempt_for p r = 0"
proof -
  note g = next_claimable_gap_unclaimed [OF seg_invD(5) [OF inv] gap]
  note w = snap_end_within [OF g(1,2) r]
  have "br_set r \<subseteq> br_set gap" and ne: "\<not> br_is_empty r"
    using w by (auto simp: br_set_def br_is_empty_def)
  moreover have "br_set (d_range d) \<subseteq> rs_set (claimed p)" if "d \<in> set (deferred p)" for d
    using that seg_invD(11) [OF inv] by (auto simp: owners_def list_set_def)
  ultimately have "\<not> intersects (d_range d) r" if "d \<in> set (deferred p)" for d
    using that g(3) seg_invD(9) [OF inv, of d] intersects_iff [of "d_range d" r] by blast
  then have "filter (\<lambda>d. intersects (d_range d) r) (deferred p) = []" by (simp add: filter_empty_conv)
  then show ?thesis by (simp add: pending_attempt_for_def max_opt_def)
qed

lemma one_owner:
  assumes "disjoint_ranges rs" and "x \<in> list_set rs"
  shows "\<exists>!k. k < length rs \<and> x \<in> br_set (rs ! k)"
proof -
  obtain k where k: "k < length rs" "x \<in> br_set (rs ! k)"
    using assms(2) by (auto simp: list_set_def in_set_conv_nth)
  have "j = k" if "j < length rs" "x \<in> br_set (rs ! j)" for j
  proof (rule ccontr)
    assume "j \<noteq> k"
    then have "br_set (rs ! j) \<inter> br_set (rs ! k) = {}"
      using assms(1) that(1) k(1) unfolding disjoint_ranges_def sorted_wrt_iff_nth_less
      by (metis Int_commute linorder_neqE_nat)
    then show False using that(2) k(2) by blast
  qed
  with k show ?thesis by blast
qed

lemma assignments_disjoint:
  assumes inv: "seg_inv tot p" and "(i, a) \<in> set (assignments p)" "(j, b) \<in> set (assignments p)" "i \<noteq> j"
  shows "br_set (a_range a) \<inter> br_set (a_range b) = {}"
proof -
  let ?m = "assignments p"
  obtain k l where kl: "k < length ?m" "?m ! k = (i, a)" "l < length ?m" "?m ! l = (j, b)"
    using assms(2,3) by (metis in_set_conv_nth)
  then have "k \<noteq> l" using assms(4) by auto
  moreover have "owners p ! k = a_range a" "owners p ! l = a_range b" "k < length (owners p)" "l < length (owners p)"
    using kl by (simp_all add: owners_def nth_append)
  ultimately show ?thesis
    using seg_invD(10) [OF inv] unfolding disjoint_ranges_def sorted_wrt_iff_nth_less
    by (metis Int_commute linorder_neqE_nat)
qed

section \<open>Without progress reports\<close>

text \<open>What holds of every assignment of a plan driven by \<open>controller_step\<close>.\<close>

definition unreported :: "assignment \<Rightarrow> bool" where
  "unreported a \<longleftrightarrow> wire_received a = 0 \<and> destination_submitted a = 0 \<and>
     a_rate a = ewma_var_new 4000000000 \<and> committed_ranges a = rs_new"

definition all_unreported :: "(assign_id \<times> assignment) list \<Rightarrow> bool" where
  "all_unreported m \<longleftrightarrow> (\<forall>ka\<in>set m. unreported (snd ka))"

lemma unreported_cold: "unreported a \<Longrightarrow> \<not> is_warm (a_rate a)"
  by (simp add: unreported_def is_warm_def ewma_var_new_def)

lemma all_unreported_sm:
  "all_unreported []"
  "all_unreported m \<Longrightarrow> (\<And>a. unreported a \<Longrightarrow> unreported (f a)) \<Longrightarrow> all_unreported (sm_update i f m)"
  "all_unreported m \<Longrightarrow> all_unreported (sm_remove i m)"
  "all_unreported m \<Longrightarrow> all_unreported (sm_insert s (new_assignment r now ov) m)"
  by (auto simp: all_unreported_def sm_update_def sm_remove_def sm_insert_def unreported_def new_assignment_def
      dest: in_set_takeD in_set_dropD)

lemma unreported_update:
  "unreported (a\<lparr>a_attempt := x\<rparr>) = unreported a"
  "unreported (a\<lparr>a_range := r, truncated := b\<rparr>) = unreported a"
  by (simp_all add: unreported_def)

lemma unreported_claim:
  assumes "all_unreported (assignments p)" and "claim_with slot p est now solo ps = Some (cl, q)"
  shows "all_unreported (assignments q)"
  using assms
  by (auto simp: claim_with_def push_assignment_def Let_def unreported_update all_unreported_sm
      split: option.splits if_splits prod.splits)

lemma rebalance_unreported:
  assumes "all_unreported (assignments p)"
  shows "rebalance_stragglers p now = ([], p)"
proof -
  have "rebalance_loop is p = ([], p)" for "is"
  proof (induction "is")
    case (Cons i "is")
    have "rebalance_one p i = (None, p)"
      using assms unreported_cold
      by (auto simp: rebalance_one_def all_unreported_def sm_get_def split: option.splits dest!: map_of_SomeD)
    with Cons show ?case by simp
  qed simp
  then show ?thesis by (simp add: rebalance_stragglers_def)
qed

lemma controller_step_unreported: 
  "controller_step p q \<Longrightarrow> all_unreported (assignments p) \<Longrightarrow> all_unreported (assignments q)"
proof (induction rule: controller_step.induct)
  case (ctl_claim slot p est now solo ps cl q)
  then show ?case by (blast intro: unreported_claim)
next
  case (ctl_rebalance p now)
  then show ?case by (simp add: rebalance_unreported)
qed (auto simp: all_unreported_sm on_response_verified_def finish_verified_def abandon_def Let_def
    abandon_and_defer_def defer_range_def release_due_def clamp_max_piece_def
    split: option.splits prod.splits)

end
