(* ===== verification/Segment_Props.thy ===== *)
theory Segment_Props
  imports Segment_Steps
begin

text \<open>
  The properties of the segment plan, over every plan reachable from a new one by the calls of
  \<open>plan_step\<close> (or \<open>controller_step\<close>), with a small concrete plan on which they are applied.
\<close>

section \<open>A concrete run\<close>

text \<open>Ten bytes, two of them on disk; pieces of four to eight bytes, of two in the tail. Two workers
  claim, the first one delivers its range, and a third one steals from the second.\<close>

definition demo_cfg :: segmentation_policy where
  "demo_cfg = \<lparr>min_piece = 4, max_piece = 8, tail_threshold = 4, tail_min_piece = 2, alignment = 1,
     straggler_z = Fin 2, straggler_share = Fin (1 / 2), straggler_grace = 0\<rparr>"

definition demo_done :: range_set where
  "demo_done = \<lparr>ranges = [ByteRange_new 0 2], covered = 2\<rparr>"

definition demo0 :: segment_plan where
  "demo0 = plan_new (Some 10) demo_done demo_cfg 0 0"

definition demo1 :: segment_plan where
  "demo1 = demo0\<lparr>claimed := \<lparr>ranges = [ByteRange_new 0 6], covered = 6\<rparr>,
     assignments := [(1, new_assignment (ByteRange_new 2 6) 5 0)]\<rparr>"

definition demo2 :: segment_plan where
  "demo2 = demo0\<lparr>claimed := \<lparr>ranges = [ByteRange_new 0 10], covered = 10\<rparr>,
     assignments := [(1, new_assignment (ByteRange_new 2 6) 5 0), (2, new_assignment (ByteRange_new 6 10) 6 0)]\<rparr>"

definition demo3 :: segment_plan where
  "demo3 = demo0\<lparr>completed := \<lparr>ranges = [ByteRange_new 0 6], covered = 6\<rparr>,
     claimed := \<lparr>ranges = [ByteRange_new 0 10], covered = 10\<rparr>,
     assignments := [(2, new_assignment (ByteRange_new 6 10) 6 0)]\<rparr>"

definition demo4 :: segment_plan where
  "demo4 = demo3\<lparr>assignments := [(2, (new_assignment (ByteRange_new 6 10) 6 0)\<lparr>a_range := ByteRange_new 6 8,
       truncated := True\<rparr>), (3, new_assignment (ByteRange_new 8 10) 7 0)]\<rparr>"

lemmas demo_defs = demo_cfg_def demo_done_def demo0_def demo1_def demo2_def demo3_def demo4_def plan_new_def

lemma demo_piece: "cfg p = demo_cfg \<Longrightarrow> piece_duration p = 0 \<Longrightarrow> 4 < n \<Longrightarrow> piece_len_for p (Fin 1024) n = Some 4"
  by (simp add: piece_len_for_def demo_cfg_def bytes_in_def as_secs_f64_def f64_of_nat_def f64_round_def
      f64_max_def align_up_def clamp_checked_def Let_def)

lemma demo_gap:
  "next_claimable_gap demo0 10 5 = Some (ByteRange_new 2 10)"
  "next_claimable_gap demo1 10 6 = Some (ByteRange_new 6 10)"
  by (simp_all add: next_claimable_gap_idle demo_defs first_gap_def partition_point_def nth_opt_def Let_def)

lemma demo_insert:
  "rs_insert demo_done (ByteRange_new 2 6) = \<lparr>ranges = [ByteRange_new 0 6], covered = 6\<rparr>"
  "rs_insert \<lparr>ranges = [ByteRange_new 0 6], covered = 6\<rparr> (ByteRange_new 6 10) =
     \<lparr>ranges = [ByteRange_new 0 10], covered = 10\<rparr>"
  "rs_insert \<lparr>ranges = [ByteRange_new 0 10], covered = 10\<rparr> (ByteRange_new 2 6) =
     \<lparr>ranges = [ByteRange_new 0 10], covered = 10\<rparr>"
  "rs_insert \<lparr>ranges = [ByteRange_new 0 10], covered = 10\<rparr> (ByteRange_new 8 10) =
     \<lparr>ranges = [ByteRange_new 0 10], covered = 10\<rparr>"
  "unverified_parts \<lparr>ranges = [ByteRange_new 0 6], covered = 6\<rparr> (ByteRange_new 2 6) = []"
  by code_simp+

lemma demo_claim1: "claim_with (1, 0) demo0 (Fin 1024) 5 False 4 = Some (Fresh 1, demo1)"
proof -
  have "snap_end (truncated_to (ByteRange_new 2 10) (take_len_for demo0 10 4 False 4)) (alignment (cfg demo0)) 10 =
      ByteRange_new 2 6"
    by (simp add: demo_defs take_len_for_def snap_end_def truncated_to_def align_up_def Let_def
        saturating_sub_def saturating_mul_def saturating_add_def)
  from claim_with_fresh [OF _ _ _ demo_piece demo_gap(1) this] show ?thesis
    by (simp add: demo_defs rs_is_complete_def overlap_for_def pending_attempt_for_def max_opt_def
        demo_insert(1) [unfolded demo_done_def] sm_insert_def sm_update_def new_assignment_def)
qed

lemma demo_claim2: "claim_with (2, 1) demo1 (Fin 1024) 6 False 4 = Some (Fresh 2, demo2)"
proof -
  have "snap_end (truncated_to (ByteRange_new 6 10) (take_len_for demo1 10 4 False 4)) (alignment (cfg demo1)) 10 =
      ByteRange_new 6 10"
    by (simp add: demo_defs take_len_for_def snap_end_def truncated_to_def align_up_def Let_def
        saturating_sub_def saturating_mul_def saturating_add_def)
  from claim_with_fresh [OF _ _ _ demo_piece demo_gap(2) this] show ?thesis
    by (simp add: demo_defs rs_is_complete_def overlap_for_def pending_attempt_for_def max_opt_def
        demo_insert(2) sm_insert_def sm_update_def new_assignment_def)
qed

lemma demo_done_ok: "normalized demo_done" "rs_set demo_done = {0..<2}"
  by (simp_all add: demo_done_def normalized_def norm_list_simps rs_set_def br_len_def)

lemma demo_start: "rs_set demo_done \<subseteq> {0..<(10 :: u64)}"
  unfolding demo_done_ok(2) by (auto intro: order.strict_trans)

lemma demo_ctl1: "controller_step demo0 demo1"
  by (rule ctl_claim [OF _ demo_claim1]) (simp add: fresh_slot_def demo0_def plan_new_def)

lemma demo_ctl2: "controller_step demo1 demo2"
  by (rule ctl_claim [OF _ demo_claim2]) (simp add: fresh_slot_def demo1_def)

lemma demo_reach: "controller_step\<^sup>*\<^sup>* (plan_new (Some 10) demo_done demo_cfg 0 0) demo2"
  using demo_ctl1 demo_ctl2 by (simp add: demo0_def [symmetric])

lemma demo_response: "snd (finish_verified (on_response_verified demo2 1 (ByteRange_new 2 6)) 1) = demo3"
  by (simp add: on_response_verified_def finish_verified_def demo_defs sm_get_def sm_remove_def
      new_assignment_def intersection_def br_is_empty_def rs_new_def Let_def
      demo_insert [unfolded demo_done_def])

lemma demo_reach_plan: "plan_step\<^sup>*\<^sup>* (plan_new (Some 10) demo_done demo_cfg 0 0) demo2"
  by (rule controller_reach_plan [OF demo_reach])

lemma demo_ctl3: "controller_step demo2 demo3"
  using ctl_response [of demo2 1 "ByteRange_new 2 6"] unfolding demo_response .

lemma demo_steal: "claim_with (3, 1) demo3 (Fin 1024) 7 False 4 = Some (Stolen 3 2, demo4)"
proof -
  have "clamp_checked k 2 2 = Some (2 :: u64)" for k by (simp add: clamp_checked_Some_iff)
  then have "plan_steal demo3 (Fin 1024) 7 = Some (Some (2, 8))"
    by (simp add: plan_steal_def demo_defs new_assignment_def saturating_add_def saturating_sub_def
        saturating_mul_def bytes_remaining_def cursor_def first_gap_def rs_new_def partition_point_def
        align_up_def Let_def)
  moreover have "next_claimable_gap demo3 10 7 = None"
    by (simp add: next_claimable_gap_idle demo_defs first_gap_def partition_point_def nth_opt_def Let_def)
  moreover have "\<exists>v. piece_len_for demo3 (Fin 1024) 4 = Some v"
    by (rule piece_len_for_defined) (simp_all add: demo_defs)
  ultimately show ?thesis
    by (auto simp: claim_with_def demo_insert(4) demo_defs rs_is_complete_def push_assignment_def sm_get_def
        sm_update_def sm_insert_def new_assignment_def)
qed

section \<open>Ownership\<close>

text \<open>The states of a segmented job: a plan created with a known length and the bytes already on
  disk, after any calls.\<close>

definition plan_reachable :: "u64 \<Rightarrow> segment_plan \<Rightarrow> bool" where
  "plan_reachable tot p \<longleftrightarrow> (\<exists>compl c pd ov. normalized compl \<and> rs_set compl \<subseteq> {0..<tot} \<and> tot \<noteq> u64_MAX \<and>
     plan_step\<^sup>*\<^sup>* (plan_new (Some tot) compl c pd ov) p)"

lemma plan_reachable_inv: "plan_reachable tot p \<Longrightarrow> seg_inv tot p"
  by (auto simp: plan_reachable_def intro: plan_reach_inv seg_inv_new)

lemma demo_reachable: "plan_reachable 10 demo2"
  unfolding plan_reachable_def using demo_reach_plan demo_done_ok(1) demo_start by fastforce

lemma demo3_reachable: "plan_reachable 10 demo3"
  using demo_reachable rtranclp_trans [OF _ controller_step_plan [OF demo_ctl3]]
  unfolding plan_reachable_def by blast

lemma demo0_reachable: "plan_reachable 10 demo0"
  unfolding plan_reachable_def demo0_def using demo_done_ok(1) demo_start by fastforce

text \<open>C1: In every reachable plan of a segmented job, a claimed byte that is not yet verified is owned
  by exactly one running assignment or parked entry, and every owned byte is claimed: no byte is
  fetched by two workers, and none is lost.\<close>

theorem claimed_bytes_have_one_owner:
  assumes "plan_reachable tot p"
  shows "(\<forall>x. x \<in> rs_set (claimed p) - rs_set (completed p) \<longrightarrow>
      (\<exists>!k. k < length (owners p) \<and> x \<in> br_set (owners p ! k))) \<and>
    list_set (owners p) \<subseteq> rs_set (claimed p)"
  using plan_reachable_inv [OF assms] seg_invD(10,11,12) one_owner by blast

theorem claimed_bytes_have_one_owner_witness:
  "(7 :: u64) \<in> rs_set (claimed demo2) - rs_set (completed demo2) \<and>
   (\<exists>!k. k < length (owners demo2) \<and> 7 \<in> br_set (owners demo2 ! k))"
proof -
  have "(7 :: u64) \<in> rs_set (claimed demo2) - rs_set (completed demo2)"
    by (simp add: demo_defs rs_set_def)
  then show ?thesis using claimed_bytes_have_one_owner [OF demo_reachable] by blast
qed

text \<open>Two different running assignments of a reachable plan never share a byte, whatever was
  claimed, stolen, cut, finished or failed before.\<close>

theorem running_assignments_disjoint:
  assumes "plan_reachable tot p" and "sm_get (assignments p) i = Some a" and "sm_get (assignments p) j = Some b"
    and "i \<noteq> j"
  shows "br_set (a_range a) \<inter> br_set (a_range b) = {}"
  using assignments_disjoint [OF plan_reachable_inv [OF assms(1)] _ _ assms(4)] assms(2,3)
  by (simp add: sm_get_def map_of_SomeD)

theorem running_assignments_disjoint_witness:
  "br_set (a_range (new_assignment (ByteRange_new 2 6) 5 0)) \<inter>
   br_set (a_range (new_assignment (ByteRange_new 6 10) 6 0)) = {}"
  by (rule running_assignments_disjoint [OF demo_reachable, of 1 _ 2])
    (simp_all add: demo2_def sm_get_def)

section \<open>Progress\<close>

lemma incomplete_has_gap:
  assumes inv: "seg_inv tot p" and idle: "assignments p = []" "deferred p = []"
    and "\<not> rs_is_complete (completed p) tot"
  obtains gap where "next_claimable_gap p tot now = Some gap"
proof -
  have "rs_set (claimed p) \<subseteq> rs_set (completed p)"
    using seg_invD(12) [OF inv] idle by (simp add: owners_def)
  moreover have "rs_set (completed p) \<noteq> {0..<tot}"
    using assms(4) rs_is_complete_correct [OF seg_invD(4,6) [OF inv]] by blast
  ultimately have "\<not> {0..<tot} \<subseteq> rs_set (claimed p)" using seg_invD(6) [OF inv] by blast
  then show thesis
    using that first_gap_correct [OF seg_invD(5) [OF inv], of 0 tot]
    by (cases "first_gap (claimed p) 0 tot") (auto simp: is_first_gap_def next_claimable_gap_idle [OF idle(2)])
qed



text \<open>Verified bytes are never lost: along any sequence of calls the verified set of a reachable
  plan only grows, and it stays within the length of the object.\<close>

theorem verified_bytes_only_grow:
  assumes "plan_reachable tot p" and "plan_step\<^sup>*\<^sup>* p q"
  shows "rs_set (completed p) \<subseteq> rs_set (completed q) \<and> rs_set (completed q) \<subseteq> {0..<tot}"
proof -
  have "rs_set (completed p) \<subseteq> rs_set (completed q) \<and> seg_inv tot q"
    using assms(2) plan_reachable_inv [OF assms(1)]
    by (induction rule: rtranclp_induct) (auto dest: plan_step_completed intro: plan_step_inv)
  then show ?thesis using seg_invD(6) by blast
qed

theorem verified_bytes_only_grow_witness:
  "rs_set (completed demo0) \<subseteq> rs_set (completed (on_response_verified demo0 1 (ByteRange_new 2 6)))"
  using verified_bytes_only_grow [OF demo0_reachable r_into_rtranclp [of plan_step, OF plan_step.verified]] by blast

text \<open>A reachable plan is complete exactly when every byte of the object is verified, and exactly
  when the count of verified bytes equals the length: the byte counter cannot report completion
  early.\<close>

theorem complete_iff_every_byte_verified:
  assumes "plan_reachable tot p"
  shows "(plan_is_complete p \<longleftrightarrow> rs_set (completed p) = {0..<tot}) \<and>
    (plan_is_complete p \<longleftrightarrow> bytes_done p = tot)"
proof -
  have inv: "seg_inv tot p" by (rule plan_reachable_inv [OF assms])
  have a: "plan_is_complete p \<longleftrightarrow> rs_set (completed p) = {0..<tot}"
    using rs_is_complete_correct [OF seg_invD(4,6) [OF inv]] seg_invD(1) [OF inv]
    by (simp add: plan_is_complete_def)
  have card: "unat (bytes_done p) = card (rs_set (completed p))" "card {0..<tot} = unat tot"
    using covered_is_card [OF seg_invD(4) [OF inv]] by (simp_all add: bytes_done_def word_atLeastLessThan_card)
  have "rs_set (completed p) = {0..<tot} \<longleftrightarrow> card (rs_set (completed p)) = card {0..<tot}"
    using card_subset_eq [OF finite seg_invD(6) [OF inv]] by metis
  then have "bytes_done p = tot \<longleftrightarrow> rs_set (completed p) = {0..<tot}"
    unfolding card(2) card(1) [symmetric] by (simp only: word_unat_eq_iff)
  with a show ?thesis by simp
qed

theorem complete_iff_every_byte_verified_witness:
  "\<not> plan_is_complete demo2 \<and> rs_set (completed demo2) \<noteq> {0..<(10 :: u64)}"
proof -
  have "bytes_done demo2 \<noteq> 10" by (simp add: bytes_done_def demo_defs)
  then show ?thesis using complete_iff_every_byte_verified [OF demo_reachable] by blast
qed

section \<open>Responses and failures\<close>

text \<open>When the controller records a verified response and finishes its assignment, exactly the
  verified part of the assignment and what it had committed joins the verified set, the
  assignment is gone and every other one is untouched, and the part that was not delivered is
  unclaimed again, so another worker can take it.\<close>

theorem verified_response_recorded:
  assumes "plan_reachable tot p" and "sm_get (assignments p) i = Some a"
  shows "rs_set (completed (snd (finish_verified (on_response_verified p i r) i))) =
      rs_set (completed p) \<union> (br_set r \<inter> br_set (a_range a)) \<union> rs_set (committed_ranges a) \<and>
    sm_get (assignments (snd (finish_verified (on_response_verified p i r) i))) j =
      (if j = i then None else sm_get (assignments p) j) \<and>
    (br_set (a_range a) - rs_set (completed (snd (finish_verified (on_response_verified p i r) i)))) \<inter>
      rs_set (claimed (snd (finish_verified (on_response_verified p i r) i))) = {}"
proof -
  define v where "v = on_response_verified p i r"
  have inv: "seg_inv tot p" by (rule plan_reachable_inv [OF assms(1)])
  have inv': "seg_inv tot v" unfolding v_def by (rule on_response_verified_effect(2) [OF inv])
  have same: "assignments v = assignments p"
    by (simp add: v_def on_response_verified_def Let_def split: option.splits)
  have a: "sm_get (assignments v) i = Some a" by (simp add: same assms(2))
  have compl: "rs_set (completed (snd (finish_verified v i))) =
      rs_set (completed p) \<union> (br_set r \<inter> br_set (a_range a)) \<union> rs_set (committed_ranges a)"
    using finish_verified_effect(2) [OF inv', of i] on_response_verified_effect(1) [OF inv, of i r] assms(2) a
    by (simp add: v_def)
  have asg: "assignments (snd (finish_verified v i)) = sm_remove i (assignments p)"
    using a by (simp add: finish_verified_def Let_def same)
  obtain L R where "\<And>c d. owners (v\<lparr>completed := c, claimed := d, assignments := sm_remove i (assignments v)\<rparr>) = L @ R"
    and dis: "br_set (a_range a) \<inter> list_set (L @ R) = {}"
    using owners_get [OF inv' a] by metis
  then have own: "owners (snd (finish_verified v i)) = L @ R"
    using a by (simp add: finish_verified_def Let_def)
  have "(br_set (a_range a) - rs_set (completed (snd (finish_verified v i)))) \<inter>
      rs_set (claimed (snd (finish_verified v i))) = {}"
    using seg_invD(12) [OF finish_verified_effect(1) [OF inv', of i]] dis unfolding own by blast
  with compl asg assign_store.get_remove [OF seg_invD(7) [OF inv], of i j] show ?thesis
    by (simp add: v_def [symmetric])
qed

theorem verified_response_recorded_witness:
  "rs_set (completed (snd (finish_verified (on_response_verified demo2 1 (ByteRange_new 2 5)) 1))) =
      rs_set (completed demo2) \<union> (br_set (ByteRange_new 2 5) \<inter>
        br_set (a_range (new_assignment (ByteRange_new 2 6) 5 0))) \<union>
      rs_set (committed_ranges (new_assignment (ByteRange_new 2 6) 5 0))"
  using verified_response_recorded [OF demo_reachable, of 1 "new_assignment (ByteRange_new 2 6) 5 0"
      "ByteRange_new 2 5" 2]
  by (simp add: demo2_def sm_get_def)

text \<open>A failed assignment whose retry is within the budget is parked: it is no longer running and
  its bytes stay claimed, also through a release that comes before the backoff ends. A release
  at or after that time makes the bytes that are not verified unclaimed, so they are fetched again.\<close>

theorem failed_range_waits_then_returns:
  assumes "plan_reachable tot p" and "sm_get (assignments p) i = Some a" and "\<not> br_is_empty (a_range a)"
    and "nxt \<le> mx"
  shows "sm_get (assignments (abandon_and_defer p i until nxt mx)) i = None \<and>
    br_set (a_range a) \<subseteq> rs_set (claimed (abandon_and_defer p i until nxt mx)) \<and>
    (now < until \<longrightarrow> br_set (a_range a) \<subseteq>
       rs_set (claimed (snd (release_due (abandon_and_defer p i until nxt mx) now)))) \<and>
    (until \<le> now \<longrightarrow> (br_set (a_range a) - rs_set (completed p)) \<inter>
       rs_set (claimed (snd (release_due (abandon_and_defer p i until nxt mx) now))) = {})"
proof -
  define q where "q = abandon_and_defer p i until nxt mx"
  have inv: "seg_inv tot p" by (rule plan_reachable_inv [OF assms(1)])
  have invq: "seg_inv tot q" unfolding q_def by (rule abandon_and_defer_effect(1) [OF inv])
  note inv_rel = release_due_effect(1) [OF invq, of now]
  let ?d = "\<lparr>d_range = a_range a, d_until = until, d_attempt = nxt\<rparr>"
  have q: "assignments q = sm_remove i (assignments p)" "deferred q = deferred p @ [?d]"
    using assms(2-4) by (simp_all add: q_def abandon_and_defer_def abandon_def defer_range_def)
  have gone: "sm_get (assignments q) i = None"
    using assign_store.get_remove [OF seg_invD(7) [OF inv], of i i] by (simp add: q(1))
  have held: "br_set (a_range a) \<subseteq> rs_set (claimed q)"
    using seg_invD(11) [OF invq] by (auto simp: owners_def q(2))
  define rel where "rel = snd (release_due q now)"
  have rel: "deferred rel = filter (\<lambda>d. now < d_until d) (deferred q)" "assignments rel = assignments q"
    "completed rel = completed p"
    using release_due_effect(2,3) [OF invq, of now] abandon_and_defer_effect(2) [OF inv]
    by (simp_all add: rel_def q_def release_due_def case_prod_beta)
  have early: "br_set (a_range a) \<subseteq> rs_set (claimed rel)" if "now < until"
    using seg_invD(11) [OF inv_rel] that by (auto simp: owners_def rel_def [symmetric] rel(1) q(2))
  have late: "(br_set (a_range a) - rs_set (completed p)) \<inter> rs_set (claimed rel) = {}" if "until \<le> now"
  proof -
    have own: "owners rel = map (\<lambda>ka. a_range (snd ka)) (assignments q) @
        map d_range (filter (\<lambda>d. now < d_until d) (deferred p))"
      using that by (simp add: owners_def rel q(2))
    have "br_set (a_range a) \<inter> list_set (owners rel) = {}"
      using seg_invD(10) [OF invq] disjoint_ranges_insert [of "map (\<lambda>ka. a_range (snd ka)) (assignments q) @
          map d_range (deferred p)" "a_range a" "[]"]
      unfolding own by (auto simp: owners_def q(2) list_set_def)
    then show ?thesis
      using seg_invD(12) [OF inv_rel] unfolding rel_def [symmetric] rel(3) by blast
  qed
  show ?thesis using gone held early late by (simp add: q_def [symmetric] rel_def [symmetric])
qed

theorem failed_range_waits_then_returns_witness:
  "br_set (ByteRange_new 2 6) \<subseteq> rs_set (claimed (snd (release_due (abandon_and_defer demo2 1 9 1 6) 8))) \<and>
   (br_set (ByteRange_new 2 6) - rs_set (completed demo2)) \<inter>
     rs_set (claimed (snd (release_due (abandon_and_defer demo2 1 9 1 6) 9))) = {}"
  using failed_range_waits_then_returns [OF demo_reachable, of 1 "new_assignment (ByteRange_new 2 6) 5 0" 1 6 9 8]
    failed_range_waits_then_returns [OF demo_reachable, of 1 "new_assignment (ByteRange_new 2 6) 5 0" 1 6 9 9]
  by (simp add: demo2_def sm_get_def new_assignment_def br_is_empty_def)

section \<open>Stealing\<close>

lemma align_up_ge:
  assumes "unat v + unat al < 2 ^ 64"
  shows "v \<le> align_up v al"
proof (cases "al \<le> 1")
  case False
  then have al: "0 < unat al" by (metis gr0I unat_eq_zero word_zero_le)
  define d m where "d = unat v div unat al" and "m = unat v mod unat al"
  define k where "k = d + (if 0 < m then 1 else 0)"
  have "unat v = d * unat al + m" "m < unat al" using al by (simp_all add: d_def m_def)
  then have k: "unat v \<le> k * unat al" "k * unat al < 2 ^ 64"
    using assms by (cases "m = 0"; simp add: k_def add_mult_distrib)+
  have "unat (div_ceil v al) = k"
    using al unat_div_ceil [of al v] by (simp add: k_def d_def m_def word_less_nat_alt)
  then have "unat (div_ceil v al * al) = k * unat al" using k(2) by (simp add: unat_word_ariths)
  then show ?thesis using False k(1) by (simp add: align_up_def word_le_nat_alt)
qed (simp add: align_up_def)

text \<open>The frontier the code protects: nothing the victim has received or submitted is given away.\<close>

definition protected_frontier :: "assignment \<Rightarrow> u64" where
  "protected_frontier a = saturating_add (r_start (a_range a)) (max (wire_received a) (destination_submitted a))"

lemma steal_cut_bounds:
  assumes "0 < (mn :: u64)" and al: "unat e + unat al < 2 ^ 64"
    and rem: "\<not> saturating_sub e fr < saturating_mul mn 2"
    and keep: "clamp_checked k mn (saturating_sub e fr - mn) = Some keep"
    and c: "c = min (align_up (fr + keep) al) (e - mn)"
  shows "unat fr + unat mn \<le> unat c \<and> unat c + unat mn \<le> unat e"
proof -
  have mn: "0 < unat mn" using assms(1) by (simp add: word_less_nat_alt)
  have "min (2 * unat mn) (2 ^ 64 - 1) \<le> unat e - unat fr"
    using rem by (auto simp: word_less_nat_alt unat_saturating_mul unat_saturating_sub mult.commute)
  then have le: "unat mn \<le> unat e - unat fr"
    using unat_u64_less [of mn] by (simp add: min_def split: if_splits)
  define rem where "rem = saturating_sub e fr"
  have "unat rem = unat e - unat fr" by (simp add: rem_def unat_saturating_sub)
  then have rem': "unat (rem - mn) = unat e - unat fr - unat mn"
    using le by (subst unat_diff_word) (simp_all add: word_le_nat_alt)
  have "mn \<le> keep" "keep \<le> rem - mn"
    using keep unfolding rem_def [symmetric] clamp_checked_Some_iff by auto
  then have k: "unat mn \<le> unat keep" "unat fr + unat keep + unat mn \<le> unat e"
    using le mn rem' by (auto simp: word_le_nat_alt)
  have sum: "unat (fr + keep) = unat fr + unat keep"
    using k unat_u64_less [of e] by (simp add: unat_word_ariths)
  have "fr + keep \<le> align_up (fr + keep) al" by (rule align_up_ge) (use k al sum in linarith)
  moreover have "unat (e - mn) = unat e - unat mn"
    using le by (subst unat_diff_word) (simp_all add: word_le_nat_alt)
  ultimately show ?thesis
    using k sum by (auto simp: c min_def word_le_nat_alt)
qed

lemma plan_steal_bounds:
  assumes steal: "plan_steal p est now = Some (Some (victim, c))"
    and cfg: "0 < min_piece (cfg p)" "0 < tail_min_piece (cfg p)"
    and tot: "\<And>i a. (i, a) \<in> set (assignments p) \<Longrightarrow> unat (r_end (a_range a)) + unat (alignment (cfg p)) < 2 ^ 64"
  obtains a where "(victim, a) \<in> set (assignments p)" and "cursor a < c" and "c < r_end (a_range a)"
    and "\<exists>m\<in>{min_piece (cfg p), tail_min_piece (cfg p)}.
       unat (protected_frontier a) + unat m \<le> unat c \<and> unat c + unat m \<le> unat (r_end (a_range a))"
proof -
  let ?xs = "filter (\<lambda>ka. now - a_started (snd ka) \<ge> straggler_grace (cfg p))
            (filter (\<lambda>ka. \<not> truncated (snd ka)) (assignments p))"
  obtain v a where m: "max_by_key (\<lambda>ka. steal_key est (snd ka)) ?xs = Some (v, a)"
    using steal by (auto simp: plan_steal_def split: option.splits)
  define mn where "mn = (if (case bytes_remaining p of None \<Rightarrow> False | Some r \<Rightarrow> r \<le> tail_threshold (cfg p))
      then tail_min_piece (cfg p) else min_piece (cfg p))"
  define e where "e = r_end (a_range a)"
  define rem where "rem = saturating_sub e (protected_frontier a)"
  define K where "K = (let v1 = f64_max (if is_warm (a_rate a) then ev_mean (a_rate a) else rate_nonzero est) Rate_FLOOR
    in f64_to_u64 (f64_mul (f64_of_u64 rem) (f64_div v1 (f64_add v1 (rate_nonzero est)))))"
  define X where "X keep = min (align_up (protected_frontier a + keep) (alignment (cfg p))) (e - mn)" for keep
  have eq: "plan_steal p est now = (if rem < saturating_mul mn 2 then Some None
      else case clamp_checked K mn (rem - mn) of None \<Rightarrow> None
        | Some keep \<Rightarrow> Some (if X keep > cursor a \<and> X keep < e then Some (v, X keep) else None))"
    unfolding plan_steal_def m rem_def mn_def e_def K_def X_def protected_frontier_def
    by (simp only: Let_def option.case prod.case)
  obtain keep where rem: "\<not> rem < saturating_mul mn 2" and keep: "clamp_checked K mn (rem - mn) = Some keep"
    and c: "v = victim" "c = X keep" "cursor a < c" "c < e"
    using steal unfolding eq by (auto split: option.splits if_splits)
  have mem: "(victim, a) \<in> set (assignments p)" using max_by_key_mem [OF m] c(1) by auto
  have "0 < mn" using cfg by (simp add: mn_def)
  moreover have "unat e + unat (alignment (cfg p)) < 2 ^ 64" using tot [OF mem] by (simp add: e_def)
  ultimately have "unat (protected_frontier a) + unat mn \<le> unat c \<and> unat c + unat mn \<le> unat e"
    using rem keep c(2) unfolding rem_def X_def by (rule steal_cut_bounds)
  moreover have "mn \<in> {min_piece (cfg p), tail_min_piece (cfg p)}" by (simp add: mn_def)
  ultimately show thesis using that [OF mem] c(3,4) unfolding e_def by blast
qed

lemma claim_with_StolenD:
  assumes "claim_with slot p est now solo ps = Some (Stolen i victim, q)"
  obtains v c where "plan_steal p est now = Some (Some (victim, c))" and "sm_get (assignments p) victim = Some v"
    and "i = fst slot"
    and "assignments q = sm_insert slot (new_assignment (ByteRange_new c (r_end (a_range v))) now 0)
      (sm_update victim (\<lambda>a. a\<lparr>a_range := ByteRange_new (r_start (a_range v)) c, truncated := True\<rparr>) (assignments p))"
  using assms
  by (auto simp: claim_with_def Let_def push_assignment_def split: option.splits if_splits prod.splits)

text \<open>A steal splits one running assignment: the thief gets the tail behind a cut, the victim keeps
  the front. The cut leaves at least a minimum piece behind everything the victim has received or
  submitted, and at least a minimum piece to the thief. This needs minimum pieces of at least one
  byte and a length that is at least one alignment unit below the 64-bit limit, since rounding up
  to the alignment wraps there.\<close>

theorem steal_splits_behind_the_frontier:
  assumes "plan_reachable tot p" and "fresh_slot slot p"
    and "claim_with slot p est now solo ps = Some (Stolen i victim, q)"
    and "0 < min_piece (cfg p)" and "0 < tail_min_piece (cfg p)" and "unat tot + unat (alignment (cfg p)) < 2 ^ 64"
  shows "\<exists>old kept new c. sm_get (assignments p) victim = Some old \<and>
    sm_get (assignments q) victim = Some kept \<and> sm_get (assignments q) i = Some new \<and>
    a_range kept = ByteRange_new (r_start (a_range old)) c \<and>
    a_range new = ByteRange_new c (r_end (a_range old)) \<and>
    (\<exists>m\<in>{min_piece (cfg p), tail_min_piece (cfg p)}.
       unat (protected_frontier old) + unat m \<le> unat c \<and> unat c + unat m \<le> unat (r_end (a_range old)))"
proof -
  have inv: "seg_inv tot p" by (rule plan_reachable_inv [OF assms(1)])
  note keys = seg_invD(7) [OF inv]
  obtain v c where steal: "plan_steal p est now = Some (Some (victim, c))"
    and v: "sm_get (assignments p) victim = Some v" and i: "i = fst slot"
    and q: "assignments q = sm_insert slot (new_assignment (ByteRange_new c (r_end (a_range v))) now 0)
      (sm_update victim (\<lambda>a. a\<lparr>a_range := ByteRange_new (r_start (a_range v)) c, truncated := True\<rparr>) (assignments p))"
    using claim_with_StolenD [OF assms(3)] .
  have "unat (r_end (a_range a)) + unat (alignment (cfg p)) < 2 ^ 64" if "(j, a) \<in> set (assignments p)" for j a
    using seg_invD(8) [OF inv that] assms(6) by (auto simp: work_ok_def range_ok_def word_le_nat_alt)
  with steal assms(4,5) obtain a where a: "(victim, a) \<in> set (assignments p)"
    and m: "\<exists>m\<in>{min_piece (cfg p), tail_min_piece (cfg p)}.
       unat (protected_frontier a) + unat m \<le> unat c \<and> unat c + unat m \<le> unat (r_end (a_range a))"
    by (rule plan_steal_bounds) blast
  have "a = v" using a v keys by (simp add: keys_ok_def sm_get_def)
  have fresh: "sm_get (sm_update victim f (assignments p)) (fst slot) = None" for f
    using assms(2) by (simp add: fresh_slot_def sm_get_def map_of_eq_None_iff)
  have "victim \<noteq> fst slot" using a assms(2) by (force simp: fresh_slot_def)
  then have "sm_get (assignments q) victim = Some (v\<lparr>a_range := ByteRange_new (r_start (a_range v)) c, truncated := True\<rparr>)"
    "sm_get (assignments q) i = Some (new_assignment (ByteRange_new c (r_end (a_range v))) now 0)"
    using keys v by (simp_all add: q i fresh assign_store.get_insert assign_store.get_update)
  with v m \<open>a = v\<close> show ?thesis by (auto simp: new_assignment_def)
qed

theorem steal_splits_behind_the_frontier_witness:
  "\<exists>old kept new c. sm_get (assignments demo3) 2 = Some old \<and>
    sm_get (assignments demo4) 2 = Some kept \<and> sm_get (assignments demo4) 3 = Some new \<and>
    a_range kept = ByteRange_new (r_start (a_range old)) c \<and>
    a_range new = ByteRange_new c (r_end (a_range old)) \<and>
    (\<exists>m\<in>{min_piece (cfg demo3), tail_min_piece (cfg demo3)}.
       unat (protected_frontier old) + unat m \<le> unat c \<and> unat c + unat m \<le> unat (r_end (a_range old)))"
  by (rule steal_splits_behind_the_frontier [OF demo3_reachable _ demo_steal])
    (simp_all add: fresh_slot_def demo_defs)

section \<open>What the plan does not do\<close>

text \<open>Every fresh claim of a reachable plan starts with attempt 0. The attempt count of a parked
  range is looked up only while its bytes are still claimed, when no fresh claim can reach them,
  and the count that the release returns is dropped by the caller; so the per-range retry budget
  never decreases and \<open>max_attempts_per_range\<close> is never reached through a fresh claim.\<close>

theorem fresh_claims_restart_the_retry_budget:
  assumes "plan_reachable tot p" and "fresh_slot slot p"
    and "claim_with slot p est now solo ps = Some (Fresh i, q)"
  shows "map_option a_attempt (sm_get (assignments q) i) = Some 0"
proof -
  have inv: "seg_inv tot p" by (rule plan_reachable_inv [OF assms(1)])
  obtain piece gap r where gap: "next_claimable_gap p tot now = Some gap"
    and r: "r = snap_end (truncated_to gap (take_len_for p tot piece solo ps)) (alignment (cfg p)) tot"
    and i: "i = fst slot"
    and q: "q = p\<lparr>claimed := (if r_end r \<noteq> u64_MAX then rs_insert (claimed p) r else claimed p),
      assignments := sm_update (fst slot) (\<lambda>a. a\<lparr>a_attempt := pending_attempt_for p r\<rparr>)
        (sm_insert slot (new_assignment r now (overlap_for p r)) (assignments p))\<rparr>"
    using claim_with_FreshD [OF assms(3) seg_invD(1,2) [OF inv]] by blast
  have "sm_get (assignments p) (fst slot) = None"
    using assms(2) by (simp add: fresh_slot_def sm_get_def map_of_eq_None_iff)
  then show ?thesis
    using assign_store.insert_then_update [OF seg_invD(7) [OF inv]] pending_attempt_fresh [OF inv gap r]
    by (simp add: q i)
qed

theorem fresh_claims_restart_the_retry_budget_witness:
  "map_option a_attempt (sm_get (assignments demo1) 1) = Some 0"
  by (rule fresh_claims_restart_the_retry_budget [OF demo0_reachable _ demo_claim1])
    (simp add: fresh_slot_def demo_defs)

text \<open>The controller never reports progress to the plan, so in every plan it can produce no
  assignment has received or submitted bytes or a warm rate: cutting stragglers is a no-op, and the
  frontier that stealing protects is the start of the victim's range.\<close>

theorem controller_never_cuts_stragglers:
  assumes "controller_step\<^sup>*\<^sup>* (plan_new tot compl c pd ov) p"
  shows "rebalance_stragglers p now = ([], p) \<and>
    (\<forall>i a. sm_get (assignments p) i = Some a \<longrightarrow>
      protected_frontier a = r_start (a_range a) \<and> \<not> is_warm (a_rate a))"
proof -
  have all: "all_unreported (assignments p)"
    using assms by (induction rule: rtranclp_induct)
      (auto simp: plan_new_def all_unreported_sm intro: controller_step_unreported)
  have "protected_frontier a = r_start (a_range a) \<and> \<not> is_warm (a_rate a)"
    if "sm_get (assignments p) i = Some a" for i a
  proof -
    have "unreported a" using all that by (force simp: all_unreported_def sm_get_def dest: map_of_SomeD)
    then show ?thesis
      using unat_less_exp [of "r_start (a_range a)"] unreported_cold
      by (simp add: unreported_def protected_frontier_def saturating_add_def)
  qed
  then show ?thesis using rebalance_unreported [OF all] by blast
qed

theorem controller_never_cuts_stragglers_witness: "rebalance_stragglers demo2 9 = ([], demo2)"
  using controller_never_cuts_stragglers [OF demo_reach, of 9] by blast

text \<open>A sink that limits its operations below the policy's minimum piece makes the plan panic: the
  piece length is clamped between the minimum and the lowered maximum, and the clamp asserts that
  they are ordered. Every claim outside the tail of an incomplete segmented plan is such a panic.\<close>

theorem small_operation_limit_panics:
  assumes "plan_total p = Some tot" and "\<not> single_stream p" and "\<not> rs_is_complete (completed p) tot"
    and "0 < mp" and "mp < min_piece (cfg p)" and "tail_threshold (cfg p) < tot - covered (completed p)"
  shows "claim_with slot (clamp_max_piece mp p) est now solo ps = None"
proof -
  have "min (max_piece (cfg p)) mp < min_piece (cfg p)" using assms(5) by (simp add: min_less_iff_disj)
  moreover have "\<not> tot - covered (completed p) \<le> tail_threshold (cfg p)" using assms(6) by simp
  ultimately have "piece_len_for (clamp_max_piece mp p) est (tot - covered (completed p)) = None"
    using assms(4) by (simp add: piece_len_for_def clamp_max_piece_def clamp_checked_None_iff Let_def)
  with assms(1-4) show ?thesis by (simp add: claim_with_def clamp_max_piece_def)
qed

theorem small_operation_limit_panics_witness:
  "claim_with (1, 0) (clamp_max_piece 3 demo0) (Fin 1024) 5 False 4 = None"
  by (rule small_operation_limit_panics [of _ 10]) (simp_all add: demo_defs rs_is_complete_def)

text \<open>The end of a piece is never moved to an alignment boundary: whenever rounding up does not
  wrap, snapping a non-empty range within the object returns it unchanged, for every alignment.\<close>

theorem snapping_never_moves_the_end:
  assumes "r_start r < r_end r" and "r_end r \<le> tot" and "unat (r_end r) + unat al < 2 ^ 64"
  shows "snap_end r al tot = r"
proof -
  have "r_end r \<le> align_up (r_end r) al" by (rule align_up_ge [OF assms(3)])
  moreover have "max (r_end r) (r_start r + 1) = r_end r"
    using word_Suc_le [OF assms(1)] by (simp add: max_absorb1)
  ultimately have "snap_end r al tot = ByteRange_new (r_start r) (r_end r)"
    using assms(2) by (simp add: snap_end_def Let_def min_absorb1 min_absorb2)
  then show ?thesis by (simp add: ByteRange_new_def)
qed

theorem snapping_never_moves_the_end_witness:
  "snap_end (ByteRange_new 0 100) 64 1000 = ByteRange_new 0 100"
  by (rule snapping_never_moves_the_end) simp_all

text \<open>In single-stream mode a failed range is not held back: while it is parked, the next claim
  gives the whole rest of the object away again, whatever the backoff.\<close>

theorem single_stream_claims_ignore_backoff:
  assumes "plan_total p = Some tot" and "single_stream p" and "assignments p = []"
    and "\<not> rs_is_complete (completed p) tot" and "contiguous_prefix (completed p) < tot"
  shows "\<exists>q. claim_with slot (defer_range p r until att) est now solo ps = Some (Fresh (fst slot), q) \<and>
    map_option a_range (sm_get (assignments q) (fst slot)) =
      Some (ByteRange_new (contiguous_prefix (completed p)) tot)"
  using assms by (simp add: claim_with_def defer_range_def push_assignment_def sm_get_def sm_insert_def
      new_assignment_def Let_def not_le [symmetric])

theorem single_stream_claims_ignore_backoff_witness:
  "\<exists>q. claim_with (1, 0) (defer_range (set_single_stream True demo0) (ByteRange_new 2 10) 100 3)
      (Fin 1024) 5 True 1 = Some (Fresh (fst (1, 0 :: nat)), q) \<and>
    map_option a_range (sm_get (assignments q) (fst (1, 0 :: nat))) =
      Some (ByteRange_new (contiguous_prefix (completed (set_single_stream True demo0))) 10)"
  by (rule single_stream_claims_ignore_backoff)
    (simp_all add: demo_defs set_single_stream_def rs_is_complete_def contiguous_prefix_def)

end
