(* ===== verification/Timers.thy ===== *)
theory Timers
  imports Ranges
begin

text \<open>
  \<^verbatim>\<open>src/crates/xde/src/core/timers.rs\<close>: the controller's timer queue, a binary heap ordered by
  deadline and then by a running sequence number. The arrangement of the array inside
  \<open>std::collections::BinaryHeap\<close> cannot be observed; the model keeps the elements in the order of
  insertion, and \<open>peek\<close> looks for the greatest one in the order the code implements. The lemmas
  show that draining is a stable sort of the due events by deadline.
\<close>

type_synonym job_id = nat
type_synonym origin_id = nat
type_synonym timer_connection = nat

record assignment_ref =
  ar_job :: job_id
  ar_assignment :: nat

datatype timer_event =
    JobDeadline job_id
  | RetryReady assignment_ref byte_range u32
  | ResolveRetry origin_id string u16
  | OriginCooldownExpired origin_id
  | CheckpointDue job_id
  | EndpointStagger origin_id nat
  | AdaptiveTick origin_id
  | DrainConnection timer_connection
  | RebalanceTick origin_id

datatype 'e scheduled_item = ScheduledItem (si_at: instant) (si_seq: u64) (si_event: 'e)

text \<open>The order of the code: an earlier deadline, then a smaller sequence number, is greater. Two
  items with equal keys are not equal, so this is a preorder.\<close>

instantiation scheduled_item :: (type) preorder
begin

definition less_eq_scheduled_item :: "'a scheduled_item \<Rightarrow> 'a scheduled_item \<Rightarrow> bool" where
  "x \<le> y \<longleftrightarrow> si_at y < si_at x \<or> si_at y = si_at x \<and> si_seq y \<le> si_seq x"

definition less_scheduled_item :: "'a scheduled_item \<Rightarrow> 'a scheduled_item \<Rightarrow> bool" where
  "x < y \<longleftrightarrow> si_at y < si_at x \<or> si_at y = si_at x \<and> si_seq y < si_seq x"

instance
  by standard (auto simp: less_eq_scheduled_item_def less_scheduled_item_def)

end

record 'e timer_queue =
  heap :: "'e scheduled_item list"
  next_seq :: u64

definition tq_new :: "'e timer_queue" where
  "tq_new = \<lparr>heap = [], next_seq = 0\<rparr>"

definition tq_schedule :: "instant \<Rightarrow> 'e \<Rightarrow> 'e timer_queue \<Rightarrow> 'e timer_queue" where
  "tq_schedule t e q =
     q\<lparr>heap := heap q @ [ScheduledItem t (next_seq q) e], next_seq := next_seq q + 1\<rparr>"

fun heap_peek :: "'e scheduled_item list \<Rightarrow> 'e scheduled_item option" where
  "heap_peek [] = None"
| "heap_peek (x # xs) = Some (foldl (\<lambda>best y. if best < y then y else best) x xs)"

definition next_deadline :: "'e timer_queue \<Rightarrow> instant option" where
  "next_deadline q = map_option si_at (heap_peek (heap q))"

definition pop_expired :: "instant \<Rightarrow> 'e timer_queue \<Rightarrow> 'e option \<times> 'e timer_queue" where
  "pop_expired now q =
     (case heap_peek (heap q) of
        Some item \<Rightarrow>
          if si_at item \<le> now then (Some (si_event item), q\<lparr>heap := remove1 item (heap q)\<rparr>)
          else (None, q)
      | None \<Rightarrow> (None, q))"

lemma heap_peek_mem: "heap_peek xs = Some x \<Longrightarrow> x \<in> set xs"
proof (cases xs)
  case (Cons y ys)
  have "foldl (\<lambda>best z. if best < z then z else best) b zs \<in> insert b (set zs)" for b and zs :: "'a scheduled_item list"
    by (induction zs arbitrary: b) (auto split: if_splits)
  moreover assume "heap_peek xs = Some x"
  ultimately show ?thesis using Cons by auto
qed simp

lemma pop_expired_shrinks: "pop_expired now q = (Some e, q') \<Longrightarrow> length (heap q') < length (heap q)"
  by (auto simp: pop_expired_def length_remove1 heap_peek_mem length_pos_if_in_set [OF heap_peek_mem]
      split: option.splits if_splits simp del: length_greater_0_conv)

function drain_expired :: "instant \<Rightarrow> 'e timer_queue \<Rightarrow> 'e list \<times> 'e timer_queue" where
  "drain_expired now q =
     (case pop_expired now q of
        (Some e, q') \<Rightarrow> (let (es, q'') = drain_expired now q' in (e # es, q''))
      | (None, q') \<Rightarrow> ([], q'))"
  by pat_completeness auto
termination
  by (relation "measure (\<lambda>(now, q). length (heap q))") (auto dest: pop_expired_shrinks [OF sym])

declare drain_expired.simps [simp del]

definition tq_is_empty :: "'e timer_queue \<Rightarrow> bool" where
  "tq_is_empty q \<longleftrightarrow> heap q = []"

definition tq_len :: "'e timer_queue \<Rightarrow> nat" where
  "tq_len q = length (heap q)"

section \<open>The greatest element\<close>

text \<open>The elements carry increasing sequence numbers, in the order of insertion.\<close>

definition seqs_ok :: "'e scheduled_item list \<Rightarrow> bool" where
  "seqs_ok xs \<longleftrightarrow> sorted_wrt (\<lambda>x y. si_seq x < si_seq y) xs"

definition tq_ok :: "'e timer_queue \<Rightarrow> bool" where
  "tq_ok q \<longleftrightarrow> seqs_ok (heap q) \<and> (\<forall>x\<in>set (heap q). si_seq x < next_seq q)"

lemma peek_fold_split:
  assumes "seqs_ok (b # xs)"
  shows "\<exists>A m B. b # xs = A @ m # B \<and> foldl (\<lambda>best y. if best < y then y else best) b xs = m \<and>
    (\<forall>a\<in>set A. si_at m < si_at a) \<and> (\<forall>a\<in>set B. si_at m \<le> si_at a)"
  using assms
proof (induction xs rule: rev_induct)
  case Nil
  show ?case by (rule exI [of _ "[]"]) simp
next
  case (snoc y ys)
  have ok: "seqs_ok (b # ys)" and last: "\<forall>x\<in>set (b # ys). si_seq x < si_seq y"
    using snoc.prems by (auto simp: seqs_ok_def sorted_wrt_append)
  from snoc.IH [OF ok] obtain A m B where split: "b # ys = A @ m # B"
    and m: "foldl (\<lambda>best y. if best < y then y else best) b ys = m"
    and A: "\<forall>a\<in>set A. si_at m < si_at a" and B: "\<forall>a\<in>set B. si_at m \<le> si_at a" by blast
  have "m \<in> set (b # ys)" by (simp add: split)
  then have "si_seq m < si_seq y" using last by blast
  then have lt: "m < y \<longleftrightarrow> si_at y < si_at m" by (auto simp: less_scheduled_item_def)
  show ?case
  proof (cases "si_at y < si_at m")
    case True
    have "\<forall>a\<in>set (b # ys). si_at y < si_at a"
      using A B True unfolding split by (auto intro: order.strict_trans order.strict_trans2)
    then show ?thesis using True lt m by (intro exI [of _ "b # ys"] exI [of _ y] exI [of _ "[]"]) simp
  next
    case False
    then show ?thesis using lt m A B split
      by (intro exI [of _ A] exI [of _ m] exI [of _ "B @ [y]"]) (auto simp: not_less)
  qed
qed

lemma heap_peek_split:
  assumes "seqs_ok xs" and "heap_peek xs = Some m"
  obtains A B where "xs = A @ m # B" and "\<forall>a\<in>set A. si_at m < si_at a" and "\<forall>a\<in>set B. si_at m \<le> si_at a"
    and "remove1 m xs = A @ B"
proof -
  obtain b ys where xs: "xs = b # ys" using assms(2) by (cases xs) auto
  obtain A B where split: "xs = A @ m # B" "\<forall>a\<in>set A. si_at m < si_at a" "\<forall>a\<in>set B. si_at m \<le> si_at a"
    using peek_fold_split [of b ys] assms unfolding xs by auto
  then have "remove1 m xs = A @ B" by (subst split(1), subst remove1_append) auto
  with split show thesis by (rule that)
qed

lemma sort_key_first:
  assumes "\<forall>a\<in>set A. f m < f a" and "\<forall>a\<in>set B. f m \<le> (f a :: 'b::linorder)"
  shows "sort_key f (A @ m # B) = m # sort_key f (A @ B)"
  using assms by (induction A) (auto simp: insort_is_Cons)

section \<open>Draining\<close>

text \<open>The interface the control loop relies on: popping gives the due element of the smallest
  deadline, first come first served among equal ones.\<close>

locale expiry_queue =
  fixes items :: "'q \<Rightarrow> (instant \<times> 'e) list" and ok :: "'q \<Rightarrow> bool" and room :: "'q \<Rightarrow> nat"
    and push :: "instant \<Rightarrow> 'e \<Rightarrow> 'q \<Rightarrow> 'q" and pop :: "instant \<Rightarrow> 'q \<Rightarrow> 'e option \<times> 'q"
  assumes pop_none: "ok q \<Longrightarrow> fst (pop now q) = None \<Longrightarrow> snd (pop now q) = q \<and> (\<forall>x\<in>set (items q). now < fst x)"
    and pop_some: "ok q \<Longrightarrow> fst (pop now q) = Some e \<Longrightarrow>
      \<exists>A t B. items q = A @ (t, e) # B \<and> items (snd (pop now q)) = A @ B \<and> t \<le> now \<and>
        (\<forall>a\<in>set A. t < fst a) \<and> (\<forall>a\<in>set B. t \<le> fst a)"
    and ok_pop: "ok q \<Longrightarrow> ok (snd (pop now q))"
    and items_push: "items (push t e q) = items q @ [(t, e)]"
    and ok_push: "ok q \<Longrightarrow> 0 < room q \<Longrightarrow> ok (push t e q)"
    and room_push: "0 < room q \<Longrightarrow> room (push t e q) = room q - 1"
begin

lemma push_all:
  "ok q \<Longrightarrow> length xs \<le> room q \<Longrightarrow> ok (foldl (\<lambda>q x. push (fst x) (snd x) q) q xs) \<and>
     items (foldl (\<lambda>q x. push (fst x) (snd x) q) q xs) = items q @ xs"
  by (induction xs arbitrary: q) (auto simp: items_push ok_push room_push)

text \<open>What repeated popping gives, as a list of events and the rest.\<close>

inductive drains :: "instant \<Rightarrow> 'q \<Rightarrow> 'e list \<Rightarrow> 'q \<Rightarrow> bool" where
  stop: "fst (pop now q) = None \<Longrightarrow> drains now q [] q"
| more: "fst (pop now q) = Some e \<Longrightarrow> drains now (snd (pop now q)) es q' \<Longrightarrow> drains now q (e # es) q'"

lemma drains_sorted:
  assumes "drains now q es q'" and "ok q"
  shows "es = map snd (sort_key fst (filter (\<lambda>x. fst x \<le> now) (items q))) \<and>
    items q' = filter (\<lambda>x. now < fst x) (items q)"
  using assms
proof (induction rule: drains.induct)
  case (stop now q)
  then have "\<forall>x\<in>set (items q). now < fst x" using pop_none by blast
  then have "filter (\<lambda>x. fst x \<le> now) (items q) = []" "filter (\<lambda>x. now < fst x) (items q) = items q"
    by (auto simp: filter_empty_conv not_le filter_id_conv)
  then show ?case by simp
next
  case (more now q e es q')
  obtain A t B where it: "items q = A @ (t, e) # B" "items (snd (pop now q)) = A @ B" "t \<le> now"
    and ord: "\<forall>a\<in>set A. t < fst a" "\<forall>a\<in>set B. t \<le> fst a"
    using pop_some [OF more.prems more.hyps(1)] by blast
  have "sort_key fst (filter (\<lambda>x. fst x \<le> now) (items q)) =
      (t, e) # sort_key fst (filter (\<lambda>x. fst x \<le> now) (A @ B))"
    using sort_key_first [of "filter (\<lambda>x. fst x \<le> now) A" fst "(t, e)" "filter (\<lambda>x. fst x \<le> now) B"] ord it(3)
    by (simp add: it(1))
  then show ?case
    using more.IH [OF ok_pop [OF more.prems]] it by simp
qed

end

definition tq_items :: "'e timer_queue \<Rightarrow> (instant \<times> 'e) list" where
  "tq_items q = map (\<lambda>i. (si_at i, si_event i)) (heap q)"

lemma heap_peek_None: "heap_peek xs = None \<longleftrightarrow> xs = []"
  by (cases xs) auto

lemma pop_expired_laws:
  assumes "tq_ok q"
  shows "fst (pop_expired now q) = None \<Longrightarrow>
      snd (pop_expired now q) = q \<and> (\<forall>x\<in>set (tq_items q). now < fst x)"
    and "fst (pop_expired now q) = Some e \<Longrightarrow>
      \<exists>A t B. tq_items q = A @ (t, e) # B \<and> tq_items (snd (pop_expired now q)) = A @ B \<and> t \<le> now \<and>
        (\<forall>a\<in>set A. t < fst a) \<and> (\<forall>a\<in>set B. t \<le> fst a)"
    and "tq_ok (snd (pop_expired now q))"
proof -
  have seqs: "seqs_ok (heap q)" using assms by (simp add: tq_ok_def)
  let ?f = "\<lambda>i. (si_at i, si_event i)"
  have all: "fst (pop_expired now q) = None \<Longrightarrow> snd (pop_expired now q) = q \<and> (\<forall>x\<in>set (tq_items q). now < fst x)"
    "fst (pop_expired now q) = Some e \<Longrightarrow> \<exists>A t B. tq_items q = A @ (t, e) # B \<and>
       tq_items (snd (pop_expired now q)) = A @ B \<and> t \<le> now \<and> (\<forall>a\<in>set A. t < fst a) \<and> (\<forall>a\<in>set B. t \<le> fst a)"
    if peek: "heap_peek (heap q) = Some m" for m
  proof -
    obtain A B where sp: "heap q = A @ m # B" "\<forall>a\<in>set A. si_at m < si_at a" "\<forall>a\<in>set B. si_at m \<le> si_at a"
      "remove1 m (heap q) = A @ B" using heap_peek_split [OF seqs peek] .
    show "fst (pop_expired now q) = None \<Longrightarrow> snd (pop_expired now q) = q \<and> (\<forall>x\<in>set (tq_items q). now < fst x)"
      using peek sp by (auto simp: pop_expired_def tq_items_def not_le split: if_splits)
    show "fst (pop_expired now q) = Some e \<Longrightarrow> \<exists>A t B. tq_items q = A @ (t, e) # B \<and>
       tq_items (snd (pop_expired now q)) = A @ B \<and> t \<le> now \<and> (\<forall>a\<in>set A. t < fst a) \<and> (\<forall>a\<in>set B. t \<le> fst a)"
      using peek sp by (intro exI [of _ "map ?f A"] exI [of _ "si_at m"] exI [of _ "map ?f B"])
        (auto simp: pop_expired_def tq_items_def split: if_splits)
  qed
  show "fst (pop_expired now q) = None \<Longrightarrow> snd (pop_expired now q) = q \<and> (\<forall>x\<in>set (tq_items q). now < fst x)"
    using all(1) by (cases "heap_peek (heap q)") (auto simp: pop_expired_def tq_items_def heap_peek_None)
  show "fst (pop_expired now q) = Some e \<Longrightarrow> \<exists>A t B. tq_items q = A @ (t, e) # B \<and>
       tq_items (snd (pop_expired now q)) = A @ B \<and> t \<le> now \<and> (\<forall>a\<in>set A. t < fst a) \<and> (\<forall>a\<in>set B. t \<le> fst a)"
    using all(2) by (cases "heap_peek (heap q)") (simp_all add: pop_expired_def)
  have "seqs_ok (remove1 m xs)" if "seqs_ok xs" for m and xs :: "'a scheduled_item list"
    using that by (induction xs) (auto simp: seqs_ok_def dest: set_remove1_subset [THEN subsetD])
  then show "tq_ok (snd (pop_expired now q))"
    using assms by (auto simp: pop_expired_def tq_ok_def split: option.splits dest: set_remove1_subset [THEN subsetD])
qed

definition tq_room :: "'e timer_queue \<Rightarrow> nat" where
  "tq_room q = 2 ^ 64 - 1 - unat (next_seq q)"

lemma tq_schedule_laws:
  "tq_items (tq_schedule t e q) = tq_items q @ [(t, e)]"
  "0 < tq_room q \<Longrightarrow> tq_room (tq_schedule t e q) = tq_room q - 1"
  "tq_ok q \<Longrightarrow> 0 < tq_room q \<Longrightarrow> tq_ok (tq_schedule t e q)"
proof -
  show "tq_items (tq_schedule t e q) = tq_items q @ [(t, e)]" by (simp add: tq_items_def tq_schedule_def)
  assume "0 < tq_room q"
  then have seq: "unat (next_seq q + 1) = unat (next_seq q) + 1"
    by (simp add: tq_room_def unat_word_ariths)
  then show "tq_room (tq_schedule t e q) = tq_room q - 1" by (simp add: tq_room_def tq_schedule_def)
  have "x < next_seq q + 1" if "x < next_seq q" for x using that seq by (simp add: word_less_nat_alt)
  moreover have "next_seq q < next_seq q + 1" using seq by (simp add: word_less_nat_alt)
  ultimately show "tq_ok (tq_schedule t e q)" if "tq_ok q"
    using that by (auto simp: tq_ok_def tq_schedule_def seqs_ok_def sorted_wrt_append)
qed

interpretation tq: expiry_queue tq_items tq_ok tq_room tq_schedule pop_expired
  by unfold_locales (auto dest: pop_expired_laws simp: tq_schedule_laws)

lemma drain_expired_drains:
  "tq_ok q \<Longrightarrow> tq.drains now q (fst (drain_expired now q)) (snd (drain_expired now q))"
proof (induction now q rule: drain_expired.induct)
  case (1 now q)
  show ?case
  proof (cases "fst (pop_expired now q)")
    case None
    then show ?thesis
      using pop_expired_laws(1) [OF 1(2) None] tq.stop [of now q]
      by (subst (1 2) drain_expired.simps) (auto simp: case_prod_beta)
  next
    case (Some e)
    then show ?thesis
      using 1(1) [OF prod.collapse Some] pop_expired_laws(3) [OF 1(2)] tq.more [OF Some]
      by (subst (1 2) drain_expired.simps) (simp add: case_prod_beta Let_def)
  qed
qed

section \<open>Properties\<close>

text \<open>Scheduling any events on a new queue and draining it at a given time returns exactly the
  events that are due, by deadline, and in the order they were scheduled among equal deadlines;
  the events that are not due stay queued. (As long as the 64-bit sequence number has not wrapped.)\<close>

theorem timers_fire_by_deadline_then_order:
  fixes xs :: "(instant \<times> 'e) list"
  assumes "length xs < 2 ^ 64"
  shows "fst (drain_expired now (foldl (\<lambda>q x. tq_schedule (fst x) (snd x) q) tq_new xs)) =
      map snd (sort_key fst (filter (\<lambda>x. fst x \<le> now) xs)) \<and>
    tq_items (snd (drain_expired now (foldl (\<lambda>q x. tq_schedule (fst x) (snd x) q) tq_new xs))) =
      filter (\<lambda>x. now < fst x) xs"
proof -
  have "tq_ok (foldl (\<lambda>q x. tq_schedule (fst x) (snd x) q) tq_new xs) \<and>
      tq_items (foldl (\<lambda>q x. tq_schedule (fst x) (snd x) q) tq_new xs) = tq_items tq_new @ xs"
    using assms by (intro tq.push_all) (simp_all add: tq_ok_def tq_new_def seqs_ok_def tq_room_def)
  moreover have "tq_items (tq_new :: 'e timer_queue) = []" by (simp add: tq_items_def tq_new_def)
  ultimately show ?thesis
    using tq.drains_sorted [OF drain_expired_drains, of "foldl (\<lambda>q x. tq_schedule (fst x) (snd x) q) tq_new xs" now]
    by simp
qed

theorem timers_fire_by_deadline_then_order_witness:
  "fst (drain_expired 5 (foldl (\<lambda>q x. tq_schedule (fst x) (snd x) q) tq_new
     [(4, JobDeadline 1), (9, JobDeadline 2), (2, AdaptiveTick 3), (4, CheckpointDue 4)])) =
   [AdaptiveTick 3, JobDeadline 1, CheckpointDue 4]"
  using timers_fire_by_deadline_then_order
    [of "[(4, JobDeadline 1), (9, JobDeadline 2), (2, AdaptiveTick 3), (4, CheckpointDue 4)]" 5]
  by simp

end
