(* ===== verification/Provenance.thy ===== *)
theory Provenance
  imports Ranges
begin

text \<open>
  \<^verbatim>\<open>src/crates/xde/src/core/provenance.rs\<close>: which source wrote which bytes of an artifact first.
  The abstraction is the relation between bytes and their first writer; recording a write extends
  it on the bytes nobody has written, and the list of spans stays sorted and disjoint.
\<close>

type_synonym source_id = nat
type_synonym span = "byte_range \<times> source_id"

record provenance =
  spans :: "span list"
  first_writer :: "source_id option"
  multi_writer :: bool

definition prov_new :: provenance where
  "prov_new = \<lparr>spans = [], first_writer = None, multi_writer = False\<rparr>"

definition has_multiple_writers :: "provenance \<Rightarrow> bool" where
  "has_multiple_writers p = multi_writer p"

fun foreign_loop :: "span list \<Rightarrow> byte_range \<Rightarrow> source_id \<Rightarrow> byte_range list" where
  "foreign_loop [] rg source = []"
| "foreign_loop ((r, owner) # rest) rg source =
     (if owner = source then foreign_loop rest rg source
      else
        (case intersection r rg of Some ix \<Rightarrow> [ix] | None \<Rightarrow> []) @
        (if r_start r \<ge> r_end rg then [] else foreign_loop rest rg source))"

definition foreign_spans :: "provenance \<Rightarrow> byte_range \<Rightarrow> source_id \<Rightarrow> byte_range list" where
  "foreign_spans p rg source = (if \<not> multi_writer p then [] else foreign_loop (spans p) rg source)"

text \<open>The merge of \<open>insert_span\<close>: a span joins the last one when the source is the same and they
  touch.\<close>

definition merge_step :: "span list \<Rightarrow> span \<Rightarrow> span list" where
  "merge_step merged sp =
     (if merged \<noteq> [] \<and> snd (last merged) = snd sp \<and> r_end (fst (last merged)) \<ge> r_start (fst sp)
      then butlast merged @
        [(ByteRange_new (r_start (fst (last merged))) (max (r_end (fst (last merged))) (r_end (fst sp))), snd sp)]
      else merged @ [sp])"

definition insert_span :: "span list \<Rightarrow> byte_range \<Rightarrow> source_id \<Rightarrow> span list" where
  "insert_span sps rg source =
     (if br_is_empty rg then sps
      else foldl merge_step [] (sort_key (\<lambda>x. r_start (fst x)) (sps @ [(rg, source)])))"

definition cut_hole :: "byte_range \<Rightarrow> byte_range \<Rightarrow> byte_range list" where
  "cut_hole owned h =
     (case intersection h owned of
        Some ix \<Rightarrow>
          (if r_start h < r_start ix then [ByteRange_new (r_start h) (r_start ix)] else []) @
          (if r_end ix < r_end h then [ByteRange_new (r_end ix) (r_end h)] else [])
      | None \<Rightarrow> [h])"

fun holes_loop :: "span list \<Rightarrow> byte_range list \<Rightarrow> byte_range list" where
  "holes_loop [] holes = holes"
| "holes_loop ((owned, s) # rest) holes =
     (let next = concat (map (cut_hole owned) holes) in if next = [] then [] else holes_loop rest next)"

definition prov_record :: "provenance \<Rightarrow> byte_range \<Rightarrow> source_id \<Rightarrow> provenance" where
  "prov_record p rg source =
     (if br_is_empty rg then p
      else
        let p1 = (case first_writer p of
                    None \<Rightarrow> p\<lparr>first_writer := Some source\<rparr>
                  | Some existing \<Rightarrow> if existing \<noteq> source then p\<lparr>multi_writer := True\<rparr> else p);
            sps = spans p1
        in if sps \<noteq> [] \<and> snd (last sps) = source \<and> r_start rg \<ge> r_start (fst (last sps)) \<and>
              r_start rg \<le> r_end (fst (last sps))
           then p1\<lparr>spans := butlast sps @
                  [(ByteRange_new (r_start (fst (last sps))) (max (r_end (fst (last sps))) (r_end rg)), source)]\<rparr>
           else if sps = [] then p1\<lparr>spans := [(rg, source)]\<rparr>
           else p1\<lparr>spans := foldl (\<lambda>acc h. insert_span acc h source) sps (holes_loop sps [rg])\<rparr>)"

section \<open>The relation between bytes and writers\<close>

definition written :: "span list \<Rightarrow> (u64 \<times> source_id) set" where
  "written sps = (\<Union>sp\<in>set sps. br_set (fst sp) \<times> {snd sp})"

definition spans_ok :: "span list \<Rightarrow> bool" where
  "spans_ok sps \<longleftrightarrow> sorted_wrt (\<lambda>x y. r_end (fst x) \<le> r_start (fst y)) sps \<and>
     (\<forall>sp\<in>set sps. r_start (fst sp) < r_end (fst sp))"

lemma written_simps [simp]:
  "written [] = {}" "written (sp # sps) = br_set (fst sp) \<times> {snd sp} \<union> written sps"
  "written (sps @ qs) = written sps \<union> written qs"
  by (auto simp: written_def)

lemma spans_ok_simps:
  "spans_ok []"
  "spans_ok (x # xs) \<longleftrightarrow> r_start (fst x) < r_end (fst x) \<and> (\<forall>y\<in>set xs. r_end (fst x) \<le> r_start (fst y)) \<and> spans_ok xs"
  "spans_ok (xs @ ys) \<longleftrightarrow> spans_ok xs \<and> spans_ok ys \<and> (\<forall>x\<in>set xs. \<forall>y\<in>set ys. r_end (fst x) \<le> r_start (fst y))"
  by (auto simp: spans_ok_def sorted_wrt_append)

lemma written_single_valued:
  assumes "spans_ok sps" and "(x, s) \<in> written sps" and "(x, t) \<in> written sps"
  shows "s = t"
  using assms
proof (induction sps)
  case (Cons sp sps)
  have "(x, u) \<notin> written sps" if "x \<in> br_set (fst sp)" for u
    using that Cons.prems(1) by (fastforce simp: written_def spans_ok_simps br_set_def)
  then show ?case using Cons by (auto simp: spans_ok_simps)
qed simp

section \<open>Merging\<close>

lemma merge_spans:
  assumes "spans_ok xs"
  shows "spans_ok (foldl merge_step [] xs)" and "written (foldl merge_step [] xs) = written xs"
proof -
  have "spans_ok (foldl merge_step [] xs) \<and> written (foldl merge_step [] xs) = written xs \<and>
    (\<forall>b. (\<forall>x\<in>set xs. r_end (fst x) \<le> b) \<longrightarrow> (\<forall>x\<in>set (foldl merge_step [] xs). r_end (fst x) \<le> b))"
    using assms
  proof (induction xs rule: rev_induct)
    case (snoc sp xs)
    define ys where "ys = foldl merge_step [] xs"
    have ok: "spans_ok xs" "r_start (fst sp) < r_end (fst sp)" "\<forall>x\<in>set xs. r_end (fst x) \<le> r_start (fst sp)"
      using snoc.prems by (auto simp: spans_ok_simps)
    have ih: "spans_ok ys" "written ys = written xs"
      "\<forall>b. (\<forall>x\<in>set xs. r_end (fst x) \<le> b) \<longrightarrow> (\<forall>x\<in>set ys. r_end (fst x) \<le> b)"
      using snoc.IH [OF ok(1)] by (simp_all add: ys_def)
    have ends: "\<forall>x\<in>set ys. r_end (fst x) \<le> r_start (fst sp)" using ih(3) ok(3) by blast
    have step: "foldl merge_step [] (xs @ [sp]) = merge_step ys sp" by (simp add: ys_def)
    show ?case
    proof (cases "ys \<noteq> [] \<and> snd (last ys) = snd sp \<and> r_end (fst (last ys)) \<ge> r_start (fst sp)")
      case True
      define zs l where "zs = butlast ys" and "l = last ys"
      have ys: "ys = zs @ [l]" using True by (simp add: zs_def l_def)
      have eq: "r_end (fst l) = r_start (fst sp)" using True ends last_in_set [of ys] by (metis l_def antisym)
      have lt: "r_start (fst l) < r_start (fst sp)" using ih(1) eq by (simp add: ys spans_ok_simps)
      have out: "merge_step ys sp = zs @ [(ByteRange_new (r_start (fst l)) (r_end (fst sp)), snd sp)]"
        using True eq ok(2) by (simp add: merge_step_def zs_def l_def max_absorb2 less_imp_le)
      have "br_set (fst l) \<union> br_set (fst sp) = {r_start (fst l)..<r_end (fst sp)}"
        using eq lt ok(2) by (auto simp: br_set_def)
      moreover have "snd l = snd sp" using True by (simp add: l_def)
      ultimately have "written (merge_step ys sp) = written (xs @ [sp])"
        using ih(2) [unfolded ys] unfolding out by auto
      moreover have "spans_ok (merge_step ys sp)"
        using ih(1) [unfolded ys] lt ok(2) unfolding out by (auto simp: spans_ok_simps)
      moreover have "r_end (fst x) \<le> b" if "\<forall>x\<in>set (xs @ [sp]). r_end (fst x) \<le> b" "x \<in> set (merge_step ys sp)" for b x
        using that ih(3) [unfolded ys] unfolding out by auto
      ultimately show ?thesis unfolding step by blast
    next
      case False
      then have out: "merge_step ys sp = ys @ [sp]" unfolding merge_step_def by (rule if_not_P)
      then show ?thesis
        using ih ok ends unfolding step out by (auto simp: spans_ok_simps)
    qed
  qed (simp add: spans_ok_simps)
  then show "spans_ok (foldl merge_step [] xs)" and "written (foldl merge_step [] xs) = written xs" by blast+
qed

lemma sort_snoc:
  assumes "sorted_wrt (\<lambda>x y. f x < (f y :: 'b::linorder)) xs" and "f h \<notin> f ` set xs"
  shows "sort_key f (xs @ [h]) = takeWhile (\<lambda>x. f x < f h) xs @ h # dropWhile (\<lambda>x. f x < f h) xs"
  using assms
proof (induction xs)
  case (Cons x xs)
  show ?case
  proof (cases "f x < f h")
    case True
    then have "\<forall>y\<in>set (takeWhile (\<lambda>x. f x < f h) xs @ h # dropWhile (\<lambda>x. f x < f h) xs). f x \<le> f y"
      using Cons.prems(1) by (auto dest!: set_takeWhileD set_dropWhileD intro: less_imp_le)
    then show ?thesis using Cons True by (simp add: insort_is_Cons)
  next
    case False
    then have hx: "f h < f x" using Cons.prems(2) by fastforce
    then have "\<not> f y < f h" if "y \<in> set xs" for y using Cons.prems(1) that by fastforce
    then have "takeWhile (\<lambda>x. f x < f h) xs = []" "dropWhile (\<lambda>x. f x < f h) xs = xs"
      by (cases xs; simp)+
    then show ?thesis
      using Cons False hx by (auto simp: not_le insort_is_Cons less_imp_le)
  qed
qed simp

lemma insert_span_correct:
  assumes ok: "spans_ok sps" and free: "br_set rg \<inter> Domain (written sps) = {}"
  shows "spans_ok (insert_span sps rg s)" and "written (insert_span sps rg s) = written sps \<union> br_set rg \<times> {s}"
proof -
  let ?f = "\<lambda>x :: span. r_start (fst x)" and ?P = "\<lambda>x :: span. r_start (fst x) < r_start rg"
  have "spans_ok (insert_span sps rg s) \<and> written (insert_span sps rg s) = written sps \<union> br_set rg \<times> {s}"
  proof (cases "br_is_empty rg")
    case True
    then show ?thesis using ok by (simp add: insert_span_def br_is_empty_iff)
  next
    case False
    then have rg: "r_start rg < r_end rg" by (simp add: br_is_empty_def)
    have apart: "r_end (fst x) \<le> r_start rg \<or> r_end rg \<le> r_start (fst x)" if "x \<in> set sps" for x
    proof (rule ccontr)
      assume "\<not> ?thesis"
      moreover have "r_start (fst x) < r_end (fst x)" using ok that by (simp add: spans_ok_def)
      ultimately have "max (r_start rg) (r_start (fst x)) \<in> br_set rg \<inter> br_set (fst x)"
        using rg by (auto simp: br_set_def max_def)
      then show False using free that by (force simp: written_def)
    qed
    have sorted: "sorted_wrt (\<lambda>x y. ?f x < ?f y) sps" using ok
      by (induction sps) (auto simp: spans_ok_simps intro: order.strict_trans2)
    have "?f (rg, s) \<notin> ?f ` set sps"
    proof
      assume "?f (rg, s) \<in> ?f ` set sps"
      then obtain x where x: "x \<in> set sps" "r_start (fst x) = r_start rg" by auto
      moreover have "r_start (fst x) < r_end (fst x)" using ok x(1) by (simp add: spans_ok_def)
      ultimately show False using apart [OF x(1)] rg by auto
    qed
    then have sort: "sort_key ?f (sps @ [(rg, s)]) = takeWhile ?P sps @ (rg, s) # dropWhile ?P sps"
      using sort_snoc [OF sorted] by simp
    have "r_end (fst x) \<le> r_start rg" if "x \<in> set (takeWhile ?P sps)" for x
      using set_takeWhileD [OF that] apart [of x] rg by auto
    moreover have "r_end rg \<le> r_start (fst x)" if x: "x \<in> set (dropWhile ?P sps)" for x
    proof -
      have "\<not> ?P x"
        using dropWhile_partitioned [OF sorted _ x] by (metis (no_types, lifting) order.strict_trans)
      moreover have "x \<in> set sps" using x by (rule set_dropWhileD)
      moreover have "r_start (fst x) < r_end (fst x)" using ok \<open>x \<in> set sps\<close> by (simp add: spans_ok_def)
      ultimately show ?thesis using apart [of x] by auto
    qed
    moreover have "spans_ok (takeWhile ?P sps @ dropWhile ?P sps)" using ok by simp
    ultimately have ok': "spans_ok (sort_key ?f (sps @ [(rg, s)]))"
      using rg unfolding sort spans_ok_simps by simp
    have "written (sort_key ?f (sps @ [(rg, s)])) = written sps \<union> br_set rg \<times> {s}"
      by (auto simp: written_def)
    then show ?thesis using merge_spans [OF ok'] False by (simp add: insert_span_def)
  qed
  then show "spans_ok (insert_span sps rg s)" and "written (insert_span sps rg s) = written sps \<union> br_set rg \<times> {s}"
    by blast+
qed

section \<open>Holes\<close>

lemma cut_hole_correct:
  assumes "r_start owned < r_end owned" and "r_start h < r_end h"
  shows "list_set (cut_hole owned h) = br_set h - br_set owned"
    and "\<forall>x\<in>set (cut_hole owned h). br_set x \<subseteq> br_set h \<and> r_start x < r_end x"
    and "disjoint_ranges (cut_hole owned h)"
  using assms
  by (auto simp: cut_hole_def intersection_def br_set_def Let_def list_set_def disjoint_ranges_def
      max_def min_def br_is_empty_def split: option.splits if_splits)

lemma disjoint_ranges_append:
  "disjoint_ranges (xs @ ys) \<longleftrightarrow> disjoint_ranges xs \<and> disjoint_ranges ys \<and> list_set xs \<inter> list_set ys = {}"
  by (auto simp: disjoint_ranges_def sorted_wrt_append list_set_def)

lemma cut_holes_correct:
  assumes "r_start owned < r_end owned" and "\<forall>h\<in>set hs. r_start h < r_end h" and "disjoint_ranges hs"
  shows "list_set (concat (map (cut_hole owned) hs)) = list_set hs - br_set owned \<and>
    (\<forall>h\<in>set (concat (map (cut_hole owned) hs)). r_start h < r_end h) \<and>
    disjoint_ranges (concat (map (cut_hole owned) hs))"
  using assms(2,3)
proof (induction hs)
  case (Cons h hs)
  let ?B = "concat (map (cut_hole owned) hs)"
  have h: "r_start h < r_end h" "\<forall>h\<in>set hs. r_start h < r_end h" using Cons.prems(1) by simp_all
  note cut = cut_hole_correct [OF assms(1) h(1)]
  have dis: "br_set h \<inter> list_set hs = {}" "disjoint_ranges hs"
    using Cons.prems(2) disjoint_ranges_insert [of "[]" h hs] by auto
  note ih = Cons.IH [OF h(2) dis(2)]
  have "list_set (cut_hole owned h) \<inter> list_set ?B = {}" using cut(1) ih dis(1) by blast
  then have "disjoint_ranges (cut_hole owned h @ ?B)"
    using cut(3) ih unfolding disjoint_ranges_append by blast
  moreover have "list_set (cut_hole owned h @ ?B) = list_set (h # hs) - br_set owned"
    using cut(1) ih by (simp add: Un_Diff)
  moreover have "\<forall>x\<in>set (cut_hole owned h @ ?B). r_start x < r_end x"
    using cut(2) ih by (simp add: ball_Un)
  ultimately show ?case by simp
qed (simp add: disjoint_ranges_def)

lemma holes_loop_correct:
  assumes "\<forall>sp\<in>set sps. r_start (fst sp) < r_end (fst sp)" and "\<forall>h\<in>set hs. r_start h < r_end h" and "disjoint_ranges hs"
  shows "list_set (holes_loop sps hs) = list_set hs - Domain (written sps)" and "disjoint_ranges (holes_loop sps hs)"
proof -
  have "list_set (holes_loop sps hs) = list_set hs - Domain (written sps) \<and> disjoint_ranges (holes_loop sps hs)"
    using assms
  proof (induction sps hs rule: holes_loop.induct)
    case (2 owned s rest hs)
    define nx where "nx = concat (map (cut_hole owned) hs)"
    have "list_set nx = list_set hs - br_set owned \<and> (\<forall>h\<in>set nx. r_start h < r_end h) \<and> disjoint_ranges nx"
      unfolding nx_def using 2(2-4) by (intro cut_holes_correct) auto
    moreover have "Domain (written ((owned, s) # rest)) = br_set owned \<union> Domain (written rest)" by auto
    moreover have "holes_loop ((owned, s) # rest) hs = (if nx = [] then [] else holes_loop rest nx)"
      by (simp add: nx_def Let_def)
    ultimately show ?case
      using 2(1) [OF nx_def] 2(2) by (cases "nx = []") (auto simp: disjoint_ranges_def)
  qed simp
  then show "list_set (holes_loop sps hs) = list_set hs - Domain (written sps)" "disjoint_ranges (holes_loop sps hs)"
    by blast+
qed

lemma insert_holes_correct:
  assumes "spans_ok sps" and "list_set hs \<inter> Domain (written sps) = {}" and "disjoint_ranges hs"
  shows "spans_ok (foldl (\<lambda>acc h. insert_span acc h s) sps hs) \<and>
    written (foldl (\<lambda>acc h. insert_span acc h s) sps hs) = written sps \<union> list_set hs \<times> {s}"
  using assms
proof (induction hs arbitrary: sps)
  case (Cons h hs)
  have "br_set h \<inter> Domain (written sps) = {}" using Cons.prems(2) by auto
  note ins = insert_span_correct [OF Cons.prems(1) this, of s]
  have dis: "br_set h \<inter> list_set hs = {}" "disjoint_ranges hs"
    using Cons.prems(3) disjoint_ranges_insert [of "[]" h hs] by auto
  then have "list_set hs \<inter> Domain (written (insert_span sps h s)) = {}"
    using Cons.prems(2) by (auto simp: ins(2))
  from Cons.IH [OF ins(1) this dis(2)] show ?case by (auto simp: ins(2))
qed simp

lemma prov_record_spans:
  assumes ok: "spans_ok (spans p)"
  shows "spans_ok (spans (prov_record p rg s))"
    and "written (spans (prov_record p rg s)) = written (spans p) \<union> (br_set rg - Domain (written (spans p))) \<times> {s}"
proof -
  define sps where "sps = spans p"
  have ok: "spans_ok sps" using assms by (simp add: sps_def)
  define out where "out = spans (prov_record p rg s)"
  have "spans_ok out \<and> written out = written sps \<union> (br_set rg - Domain (written sps)) \<times> {s}"
  proof (cases "br_is_empty rg")
    case True
    then show ?thesis using ok by (simp add: out_def prov_record_def sps_def br_is_empty_iff)
  next
    case False
    then have rg: "r_start rg < r_end rg" by (simp add: br_is_empty_def)
    define fast where "fast \<longleftrightarrow> sps \<noteq> [] \<and> snd (last sps) = s \<and> r_start rg \<ge> r_start (fst (last sps)) \<and>
              r_start rg \<le> r_end (fst (last sps))"
    have out: "out = (if fast then butlast sps @
          [(ByteRange_new (r_start (fst (last sps))) (max (r_end (fst (last sps))) (r_end rg)), s)]
        else if sps = [] then [(rg, s)]
        else foldl (\<lambda>acc h. insert_span acc h s) sps (holes_loop sps [rg]))"
      using False by (auto simp: out_def prov_record_def sps_def fast_def Let_def split: option.splits)
    consider (fast) "fast" | (first) "\<not> fast" "sps = []" | (slow) "\<not> fast" "sps \<noteq> []" by blast
    then show ?thesis
    proof cases
      case fast
      define zs l where "zs = butlast sps" and "l = last sps"
      have sps: "sps = zs @ [l]" using fast by (simp add: zs_def l_def fast_def)
      have l: "snd l = s" "r_start (fst l) \<le> r_start rg" "r_start rg \<le> r_end (fst l)"
        using fast by (simp_all add: fast_def l_def)
      have o: "out = zs @ [(ByteRange_new (r_start (fst l)) (max (r_end (fst l)) (r_end rg)), s)]"
        using fast by (simp add: out zs_def l_def)
      have ok': "spans_ok zs" "r_start (fst l) < r_end (fst l)" "\<forall>x\<in>set zs. r_end (fst x) \<le> r_start (fst l)"
        using ok by (auto simp: sps spans_ok_simps)
      have "br_set rg \<inter> Domain (written zs) = {}"
        using l(2) ok'(3) by (fastforce simp: written_def br_set_def)
      moreover have "{r_start (fst l)..<max (r_end (fst l)) (r_end rg)} = br_set (fst l) \<union> br_set rg"
        using l ok'(2) rg by (auto simp: br_set_def less_max_iff_disj)
      ultimately have "written out = written sps \<union> (br_set rg - Domain (written sps)) \<times> {s}"
        using l(1) by (auto simp: o sps)
      moreover have "spans_ok out" using ok' by (auto simp: o spans_ok_simps less_max_iff_disj)
      ultimately show ?thesis by blast
    next
      case first
      then show ?thesis using rg by (auto simp: out spans_ok_simps)
    next
      case slow
      have "\<forall>sp\<in>set sps. r_start (fst sp) < r_end (fst sp)" using ok by (simp add: spans_ok_def)
      then have "list_set (holes_loop sps [rg]) = br_set rg - Domain (written sps)" "disjoint_ranges (holes_loop sps [rg])"
        using holes_loop_correct [of sps "[rg]"] rg by (simp_all add: disjoint_ranges_def)
      then show ?thesis
        using insert_holes_correct [OF ok, of "holes_loop sps [rg]" s] slow by (auto simp: out)
    qed
  qed
  then show "spans_ok (spans (prov_record p rg s))"
    and "written (spans (prov_record p rg s)) = written (spans p) \<union> (br_set rg - Domain (written (spans p))) \<times> {s}"
    by (simp_all add: out_def sps_def)
qed

section \<open>Properties\<close>

text \<open>The specification: the writer of a byte is the source of the first write that covers it, and a
  second writer has shown up when two non-empty writes have different sources.\<close>

definition record_all :: "(byte_range \<times> source_id) list \<Rightarrow> provenance" where
  "record_all ws = foldl (\<lambda>p w. prov_record p (fst w) (snd w)) prov_new ws"

definition writer_of :: "(byte_range \<times> source_id) list \<Rightarrow> u64 \<Rightarrow> source_id option" where
  "writer_of ws x = map_option snd (List.find (\<lambda>w. x \<in> br_set (fst w)) ws)"

definition two_writers :: "(byte_range \<times> source_id) list \<Rightarrow> bool" where
  "two_writers ws \<longleftrightarrow> (\<exists>v\<in>set ws. \<exists>w\<in>set ws. br_set (fst v) \<noteq> {} \<and> br_set (fst w) \<noteq> {} \<and> snd v \<noteq> snd w)"

lemma writer_of_snoc:
  "writer_of (ws @ [w]) x = (case writer_of ws x of
     Some s \<Rightarrow> Some s | None \<Rightarrow> if x \<in> br_set (fst w) then Some (snd w) else None)"
  by (induction ws) (auto simp: writer_of_def split: option.splits)

lemma record_all_spans:
  "spans_ok (spans (record_all ws)) \<and> (\<forall>x s. (x, s) \<in> written (spans (record_all ws)) \<longleftrightarrow> writer_of ws x = Some s)"
proof (induction ws rule: rev_induct)
  case Nil
  show ?case by (simp add: record_all_def prov_new_def spans_ok_simps writer_of_def)
next
  case (snoc w ws)
  let ?p = "record_all ws"
  have step: "record_all (ws @ [w]) = prov_record ?p (fst w) (snd w)" by (simp add: record_all_def)
  note rec = prov_record_spans [OF conjunct1 [OF snoc.IH], of "fst w" "snd w"]
  have "x \<in> Domain (written (spans ?p)) \<longleftrightarrow> writer_of ws x \<noteq> None" for x using snoc.IH by auto
  then have "(x, s) \<in> written (spans (prov_record ?p (fst w) (snd w))) \<longleftrightarrow> writer_of (ws @ [w]) x = Some s" for x s
    using snoc.IH unfolding rec(2) writer_of_snoc by (auto split: option.splits)
  then show ?case using rec(1) by (simp add: step)
qed

lemma prov_record_flags:
  "first_writer (prov_record p rg s) = (if br_is_empty rg \<or> first_writer p \<noteq> None then first_writer p else Some s)"
  "multi_writer (prov_record p rg s) =
     (multi_writer p \<or> \<not> br_is_empty rg \<and> first_writer p \<noteq> None \<and> first_writer p \<noteq> Some s)"
  by (auto simp: prov_record_def Let_def split: option.splits)

lemma record_all_flags:
  "(first_writer (record_all ws) = None \<longleftrightarrow> (\<forall>w\<in>set ws. br_set (fst w) = {})) \<and>
   (\<forall>s. first_writer (record_all ws) = Some s \<longrightarrow> (\<exists>w\<in>set ws. br_set (fst w) \<noteq> {} \<and> snd w = s)) \<and>
   (multi_writer (record_all ws) \<longleftrightarrow> two_writers ws)"
proof (induction ws rule: rev_induct)
  case Nil
  show ?case by (simp add: record_all_def prov_new_def two_writers_def)
next
  case (snoc w ws)
  have step: "record_all (ws @ [w]) = prov_record (record_all ws) (fst w) (snd w)" by (simp add: record_all_def)
  have two: "two_writers (ws @ [w]) \<longleftrightarrow> two_writers ws \<or>
      br_set (fst w) \<noteq> {} \<and> (\<exists>v\<in>set ws. br_set (fst v) \<noteq> {} \<and> snd v \<noteq> snd w)"
    by (simp add: two_writers_def eq_commute [of "snd w"]) blast
  show ?case
  proof (cases "first_writer (record_all ws)")
    case None
    then show ?thesis using snoc.IH by (auto simp: step prov_record_flags br_is_empty_iff two)
  next
    case (Some s)
    then obtain v where v: "v \<in> set ws" "br_set (fst v) \<noteq> {}" "snd v = s" using snoc.IH by blast
    have "first_writer (record_all (ws @ [w])) = Some s" by (simp add: step prov_record_flags Some)
    moreover have "multi_writer (record_all (ws @ [w])) \<longleftrightarrow> two_writers ws \<or> br_set (fst w) \<noteq> {} \<and> s \<noteq> snd w"
      using snoc.IH by (simp add: step prov_record_flags Some br_is_empty_iff)
    moreover have "two_writers (ws @ [w]) \<longleftrightarrow> two_writers ws \<or> br_set (fst w) \<noteq> {} \<and> s \<noteq> snd w"
    proof (cases "s = snd w")
      case True
      have "two_writers ws" if "u \<in> set ws" "br_set (fst u) \<noteq> {}" "snd u \<noteq> snd w" for u
        unfolding two_writers_def using v that True by (intro bexI [of _ u] bexI [of _ v]) auto
      with True show ?thesis unfolding two by blast
    next
      case False
      then show ?thesis unfolding two using v by blast
    qed
    ultimately show ?thesis using v by auto
  qed
qed

lemma foreign_loop_correct:
  "spans_ok sps \<Longrightarrow> list_set (foreign_loop sps rg s) = {x \<in> br_set rg. \<exists>t. t \<noteq> s \<and> (x, t) \<in> written sps}"
proof (induction sps rg s rule: foreign_loop.induct)
  case (2 r owner rest rg s)
  have ix: "list_set (case intersection r rg of Some ix \<Rightarrow> [ix] | None \<Rightarrow> []) = br_set r \<inter> br_set rg"
    by (simp add: intersection_set split: option.splits)
  have "br_set rg \<inter> Domain (written rest) = {}" if "r_end rg \<le> r_start r"
    using 2(3) that by (fastforce simp: written_def br_set_def spans_ok_simps)
  then show ?case
    using 2 ix by (auto simp: spans_ok_simps)
qed simp

text \<open>C36: The spans of an artifact attribute every byte to the source whose write covered it first:
  after any sequence of recorded writes, the spans are sorted, disjoint and non-empty, and they
  hold exactly the first writer of every byte.\<close>

theorem provenance_is_first_writer:
  "spans_ok (spans (record_all ws)) \<and>
   ((x, s) \<in> written (spans (record_all ws)) \<longleftrightarrow> writer_of ws x = Some s)"
  using record_all_spans by blast

text \<open>Once two sources have written, the foreign spans of a range are exactly its bytes whose
  first writer is another source.\<close>

theorem foreign_spans_are_foreign_bytes:
  assumes "two_writers ws"
  shows "list_set (foreign_spans (record_all ws) rg s) = {x \<in> br_set rg. \<exists>t. t \<noteq> s \<and> writer_of ws x = Some t}"
  using assms record_all_flags [of ws] record_all_spans [of ws] foreign_loop_correct [of "spans (record_all ws)" rg s]
  by (simp add: foreign_spans_def)

theorem foreign_spans_are_foreign_bytes_witness:
  "list_set (foreign_spans (record_all [(ByteRange_new 0 10, 1), (ByteRange_new 5 15, 2)]) (ByteRange_new 4 8) 2) =
     {x \<in> br_set (ByteRange_new 4 8). \<exists>t. t \<noteq> 2 \<and>
        writer_of [(ByteRange_new 0 10, 1), (ByteRange_new 5 15, 2)] x = Some t}"
  by (rule foreign_spans_are_foreign_bytes) (auto simp: two_writers_def intro!: exI [of _ "7 :: u64"])

text \<open>Before a second source has been recorded no byte counts as foreign: the first range that a
  second source delivers is reported free of foreign bytes even when the first source wrote all of
  it, so it is not compared with what is on disk.\<close>

theorem first_foreign_write_is_not_reported:
  "foreign_spans (record_all [(rg, a)]) rg b = [] \<and> br_set rg \<times> {a} \<subseteq> written (spans (record_all [(rg, a)]))"
  using record_all_flags [of "[(rg, a)]"] record_all_spans [of "[(rg, a)]"]
  by (auto simp: foreign_spans_def two_writers_def writer_of_def)

end
