(* ===== verification/Text.thy ===== *)
theory Text
  imports Prelude
begin

text \<open>
  The string operations of Rust's standard library that the HTTP code uses, on ASCII text (header
  values are visible ASCII, spaces and tabs): \<open>trim\<close>, \<open>strip_prefix\<close>, \<open>split_once\<close>, the decimal
  \<open>parse::<u64>\<close> with its overflow check, and printing a number in decimal.
\<close>

definition is_ws :: "char \<Rightarrow> bool" where
  "is_ws c \<longleftrightarrow> (of_char c :: nat) = 32 \<or> 9 \<le> (of_char c :: nat) \<and> (of_char c :: nat) \<le> 13"

definition trim :: "string \<Rightarrow> string" where
  "trim s = rev (dropWhile is_ws (rev (dropWhile is_ws s)))"

fun strip_prefix :: "string \<Rightarrow> string \<Rightarrow> string option" where
  "strip_prefix [] s = Some s"
| "strip_prefix (p # ps) [] = None"
| "strip_prefix (p # ps) (c # cs) = (if p = c then strip_prefix ps cs else None)"

fun split_once :: "char \<Rightarrow> string \<Rightarrow> (string \<times> string) option" where
  "split_once d [] = None"
| "split_once d (c # cs) =
     (if c = d then Some ([], cs) else map_option (\<lambda>(a, b). (c # a, b)) (split_once d cs))"

definition is_digit :: "char \<Rightarrow> bool" where
  "is_digit c \<longleftrightarrow> 48 \<le> (of_char c :: nat) \<and> (of_char c :: nat) \<le> 57"

definition digit_value :: "char \<Rightarrow> nat" where
  "digit_value c = of_char c - 48"

definition digits_value :: "string \<Rightarrow> nat" where
  "digits_value ds = foldl (\<lambda>a c. 10 * a + digit_value c) 0 ds"

text \<open>An optional plus sign, then at least one digit; \<open>None\<close> is the parse error, also on overflow.\<close>

definition parse_u64 :: "string \<Rightarrow> u64 option" where
  "parse_u64 s =
     (let ds = (case s of c # r \<Rightarrow> if c = CHR ''+'' then r else s | [] \<Rightarrow> [])
      in if ds = [] \<or> \<not> list_all is_digit ds then None
         else if digits_value ds < 2 ^ 64 then Some (of_nat (digits_value ds)) else None)"

definition digit_char :: "nat \<Rightarrow> char" where
  "digit_char d = char_of (48 + d)"

fun show_nat :: "nat \<Rightarrow> string" where
  "show_nat n = (if n < 10 then [digit_char n] else show_nat (n div 10) @ [digit_char (n mod 10)])"

declare show_nat.simps [simp del]

definition show_u64 :: "u64 \<Rightarrow> string" where
  "show_u64 w = show_nat (unat w)"

section \<open>Decimal numbers\<close>

lemma digit_char [simp]:
  assumes "d < 10"
  shows "is_digit (digit_char d)" and "digit_value (digit_char d) = d"
  using assms by (simp_all add: is_digit_def digit_char_def digit_value_def)

lemma digits_value_append: "digits_value (xs @ [c]) = 10 * digits_value xs + digit_value c"
  by (simp add: digits_value_def)

lemma show_nat_digits: "show_nat n \<noteq> [] \<and> list_all is_digit (show_nat n) \<and> digits_value (show_nat n) = n"
proof (induction n rule: show_nat.induct)
  case (1 n)
  show ?case
  proof (cases "n < 10")
    case True
    then show ?thesis by (subst (1 2 3) show_nat.simps) (simp add: digits_value_def)
  next
    case False
    then show ?thesis
      using 1 by (subst (1 2 3) show_nat.simps) (simp add: digits_value_append)
  qed
qed

lemma digit_not [simp]: "is_digit c \<Longrightarrow> \<not> is_ws c" "is_digit c \<Longrightarrow> c \<noteq> CHR ''+''"
  "is_digit c \<Longrightarrow> c \<noteq> CHR ''-''" "is_digit c \<Longrightarrow> c \<noteq> CHR ''/''" "is_digit c \<Longrightarrow> c \<noteq> CHR ''*''"
  by (auto simp: is_digit_def is_ws_def)

lemma parse_show_u64 [simp]: "parse_u64 (show_u64 w) = Some w"
proof -
  have "hd (show_nat (unat w)) \<noteq> CHR ''+''"
    using show_nat_digits [of "unat w"] digit_not(2) by (cases "show_nat (unat w)") auto
  then have "(case show_nat (unat w) of c # r \<Rightarrow> if c = CHR ''+'' then r else show_nat (unat w) | [] \<Rightarrow> []) =
      show_nat (unat w)" by (cases "show_nat (unat w)") auto
  then show ?thesis
    using show_nat_digits [of "unat w"] unat_u64_less [of w]
    by (simp add: parse_u64_def show_u64_def Let_def)
qed

section \<open>Trimming and splitting\<close>

definition no_ws_ends :: "string \<Rightarrow> bool" where
  "no_ws_ends s \<longleftrightarrow> s = [] \<or> \<not> is_ws (hd s) \<and> \<not> is_ws (last s)"

lemma trim_id [simp]: "no_ws_ends s \<Longrightarrow> trim s = s"
proof -
  assume "no_ws_ends s"
  then have "dropWhile is_ws s = s" "dropWhile is_ws (rev s) = rev s"
    by (auto simp: no_ws_ends_def dropWhile_eq_self_iff hd_rev)
  then show "trim s = s" by (simp add: trim_def)
qed

lemma show_u64_no_ws [simp]: "no_ws_ends (show_u64 w)"
proof -
  have "show_u64 w \<noteq> []" "list_all is_digit (show_u64 w)"
    using show_nat_digits by (simp_all add: show_u64_def)
  then show ?thesis by (auto simp: no_ws_ends_def list_all_iff)
qed

lemma split_once_skip [simp]: "d \<notin> set a \<Longrightarrow> split_once d (a @ d # b) = Some (a, b)"
  by (induction a) auto

lemma show_u64_plain [simp]:
  "CHR ''-'' \<notin> set (show_u64 w)" "CHR ''/'' \<notin> set (show_u64 w)" "show_u64 w \<noteq> []" "show_u64 w \<noteq> ''*''"
proof -
  have "\<forall>c\<in>set (show_u64 w). is_digit c" "show_u64 w \<noteq> []"
    using show_nat_digits [of "unat w"] by (simp_all add: show_u64_def list_all_iff)
  then show "CHR ''-'' \<notin> set (show_u64 w)" "CHR ''/'' \<notin> set (show_u64 w)" "show_u64 w \<noteq> []" "show_u64 w \<noteq> ''*''"
    using digit_not(3,4,5) by fastforce+
qed

lemma strip_prefix_append [simp]: "strip_prefix p (p @ s) = Some s"
  by (induction p) auto

end
