(* ===== verification/Errors.thy ===== *)
theory Errors
  imports Ranges Text
begin

text \<open>
  \<^verbatim>\<open>src/crates/xde/src/core/error.rs\<close> and \<^verbatim>\<open>src/crates/xde/src/core/disposition.rs\<close>: the typed errors
  of the engine and what the controller does about a status or an error.

  An \<open>io::Error\<close> is its kind, the only part the code looks at; the payload of \<open>Error::Other\<close> is an
  opaque object and left out. The date parser of the \<open>httpdate\<close> crate is the parameter \<open>http_date\<close>,
  and the current time the parameter \<open>now\<close>.
\<close>

datatype io_error_kind =
    ConnectionReset | ConnectionAborted | BrokenPipe | UnexpectedEof | TimedOut
  | ConnectionRefused | HostUnreachable | OtherKind

datatype disposition =
    Accept
  | RetrySameRange "duration option" string
  | BackOffOrigin "duration option" string
  | RefreshCredentials u16
  | InvalidateArtifact string
  | RecheckLength
  | FullBodyForRangeRequest
  | RangeCapabilityLost_disposition
  | QuarantineSource string
  | Fatal u16 string

datatype transport_error =
    Transport_Io io_error_kind | ConnectionRetired string | ConnectTimeout | HandshakeFailed string | Tls string

datatype http_error =
    Protocol string
  | RangeUnsupported u16
  | OversizedBody u64 u64
  | PrematureEof u64 u64
  | InvalidStatus u16
  | UnexpectedStatus u16 string
  | UnexpectedPartialContent
  | CompressedPayload
  | RateLimited "duration option"
  | RangeCapabilityLost
  | Dispositioned disposition u16

datatype destination_error =
    Destination_Io io_error_kind | Rejected string | Enospc | LeaseConflict string | NonIdempotentRetry string

datatype persistence_error = Persistence_Io io_error_kind | Corrupt string

datatype resolver_error = Resolver_Io io_error_kind | NotFound string | Resolver_Timeout

datatype runtime_error = Init string | EngineBusy | Runtime_EngineGone | ThreadCreate string | Join string

datatype error =
    Transport transport_error
  | Http http_error
  | Destination destination_error
  | Persistence persistence_error
  | Resolver resolver_error
  | RepresentationChanged string
  | Integrity string
  | OverlapMismatch u64
  | CredentialsExpired
  | Cancelled
  | DeadlineExceeded
  | Stalled string
  | EngineGone
  | Config string
  | Runtime runtime_error
  | Other

type_synonym 'a res = "error + 'a"

definition error_protocol :: "string \<Rightarrow> error" where
  "error_protocol m = Http (Protocol m)"

definition error_destination :: "string \<Rightarrow> error" where
  "error_destination m = Destination (Rejected m)"

definition error_journal :: "string \<Rightarrow> error" where
  "error_journal m = Persistence (Corrupt m)"

fun is_destination_error :: "error \<Rightarrow> bool" where
  "is_destination_error (Destination _) \<longleftrightarrow> True"
| "is_destination_error _ \<longleftrightarrow> False"

fun is_persistence_error :: "error \<Rightarrow> bool" where
  "is_persistence_error (Persistence _) \<longleftrightarrow> True"
| "is_persistence_error _ \<longleftrightarrow> False"

fun is_range_retryable :: "error \<Rightarrow> bool" where
  "is_range_retryable (Transport (Transport_Io _)) \<longleftrightarrow> True"
| "is_range_retryable (Transport (ConnectionRetired _)) \<longleftrightarrow> True"
| "is_range_retryable (Transport ConnectTimeout) \<longleftrightarrow> True"
| "is_range_retryable (Http (RateLimited _)) \<longleftrightarrow> True"
| "is_range_retryable (Http (PrematureEof _ _)) \<longleftrightarrow> True"
| "is_range_retryable (Http (Protocol _)) \<longleftrightarrow> True"
| "is_range_retryable _ \<longleftrightarrow> False"

fun invalidates_state :: "error \<Rightarrow> bool" where
  "invalidates_state (RepresentationChanged _) \<longleftrightarrow> True"
| "invalidates_state (OverlapMismatch _) \<longleftrightarrow> True"
| "invalidates_state _ \<longleftrightarrow> False"

section \<open>Dispositions\<close>

definition classify_status :: "u16 \<Rightarrow> byte_range option \<Rightarrow> duration option \<Rightarrow> bool \<Rightarrow> disposition" where
  "classify_status status requested retry_after is_resume =
     (if status = 200 \<and> requested \<noteq> None then
        if is_resume then FullBodyForRangeRequest else Accept
      else if status = 200 \<or> status = 204 then Accept
      else if status = 206 then Accept
      else if status \<in> {301, 302, 303, 307, 308} then Fatal status ''redirect must be resolved before fetching''
      else if status = 401 \<or> status = 403 then RefreshCredentials status
      else if status = 404 \<or> status = 410 then Fatal status ''resource gone''
      else if status = 408 then RetrySameRange None ''request timeout''
      else if status = 412 then InvalidateArtifact ''precondition failed''
      else if status = 416 then RecheckLength
      else if status = 429 then BackOffOrigin retry_after ''rate limited''
      else if status = 500 \<or> status = 502 \<or> status = 504 then RetrySameRange None ''upstream error''
      else if status = 503 then BackOffOrigin retry_after ''service unavailable''
      else if 500 \<le> status \<and> status < 600 then RetrySameRange None ''server error''
      else Fatal status ''unhandled status'')"

definition secs :: "nat \<Rightarrow> duration" where
  "secs n = n * 1000000000"

definition parse_retry_after :: "(string \<Rightarrow> instant option) \<Rightarrow> instant \<Rightarrow> string \<Rightarrow> duration option" where
  "parse_retry_after http_date now v =
     (case parse_u64 (trim v) of
        Some n \<Rightarrow> Some (secs (unat (min n 3600)))
      | None \<Rightarrow>
          (case http_date v of
             None \<Rightarrow> None
           | Some t \<Rightarrow> if t < now then None else Some (min (t - now) (secs 3600))))"

fun classify_transport_error :: "error \<Rightarrow> disposition" where
  "classify_transport_error (Transport (Transport_Io k)) =
     (if k \<in> {ConnectionReset, ConnectionAborted, BrokenPipe, UnexpectedEof, TimedOut}
      then RetrySameRange None ''connection dropped''
      else if k \<in> {ConnectionRefused, HostUnreachable} then BackOffOrigin None ''origin unreachable''
      else RetrySameRange None ''io error'')"
| "classify_transport_error (Transport (ConnectionRetired _)) = RetrySameRange None ''connection retired''"
| "classify_transport_error (Transport ConnectTimeout) = BackOffOrigin None ''connect timeout''"
| "classify_transport_error (Http (RateLimited after)) = BackOffOrigin after ''rate limited''"
| "classify_transport_error (Http (PrematureEof _ _)) = RetrySameRange None ''premature eof''"
| "classify_transport_error (Http RangeCapabilityLost) = FullBodyForRangeRequest"
| "classify_transport_error (Http (Dispositioned d _)) = d"
| "classify_transport_error (Http (Protocol _)) = RetrySameRange None ''protocol error''"
| "classify_transport_error (OverlapMismatch _) = QuarantineSource ''overlap mismatch against verified data''"
| "classify_transport_error (RepresentationChanged _) = InvalidateArtifact ''representation changed''"
| "classify_transport_error Cancelled = Fatal 0 ''cancelled''"
| "classify_transport_error DeadlineExceeded = Fatal 0 ''deadline exceeded''"
| "classify_transport_error _ = Fatal 0 ''unrecoverable''"

fun is_retry :: "disposition \<Rightarrow> bool" where
  "is_retry (RetrySameRange _ _) \<longleftrightarrow> True"
| "is_retry (BackOffOrigin _ _) \<longleftrightarrow> True"
| "is_retry _ \<longleftrightarrow> False"

fun is_fatal :: "disposition \<Rightarrow> bool" where
  "is_fatal (Fatal _ _) \<longleftrightarrow> True"
| "is_fatal _ \<longleftrightarrow> False"

section \<open>Properties\<close>

text \<open>The two classifications of an error agree: an error counts as retryable for its range exactly
  when its disposition is a retry or a back-off (an error that carries the disposition of a status
  aside), and every destination, persistence, resolver, runtime or configuration error is fatal,
  never a network retry.\<close>

theorem retryable_errors_are_retried:
  "(is_range_retryable e \<longleftrightarrow> is_retry (classify_transport_error e) \<and> (\<nexists>d s. e = Http (Dispositioned d s))) \<and>
   (is_destination_error e \<or> is_persistence_error e \<or> (\<exists>r. e = Resolver r) \<or> (\<exists>r. e = Runtime r) \<or> (\<exists>c. e = Config c)
      \<longrightarrow> is_fatal (classify_transport_error e))"
  by (cases e rule: classify_transport_error.cases) auto

theorem retryable_errors_are_retried_witness:
  "is_fatal (classify_transport_error (Destination Enospc))"
  using retryable_errors_are_retried [of "Destination Enospc"] by simp

text \<open>A full body is never accepted for a resumed range: when a range was requested, a 200 response
  is accepted only on a fresh job, and every status outside 200, 204 and 206 is not accepted at
  all. A redirect never reaches the body.\<close>

theorem accepted_statuses:
  "classify_status status requested ra is_resume = Accept \<longleftrightarrow>
     status \<in> {204, 206} \<union> (if is_resume \<and> requested \<noteq> None then {} else {200})"
proof (cases "status \<in> {200, 204, 206}")
  case True
  then show ?thesis by (auto simp: classify_status_def)
next
  case False
  then show ?thesis by (simp add: classify_status_def)
qed

text \<open>A \<open>Retry-After\<close> header never holds a job back for more than an hour, whether it is a number
  of seconds or a date, whatever the date parser returns.\<close>

theorem retry_after_at_most_an_hour:
  "case parse_retry_after http_date now v of None \<Rightarrow> True | Some d \<Rightarrow> d \<le> 3600 * 1000000000"
proof -
  have "unat (min n 3600 :: u64) \<le> 3600" for n :: u64
    by (simp add: min_def word_le_nat_alt)
  then have "secs (unat (min n 3600 :: u64)) \<le> 3600 * 1000000000" for n :: u64
    unfolding secs_def by (intro mult_right_mono) auto
  then show ?thesis by (simp add: parse_retry_after_def secs_def min.coboundedI2 split: option.splits)
qed

end
