(* ===== verification/Http_Range.thy ===== *)
theory Http_Range
  imports Errors
begin

text \<open>
  \<^verbatim>\<open>src/crates/xde/src/http/range.rs\<close> and \<open>ByteRange::to_http_range\<close>: the \<open>Content-Range\<close> header of a
  206 response, its parser, and the check against the requested range. The text of an error
  message is the fixed part of its format string.
\<close>

record content_range =
  cr_first :: u64
  cr_last :: u64
  complete_length :: "u64 option"

definition cr_len :: "content_range \<Rightarrow> u64" where
  "cr_len c =
     (case checked_sub (cr_last c) (cr_first c) of
        None \<Rightarrow> 0
      | Some d \<Rightarrow> (case checked_add d 1 of None \<Rightarrow> 0 | Some n \<Rightarrow> n))"

definition cr_is_empty :: "content_range \<Rightarrow> bool" where
  "cr_is_empty c \<longleftrightarrow> cr_first c > cr_last c"

definition as_range :: "content_range \<Rightarrow> byte_range res" where
  "as_range c =
     (case checked_add (cr_last c) 1 of
        None \<Rightarrow> Inl (error_protocol ''Content-Range last=u64::MAX overflow'')
      | Some e \<Rightarrow> Inr (ByteRange_new (cr_first c) e))"

definition validate_against :: "content_range \<Rightarrow> byte_range \<Rightarrow> unit res" where
  "validate_against c requested =
     (if cr_first c \<noteq> r_start requested then Inl (error_protocol ''Content-Range starts at'')
      else
        (case checked_add (cr_last c) 1 of
           None \<Rightarrow> Inl (error_protocol ''Content-Range last overflow'')
         | Some e \<Rightarrow>
             if e > r_end requested then Inl (error_protocol ''Content-Range ends at'')
             else if cr_last c < cr_first c then Inl (error_protocol ''Content-Range last < first'')
             else if (case complete_length c of None \<Rightarrow> False | Some t \<Rightarrow> cr_last c \<ge> t)
             then Inl (error_protocol ''Content-Range last >= complete length'')
             else Inr ()))"

definition parse_total :: "string \<Rightarrow> u64 option res" where
  "parse_total t =
     (if t = ''*'' then Inr None
      else
        (case parse_u64 t of
           None \<Rightarrow> Inl (error_protocol ''bad complete length'')
         | Some cl \<Rightarrow>
             if cl = 0 then Inl (error_protocol ''Content-Range complete length cannot be 0'')
             else Inr (Some cl)))"

definition parse_span :: "string \<Rightarrow> (u64 \<times> u64) res" where
  "parse_span sp =
     (case split_once (CHR ''-'') (trim sp) of
        None \<Rightarrow> Inl (error_protocol ''malformed Content-Range span'')
      | Some (a, b) \<Rightarrow>
          (case parse_u64 (trim a) of
             None \<Rightarrow> Inl (error_protocol ''bad range start'')
           | Some fst_b \<Rightarrow>
               (case parse_u64 (trim b) of
                  None \<Rightarrow> Inl (error_protocol ''bad range end'')
                | Some lst_b \<Rightarrow>
                    if lst_b < fst_b then Inl (error_protocol ''Content-Range last < first'')
                    else if lst_b = u64_MAX then Inl (error_protocol ''Content-Range last=u64::MAX is invalid'')
                    else Inr (fst_b, lst_b))))"

definition parse_content_range :: "string \<Rightarrow> content_range res" where
  "parse_content_range v0 =
     (let v = trim v0
      in case (case strip_prefix ''bytes '' v of Some r \<Rightarrow> Some r | None \<Rightarrow> strip_prefix ''bytes='' v) of
           None \<Rightarrow> Inl (error_protocol ''unsupported Content-Range unit'')
         | Some rest \<Rightarrow>
             (case split_once (CHR ''/'') rest of
                None \<Rightarrow> Inl (error_protocol ''malformed Content-Range'')
              | Some (sp, t) \<Rightarrow>
                  if trim sp = ''*'' then Inl (error_protocol ''unsatisfied Content-Range'')
                  else
                    (case parse_span sp of
                       Inl e \<Rightarrow> Inl e
                     | Inr (fst_b, lst_b) \<Rightarrow>
                         (case parse_total (trim t) of
                            Inl e \<Rightarrow> Inl e
                          | Inr cl \<Rightarrow> Inr \<lparr>cr_first = fst_b, cr_last = lst_b, complete_length = cl\<rparr>))))"

definition to_http_range :: "byte_range \<Rightarrow> string" where
  "to_http_range r = ''bytes='' @ show_u64 (r_start r) @ ''-'' @ show_u64 (r_end r - 1)"

section \<open>Properties\<close>

text \<open>The header as RFC 9110 writes it.\<close>

definition render_content_range :: "content_range \<Rightarrow> string" where
  "render_content_range c =
     ''bytes '' @ show_u64 (cr_first c) @ ''-'' @ show_u64 (cr_last c) @ ''/'' @
     (case complete_length c of None \<Rightarrow> ''*'' | Some t \<Rightarrow> show_u64 t)"

definition cr_valid :: "content_range \<Rightarrow> bool" where
  "cr_valid c \<longleftrightarrow> cr_first c \<le> cr_last c \<and> cr_last c \<noteq> u64_MAX \<and> complete_length c \<noteq> Some 0"

lemma no_ws_ends_append:
  "xs \<noteq> [] \<Longrightarrow> ys \<noteq> [] \<Longrightarrow> no_ws_ends xs \<Longrightarrow> no_ws_ends ys \<Longrightarrow> no_ws_ends (xs @ zs @ ys)"
  by (auto simp: no_ws_ends_def)

lemma no_ws_consts [simp]: "no_ws_ends ''bytes'' " "no_ws_ends ''*''"
  by (simp_all add: no_ws_ends_def is_ws_def)

lemma parse_span_show:
  assumes "a \<le> b" and "b \<noteq> u64_MAX"
  shows "parse_span (show_u64 a @ ''-'' @ show_u64 b) = Inr (a, b)"
proof -
  have "trim (show_u64 a @ ''-'' @ show_u64 b) = show_u64 a @ CHR ''-'' # show_u64 b"
    using no_ws_ends_append [of "show_u64 a" "show_u64 b" "''-''"] by simp
  then show ?thesis using assms by (simp add: parse_span_def not_less)
qed

lemma parse_total_show: "n \<noteq> 0 \<Longrightarrow> parse_total (show_u64 n) = Inr (Some n)" "parse_total ''*'' = Inr None"
  by (simp_all add: parse_total_def)

lemma parse_render:
  assumes "cr_valid c"
  shows "parse_content_range (render_content_range c) = Inr c"
proof -
  define sp where "sp = show_u64 (cr_first c) @ ''-'' @ show_u64 (cr_last c)"
  define t where "t = (case complete_length c of None \<Rightarrow> ''*'' | Some t \<Rightarrow> show_u64 t)"
  have t: "no_ws_ends t" "t \<noteq> []" "parse_total t = Inr (complete_length c)"
    using assms by (auto simp: t_def cr_valid_def parse_total_show split: option.splits)
  have r: "render_content_range c = ''bytes '' @ sp @ CHR ''/'' # t"
    by (simp add: render_content_range_def sp_def t_def)
  have v: "trim (render_content_range c) = ''bytes '' @ sp @ CHR ''/'' # t"
    using no_ws_ends_append [of "''bytes''" t "CHR '' '' # sp @ ''/''"] t unfolding r by simp
  have "strip_prefix ''bytes '' (''bytes '' @ sp @ CHR ''/'' # t) = Some (sp @ CHR ''/'' # t)"
    by (rule strip_prefix_append)
  moreover have "split_once (CHR ''/'') (sp @ CHR ''/'' # t) = Some (sp, t)"
    by (rule split_once_skip) (simp add: sp_def)
  moreover have "trim sp \<noteq> ''*''" and "parse_span sp = Inr (cr_first c, cr_last c)"
    using assms no_ws_ends_append [of "show_u64 (cr_first c)" "show_u64 (cr_last c)" "''-''"]
      parse_span_show [of "cr_first c" "cr_last c"]
    by (auto simp: sp_def cr_valid_def append_eq_Cons_conv)
  ultimately show ?thesis
    using t unfolding parse_content_range_def v Let_def by simp
qed

lemma parse_content_range_valid:
  "parse_content_range v = Inr c \<Longrightarrow> cr_valid c"
  by (auto simp: parse_content_range_def parse_span_def parse_total_def cr_valid_def Let_def not_less
      split: option.splits sum.splits prod.splits if_splits)

text \<open>C37: Parsing inverts the standard form of the header: every valid content range, with or without a
  complete length, is read back exactly from its rendering, and only valid ones are ever read.\<close>

theorem content_range_round_trip:
  "(cr_valid c \<longrightarrow> parse_content_range (render_content_range c) = Inr c) \<and>
   (parse_content_range v = Inr c \<longrightarrow> cr_valid c)"
  using parse_render parse_content_range_valid by blast

theorem content_range_round_trip_witness:
  "parse_content_range (render_content_range \<lparr>cr_first = 500, cr_last = 999, complete_length = Some 10000\<rparr>) =
     Inr \<lparr>cr_first = 500, cr_last = 999, complete_length = Some 10000\<rparr>"
  using content_range_round_trip [of "\<lparr>cr_first = 500, cr_last = 999, complete_length = Some 10000\<rparr>"]
  by (simp add: cr_valid_def)

text \<open>A parsed header that passes the check against the request describes a non-empty range of bytes
  that starts where the request starts, lies inside the requested range and inside the object, and
  has the length the header reports; the conversion to a half-open range cannot fail.\<close>

theorem validated_content_range_is_requested:
  assumes "parse_content_range v = Inr c" and "validate_against c requested = Inr ()"
  shows "\<exists>r. as_range c = Inr r \<and> r_start r = r_start requested \<and> br_set r \<noteq> {} \<and>
    br_set r \<subseteq> br_set requested \<and> br_len r = cr_len c \<and> unat (cr_len c) = card (br_set r) \<and>
    (\<forall>t. complete_length c = Some t \<longrightarrow> r_end r \<le> t)"
proof -
  have valid: "cr_first c \<le> cr_last c" "cr_last c \<noteq> u64_MAX"
    using parse_content_range_valid [OF assms(1)] by (simp_all add: cr_valid_def)
  obtain e where e: "checked_add (cr_last c) 1 = Some e" "e \<le> r_end requested" "cr_first c = r_start requested"
    "case complete_length c of None \<Rightarrow> True | Some t \<Rightarrow> cr_last c < t"
    using assms(2) by (auto simp: validate_against_def not_less not_le split: option.splits if_splits)
  have ue: "unat e = unat (cr_last c) + 1" and ee: "e = cr_last c + 1"
    using checked_add_SomeD [OF e(1)] e(1) by (simp_all add: checked_add_Some_iff)
  let ?r = "ByteRange_new (cr_first c) e"
  have lt: "cr_first c < e" using valid(1) ue by (simp add: word_less_nat_alt word_le_nat_alt)
  have len: "br_len ?r = cr_len c"
  proof -
    have "unat (cr_last c - cr_first c) + 1 < 2 ^ 64"
      using valid(1) ue unat_u64_less [of e] by (simp add: unat_diff_word)
    then show ?thesis
      using leD [OF valid(1)] by (simp add: cr_len_def checked_sub_def checked_add_def br_len_def ee)
  qed
  have "as_range c = Inr ?r" by (simp add: as_range_def e(1))
  moreover have "br_set ?r \<noteq> {}" "br_set ?r \<subseteq> br_set requested"
    using lt e(2,3) by (auto simp: br_set_def)
  moreover have "unat (cr_len c) = card (br_set ?r)" using card_br_set [of ?r] lt by (simp add: len less_imp_le)
  moreover have "r_end ?r \<le> t" if "complete_length c = Some t" for t
    using e(4) that ue by (simp add: word_less_nat_alt word_le_nat_alt)
  ultimately show ?thesis using e(3) len by (intro exI [of _ ?r]) simp
qed

theorem validated_content_range_is_requested_witness:
  "\<exists>r. as_range \<lparr>cr_first = 5, cr_last = 9, complete_length = Some 20\<rparr> = Inr r \<and> r_start r = 5 \<and> br_set r \<noteq> {}"
proof -
  let ?c = "\<lparr>cr_first = 5, cr_last = 9, complete_length = Some 20\<rparr>"
  have "parse_content_range (render_content_range ?c) = Inr ?c" by (rule parse_render) (simp add: cr_valid_def)
  moreover have "validate_against ?c (ByteRange_new 5 10) = Inr ()"
    by (simp add: validate_against_def checked_add_def)
  ultimately show ?thesis
    using validated_content_range_is_requested [of "render_content_range ?c" ?c "ByteRange_new 5 10"] by auto
qed

text \<open>The \<open>Range\<close> header the engine sends names exactly the bytes it wants: an answer that echoes it
  as \<open>Content-Range\<close> (with any complete length past its end) is accepted and gives back the same
  half-open range.\<close>

theorem requested_range_round_trip:
  assumes "r_start r < r_end r" and "total_len = ''*'' \<or> (\<exists>n. total_len = show_u64 n \<and> r_end r \<le> n)"
  shows "\<exists>c. parse_content_range (to_http_range r @ ''/'' @ total_len) = Inr c \<and>
    validate_against c r = Inr () \<and> as_range c = Inr r"
proof -
  have last: "r_start r \<le> r_end r - 1" "r_end r - 1 \<noteq> u64_MAX" "r_end r - 1 + 1 = r_end r"
    "unat (r_end r) = unat (r_end r - 1) + 1"
  proof -
    have "unat (r_end r - 1) = unat (r_end r) - 1" "0 < unat (r_end r)"
      using assms(1) by (auto simp: unat_diff_word word_less_nat_alt word_le_nat_alt)
    then show "r_start r \<le> r_end r - 1" "unat (r_end r) = unat (r_end r - 1) + 1"
      using assms(1) by (auto simp: word_less_nat_alt word_le_nat_alt)
    then show "r_end r - 1 \<noteq> u64_MAX" using unat_u64_less [of "r_end r"] by auto
  qed simp
  define sp where "sp = show_u64 (r_start r) @ ''-'' @ show_u64 (r_end r - 1)"
  obtain cl where t: "no_ws_ends total_len" "total_len \<noteq> []" "parse_total total_len = Inr cl"
    "\<forall>n. cl = Some n \<longrightarrow> r_end r \<le> n"
  proof (cases "total_len = ''*''")
    case False
    then obtain n where n: "total_len = show_u64 n" "r_end r \<le> n" using assms(2) by blast
    then have "n \<noteq> 0" using assms(1) by auto
    then show thesis using that [of "Some n"] n by (simp add: parse_total_show)
  qed (use that [of None] in \<open>simp add: parse_total_show\<close>)
  let ?c = "\<lparr>cr_first = r_start r, cr_last = r_end r - 1, complete_length = cl\<rparr>"
  have hdr: "to_http_range r @ ''/'' @ total_len = ''bytes='' @ sp @ CHR ''/'' # total_len"
    by (simp add: to_http_range_def sp_def)
  have "trim (''bytes='' @ sp @ CHR ''/'' # total_len) = ''bytes='' @ sp @ CHR ''/'' # total_len"
    using no_ws_ends_append [of "''bytes''" total_len "CHR ''='' # sp @ ''/''"] t by simp
  moreover have "strip_prefix ''bytes '' (''bytes='' @ sp @ CHR ''/'' # total_len) = None" by simp
  moreover have "strip_prefix ''bytes='' (''bytes='' @ sp @ CHR ''/'' # total_len) = Some (sp @ CHR ''/'' # total_len)"
    by (rule strip_prefix_append)
  moreover have "split_once (CHR ''/'') (sp @ CHR ''/'' # total_len) = Some (sp, total_len)"
    by (rule split_once_skip) (simp add: sp_def)
  moreover have "trim sp \<noteq> ''*''" and "parse_span sp = Inr (r_start r, r_end r - 1)"
    using no_ws_ends_append [of "show_u64 (r_start r)" "show_u64 (r_end r - 1)" "''-''"] parse_span_show [OF last(1,2)]
    by (auto simp: sp_def append_eq_Cons_conv)
  ultimately have "parse_content_range (to_http_range r @ ''/'' @ total_len) = Inr ?c"
    using t unfolding parse_content_range_def hdr Let_def by simp
  moreover have add: "checked_add (r_end r - 1) 1 = Some (r_end r)"
    using last(4) unat_u64_less [of "r_end r"] by (simp add: checked_add_def)
  then have "as_range ?c = Inr r" by (simp add: as_range_def ByteRange_new_def)
  moreover have "\<not> n \<le> r_end r - 1" if "cl = Some n" for n
    using t(4) that last(4) by (auto simp: word_le_nat_alt)
  then have "validate_against ?c r = Inr ()"
    using add last(1) by (auto simp: validate_against_def not_less split: option.splits)
  ultimately show ?thesis by blast
qed

theorem requested_range_round_trip_witness:
  "\<exists>c. parse_content_range (to_http_range (ByteRange_new 5 10) @ ''/'' @ ''*'') = Inr c \<and>
    validate_against c (ByteRange_new 5 10) = Inr () \<and> as_range c = Inr (ByteRange_new 5 10)"
  by (rule requested_range_round_trip) simp_all

end
