(* ===== verification/Capacity.thy ===== *)
theory Capacity
  imports Prelude
begin

text \<open>
  \<^verbatim>\<open>src/crates/xde/src/storage/capacity.rs\<close>: the credits that bound what is in flight towards one
  destination. A permit pool is a bounded channel of unit messages, so its state is the channel's
  capacity and its length. \<open>acquire\<close> suspends at every single permit, so the tasks that acquire are
  modelled as interleaved steps of one received permit each.
\<close>

section \<open>Permits\<close>

record permits =
  pm_cap :: nat
  pm_avail :: nat

definition BYTE_UNIT :: u64 where
  "BYTE_UNIT = 256 * 1024"

definition units_for :: "u64 \<Rightarrow> u64 \<Rightarrow> u64" where
  "units_for bytes total_units =
     (if bytes = 0 then 0 else max (min (div_ceil bytes BYTE_UNIT) total_units) 1)"

text \<open>Sending to a full channel fails and is ignored.\<close>

definition try_send :: "permits \<Rightarrow> permits" where
  "try_send p = (if pm_avail p < pm_cap p then p\<lparr>pm_avail := Suc (pm_avail p)\<rparr> else p)"

definition recv :: "permits \<Rightarrow> permits option" where
  "recv p = (case pm_avail p of 0 \<Rightarrow> None | Suc k \<Rightarrow> Some (p\<lparr>pm_avail := k\<rparr>))"

definition permits_new :: "u64 \<Rightarrow> permits" where
  "permits_new count = (try_send ^^ unat count) \<lparr>pm_cap = unat count, pm_avail = 0\<rparr>"

definition release :: "permits \<Rightarrow> u64 \<Rightarrow> permits" where
  "release p n = (try_send ^^ unat n) p"

section \<open>Credits and guards\<close>

record capacity_credits =
  cc_max_inflight_bytes :: u64
  cc_byte_units :: u64
  cc_bytes :: permits
  cc_ops :: permits

definition credits_new :: "u64 \<Rightarrow> u64 \<Rightarrow> capacity_credits" where
  "credits_new max_bytes max_ops =
     (let byte_units = max (max_bytes div BYTE_UNIT) 1
      in \<lparr>cc_max_inflight_bytes = max_bytes, cc_byte_units = byte_units,
          cc_bytes = permits_new byte_units, cc_ops = permits_new (max max_ops 1)\<rparr>)"

record capacity_guard =
  byte_units_held :: u64
  ops_held :: bool

definition guard_drop :: "capacity_credits \<Rightarrow> capacity_guard \<Rightarrow> capacity_credits" where
  "guard_drop c g =
     c\<lparr>cc_bytes := release (cc_bytes c) (byte_units_held g),
       cc_ops := (if ops_held g then release (cc_ops c) 1 else cc_ops c)\<rparr>"

text \<open>A task that calls \<open>CapacityGuard::acquire\<close> for \<open>ct_len\<close> bytes: it waits for the operation
  permit, then collects its byte permits one by one, then owns the guard until it drops it. A
  cancelled task is one whose future was dropped while it waited.\<close>

datatype cap_phase = Wait_Op | Wait_Bytes u64 | Holding capacity_guard | Done | Cancelled_Op | Cancelled_Bytes u64

record cap_task =
  ct_len :: u64
  ct_phase :: cap_phase

record cap_state =
  credits :: capacity_credits
  tasks :: "cap_task list"

abbreviation task_phase :: "cap_state \<Rightarrow> nat \<Rightarrow> cap_phase" where
  "task_phase s i \<equiv> ct_phase (tasks s ! i)"

definition to_phase :: "cap_state \<Rightarrow> nat \<Rightarrow> cap_phase \<Rightarrow> capacity_credits \<Rightarrow> cap_state" where
  "to_phase s i ph c = \<lparr>credits = c, tasks = (tasks s)[i := (tasks s ! i)\<lparr>ct_phase := ph\<rparr>]\<rparr>"

inductive guard_step :: "cap_state \<Rightarrow> cap_state \<Rightarrow> bool" where
  start: "guard_step s (s\<lparr>tasks := tasks s @ [\<lparr>ct_len = n, ct_phase = Wait_Op\<rparr>]\<rparr>)"
| got_op: "i < length (tasks s) \<Longrightarrow> task_phase s i = Wait_Op \<Longrightarrow> recv (cc_ops (credits s)) = Some p \<Longrightarrow>
     guard_step s (to_phase s i (Wait_Bytes 0) ((credits s)\<lparr>cc_ops := p\<rparr>))"
| got_unit: "i < length (tasks s) \<Longrightarrow> task_phase s i = Wait_Bytes k \<Longrightarrow>
     k < units_for (ct_len (tasks s ! i)) (cc_byte_units (credits s)) \<Longrightarrow>
     recv (cc_bytes (credits s)) = Some p \<Longrightarrow>
     guard_step s (to_phase s i (Wait_Bytes (k + 1)) ((credits s)\<lparr>cc_bytes := p\<rparr>))"
| acquired: "i < length (tasks s) \<Longrightarrow> task_phase s i = Wait_Bytes k \<Longrightarrow>
     k = units_for (ct_len (tasks s ! i)) (cc_byte_units (credits s)) \<Longrightarrow>
     guard_step s (to_phase s i (Holding \<lparr>byte_units_held = k, ops_held = True\<rparr>) (credits s))"
| dropped: "i < length (tasks s) \<Longrightarrow> task_phase s i = Holding g \<Longrightarrow>
     guard_step s (to_phase s i Done (guard_drop (credits s) g))"
| cancelled_op: "i < length (tasks s) \<Longrightarrow> task_phase s i = Wait_Op \<Longrightarrow>
     guard_step s (to_phase s i Cancelled_Op (credits s))"
| cancelled_bytes: "i < length (tasks s) \<Longrightarrow> task_phase s i = Wait_Bytes k \<Longrightarrow>
     guard_step s (to_phase s i (Cancelled_Bytes k) (credits s))"

section \<open>The registry\<close>

text \<open>The pools are shared references: a pool is its index in \<open>rg_pools\<close>.\<close>

record capacity_registry =
  rg_entries :: "(string \<times> nat) list"
  rg_pools :: "capacity_credits list"
  rg_defaults :: "u64 \<times> u64"

definition registry_new :: "u64 \<Rightarrow> u64 \<Rightarrow> capacity_registry" where
  "registry_new max_bytes max_ops = \<lparr>rg_entries = [], rg_pools = [], rg_defaults = (max_bytes, max_ops)\<rparr>"

definition registry_entry :: "capacity_registry \<Rightarrow> string \<Rightarrow> nat \<times> capacity_registry" where
  "registry_entry r key =
     (case map_of (rg_entries r) key of
        Some i \<Rightarrow> (i, r)
      | None \<Rightarrow>
          (length (rg_pools r),
           r\<lparr>rg_entries := (key, length (rg_pools r)) # rg_entries r,
             rg_pools := rg_pools r @ [credits_new (max (fst (rg_defaults r)) 1) (snd (rg_defaults r))]\<rparr>))"

section \<open>Conservation of permits\<close>

lemma try_send_pow: "(try_send ^^ n) p = p\<lparr>pm_avail := max (pm_avail p) (min (pm_cap p) (pm_avail p + n))\<rparr>"
  by (induction n) (auto simp: try_send_def max_def min_def)

lemma permits_new_eq: "permits_new count = \<lparr>pm_cap = unat count, pm_avail = unat count\<rparr>"
  by (simp add: permits_new_def try_send_pow)

lemma recv_eq: "recv p = (if pm_avail p = 0 then None else Some (p\<lparr>pm_avail := pm_avail p - 1\<rparr>))"
  by (simp add: recv_def split: nat.splits)

lemma recv_Some: "recv p = Some q \<longleftrightarrow> 0 < pm_avail p \<and> q = p\<lparr>pm_avail := pm_avail p - 1\<rparr>"
  by (auto simp: recv_eq)

fun taken_units :: "cap_phase \<Rightarrow> nat" where
  "taken_units (Wait_Bytes k) = unat k"
| "taken_units (Holding g) = unat (byte_units_held g)"
| "taken_units (Cancelled_Bytes k) = unat k"
| "taken_units _ = 0"

fun taken_ops :: "cap_phase \<Rightarrow> nat" where
  "taken_ops (Wait_Bytes k) = 1"
| "taken_ops (Holding g) = 1"
| "taken_ops (Cancelled_Bytes k) = 1"
| "taken_ops _ = 0"

fun task_ok :: "u64 \<Rightarrow> cap_task \<Rightarrow> bool" where
  "task_ok u t = (case ct_phase t of
     Wait_Bytes k \<Rightarrow> k \<le> units_for (ct_len t) u
   | Holding g \<Rightarrow> ops_held g \<and> byte_units_held g = units_for (ct_len t) u
   | _ \<Rightarrow> True)"

definition total_of :: "(cap_phase \<Rightarrow> nat) \<Rightarrow> cap_state \<Rightarrow> nat" where
  "total_of w s = (\<Sum>t\<leftarrow>tasks s. w (ct_phase t))"

definition cap_ok :: "u64 \<Rightarrow> u64 \<Rightarrow> cap_state \<Rightarrow> bool" where
  "cap_ok u m s \<longleftrightarrow>
     cc_byte_units (credits s) = u \<and> pm_cap (cc_bytes (credits s)) = unat u \<and> pm_cap (cc_ops (credits s)) = unat m \<and>
     pm_avail (cc_bytes (credits s)) + total_of taken_units s = unat u \<and>
     pm_avail (cc_ops (credits s)) + total_of taken_ops s = unat m \<and>
     list_all (task_ok u) (tasks s)"

lemma total_of_to_phase:
  "i < length (tasks s) \<Longrightarrow> total_of w (to_phase s i ph c) + w (task_phase s i) = total_of w s + w ph"
  using sum_list_replace [of i "tasks s" "\<lambda>t. w (ct_phase t)" "(tasks s ! i)\<lparr>ct_phase := ph\<rparr>"]
  by (simp add: total_of_def to_phase_def)

lemma total_of_start [simp]: "total_of w (s\<lparr>tasks := tasks s @ [t]\<rparr>) = total_of w s + w (ct_phase t)"
  by (simp add: total_of_def)

lemma to_phase_simps [simp]:
  "credits (to_phase s i ph c) = c" "length (tasks (to_phase s i ph c)) = length (tasks s)"
  by (simp_all add: to_phase_def)

text \<open>A change of phase keeps the invariant when the permits it takes or returns balance.\<close>

lemma cap_ok_to_phase:
  assumes ok: "cap_ok u m s" and i: "i < length (tasks s)"
    and c: "cc_byte_units c = u" "pm_cap (cc_bytes c) = unat u" "pm_cap (cc_ops c) = unat m"
    and bal: "pm_avail (cc_bytes c) + taken_units ph = pm_avail (cc_bytes (credits s)) + taken_units (task_phase s i)"
      "pm_avail (cc_ops c) + taken_ops ph = pm_avail (cc_ops (credits s)) + taken_ops (task_phase s i)"
    and t: "task_ok u ((tasks s ! i)\<lparr>ct_phase := ph\<rparr>)"
  shows "cap_ok u m (to_phase s i ph c)"
proof -
  have "list_all (task_ok u) (tasks (to_phase s i ph c))"
    using ok t unfolding cap_ok_def to_phase_def list_all_iff
    by (auto dest!: set_update_subset_insert [THEN subsetD])
  then show ?thesis
    using ok c bal total_of_to_phase [OF i, of taken_units ph c] total_of_to_phase [OF i, of taken_ops ph c]
    by (simp add: cap_ok_def)
qed

lemma total_of_ge: "i < length (tasks s) \<Longrightarrow> w (task_phase s i) \<le> total_of w s"
  unfolding total_of_def by (rule member_le_sum_list) (auto intro!: image_eqI [OF _ nth_mem])

lemma guard_drop_avail:
  assumes "cap_ok u m s" "i < length (tasks s)" "task_phase s i = Holding g"
  shows "pm_avail (cc_bytes (guard_drop (credits s) g)) = pm_avail (cc_bytes (credits s)) + unat (byte_units_held g)"
    and "pm_avail (cc_ops (guard_drop (credits s) g)) = Suc (pm_avail (cc_ops (credits s)))"
proof -
  have "unat (byte_units_held g) \<le> total_of taken_units s" "1 \<le> total_of taken_ops s"
    using total_of_ge [OF assms(2), of taken_units] total_of_ge [OF assms(2), of taken_ops] assms(3) by simp_all
  moreover have "task_ok u (tasks s ! i)" using assms(1,2) by (simp add: cap_ok_def list_all_length del: task_ok.simps)
  then have "ops_held g" using assms(3) by simp
  ultimately show "pm_avail (cc_bytes (guard_drop (credits s) g)) = pm_avail (cc_bytes (credits s)) + unat (byte_units_held g)"
    "pm_avail (cc_ops (guard_drop (credits s) g)) = Suc (pm_avail (cc_ops (credits s)))"
    using assms(1) by (simp_all add: cap_ok_def guard_drop_def release_def try_send_pow try_send_def)
qed

lemma guard_step_ok: "guard_step s t \<Longrightarrow> cap_ok u m s \<Longrightarrow> cap_ok u m t"
proof (induction rule: guard_step.induct)
  case (start s n)
  then show ?case by (auto simp: cap_ok_def)
next
  case (got_op i s p)
  then show ?case by (intro cap_ok_to_phase) (auto simp: cap_ok_def recv_Some)
next
  case (got_unit i s k p)
  have lt: "unat k < unat (units_for (ct_len (tasks s ! i)) (cc_byte_units (credits s)))"
    using got_unit.hyps(3) by (simp add: word_less_nat_alt)
  then have "unat (k + 1) = unat k + 1"
    using unat_u64_less [of "units_for (ct_len (tasks s ! i)) (cc_byte_units (credits s))"]
    by (simp add: unat_word_ariths)
  then show ?case using got_unit lt
    by (intro cap_ok_to_phase) (auto simp: cap_ok_def recv_Some word_le_nat_alt)
next
  case (acquired i s k)
  then show ?case by (intro cap_ok_to_phase) (auto simp: cap_ok_def)
next
  case (dropped i s g)
  then show ?case using guard_drop_avail [OF dropped.prems dropped.hyps]
    by (intro cap_ok_to_phase) (auto simp: cap_ok_def guard_drop_def release_def try_send_pow try_send_def)
next
  case (cancelled_op i s)
  then show ?case by (intro cap_ok_to_phase) (auto simp: cap_ok_def)
next
  case (cancelled_bytes i s k)
  then show ?case by (intro cap_ok_to_phase) (auto simp: cap_ok_def)
qed

section \<open>Properties\<close>

definition cap_start :: "u64 \<Rightarrow> u64 \<Rightarrow> cap_state" where
  "cap_start max_bytes max_ops = \<lparr>credits = credits_new max_bytes max_ops, tasks = []\<rparr>"

lemma cap_reach_ok:
  "guard_step\<^sup>*\<^sup>* (cap_start b m) s \<Longrightarrow> cap_ok (max (b div BYTE_UNIT) 1) (max m 1) s"
proof (induction rule: rtranclp_induct)
  case base
  show ?case by (simp add: cap_ok_def cap_start_def credits_new_def permits_new_eq total_of_def Let_def)
qed (rule guard_step_ok)

definition is_holding :: "cap_task \<Rightarrow> bool" where
  "is_holding t \<longleftrightarrow> (case ct_phase t of Holding _ \<Rightarrow> True | _ \<Rightarrow> False)"

definition is_cancelled_task :: "cap_task \<Rightarrow> bool" where
  "is_cancelled_task t \<longleftrightarrow> (case ct_phase t of Cancelled_Op \<Rightarrow> True | Cancelled_Bytes _ \<Rightarrow> True | _ \<Rightarrow> False)"

lemma sum_list_filter_le:
  "(\<And>x. x \<in> set xs \<Longrightarrow> P x \<Longrightarrow> (f x :: nat) \<le> g x) \<Longrightarrow> (\<Sum>x\<leftarrow>filter P xs. f x) \<le> (\<Sum>x\<leftarrow>xs. g x)"
  by (induction xs) (auto intro: add_mono trans_le_add2)

lemma div_ceil_covers: "0 < c \<Longrightarrow> n \<le> (n div c + (if 0 < n mod c then 1 else 0)) * (c :: nat)"
  using dividend_less_div_times [of c n] by (auto simp: algebra_simps)

lemma units_for_covers:
  assumes "unat len \<le> unat u * 262144"
  shows "unat len \<le> unat (units_for len u) * 262144"
proof (cases "len = 0")
  case False
  have "unat (div_ceil len BYTE_UNIT) = unat len div 262144 + (if 0 < unat len mod 262144 then 1 else 0)"
    by (simp add: unat_div_ceil BYTE_UNIT_def)
  then have ceil: "unat len \<le> unat (div_ceil len BYTE_UNIT) * 262144"
    using div_ceil_covers [of 262144 "unat len"] by (simp only: simp_thms zero_less_numeral)
  have "unat (min (div_ceil len BYTE_UNIT) u) \<le> unat (units_for len u)"
    using False by (simp add: units_for_def word_le_nat_alt [symmetric])
  then have "unat (min (div_ceil len BYTE_UNIT) u) * 262144 \<le> unat (units_for len u) * 262144" by simp
  moreover have "unat len \<le> unat (min (div_ceil len BYTE_UNIT) u) * 262144"
    using assms ceil by (simp add: min_def)
  ultimately show ?thesis by (rule order_trans [rotated])
qed simp

lemma byte_units_bound:
  assumes "BYTE_UNIT \<le> b"
  shows "unat (max (b div BYTE_UNIT) 1) * 262144 \<le> unat b"
proof -
  have "unat (b div BYTE_UNIT) = unat b div 262144" by (simp add: unat_div_distrib BYTE_UNIT_def)
  moreover have "1 \<le> unat b div 262144"
    using assms by (simp add: BYTE_UNIT_def word_le_nat_alt div_greater_zero_iff Suc_le_eq)
  moreover have "unat (max (b div BYTE_UNIT) 1) = max (unat (b div BYTE_UNIT)) 1"
    by (simp add: max_def word_le_nat_alt)
  ultimately show ?thesis by simp
qed


text \<open>A run with two tasks on a ceiling of two units, used below: the first one acquires one unit,
  the second one needs both.\<close>

definition demo_credits :: "nat \<Rightarrow> nat \<Rightarrow> capacity_credits" where
  "demo_credits b m = \<lparr>cc_max_inflight_bytes = 524288, cc_byte_units = 2,
     cc_bytes = \<lparr>pm_cap = 2, pm_avail = b\<rparr>, cc_ops = \<lparr>pm_cap = 8, pm_avail = m\<rparr>\<rparr>"

definition demo_cap :: "nat \<Rightarrow> nat \<Rightarrow> (u64 \<times> cap_phase) list \<Rightarrow> cap_state" where
  "demo_cap b m ts = \<lparr>credits = demo_credits b m, tasks = map (\<lambda>(n, ph). \<lparr>ct_len = n, ct_phase = ph\<rparr>) ts\<rparr>"

lemma demo_cap_start: "cap_start 524288 8 = demo_cap 2 8 []"
  by (simp add: cap_start_def credits_new_def demo_cap_def demo_credits_def permits_new_eq BYTE_UNIT_def)

lemma demo_units: "units_for 262144 2 = 1" "units_for 524288 2 = 2"
  by (simp_all add: units_for_def div_ceil_def BYTE_UNIT_def)

lemmas demo_cap_simps = demo_cap_def demo_credits_def to_phase_def recv_eq guard_drop_def release_def
  try_send_def demo_units

lemma demo_cap_both_start:
  "guard_step\<^sup>*\<^sup>* (cap_start 524288 8) (demo_cap 2 6 [(a, Wait_Bytes 0), (b, Wait_Bytes 0)])"
proof -
  have "guard_step (demo_cap 2 8 []) (demo_cap 2 8 [(a, Wait_Op)])"
    using start [of "demo_cap 2 8 []" a] by (simp add: demo_cap_def)
  moreover have "guard_step (demo_cap 2 8 [(a, Wait_Op)]) (demo_cap 2 8 [(a, Wait_Op), (b, Wait_Op)])"
    using start [of "demo_cap 2 8 [(a, Wait_Op)]" b] by (simp add: demo_cap_def)
  moreover have "guard_step (demo_cap 2 8 [(a, Wait_Op), (b, Wait_Op)]) (demo_cap 2 7 [(a, Wait_Bytes 0), (b, Wait_Op)])"
    using got_op [of 0 "demo_cap 2 8 [(a, Wait_Op), (b, Wait_Op)]" "\<lparr>pm_cap = 8, pm_avail = 7\<rparr>"] by (simp add: demo_cap_simps)
  moreover have "guard_step (demo_cap 2 7 [(a, Wait_Bytes 0), (b, Wait_Op)]) (demo_cap 2 6 [(a, Wait_Bytes 0), (b, Wait_Bytes 0)])"
    using got_op [of 1 "demo_cap 2 7 [(a, Wait_Bytes 0), (b, Wait_Op)]" "\<lparr>pm_cap = 8, pm_avail = 6\<rparr>"] by (simp add: demo_cap_simps)
  ultimately show ?thesis
    unfolding demo_cap_start by (meson rtranclp.rtrancl_refl rtranclp.rtrancl_into_rtrancl)
qed

lemma demo_cap_one_each:
  assumes "a = 262144 \<or> a = 524288"
  shows "guard_step\<^sup>*\<^sup>* (cap_start 524288 8) (demo_cap 0 6 [(a, Wait_Bytes 1), (524288, Wait_Bytes 1)])"
proof -
  have "guard_step (demo_cap 2 6 [(a, Wait_Bytes 0), (524288, Wait_Bytes 0)]) (demo_cap 1 6 [(a, Wait_Bytes 1), (524288, Wait_Bytes 0)])"
    using got_unit [of 0 "demo_cap 2 6 [(a, Wait_Bytes 0), (524288, Wait_Bytes 0)]" 0 "\<lparr>pm_cap = 2, pm_avail = 1\<rparr>"] assms by (auto simp: demo_cap_simps)
  moreover have "guard_step (demo_cap 1 6 [(a, Wait_Bytes 1), (524288, Wait_Bytes 0)]) (demo_cap 0 6 [(a, Wait_Bytes 1), (524288, Wait_Bytes 1)])"
    using got_unit [of 1 "demo_cap 1 6 [(a, Wait_Bytes 1), (524288, Wait_Bytes 0)]" 0 "\<lparr>pm_cap = 2, pm_avail = 0\<rparr>"] by (simp add: demo_cap_simps)
  ultimately show ?thesis using demo_cap_both_start [of a 524288] by (meson rtranclp.rtrancl_into_rtrancl)
qed


text \<open>Permits return to the pool exactly when their guard is dropped. Once all tasks have finished
  or were cancelled, what is missing is what cancelled tasks had received while they waited: a
  cancelled \<open>acquire\<close> does leak permits, and without cancellations the pools are full again.\<close>

theorem only_cancelled_acquires_leak:
  assumes "guard_step\<^sup>*\<^sup>* (cap_start max_bytes max_ops) s"
    and "\<forall>t\<in>set (tasks s). ct_phase t = Done \<or> is_cancelled_task t"
  shows "pm_avail (cc_bytes (credits s)) + (\<Sum>t\<leftarrow>filter is_cancelled_task (tasks s). taken_units (ct_phase t)) =
      unat (max (max_bytes div BYTE_UNIT) 1) \<and>
    pm_avail (cc_ops (credits s)) + (\<Sum>t\<leftarrow>filter is_cancelled_task (tasks s). taken_ops (ct_phase t)) =
      unat (max max_ops 1)"
proof -
  have eq: "(\<Sum>t\<leftarrow>ts. w (ct_phase t)) = (\<Sum>t\<leftarrow>filter is_cancelled_task ts. w (ct_phase t))"
    if "\<forall>t\<in>set ts. ct_phase t = Done \<or> is_cancelled_task t" "w Done = 0" for ts and w :: "cap_phase \<Rightarrow> nat"
    using that by (induction ts) auto
  have "total_of w s = (\<Sum>t\<leftarrow>filter is_cancelled_task (tasks s). w (ct_phase t))" if "w Done = 0" for w
    unfolding total_of_def using assms(2) that by (rule eq)
  from this [of taken_units] this [of taken_ops] show ?thesis
    using cap_reach_ok [OF assms(1)] by (simp add: cap_ok_def)
qed

theorem only_cancelled_acquires_leak_witness:
  "pm_avail (cc_bytes (credits (demo_cap 1 7 [(262144, Done), (524288, Cancelled_Bytes 1)]))) + 1 = 2"
proof -
  let ?h = "Holding \<lparr>byte_units_held = 1, ops_held = True\<rparr>"
  have "guard_step (demo_cap 0 6 [(262144, Wait_Bytes 1), (524288, Wait_Bytes 1)]) (demo_cap 0 6 [(262144, ?h), (524288, Wait_Bytes 1)])"
    using acquired [of 0 "demo_cap 0 6 [(262144, Wait_Bytes 1), (524288, Wait_Bytes 1)]" 1] by (simp add: demo_cap_simps)
  moreover have "guard_step (demo_cap 0 6 [(262144, ?h), (524288, Wait_Bytes 1)]) (demo_cap 0 6 [(262144, ?h), (524288, Cancelled_Bytes 1)])"
    using cancelled_bytes [of 1 "demo_cap 0 6 [(262144, ?h), (524288, Wait_Bytes 1)]" 1] by (simp add: demo_cap_simps)
  moreover have "guard_step (demo_cap 0 6 [(262144, ?h), (524288, Cancelled_Bytes 1)]) (demo_cap 1 7 [(262144, Done), (524288, Cancelled_Bytes 1)])"
    using dropped [of 0 "demo_cap 0 6 [(262144, ?h), (524288, Cancelled_Bytes 1)]" "\<lparr>byte_units_held = 1, ops_held = True\<rparr>"] by (simp add: demo_cap_simps)
  ultimately have "guard_step\<^sup>*\<^sup>* (cap_start 524288 8) (demo_cap 1 7 [(262144, Done), (524288, Cancelled_Bytes 1)])"
    using demo_cap_one_each [of 262144] by (meson rtranclp.rtrancl_into_rtrancl)
  from only_cancelled_acquires_leak [OF this] show ?thesis
    by (simp add: demo_cap_def demo_credits_def is_cancelled_task_def BYTE_UNIT_def)
qed

text \<open>Steps in which no task is cancelled.\<close>

definition live_step :: "cap_state \<Rightarrow> cap_state \<Rightarrow> bool" where
  "live_step s t \<longleftrightarrow> guard_step s t \<and> list_all (\<lambda>t. \<not> is_cancelled_task t) (tasks t)"

definition locked :: "cap_state \<Rightarrow> bool" where
  "locked s \<longleftrightarrow> cap_ok 2 8 s \<and> 1 < length (tasks s) \<and>
     tasks s ! 0 = \<lparr>ct_len = 524288, ct_phase = Wait_Bytes 1\<rparr> \<and>
     tasks s ! 1 = \<lparr>ct_len = 524288, ct_phase = Wait_Bytes 1\<rparr>"

lemma locked_no_units: "locked s \<Longrightarrow> recv (cc_bytes (credits s)) = None"
proof -
  assume l: "locked s"
  then obtain a b ts where t: "tasks s = a # b # ts"
    by (auto simp: locked_def Suc_le_length_iff dest!: Suc_leI)
  then have "a = \<lparr>ct_len = 524288, ct_phase = Wait_Bytes 1\<rparr>" "b = a"
    using l by (auto simp: locked_def)
  then show "recv (cc_bytes (credits s)) = None"
    using l t by (simp add: locked_def cap_ok_def total_of_def recv_eq)
qed

lemma locked_step:
  assumes "live_step s t" "locked s"
  shows "locked t"
proof -
  have keep: "locked (to_phase s i ph c)" if "2 \<le> i" "cap_ok 2 8 (to_phase s i ph c)" for i ph c
    using assms(2) that by (auto simp: locked_def to_phase_def)
  have ok: "cap_ok 2 8 t" using guard_step_ok assms by (auto simp: live_step_def locked_def)
  have two: "2 \<le> i" if "task_phase s i \<noteq> Wait_Bytes 1" for i
    using that assms(2) by (cases "i < 2") (auto simp: locked_def less_2_cases_iff)
  have "guard_step s t" using assms(1) by (simp add: live_step_def)
  then show ?thesis using ok
  proof cases
    case (start n)
    then show ?thesis using assms(2) ok by (auto simp: locked_def nth_append)
  next
    case (acquired i k)
    then have "2 \<le> i" using assms(2) by (cases "i < 2") (auto simp: locked_def less_2_cases_iff cap_ok_def demo_units)
    then show ?thesis using acquired ok keep by simp
  next
    case (cancelled_bytes i k)
    then have "is_cancelled_task (tasks t ! i)" by (simp add: to_phase_def is_cancelled_task_def)
    then show ?thesis using assms(1) cancelled_bytes by (auto simp: live_step_def list_all_length)
  qed (use ok keep two locked_no_units [OF assms(2)] in auto)
qed

text \<open>Operations that need several units can block each other for ever: with a ceiling of two
  units, two operations of two units that have each received one are reachable, and from there no
  sequence of steps without a cancellation, whatever other operations come and go, lets either of
  them proceed.\<close>

theorem partial_acquires_deadlock:
  "\<exists>s. guard_step\<^sup>*\<^sup>* (cap_start (2 * BYTE_UNIT) 8) s \<and>
     {t. live_step\<^sup>*\<^sup>* s t} \<subseteq> {t. task_phase t 0 = Wait_Bytes 1 \<and> task_phase t 1 = Wait_Bytes 1}"
proof -
  let ?s = "demo_cap 0 6 [(524288, Wait_Bytes 1), (524288, Wait_Bytes 1)]"
  have reach: "guard_step\<^sup>*\<^sup>* (cap_start (2 * BYTE_UNIT) 8) ?s"
    using demo_cap_one_each [of 524288] by (simp add: BYTE_UNIT_def)
  have lk: "locked ?s"
    using cap_reach_ok [OF reach] by (simp add: locked_def demo_cap_def BYTE_UNIT_def)
  have "locked t" if "live_step\<^sup>*\<^sup>* ?s t" for t
    using that lk by (induction rule: rtranclp_induct) (auto intro: locked_step)
  then show ?thesis using reach by (intro exI [of _ ?s]) (auto simp: locked_def)
qed

end
