(* ===== verification/Representation.thy ===== *)
theory Representation
  imports Errors
begin

text \<open>
  \<^verbatim>\<open>src/crates/xde/src/core/representation.rs\<close> and \<^verbatim>\<open>src/crates/xde/src/integrity/overlap.rs\<close>: is the
  response part of the same representation as the bytes on disk? Evidence from the headers, its
  journalled form, the per-job lock on validators, and the comparison of overlapping bytes.

  The \<open>url\<close> crate is a parameter: URLs are of any type \<open>'u\<close>, with \<open>url_str\<close> for \<open>to_string\<close>,
  \<open>url_parse\<close> for \<open>Url::parse\<close> and \<open>url_origin\<close> for scheme, host and port. \<open>hdr\<close> is the lookup of a
  header's text in the \<open>http\<close> crate's map, \<open>http_date\<close> the date parser of \<open>httpdate\<close>; a
  \<open>SystemTime\<close> is its distance from the Unix epoch in nanoseconds.
\<close>

type_synonym system_time = int

record 'u fingerprint =
  content_length :: "u64 option"
  etag :: "string option"
  last_modified :: "system_time option"
  final_url :: 'u
  redirect_chain :: "'u list"
  content_coding :: "string option"
  accept_ranges_hint :: bool

datatype validator_strength = Strong | Weak | NoValidator

definition lower :: "char \<Rightarrow> char" where
  "lower c = (if 65 \<le> (of_char c :: nat) \<and> (of_char c :: nat) \<le> 90 then char_of (of_char c + 32 :: nat) else c)"

definition eq_ignore_case :: "string \<Rightarrow> string \<Rightarrow> bool" where
  "eq_ignore_case a b \<longleftrightarrow> map lower a = map lower b"

fun split_on :: "char \<Rightarrow> string \<Rightarrow> string list" where
  "split_on d [] = [[]]"
| "split_on d (c # cs) =
     (if c = d then [] # split_on d cs
      else (case split_on d cs of [] \<Rightarrow> [[c]] | w # ws \<Rightarrow> (c # w) # ws))"

definition starts_with :: "string \<Rightarrow> string \<Rightarrow> bool" where
  "starts_with s p \<longleftrightarrow> strip_prefix p s \<noteq> None"

definition from_headers ::
  "(string \<Rightarrow> system_time option) \<Rightarrow> (string \<Rightarrow> string option) \<Rightarrow> 'u \<Rightarrow> 'u fingerprint" where
  "from_headers http_date hdr url =
     \<lparr>content_length = Option.bind (hdr ''content-length'') parse_u64,
      etag = hdr ''etag'',
      last_modified = Option.bind (hdr ''last-modified'') http_date,
      final_url = url, redirect_chain = [],
      content_coding =
        (case hdr ''content-encoding'' of
           Some s \<Rightarrow> if eq_ignore_case (trim s) ''identity'' then None else Some s
         | None \<Rightarrow> None),
      accept_ranges_hint =
        (case hdr ''accept-ranges'' of
           None \<Rightarrow> False
         | Some v \<Rightarrow> list_ex (\<lambda>t. eq_ignore_case (trim t) ''bytes'') (split_on (CHR '','') v))\<rparr>"

definition validator_strength_of :: "'u fingerprint \<Rightarrow> validator_strength" where
  "validator_strength_of fp =
     (case etag fp of
        Some e \<Rightarrow> if \<not> starts_with e ''W/'' \<and> starts_with e [CHR 0x22] then Strong else Weak
      | None \<Rightarrow> if last_modified fp \<noteq> None then Weak else NoValidator)"

definition if_range_value :: "'u fingerprint \<Rightarrow> string option" where
  "if_range_value fp = (case validator_strength_of fp of Strong \<Rightarrow> etag fp | _ \<Rightarrow> None)"

definition is_compressed :: "'u fingerprint \<Rightarrow> bool" where
  "is_compressed fp \<longleftrightarrow> content_coding fp \<noteq> None"

record journaled_fingerprint =
  jf_content_length :: "u64 option"
  jf_etag :: "string option"
  last_modified_unix :: "nat option"
  jf_final_url :: string
  jf_redirect_chain :: "string list"
  header_identity :: "u8 list"
  jf_content_coding :: "string option"

definition to_journal :: "('u \<Rightarrow> string) \<Rightarrow> 'u fingerprint \<Rightarrow> u8 list \<Rightarrow> journaled_fingerprint" where
  "to_journal url_str fp hid =
     \<lparr>jf_content_length = content_length fp, jf_etag = etag fp,
      last_modified_unix = Option.bind (last_modified fp)
        (\<lambda>t. if t < 0 then None else Some (nat t div 1000000000)),
      jf_final_url = url_str (final_url fp), jf_redirect_chain = map url_str (redirect_chain fp),
      header_identity = hid, jf_content_coding = content_coding fp\<rparr>"

datatype validator_match = Match_Strong | Match_Weak | Match_Unknown | Mismatch

definition fp_matches :: "journaled_fingerprint \<Rightarrow> journaled_fingerprint \<Rightarrow> validator_match" where
  "fp_matches j k =
     (if header_identity j \<noteq> header_identity k then Match_Unknown
      else
        (case (jf_etag j, jf_etag k) of
           (Some a, Some b) \<Rightarrow>
             if a = b \<and> \<not> starts_with a ''W/'' then Match_Strong else if a = b then Match_Weak else Mismatch
         | _ \<Rightarrow>
             if last_modified_unix j \<noteq> None \<and> last_modified_unix j = last_modified_unix k then
               (case (jf_content_length j, jf_content_length k) of
                  (Some x, Some y) \<Rightarrow> if x = y then Match_Weak else Mismatch
                | _ \<Rightarrow> Match_Weak)
             else
               (case (jf_content_length j, jf_content_length k) of
                  (Some x, Some y) \<Rightarrow> if x \<noteq> y then Mismatch else Match_Unknown
                | _ \<Rightarrow> Match_Unknown)))"

definition compare_with_journal ::
  "('u \<Rightarrow> string) \<Rightarrow> (string \<Rightarrow> 'u option) \<Rightarrow> ('u \<Rightarrow> 'o) \<Rightarrow> 'u fingerprint \<Rightarrow> journaled_fingerprint
   \<Rightarrow> u8 list \<Rightarrow> validator_match" where
  "compare_with_journal url_str url_parse url_origin fp j hid =
     (case url_parse (jf_final_url j) of
        None \<Rightarrow> Mismatch
      | Some prev \<Rightarrow>
          if url_origin (final_url fp) \<noteq> url_origin prev then Mismatch
          else fp_matches (to_journal url_str fp hid) j)"

section \<open>The lock\<close>

record rep_lock =
  lk_etag :: "string option"
  lk_last_modified :: "system_time option"
  total_length :: "u64 option"

definition lock_new :: "string option \<Rightarrow> system_time option \<Rightarrow> u64 option \<Rightarrow> rep_lock" where
  "lock_new et lm len = \<lparr>lk_etag = et, lk_last_modified = lm, total_length = len\<rparr>"

text \<open>The lock is updated field by field; an update made before a later field is rejected stays.\<close>

definition lock_etag :: "rep_lock \<Rightarrow> string option \<Rightarrow> unit res \<times> rep_lock" where
  "lock_etag l et =
     (case (lk_etag l, et) of
        (Some expected, Some actual) \<Rightarrow>
          if expected \<noteq> actual then (Inl (RepresentationChanged ''ETag mismatch across range requests''), l)
          else (Inr (), l)
      | (None, Some actual) \<Rightarrow> (Inr (), l\<lparr>lk_etag := Some actual\<rparr>)
      | _ \<Rightarrow> (Inr (), l))"

definition lock_last_modified :: "rep_lock \<Rightarrow> system_time option \<Rightarrow> unit res \<times> rep_lock" where
  "lock_last_modified l lm =
     (case (lk_last_modified l, lm) of
        (Some expected, Some actual) \<Rightarrow>
          if expected \<noteq> actual
          then (Inl (RepresentationChanged ''Last-Modified timestamp changed across range requests''), l)
          else (Inr (), l)
      | (None, Some actual) \<Rightarrow> (Inr (), l\<lparr>lk_last_modified := Some actual\<rparr>)
      | _ \<Rightarrow> (Inr (), l))"

definition lock_length :: "rep_lock \<Rightarrow> u64 option \<Rightarrow> unit res \<times> rep_lock" where
  "lock_length l len =
     (case (total_length l, len) of
        (Some expected, Some actual) \<Rightarrow>
          if expected \<noteq> actual then (Inl (RepresentationChanged ''total length changed''), l)
          else (Inr (), l)
      | (None, Some actual) \<Rightarrow> (Inr (), l\<lparr>total_length := Some actual\<rparr>)
      | _ \<Rightarrow> (Inr (), l))"

definition lock_validate ::
  "rep_lock \<Rightarrow> string option \<Rightarrow> system_time option \<Rightarrow> u64 option \<Rightarrow> unit res \<times> rep_lock" where
  "lock_validate l et lm len =
     (case lock_etag l et of
        (Inl e, l1) \<Rightarrow> (Inl e, l1)
      | (Inr _, l1) \<Rightarrow>
          (case lock_last_modified l1 lm of
             (Inl e, l2) \<Rightarrow> (Inl e, l2)
           | (Inr _, l2) \<Rightarrow> lock_length l2 len))"

text \<open>The second implementation, in \<^verbatim>\<open>integrity/overlap.rs\<close>, with nested conditions.\<close>

definition overlap_lock_validate ::
  "rep_lock \<Rightarrow> string option \<Rightarrow> system_time option \<Rightarrow> u64 option \<Rightarrow> unit res \<times> rep_lock" where
  "overlap_lock_validate l et lm len =
     (let etag_bad = (case lk_etag l of
            Some expected \<Rightarrow> (case et of Some actual \<Rightarrow> expected \<noteq> actual | None \<Rightarrow> False) | None \<Rightarrow> False);
          l1 = (case lk_etag l of
            Some _ \<Rightarrow> l | None \<Rightarrow> (case et of Some actual \<Rightarrow> l\<lparr>lk_etag := Some actual\<rparr> | None \<Rightarrow> l));
          lm_bad = (case lk_last_modified l1 of
            Some expected \<Rightarrow> (case lm of Some actual \<Rightarrow> expected \<noteq> actual | None \<Rightarrow> False) | None \<Rightarrow> False);
          l2 = (case lk_last_modified l1 of
            Some _ \<Rightarrow> l1 | None \<Rightarrow> (case lm of Some actual \<Rightarrow> l1\<lparr>lk_last_modified := Some actual\<rparr> | None \<Rightarrow> l1));
          len_bad = (case total_length l2 of
            Some expected \<Rightarrow> (case len of Some actual \<Rightarrow> expected \<noteq> actual | None \<Rightarrow> False) | None \<Rightarrow> False);
          l3 = (case total_length l2 of
            Some _ \<Rightarrow> l2 | None \<Rightarrow> (case len of Some actual \<Rightarrow> l2\<lparr>total_length := Some actual\<rparr> | None \<Rightarrow> l2))
      in if etag_bad then (Inl (RepresentationChanged ''ETag mismatch across range requests''), l)
         else if lm_bad then (Inl (RepresentationChanged ''Last-Modified timestamp changed across range requests''), l1)
         else if len_bad then (Inl (RepresentationChanged ''total length changed''), l2)
         else (Inr (), l3))"

section \<open>Overlap verification\<close>

datatype overlap_verdict = Verdict_Match | Verdict_Skipped | Verdict_Mismatch u64

record overlap_guard =
  mismatches :: u32
  distinct_connections_failed :: u32
  degrade_threshold :: u32

definition guard_new :: "u32 \<Rightarrow> overlap_guard" where
  "guard_new t = \<lparr>mismatches = 0, distinct_connections_failed = 0, degrade_threshold = t\<rparr>"

definition guard_check ::
  "overlap_guard \<Rightarrow> u64 \<Rightarrow> u8 list \<Rightarrow> u8 list \<Rightarrow> overlap_verdict \<times> overlap_guard" where
  "guard_check g off existing incoming =
     (let n = min (length existing) (length incoming)
      in if n = 0 then (Verdict_Skipped, g)
         else if take n existing = take n incoming then (Verdict_Match, g)
         else
           let first_bad = length (takeWhile (\<lambda>(a, b). a = b) (zip (take n existing) (take n incoming)))
           in (Verdict_Mismatch (off + of_nat first_bad), g\<lparr>mismatches := mismatches g + 1\<rparr>))"

definition note_connection_failed :: "overlap_guard \<Rightarrow> overlap_guard" where
  "note_connection_failed g = g\<lparr>distinct_connections_failed := distinct_connections_failed g + 1\<rparr>"

definition should_degrade :: "overlap_guard \<Rightarrow> bool" where
  "should_degrade g \<longleftrightarrow> distinct_connections_failed g \<ge> degrade_threshold g"

definition resume_probe :: "u64 \<Rightarrow> u32 \<Rightarrow> byte_range option" where
  "resume_probe start ov =
     (if start = 0 \<or> ov = 0 then None
      else let n = min (ucast ov) start in Some (ByteRange_new (start - n) start))"

section \<open>Properties\<close>

text \<open>The two implementations of the representation lock, one in the core and one beside the overlap
  guard, are the same function: same verdict, same error, same lock afterwards.\<close>

theorem representation_locks_agree: "lock_validate l et lm len = overlap_lock_validate l et lm len"
  by (cases "lk_etag l"; cases et; cases "lk_last_modified l"; cases lm; cases "total_length l"; cases len)
    (simp_all add: lock_validate_def overlap_lock_validate_def lock_etag_def lock_last_modified_def
      lock_length_def Let_def)

text \<open>A run of responses through the lock, stopping at the first rejection.\<close>

type_synonym response = "string option \<times> system_time option \<times> u64 option"

fun lock_run :: "rep_lock \<Rightarrow> response list \<Rightarrow> rep_lock option" where
  "lock_run l [] = Some l"
| "lock_run l ((et, lm, len) # rs) =
     (case lock_validate l et lm len of (Inr _, l') \<Rightarrow> lock_run l' rs | (Inl _, _) \<Rightarrow> None)"

lemma lock_fields:
  "lock_etag l et = (Inr u, l') \<Longrightarrow> (\<forall>v. lk_etag l = Some v \<or> et = Some v \<longrightarrow> lk_etag l' = Some v) \<and>
     lk_last_modified l' = lk_last_modified l \<and> total_length l' = total_length l"
  "lock_last_modified l lm = (Inr u, l') \<Longrightarrow>
     (\<forall>v. lk_last_modified l = Some v \<or> lm = Some v \<longrightarrow> lk_last_modified l' = Some v) \<and>
     lk_etag l' = lk_etag l \<and> total_length l' = total_length l"
  "lock_length l len = (Inr u, l') \<Longrightarrow> (\<forall>v. total_length l = Some v \<or> len = Some v \<longrightarrow> total_length l' = Some v) \<and>
     lk_etag l' = lk_etag l \<and> lk_last_modified l' = lk_last_modified l"
  by (auto simp: lock_etag_def lock_last_modified_def lock_length_def split: option.splits if_splits)

lemma lock_validate_ok:
  assumes "lock_validate l et lm len = (Inr u, l')"
  shows "\<forall>v. lk_etag l = Some v \<or> et = Some v \<longrightarrow> lk_etag l' = Some v"
    and "\<forall>v. lk_last_modified l = Some v \<or> lm = Some v \<longrightarrow> lk_last_modified l' = Some v"
    and "\<forall>v. total_length l = Some v \<or> len = Some v \<longrightarrow> total_length l' = Some v"
proof -
  obtain l1 l2 u1 u2 where "lock_etag l et = (Inr u1, l1)" "lock_last_modified l1 lm = (Inr u2, l2)"
    "lock_length l2 len = (Inr u, l')"
    using assms by (auto simp: lock_validate_def split: prod.splits sum.splits)
  note f = lock_fields(1) [OF this(1)] lock_fields(2) [OF this(2)] lock_fields(3) [OF this(3)]
  show "\<forall>v. lk_etag l = Some v \<or> et = Some v \<longrightarrow> lk_etag l' = Some v"
    "\<forall>v. lk_last_modified l = Some v \<or> lm = Some v \<longrightarrow> lk_last_modified l' = Some v"
    "\<forall>v. total_length l = Some v \<or> len = Some v \<longrightarrow> total_length l' = Some v"
    using f by simp_all
qed

lemma lock_run_keeps:
  assumes "lock_run l rs = Some l'"
  shows "(\<forall>v. lk_etag l = Some v \<or> (\<exists>r\<in>set rs. fst r = Some v) \<longrightarrow> lk_etag l' = Some v) \<and>
    (\<forall>v. lk_last_modified l = Some v \<or> (\<exists>r\<in>set rs. fst (snd r) = Some v) \<longrightarrow> lk_last_modified l' = Some v) \<and>
    (\<forall>v. total_length l = Some v \<or> (\<exists>r\<in>set rs. snd (snd r) = Some v) \<longrightarrow> total_length l' = Some v)"
  using assms
proof (induction l rs rule: lock_run.induct)
  case (2 l et lm len rs)
  obtain u l1 where v: "lock_validate l et lm len = (Inr u, l1)" and r: "lock_run l1 rs = Some l'"
    using 2(2) by (auto split: prod.splits sum.splits)
  note ih = 2(1) [OF v [symmetric] refl r]
  show ?case using ih lock_validate_ok [OF v] by (simp add: all_conj_distrib [symmetric])
qed simp

text \<open>Responses that the lock accepts one after the other all describe one representation: any two
  of them that carry an entity tag carry the same one, and likewise for the modification date and
  the total length.\<close>

theorem accepted_responses_agree:
  assumes "lock_run l rs = Some l'" and "r \<in> set rs" and "q \<in> set rs"
  shows "(fst r \<noteq> None \<and> fst q \<noteq> None \<longrightarrow> fst r = fst q) \<and>
    (fst (snd r) \<noteq> None \<and> fst (snd q) \<noteq> None \<longrightarrow> fst (snd r) = fst (snd q)) \<and>
    (snd (snd r) \<noteq> None \<and> snd (snd q) \<noteq> None \<longrightarrow> snd (snd r) = snd (snd q))"
proof -
  note keeps = lock_run_keeps [OF assms(1)]
  have "fst r = fst q" if "fst r \<noteq> None" "fst q \<noteq> None"
    using conjunct1 [OF keeps] assms(2,3) that by (metis option.exhaust)
  moreover have "fst (snd r) = fst (snd q)" if "fst (snd r) \<noteq> None" "fst (snd q) \<noteq> None"
    using conjunct1 [OF conjunct2 [OF keeps]] assms(2,3) that by (metis option.exhaust)
  moreover have "snd (snd r) = snd (snd q)" if "snd (snd r) \<noteq> None" "snd (snd q) \<noteq> None"
    using conjunct2 [OF conjunct2 [OF keeps]] assms(2,3) that by (metis option.exhaust)
  ultimately show ?thesis by blast
qed

theorem accepted_responses_agree_witness:
  "lock_run (lock_new None None None) [(Some ''a'', None, Some 5), (None, Some 3, Some 5)] \<noteq> None \<and>
   snd (snd (Some ''a'', None :: system_time option, Some (5 :: u64))) =
   snd (snd (None :: string option, Some (3 :: system_time), Some (5 :: u64)))"
proof -
  have "lock_run (lock_new None None None) [(Some ''a'', None, Some 5), (None, Some 3, Some 5)] =
      Some (lock_new (Some ''a'') (Some 3) (Some 5))" by code_simp
  then show ?thesis
    using accepted_responses_agree [of "lock_new None None None"
        "[(Some ''a'', None, Some 5), (None, Some 3, Some 5)]" "lock_new (Some ''a'') (Some 3) (Some 5)"
        "(Some ''a'', None, Some 5)" "(None, Some 3, Some 5)"] by simp
qed

text \<open>A rejected response can still change the lock: with no entity tag known yet, a response whose
  length is wrong is refused but its entity tag is kept, and the right response is refused
  afterwards.\<close>

theorem rejected_response_poisons_the_lock:
  "\<exists>e l'. lock_validate (lock_new None None (Some n)) (Some bad) None (Some (n + 1)) = (Inl e, l') \<and>
     (good = bad \<or> (\<exists>e'. lock_validate l' (Some good) None (Some n) = (Inl e', l')))"
  by (auto simp: lock_validate_def lock_new_def lock_etag_def lock_last_modified_def lock_length_def)

lemma first_difference:
  fixes xs ys :: "'a list"
  assumes "length xs = length ys" and "xs \<noteq> ys"
  shows "length (takeWhile (\<lambda>(a, b). a = b) (zip xs ys)) < length xs \<and>
    xs ! length (takeWhile (\<lambda>(a, b). a = b) (zip xs ys)) \<noteq> ys ! length (takeWhile (\<lambda>(a, b). a = b) (zip xs ys)) \<and>
    take (length (takeWhile (\<lambda>(a, b). a = b) (zip xs ys))) xs = take (length (takeWhile (\<lambda>(a, b). a = b) (zip xs ys))) ys"
  using assms by (induction xs ys rule: list_induct2) auto

text \<open>The verdict of the overlap check is right: it is skipped exactly when there is nothing to
  compare, it matches exactly when the common prefix agrees, and a mismatch is reported at the
  first byte that differs.\<close>

theorem overlap_verdict_correct:
  "case fst (guard_check g off existing incoming) of
     Verdict_Skipped \<Rightarrow> existing = [] \<or> incoming = []
   | Verdict_Match \<Rightarrow> existing \<noteq> [] \<and> incoming \<noteq> [] \<and>
       take (min (length existing) (length incoming)) existing = take (min (length existing) (length incoming)) incoming
   | Verdict_Mismatch p \<Rightarrow> (\<exists>k<min (length existing) (length incoming). p = off + of_nat k \<and>
       existing ! k \<noteq> incoming ! k \<and> take k existing = take k incoming)"
proof -
  define n where "n = min (length existing) (length incoming)"
  define k where "k = length (takeWhile (\<lambda>(a, b). a = b) (zip (take n existing) (take n incoming)))"
  have len: "length (take n existing) = length (take n incoming)" by (simp add: n_def)
  have k: "k < n" "existing ! k \<noteq> incoming ! k" "take k existing = take k incoming"
    if "take n existing \<noteq> take n incoming"
  proof -
    note fd = first_difference [OF len that, folded k_def]
    then show lt: "k < n" by (simp add: n_def)
    then show "existing ! k \<noteq> incoming ! k" "take k existing = take k incoming" using fd by (simp_all add: min_def)
  qed
  consider "n = 0" | "n \<noteq> 0" "take n existing = take n incoming" | "n \<noteq> 0" "take n existing \<noteq> take n incoming" by blast
  then show ?thesis
  proof cases
    case 3
    then show ?thesis using k by (auto simp: guard_check_def Let_def n_def [symmetric] k_def [symmetric])
  qed (auto simp: guard_check_def Let_def n_def min_def split: if_splits)
qed

end
