(* ===== verification/Journal.thy ===== *)
theory Journal
  imports Representation
begin

text \<open>
  \<^verbatim>\<open>src/crates/xde/src/storage/journal.rs\<close>: the resume journal. The serializer (\<open>postcard\<close>) and the
  checksum (\<open>crc32c\<close>) are the parameters \<open>to_bytes\<close>, \<open>from_bytes\<close> and \<open>crc32c\<close>. The file system is a
  map from paths to contents; every call of it may fail, as the parameter \<open>io\<close> says, and a failing
  \<open>write_all\<close> leaves the first \<open>part\<close> bytes.
\<close>

section \<open>The payload and its operations\<close>

record journal_payload =
  format_version :: u16
  jp_fingerprint :: journaled_fingerprint
  jp_completed :: range_set
  durable :: range_set
  jp_total :: "u64 option"
  bytes_written :: u64
  created_unix :: u64
  updated_unix :: u64
  jp_overlap_bytes :: u32
  source_urls :: "string list"

record journal =
  j_path :: string
  payload :: journal_payload
  dirty :: bool

definition FORMAT_VERSION :: u16 where
  "FORMAT_VERSION = 2"

definition MAGIC :: "u8 list" where
  "MAGIC = [0x78, 0x64, 0x65, 0x4A, 0x52, 0x4E, 0x4C, 0x31]"

definition payload_new :: "u64 \<Rightarrow> journaled_fingerprint \<Rightarrow> u64 option \<Rightarrow> u32 \<Rightarrow> journal_payload" where
  "payload_new now fp tot ov =
     \<lparr>format_version = FORMAT_VERSION, jp_fingerprint = fp, jp_completed = rs_new, durable = rs_new,
      jp_total = tot, bytes_written = 0, created_unix = now, updated_unix = now,
      jp_overlap_bytes = ov, source_urls = []\<rparr>"

definition path_for :: "string \<Rightarrow> string" where
  "path_for part_path = part_path @ ''.state''"

definition journal_create :: "string \<Rightarrow> journal_payload \<Rightarrow> journal" where
  "journal_create p pl = \<lparr>j_path = p, payload = pl, dirty = True\<rparr>"

definition mark_dirty :: "journal \<Rightarrow> journal" where
  "mark_dirty j = j\<lparr>dirty := True\<rparr>"

definition record_completed :: "u64 \<Rightarrow> byte_range \<Rightarrow> journal \<Rightarrow> journal" where
  "record_completed now r j =
     (let c = rs_insert (jp_completed (payload j)) r
      in j\<lparr>payload := (payload j)\<lparr>jp_completed := c, bytes_written := covered c, updated_unix := now\<rparr>,
           dirty := True\<rparr>)"

definition mark_completed_durable :: "journal \<Rightarrow> journal" where
  "mark_completed_durable j =
     j\<lparr>payload := (payload j)\<lparr>durable := jp_completed (payload j)\<rparr>, dirty := True\<rparr>"

definition invalidate :: "byte_range \<Rightarrow> journal \<Rightarrow> journal" where
  "invalidate r j =
     (let c = rs_remove (jp_completed (payload j)) r
      in j\<lparr>payload := (payload j)\<lparr>jp_completed := c, durable := rs_remove (durable (payload j)) r,
             bytes_written := covered c\<rparr>, dirty := True\<rparr>)"

definition clear_ranges :: "journal \<Rightarrow> journal" where
  "clear_ranges j =
     j\<lparr>payload := (payload j)\<lparr>jp_completed := rs_new, durable := rs_new, bytes_written := 0\<rparr>, dirty := True\<rparr>"

section \<open>Framing\<close>

definition u16_to_le :: "u16 \<Rightarrow> u8 list" where
  "u16_to_le w = [ucast w, ucast (drop_bit 8 w)]"

definition u16_from_le :: "u8 \<Rightarrow> u8 \<Rightarrow> u16" where
  "u16_from_le a b = or (ucast a) (push_bit 8 (ucast b))"

definition u32_to_le :: "u32 \<Rightarrow> u8 list" where
  "u32_to_le w = [ucast w, ucast (drop_bit 8 w), ucast (drop_bit 16 w), ucast (drop_bit 24 w)]"

definition u32_from_le :: "u8 \<Rightarrow> u8 \<Rightarrow> u8 \<Rightarrow> u8 \<Rightarrow> u32" where
  "u32_from_le a b c d =
     or (ucast a) (or (push_bit 8 (ucast b)) (or (push_bit 16 (ucast c)) (push_bit 24 (ucast d))))"

definition frame :: "(u8 list \<Rightarrow> u32) \<Rightarrow> u8 list \<Rightarrow> u8 list" where
  "frame crc32c body =
     MAGIC @ u16_to_le FORMAT_VERSION @ u32_to_le (of_nat (length body)) @ u32_to_le (crc32c body) @ body"

datatype read_result = Read_Ok "u8 list" | Read_NotFound | Read_Err io_error_kind

definition load_blocking ::
  "(u8 list \<Rightarrow> u32) \<Rightarrow> (u8 list \<Rightarrow> journal_payload option) \<Rightarrow> string \<Rightarrow> read_result \<Rightarrow> journal option res" where
  "load_blocking crc32c from_bytes p rd =
     (case rd of
        Read_NotFound \<Rightarrow> Inr None
      | Read_Err k \<Rightarrow> Inl (Persistence (Persistence_Io k))
      | Read_Ok raw \<Rightarrow>
          if length raw < 8 + 2 + 4 + 4 then Inl (error_journal ''truncated header'')
          else if take 8 raw \<noteq> MAGIC then Inl (error_journal ''bad magic'')
          else if u16_from_le (raw ! 8) (raw ! 9) \<noteq> FORMAT_VERSION then Inl (error_journal ''unsupported version'')
          else
            let len = unat (u32_from_le (raw ! 10) (raw ! 11) (raw ! 12) (raw ! 13));
                crc = u32_from_le (raw ! 14) (raw ! 15) (raw ! 16) (raw ! 17)
            in if length raw < 18 + len then Inl (error_journal ''truncated body'')
               else
                 let body = slice 18 (18 + len) raw
                 in if crc32c body \<noteq> crc then Inl (error_journal ''crc mismatch: record torn'')
                    else
                      (case from_bytes body of
                         None \<Rightarrow> Inl (error_journal ''postcard'')
                       | Some pl \<Rightarrow> Inr (Some \<lparr>j_path = p, payload = pl, dirty = False\<rparr>)))"

section \<open>Persisting\<close>

type_synonym fs = "string \<Rightarrow> u8 list option"

datatype io_call = Create_Tmp | Write_All | Sync_All | Rename | Open_Parent | Sync_Parent | Remove_File

definition read_fs :: "fs \<Rightarrow> string \<Rightarrow> read_result" where
  "read_fs fs p = (case fs p of None \<Rightarrow> Read_NotFound | Some b \<Rightarrow> Read_Ok b)"

definition sync_parent :: "(io_call \<Rightarrow> io_error_kind option) \<Rightarrow> unit res" where
  "sync_parent io =
     (case io Open_Parent of
        Some k \<Rightarrow> Inl (Persistence (Persistence_Io k))
      | None \<Rightarrow> (case io Sync_Parent of Some k \<Rightarrow> Inl (Persistence (Persistence_Io k)) | None \<Rightarrow> Inr ()))"

definition persist_blocking_inner ::
  "(u8 list \<Rightarrow> u32) \<Rightarrow> (journal_payload \<Rightarrow> u8 list option) \<Rightarrow> (io_call \<Rightarrow> io_error_kind option) \<Rightarrow> nat
   \<Rightarrow> fs \<Rightarrow> string \<Rightarrow> journal_payload \<Rightarrow> unit res \<times> fs" where
  "persist_blocking_inner crc32c to_bytes io part fs p pl =
     (case to_bytes pl of
        None \<Rightarrow> (Inl (error_journal ''postcard''), fs)
      | Some body \<Rightarrow>
          let out = frame crc32c body; tmp = p @ ''.tmp''
          in case io Create_Tmp of
               Some k \<Rightarrow> (Inl (Persistence (Persistence_Io k)), fs)
             | None \<Rightarrow>
                 case io Write_All of
                   Some k \<Rightarrow> (Inl (Persistence (Persistence_Io k)), fs(tmp \<mapsto> take part out))
                 | None \<Rightarrow>
                     case io Sync_All of
                       Some k \<Rightarrow> (Inl (Persistence (Persistence_Io k)), fs(tmp \<mapsto> out))
                     | None \<Rightarrow>
                         case io Rename of
                           Some k \<Rightarrow> (Inl (Persistence (Persistence_Io k)), fs(tmp \<mapsto> out))
                         | None \<Rightarrow> (sync_parent io, fs(tmp := None, p \<mapsto> out)))"

definition persist_blocking ::
  "(u8 list \<Rightarrow> u32) \<Rightarrow> (journal_payload \<Rightarrow> u8 list option) \<Rightarrow> (io_call \<Rightarrow> io_error_kind option) \<Rightarrow> nat
   \<Rightarrow> fs \<Rightarrow> journal \<Rightarrow> unit res \<times> fs \<times> journal" where
  "persist_blocking crc32c to_bytes io part fs j =
     (if \<not> dirty j then (Inr (), fs, j)
      else
        (case persist_blocking_inner crc32c to_bytes io part fs (j_path j) (payload j) of
           (Inl e, fs') \<Rightarrow> (Inl e, fs', j)
         | (Inr _, fs') \<Rightarrow> (Inr (), fs', j\<lparr>dirty := False\<rparr>)))"

text \<open>Removing a file that does not exist is not an error.\<close>

definition journal_remove :: "(io_call \<Rightarrow> io_error_kind option) \<Rightarrow> fs \<Rightarrow> journal \<Rightarrow> unit res \<times> fs" where
  "journal_remove io fs j =
     (if fs (j_path j) = None then (Inr (), fs)
      else
        (case io Remove_File of
           Some k \<Rightarrow> (Inl (Persistence (Persistence_Io k)), fs)
         | None \<Rightarrow> (sync_parent io, fs(j_path j := None))))"

section \<open>Byte order\<close>

lemma u16_le_round_trip: "u16_to_le w = [a, b] \<Longrightarrow> u16_from_le a b = w"
  by (auto simp: u16_to_le_def u16_from_le_def bit_simps intro!: bit_word_eqI)

lemma u32_le_round_trip:
  assumes "u32_to_le w = [a, b, c, d]"
  shows "u32_from_le a b c d = w"
proof (rule bit_word_eqI)
  fix n assume "n < LENGTH(32)"
  then consider "n < 8" | "8 \<le> n" "n < 16" | "16 \<le> n" "n < 24" | "24 \<le> n" "n < 32" by fastforce
  then show "bit (u32_from_le a b c d) n = bit w n"
    by cases (use assms in \<open>auto simp: u32_to_le_def u32_from_le_def bit_simps\<close>)
qed

lemma u32_to_le_cases: obtains a b c d where "u32_to_le w = [a, b, c, d]" "u32_from_le a b c d = w"
  using u32_le_round_trip by (auto simp: u32_to_le_def)

section \<open>Loading what was written\<close>

lemma length_frame: "length (frame crc body) = 18 + length body"
  by (simp add: frame_def MAGIC_def u16_to_le_def u32_to_le_def)

text \<open>Reading back the first \<open>n\<close> bytes of a record.\<close>

lemma load_frame:
  assumes "length body < 2 ^ 32" "18 \<le> n"
  shows "load_blocking crc from_bytes p (Read_Ok (take n (frame crc body))) =
    (if n < 18 + length body then Inl (error_journal ''truncated body'')
     else case from_bytes body of
         None \<Rightarrow> Inl (error_journal ''postcard'')
       | Some pl \<Rightarrow> Inr (Some \<lparr>j_path = p, payload = pl, dirty = False\<rparr>))"
proof -
  obtain a b c d where l: "u32_to_le (of_nat (length body)) = [a, b, c, d]" "u32_from_le a b c d = of_nat (length body)"
    by (rule u32_to_le_cases)
  obtain a' b' c' d' where k: "u32_to_le (crc body) = [a', b', c', d']" "u32_from_le a' b' c' d' = crc body"
    by (rule u32_to_le_cases)
  have len: "unat (of_nat (length body) :: u32) = length body" using assms(1) by (simp add: unat_of_nat)
  have v: "u16_to_le FORMAT_VERSION = [2, 0]" "u16_from_le 2 0 = FORMAT_VERSION"
    by (simp_all add: u16_to_le_def u16_from_le_def FORMAT_VERSION_def)
  define hdr where "hdr = MAGIC @ [2, 0] @ [a, b, c, d] @ [a', b', c', d']"
  have hdr: "length hdr = 18" "take 8 hdr = MAGIC" by (simp_all add: hdr_def MAGIC_def)
  have raw: "take n (frame crc body) = hdr @ take (n - 18) body"
  proof -
    have "frame crc body = hdr @ body" by (simp add: frame_def v l k hdr_def)
    then show ?thesis using assms(2) hdr(1) by simp
  qed
  have nths: "hdr ! 8 = 2" "hdr ! 9 = 0" "hdr ! 10 = a" "hdr ! 11 = b" "hdr ! 12 = c" "hdr ! 13 = d"
    "hdr ! 14 = a'" "hdr ! 15 = b'" "hdr ! 16 = c'" "hdr ! 17 = d'"
    by (simp_all add: hdr_def MAGIC_def)
  have body: "slice 18 (18 + length body) (hdr @ body) = body" using hdr(1) by (simp add: slice_def)
  show ?thesis
  proof (cases "n < 18 + length body")
    case True
    then have "n - 18 < length body" using assms(2) by simp
    with True show ?thesis
      unfolding raw by (simp add: load_blocking_def hdr nth_append nths v l(2) k(2) len Let_def)
  next
    case False
    then have "take (n - 18) body = body" by simp
    with False show ?thesis
      unfolding raw by (simp add: load_blocking_def hdr nth_append nths v l(2) k(2) len Let_def body)
  qed
qed

lemma load_short: "n < 18 \<Longrightarrow> load_blocking crc from_bytes p (Read_Ok (take n raw)) = Inl (error_journal ''truncated header'')"
  by (cases "length raw \<le> n") (simp_all add: load_blocking_def)

text \<open>The content of the journal's path after an attempt to persist.\<close>

lemma persist_path:
  assumes "persist_blocking_inner crc to_bytes io part fs p pl = (r, fs')"
  shows "fs' p = fs p \<and> (\<exists>e. r = Inl e) \<or> (\<exists>body. to_bytes pl = Some body \<and> fs' p = Some (frame crc body))"
  using assms
  by (auto simp: persist_blocking_inner_def Let_def split: option.splits)

text \<open>C32: A journal that was persisted successfully is loaded back with the same payload, and a torn
  copy of it, any proper prefix of the file, is reported as corrupt.\<close>

theorem journal_round_trip:
  assumes "persist_blocking_inner crc32c to_bytes io part fs p pl = (Inr (), fs')"
    and "\<And>b. to_bytes pl = Some b \<Longrightarrow> from_bytes b = Some pl \<and> length b < 2 ^ 32"
    and "n < length (the (fs' p))"
  shows "load_blocking crc32c from_bytes p (read_fs fs' p) = Inr (Some \<lparr>j_path = p, payload = pl, dirty = False\<rparr>) \<and>
    (\<exists>m. load_blocking crc32c from_bytes p (Read_Ok (take n (the (fs' p)))) = Inl (error_journal m))"
proof -
  obtain body where b: "to_bytes pl = Some body" "fs' p = Some (frame crc32c body)"
    using persist_path [OF assms(1)] by auto
  note rt = assms(2) [OF b(1)]
  have n: "n < 18 + length body" using assms(3) b(2) by (simp add: length_frame)
  have "load_blocking crc32c from_bytes p (Read_Ok (take (18 + length body) (frame crc32c body))) =
      Inr (Some \<lparr>j_path = p, payload = pl, dirty = False\<rparr>)"
    using rt by (simp add: load_frame)
  moreover have "take (18 + length body) (frame crc32c body) = frame crc32c body" by (simp add: length_frame)
  moreover have "\<exists>m. load_blocking crc32c from_bytes p (Read_Ok (take n (frame crc32c body))) = Inl (error_journal m)"
    using rt n by (cases "n < 18") (auto simp: load_short load_frame)
  ultimately show ?thesis using b(2) by (simp add: read_fs_def)
qed

definition demo_payload :: journal_payload where
  "demo_payload = payload_new 5
     \<lparr>jf_content_length = Some 8, jf_etag = None, last_modified_unix = None, jf_final_url = ''u'',
      jf_redirect_chain = [], header_identity = [], jf_content_coding = None\<rparr> (Some 8) 0"

theorem journal_round_trip_witness:
  "load_blocking (\<lambda>_. 7) (\<lambda>b. if b = [1, 2] then Some demo_payload else None) ''j''
     (read_fs (Map.empty(''j'' \<mapsto> frame (\<lambda>_. 7) [1, 2])) ''j'') =
   Inr (Some \<lparr>j_path = ''j'', payload = demo_payload, dirty = False\<rparr>)"
proof -
  have "persist_blocking_inner (\<lambda>_. 7) (\<lambda>_. Some [1, 2]) (\<lambda>_. None) 0 Map.empty ''j'' demo_payload =
      (Inr (), Map.empty(''j'' \<mapsto> frame (\<lambda>_. 7) [1, 2]))"
    by (simp add: persist_blocking_inner_def sync_parent_def)
  from journal_round_trip [OF this, of "\<lambda>b. if b = [1, 2] then Some demo_payload else None" 3] show ?thesis
    by (simp add: length_frame)
qed

text \<open>C33: Persisting never tears the journal: whichever call fails, or whichever call the process dies
  before, the journal's path holds either what it held or the complete new record, and it holds the
  new record whenever success is reported; other files than the temporary one are not touched.\<close>

theorem persist_never_tears:
  assumes "persist_blocking crc32c to_bytes io part fs j = (r, fs', j')"
  shows "(fs' (j_path j) = fs (j_path j) \<or>
      (\<exists>body. to_bytes (payload j) = Some body \<and> fs' (j_path j) = Some (frame crc32c body))) \<and>
    (r = Inr () \<longrightarrow> \<not> dirty j' \<and> (dirty j \<longrightarrow> map_option (frame crc32c) (to_bytes (payload j)) = fs' (j_path j))) \<and>
    (\<forall>q. q \<noteq> j_path j \<longrightarrow> q \<noteq> j_path j @ ''.tmp'' \<longrightarrow> fs' q = fs q)"
  using assms
  by (auto simp: persist_blocking_def persist_blocking_inner_def Let_def split: option.splits if_splits prod.splits sum.splits)

theorem persist_never_tears_witness:
  "(Map.empty(''j'' \<mapsto> [1], ''j.tmp'' \<mapsto> take 3 (frame (\<lambda>_. 7) [1, 2])) :: fs) ''j'' = (Map.empty(''j'' \<mapsto> [1]) :: fs) ''j''"
proof -
  have "persist_blocking (\<lambda>_. 7) (\<lambda>_. Some [1, 2]) (\<lambda>c. if c = Write_All then Some OtherKind else None) 3
      (Map.empty(''j'' \<mapsto> [1])) (journal_create ''j'' demo_payload) =
    (Inl (Persistence (Persistence_Io OtherKind)), Map.empty(''j'' \<mapsto> [1], ''j.tmp'' \<mapsto> take 3 (frame (\<lambda>_. 7) [1, 2])),
     journal_create ''j'' demo_payload)"
    by (simp add: persist_blocking_def persist_blocking_inner_def journal_create_def)
  from persist_never_tears [OF this] show ?thesis by (simp add: journal_create_def)
qed

section \<open>Durable ranges\<close>

datatype journal_op = Record_Completed u64 byte_range | Mark_Durable | Invalidate byte_range | Clear_Ranges | Mark_Dirty

fun journal_apply :: "journal \<Rightarrow> journal_op \<Rightarrow> journal" where
  "journal_apply j (Record_Completed now r) = record_completed now r j"
| "journal_apply j Mark_Durable = mark_completed_durable j"
| "journal_apply j (Invalidate r) = invalidate r j"
| "journal_apply j Clear_Ranges = clear_ranges j"
| "journal_apply j Mark_Dirty = mark_dirty j"

definition journal_ok :: "journal \<Rightarrow> bool" where
  "journal_ok j \<longleftrightarrow>
     normalized (jp_completed (payload j)) \<and> normalized (durable (payload j)) \<and>
     rs_set (durable (payload j)) \<subseteq> rs_set (jp_completed (payload j)) \<and>
     bytes_written (payload j) = covered (jp_completed (payload j))"

lemma covered_new: "covered rs_new = 0"
  by (simp add: rs_new_def)

lemma journal_apply_ok: "journal_ok j \<Longrightarrow> journal_ok (journal_apply j op)"
  by (cases op)
    (auto simp: journal_ok_def record_completed_def mark_completed_durable_def invalidate_def clear_ranges_def
      mark_dirty_def Let_def rs_insert_correct rs_remove_correct normalized_new rs_set_new covered_new)

text \<open>Whatever the sequence of operations, the ranges a journal calls durable are part of the ranges
  it calls completed, and its byte counter is the number of completed bytes, so a resume never
  trusts a byte that was invalidated.\<close>

theorem durable_within_completed:
  "rs_set (durable (payload (foldl journal_apply (journal_create p (payload_new now fp tot ov)) ops))) \<subseteq>
     rs_set (jp_completed (payload (foldl journal_apply (journal_create p (payload_new now fp tot ov)) ops))) \<and>
   unat (bytes_written (payload (foldl journal_apply (journal_create p (payload_new now fp tot ov)) ops))) =
     card (rs_set (jp_completed (payload (foldl journal_apply (journal_create p (payload_new now fp tot ov)) ops))))"
proof -
  have "journal_ok (foldl journal_apply j ops)" if "journal_ok j" for j
    using that by (induction ops arbitrary: j) (auto intro: journal_apply_ok)
  moreover have "journal_ok (journal_create p (payload_new now fp tot ov))"
    by (simp add: journal_ok_def journal_create_def payload_new_def normalized_new covered_new)
  ultimately show ?thesis by (simp add: journal_ok_def covered_is_card)
qed

end
