(* ===== verification/Job_Spec.thy ===== *)
theory Job_Spec
  imports Policy Representation "HOL-Library.Multiset" "HOL-Library.List_Lexorder" "HOL-Library.Product_Lexorder"
begin

text \<open>
  \<^verbatim>\<open>src/crates/xde/src/core/spec.rs\<close>, \<^verbatim>\<open>core/ids.rs\<close> and \<^verbatim>\<open>core/sink.rs\<close>: what an application asks for,
  the identity of an origin, and the vocabulary of destinations.

  A URL is an opaque object of the \<open>url\<close> crate, read through the accessors of \<open>url_ops\<close>; the header
  name and value constructors of the \<open>http\<close> crate are parameters, and a header map is the list of its
  entries in iteration order. The \<open>blake3\<close> hash is a parameter on the bytes fed to it.
\<close>

section \<open>Origins\<close>

record 'u url_ops =
  scheme_of :: "'u \<Rightarrow> string"
  host_str :: "'u \<Rightarrow> string option"
  port_or_known_default :: "'u \<Rightarrow> u16 option"
  as_str :: "'u \<Rightarrow> string"

record transport_origin_key =
  scheme :: string
  host :: string
  port :: u16

definition authority :: "transport_origin_key \<Rightarrow> string" where
  "authority k =
     (if scheme k = ''https'' \<and> port k = 443 \<or> scheme k = ''http'' \<and> port k = 80 then host k
      else host k @ '':'' @ show_nat (unat (port k)))"

definition from_url :: "'u url_ops \<Rightarrow> 'u \<Rightarrow> transport_origin_key option" where
  "from_url U u =
     (if scheme_of U u \<noteq> ''http'' \<and> scheme_of U u \<noteq> ''https'' then None
      else Some \<lparr>scheme = scheme_of U u, host = (case host_str U u of None \<Rightarrow> [] | Some h \<Rightarrow> h),
                 port = (case port_or_known_default U u of None \<Rightarrow> 80 | Some p \<Rightarrow> p)\<rparr>)"

definition same_origin :: "transport_origin_key \<Rightarrow> transport_origin_key \<Rightarrow> bool" where
  "same_origin a b \<longleftrightarrow> a = b"

section \<open>Requests\<close>

type_synonym header_map = "(string \<times> u8 list) list"

record 'u source_request =
  sr_url :: 'u
  sr_headers :: header_map
  sr_weight :: u8

definition source_request_new :: "'u \<Rightarrow> 'u source_request" where
  "source_request_new u = \<lparr>sr_url = u, sr_headers = [], sr_weight = 128\<rparr>"

definition origin_key :: "'u url_ops \<Rightarrow> 'u source_request \<Rightarrow> transport_origin_key" where
  "origin_key U r =
     \<lparr>scheme = scheme_of U (sr_url r),
      host = (case host_str U (sr_url r) of None \<Rightarrow> ''localhost'' | Some h \<Rightarrow> h),
      port = (case port_or_known_default U (sr_url r) of None \<Rightarrow> 80 | Some p \<Rightarrow> p)\<rparr>"

definition managed_headers :: "string list" where
  "managed_headers =
     [''host'', ''range'', ''if-range'', ''content-length'', ''accept-encoding'', ''transfer-encoding'',
      ''connection'', ''keep-alive'', ''proxy-connection'', ''te'', ''trailer'', ''upgrade'']"

definition reject_managed_header :: "string \<Rightarrow> unit res" where
  "reject_managed_header name =
     (if name \<in> set managed_headers then Inl (Config (''header '' @ name @ '' is managed by XDE'')) else Inr ())"

definition with_header :: "'u source_request \<Rightarrow> string \<Rightarrow> u8 list \<Rightarrow> 'u source_request res" where
  "with_header r name val =
     (case reject_managed_header name of
        Inl e \<Rightarrow> Inl e
      | Inr _ \<Rightarrow> Inr (r\<lparr>sr_headers := sr_headers r @ [(name, val)]\<rparr>))"

definition try_header ::
  "(string \<Rightarrow> string option) \<Rightarrow> (string \<Rightarrow> u8 list option) \<Rightarrow> 'u source_request \<Rightarrow> string \<Rightarrow> string
   \<Rightarrow> 'u source_request res" where
  "try_header header_name header_value r name val =
     (case header_name name of
        None \<Rightarrow> Inl (Config ''invalid header name'')
      | Some n \<Rightarrow>
          (case header_value val of
             None \<Rightarrow> Inl (Config ''invalid header value'')
           | Some v \<Rightarrow>
               (case reject_managed_header n of
                  Inl e \<Rightarrow> Inl e
                | Inr _ \<Rightarrow> Inr (r\<lparr>sr_headers := sr_headers r @ [(n, v)]\<rparr>))))"

definition credential_headers :: "string list" where
  "credential_headers = [''authorization'', ''proxy-authorization'', ''cookie'']"

definition bytes_of :: "string \<Rightarrow> u8 list" where
  "bytes_of = map of_char"

definition u64_to_le :: "u64 \<Rightarrow> u8 list" where
  "u64_to_le w = map (\<lambda>i. ucast (drop_bit (8 * i) w)) [0..<8]"

definition entry_bytes :: "u8 list \<times> u8 list \<Rightarrow> u8 list" where
  "entry_bytes e =
     u64_to_le (of_nat (length (fst e))) @ fst e @ u64_to_le (of_nat (length (snd e))) @ snd e"

text \<open>\<open>blake3\<close> is the keyed hash of the concatenation of what the hasher is updated with.\<close>

definition fingerprint_of :: "'u url_ops \<Rightarrow> (u8 list \<Rightarrow> u8 list) \<Rightarrow> 'u \<Rightarrow> header_map \<Rightarrow> u8 list" where
  "fingerprint_of U blake3 u hs =
     (let entries = map (\<lambda>(n, v). (bytes_of n, v)) (filter (\<lambda>(n, v). n \<notin> set credential_headers) hs)
      in blake3 (bytes_of (as_str U u) @ concat (map entry_bytes (sort entries))))"

definition representation_fingerprint :: "'u url_ops \<Rightarrow> (u8 list \<Rightarrow> u8 list) \<Rightarrow> 'u source_request \<Rightarrow> u8 list" where
  "representation_fingerprint U blake3 r = fingerprint_of U blake3 (sr_url r) (sr_headers r)"

section \<open>Priorities and durability\<close>

datatype priority = Background | Low | Normal | High | Critical

definition weight :: "priority \<Rightarrow> f64" where
  "weight p = (case p of Background \<Rightarrow> Fin (1 / 4) | Low \<Rightarrow> Fin 1 | Normal \<Rightarrow> Fin 4 | High \<Rightarrow> Fin 12 | Critical \<Rightarrow> Fin 40)"

datatype urgency = LatencySensitive | ThroughputSensitive

definition piece_duration_target :: "urgency \<Rightarrow> duration" where
  "piece_duration_target u = (case u of LatencySensitive \<Rightarrow> 800 * 1000000 | ThroughputSensitive \<Rightarrow> 3000 * 1000000)"

text \<open>The literal 1.6 is the double nearest to it.\<close>

definition allocator_bias :: "urgency \<Rightarrow> f64" where
  "allocator_bias u = (case u of LatencySensitive \<Rightarrow> f64_round (16 / 10) | ThroughputSensitive \<Rightarrow> Fin 1)"

datatype durability = Relaxed | Periodic duration | CrashSafe

definition durability_default :: durability where
  "durability_default = Periodic (2 * 1000000000)"

section \<open>Digests\<close>

datatype hash_kind = Blake3 | Sha256

datatype expected_digest = Expected_Blake3 "u8 list" | Expected_Sha256 "u8 list"

record digest =
  d_kind :: hash_kind
  d_value :: "u8 list"

record digest_check =
  dc_kind :: hash_kind
  dc_expected :: "u8 list option"

record integrity_spec =
  is_expected :: "expected_digest option"
  is_compute :: "hash_kind option"
  is_overlap_bytes :: u32
  verify_on_resume :: bool

definition integrity_default :: integrity_spec where
  "integrity_default = \<lparr>is_expected = None, is_compute = None, is_overlap_bytes = 0, verify_on_resume = False\<rparr>"

definition integrity_strict :: "expected_digest \<Rightarrow> integrity_spec" where
  "integrity_strict e = \<lparr>is_expected = Some e, is_compute = None, is_overlap_bytes = 4096, verify_on_resume = True\<rparr>"

definition overlap_only :: "u32 \<Rightarrow> integrity_spec" where
  "overlap_only n = \<lparr>is_expected = None, is_compute = None, is_overlap_bytes = n, verify_on_resume = True\<rparr>"

definition digest_of_expected :: "expected_digest \<Rightarrow> digest" where
  "digest_of_expected e =
     (case e of
        Expected_Blake3 v \<Rightarrow> \<lparr>d_kind = Blake3, d_value = v\<rparr>
      | Expected_Sha256 v \<Rightarrow> \<lparr>d_kind = Sha256, d_value = v\<rparr>)"

definition ed_kind :: "expected_digest \<Rightarrow> hash_kind" where
  "ed_kind e = (case e of Expected_Blake3 _ \<Rightarrow> Blake3 | Expected_Sha256 _ \<Rightarrow> Sha256)"

definition ed_bytes :: "expected_digest \<Rightarrow> u8 list" where
  "ed_bytes e = (case e of Expected_Blake3 b \<Rightarrow> b | Expected_Sha256 b \<Rightarrow> b)"

definition hex_char :: "nat \<Rightarrow> char" where
  "hex_char d = char_of (if d < 10 then 48 + d else 87 + d)"

definition hex_byte :: "u8 \<Rightarrow> string" where
  "hex_byte b = [hex_char (unat b div 16), hex_char (unat b mod 16)]"

definition digest_hex :: "digest \<Rightarrow> string" where
  "digest_hex d = concat (map hex_byte (d_value d))"

text \<open>\<open>char::to_digit(16)\<close>.\<close>

definition to_digit16 :: "char \<Rightarrow> u8 option" where
  "to_digit16 c =
     (let n = of_char c :: nat
      in if 48 \<le> n \<and> n \<le> 57 then Some (of_nat (n - 48))
         else if 97 \<le> n \<and> n \<le> 102 then Some (of_nat (n - 87))
         else if 65 \<le> n \<and> n \<le> 70 then Some (of_nat (n - 55))
         else None)"

fun parse_hex_pairs :: "string \<Rightarrow> u8 list option" where
  "parse_hex_pairs (a # b # cs) =
     (case to_digit16 a of
        None \<Rightarrow> None
      | Some hi \<Rightarrow>
          (case to_digit16 b of
             None \<Rightarrow> None
           | Some lo \<Rightarrow> map_option ((#) (or (push_bit 4 hi) lo)) (parse_hex_pairs cs)))"
| "parse_hex_pairs _ = Some []"

definition parse_hex :: "hash_kind \<Rightarrow> string \<Rightarrow> expected_digest option" where
  "parse_hex kind s0 =
     (let s = trim s0
      in if length s \<noteq> 64 then None
         else map_option (\<lambda>v. case kind of Blake3 \<Rightarrow> Expected_Blake3 v | Sha256 \<Rightarrow> Expected_Sha256 v) (parse_hex_pairs s))"

section \<open>Jobs and destinations\<close>

record 'u job_spec =
  js_sources :: "'u source_request list"
  js_integrity :: integrity_spec
  js_priority :: priority
  js_urgency :: urgency
  js_deadline :: "instant option"
  js_persistence :: durability
  js_policy :: transfer_policy
  js_label :: "string option"

definition job_spec_new :: "'u \<Rightarrow> 'u job_spec" where
  "job_spec_new u =
     \<lparr>js_sources = [source_request_new u], js_integrity = integrity_default, js_priority = Normal,
      js_urgency = ThroughputSensitive, js_deadline = None, js_persistence = durability_default,
      js_policy = transfer_policy_default, js_label = None\<rparr>"

type_synonym destination_caps = u32

definition RANDOM_ACCESS :: destination_caps where "RANDOM_ACCESS = 1"
definition PARALLEL_WRITES :: destination_caps where "PARALLEL_WRITES = 2"
definition OUT_OF_ORDER :: destination_caps where "OUT_OF_ORDER = 4"
definition IDEMPOTENT_REWRITE :: destination_caps where "IDEMPOTENT_REWRITE = 8"
definition SPARSE :: destination_caps where "SPARSE = 16"
definition DURABLE_COMMIT :: destination_caps where "DURABLE_COMMIT = 32"
definition READ_BACK :: destination_caps where "READ_BACK = 64"
definition PREALLOCATE :: destination_caps where "PREALLOCATE = 128"
definition CONTIGUOUS_SUBMISSION :: destination_caps where "CONTIGUOUS_SUBMISSION = 256"

definition caps_contain :: "destination_caps \<Rightarrow> destination_caps \<Rightarrow> bool" where
  "caps_contain caps c \<longleftrightarrow> and caps c = c"

definition supports_segmentation :: "destination_caps \<Rightarrow> bool" where
  "supports_segmentation caps \<longleftrightarrow> caps_contain caps RANDOM_ACCESS \<and> caps_contain caps OUT_OF_ORDER"

record destination_hints =
  dh_alignment :: u64
  max_operation_bytes :: u64
  dh_max_inflight_bytes :: u64
  max_parallel_writes :: u16

definition destination_hints_default :: destination_hints where
  "destination_hints_default =
     \<lparr>dh_alignment = 4096, max_operation_bytes = 256 * 1024 * 1024,
      dh_max_inflight_bytes = 256 * 1024 * 1024, max_parallel_writes = 8\<rparr>"

section \<open>Properties\<close>

lemma to_digit16_hex_char: "d < 16 \<Longrightarrow> to_digit16 (hex_char d) = Some (of_nat d)"
  by (auto simp: to_digit16_def hex_char_def Let_def)

lemma hex_char_not_ws: "d < 16 \<Longrightarrow> \<not> is_ws (hex_char d)"
  by (auto simp: is_ws_def hex_char_def)

lemma nibbles: "or (push_bit 4 (of_nat (unat b div 16))) (of_nat (unat b mod 16)) = (b :: u8)"
proof -
  have "unat b div 16 = unat (drop_bit 4 b)" "unat b mod 16 = unat (take_bit 4 b)"
    by (simp_all add: drop_bit_eq_div take_bit_eq_mod unat_div_distrib unat_mod_distrib)
  moreover have "or (push_bit 4 (drop_bit 4 b)) (take_bit 4 b) = b"
    by (rule bit_word_eqI) (auto simp: bit_simps)
  ultimately show ?thesis by simp
qed

lemma parse_hex_pairs_hex: "parse_hex_pairs (concat (map hex_byte bs)) = Some bs"
proof (induction bs)
  case (Cons b bs)
  have "unat b div 16 < 16" using unat_less_exp [of b] by (simp add: less_mult_imp_div_less)
  then show ?case using Cons by (simp add: hex_byte_def to_digit16_hex_char nibbles)
qed simp

lemma length_hex: "length (concat (map hex_byte bs)) = 2 * length bs"
  by (induction bs) (simp_all add: hex_byte_def)

lemma hex_no_ws: "list_all (\<lambda>c. \<not> is_ws c) (concat (map hex_byte bs))"
proof (induction bs)
  case (Cons b bs)
  have "unat b div 16 < 16" using unat_less_exp [of b] by (simp add: less_mult_imp_div_less)
  then show ?case using Cons by (simp add: hex_byte_def hex_char_not_ws)
qed simp

lemma no_ws_endsI: "list_all (\<lambda>c. \<not> is_ws c) s \<Longrightarrow> no_ws_ends s"
  by (auto simp: no_ws_ends_def list_all_iff)

text \<open>The hexadecimal rendering of a digest parses back to the digest, with its algorithm.\<close>

theorem digest_hex_round_trip:
  assumes "length (d_value d) = 32"
  shows "map_option digest_of_expected (parse_hex (d_kind d) (digest_hex d)) = Some d"
proof -
  have "no_ws_ends (digest_hex d)" unfolding digest_hex_def by (intro no_ws_endsI hex_no_ws)
  then have "parse_hex (d_kind d) (digest_hex d) =
      Some (case d_kind d of Blake3 \<Rightarrow> Expected_Blake3 (d_value d) | Sha256 \<Rightarrow> Expected_Sha256 (d_value d))"
    using assms by (simp add: parse_hex_def) (simp add: digest_hex_def length_hex parse_hex_pairs_hex)
  then show ?thesis by (cases d; cases "d_kind d") (simp_all add: digest_of_expected_def)
qed

theorem digest_hex_round_trip_witness:
  "map_option digest_of_expected (parse_hex Sha256 (digest_hex \<lparr>d_kind = Sha256, d_value = replicate 32 0xAF\<rparr>)) =
     Some \<lparr>d_kind = Sha256, d_value = replicate 32 0xAF\<rparr>"
  using digest_hex_round_trip [of "\<lparr>d_kind = Sha256, d_value = replicate 32 0xAF\<rparr>"] by simp

text \<open>The representation fingerprint depends on the URL and on the bag of headers that are not
  credentials: neither their order nor any credential changes it, so a refreshed credential is not
  taken for a changed representation.\<close>

theorem fingerprint_ignores_credentials:
  assumes "mset (filter (\<lambda>(n, v). n \<notin> set credential_headers) hs) =
      mset (filter (\<lambda>(n, v). n \<notin> set credential_headers) hs')"
  shows "fingerprint_of U blake3 u hs = fingerprint_of U blake3 u hs'"
proof -
  have "sort (map f (filter P hs)) = sort (map f (filter P hs'))"
    if "mset (filter P hs) = mset (filter P hs')" for f :: "string \<times> u8 list \<Rightarrow> u8 list \<times> u8 list" and P
    by (rule properties_for_sort) (simp_all add: that [symmetric] mset_map del: mset_filter)
  from this [OF assms] show ?thesis by (simp add: fingerprint_of_def)
qed

theorem fingerprint_ignores_credentials_witness:
  "fingerprint_of \<lparr>scheme_of = \<lambda>_. ''https'', host_str = Some, port_or_known_default = \<lambda>_. None, as_str = \<lambda>u. u\<rparr>
     (take 32) ''h'' [(''accept'', [1]), (''x'', [2])] =
   fingerprint_of \<lparr>scheme_of = \<lambda>_. ''https'', host_str = Some, port_or_known_default = \<lambda>_. None, as_str = \<lambda>u. u\<rparr>
     (take 32) ''h'' [(''x'', [2]), (''authorization'', [9]), (''accept'', [1])]"
  by (rule fingerprint_ignores_credentials) (simp add: credential_headers_def)

text \<open>A sequence of header calls on a new request; the first rejected header ends it.\<close>

datatype header_call = Header string "u8 list" | Try_Header string string

fun add_headers ::
  "(string \<Rightarrow> string option) \<Rightarrow> (string \<Rightarrow> u8 list option) \<Rightarrow> 'u source_request \<Rightarrow> header_call list
   \<Rightarrow> 'u source_request res" where
  "add_headers hn hv r [] = Inr r"
| "add_headers hn hv r (Header n v # cs) =
     (case with_header r n v of Inl e \<Rightarrow> Inl e | Inr q \<Rightarrow> add_headers hn hv q cs)"
| "add_headers hn hv r (Try_Header n v # cs) =
     (case try_header hn hv r n v of Inl e \<Rightarrow> Inl e | Inr q \<Rightarrow> add_headers hn hv q cs)"

lemma with_header_added:
  "with_header r n v = Inr q \<Longrightarrow> n \<notin> set managed_headers \<and> sr_headers q = sr_headers r @ [(n, v)]"
  by (auto simp: with_header_def reject_managed_header_def split: if_splits)

lemma try_header_added:
  "try_header hn hv r n v = Inr q \<Longrightarrow> \<exists>m w. m \<notin> set managed_headers \<and> sr_headers q = sr_headers r @ [(m, w)]"
  by (auto simp: try_header_def reject_managed_header_def split: if_splits option.splits)

text \<open>No sequence of calls gets a header into a request that the engine manages itself
  (\<open>Range\<close>, \<open>If-Range\<close>, \<open>Host\<close>, \<open>Content-Length\<close>, the connection headers).\<close>

theorem managed_headers_are_never_sent:
  assumes "add_headers hn hv (source_request_new u) cs = Inr r"
  shows "set managed_headers \<inter> fst ` set (sr_headers r) = {}"
proof -
  have "list_all (\<lambda>h. fst h \<notin> set managed_headers) (sr_headers r)"
    if "add_headers hn hv q cs = Inr r" "list_all (\<lambda>h. fst h \<notin> set managed_headers) (sr_headers q)" for q
    using that
    by (induction hn hv q cs rule: add_headers.induct)
      (auto split: sum.splits dest!: with_header_added try_header_added)
  from this [OF assms] show ?thesis by (auto simp: source_request_new_def list_all_iff)
qed

theorem managed_headers_are_never_sent_witness:
  "set managed_headers \<inter> fst ` set (sr_headers \<lparr>sr_url = (), sr_headers = [(''accept'', [1])], sr_weight = 128\<rparr>) = {}"
  by (rule managed_headers_are_never_sent [of Some "\<lambda>_. None" "()" "[Header ''accept'' [1]]"])
    (simp add: with_header_def reject_managed_header_def managed_headers_def source_request_new_def)

text \<open>A host name as the \<open>url\<close> crate returns it: without colons, or an address in brackets.\<close>

definition plain_host :: "string \<Rightarrow> bool" where
  "plain_host h \<longleftrightarrow> CHR '':'' \<notin> set h \<or> h \<noteq> [] \<and> last h = CHR '']''"

lemma digit_not_colon: "is_digit c \<Longrightarrow> c \<noteq> CHR '':'' \<and> c \<noteq> CHR '']''"
  by (auto simp: is_digit_def)

lemma show_nat_plain: "CHR '':'' \<notin> set (show_nat n)" "show_nat n \<noteq> []" "last (show_nat n) \<noteq> CHR '']''"
proof -
  have d: "\<forall>c\<in>set (show_nat n). is_digit c" and ne: "show_nat n \<noteq> []"
    using show_nat_digits by (simp_all add: list_all_iff)
  show "show_nat n \<noteq> []" by (rule ne)
  show "CHR '':'' \<notin> set (show_nat n)" "last (show_nat n) \<noteq> CHR '']''"
    using d last_in_set [OF ne] digit_not_colon by blast+
qed

lemma show_nat_inject: "show_nat m = show_nat n \<Longrightarrow> m = n"
  by (metis show_nat_digits)

lemma append_last_colon:
  assumes "a @ CHR '':'' # x = b @ CHR '':'' # y" "CHR '':'' \<notin> set x" "CHR '':'' \<notin> set y"
  shows "a = b \<and> x = y"
proof -
  from assms(1) have "rev x @ CHR '':'' # rev a = rev y @ CHR '':'' # rev b" by (metis rev.simps(2) rev_append append_assoc append_Cons append_Nil)
  then have "split_once CHR '':'' (rev x @ CHR '':'' # rev a) = split_once CHR '':'' (rev y @ CHR '':'' # rev b)" by simp
  then show ?thesis using assms(2,3) by simp
qed

lemma plain_host_no_port:
  "plain_host h \<Longrightarrow> h \<noteq> g @ CHR '':'' # show_nat n" "plain_host h \<Longrightarrow> g @ CHR '':'' # show_nat n \<noteq> h"
  using show_nat_plain [of n] by (auto simp: plain_host_def)

definition default_port :: "transport_origin_key \<Rightarrow> bool" where
  "default_port k \<longleftrightarrow> scheme k = ''https'' \<and> port k = 443 \<or> scheme k = ''http'' \<and> port k = 80"

lemma authority_eq:
  "authority k = (if default_port k then host k else host k @ CHR '':'' # show_nat (unat (port k)))"
  by (simp add: authority_def default_port_def)

text \<open>An origin is identified by its scheme and its authority string: for hosts as the URL parser
  returns them, leaving out the default port never makes two origins collide.\<close>

theorem authority_identifies_origin:
  assumes "plain_host (host a)" "plain_host (host b)" "scheme a = scheme b" "authority a = authority b"
  shows "same_origin a b"
proof -
  have "host a = host b \<and> port a = port b"
  proof (cases "default_port a"; cases "default_port b")
    assume "default_port a" "default_port b"
    then show ?thesis using assms(3,4) by (auto simp: authority_eq) (auto simp: default_port_def)
  next
    assume "\<not> default_port a" "\<not> default_port b"
    then have "host a = host b \<and> show_nat (unat (port a)) = show_nat (unat (port b))"
      using assms(4) by (intro append_last_colon) (simp_all add: authority_eq show_nat_plain)
    then show ?thesis using show_nat_inject by (metis word_unat_eq_iff)
  qed (use assms(1,2,4) plain_host_no_port in \<open>auto simp: authority_eq\<close>)
  then show ?thesis using assms(3) by (simp add: same_origin_def)
qed

theorem authority_identifies_origin_witness:
  "same_origin \<lparr>scheme = ''http'', host = ''h'', port = 8080\<rparr> \<lparr>scheme = ''http'', host = ''h'', port = 8080\<rparr>"
  by (rule authority_identifies_origin) (simp_all add: plain_host_def)

end
