(* ===== verification/Job_Context.thy ===== *)
theory Job_Context
  imports Errors Job_Spec
begin

text \<open>
  \<^verbatim>\<open>src/crates/xde/src/core/context.rs\<close>: the shared state of a job, one atomic byte and an event. Setters
  perform a compare-and-swap and then notify; waiters register a listener, look at the byte and
  sleep until they are notified. Both are modelled as interleaved atomic steps. \<open>notify(usize::MAX)\<close>
  wakes every listener registered at that moment, which is what the \<open>event_listener\<close> crate documents.
\<close>

section \<open>The context\<close>

definition ACTIVE :: u8 where "ACTIVE = 0"
definition CANCELLED :: u8 where "CANCELLED = 1"
definition EXPIRED :: u8 where "EXPIRED = 2"
definition FINISHED :: u8 where "FINISHED = 3"

lemmas ctx_codes = ACTIVE_def CANCELLED_def EXPIRED_def FINISHED_def

record job_context =
  jc_state :: u8
  jc_deadline :: "instant option"
  jc_durability :: durability

definition with_durability :: "instant option \<Rightarrow> durability \<Rightarrow> job_context" where
  "with_durability d dur = \<lparr>jc_state = ACTIVE, jc_deadline = d, jc_durability = dur\<rparr>"

definition context_new :: "instant option \<Rightarrow> job_context" where
  "context_new d = with_durability d durability_default"

definition is_cancelled :: "job_context \<Rightarrow> bool" where
  "is_cancelled c \<longleftrightarrow> jc_state c = CANCELLED \<or> jc_state c = EXPIRED"

definition ctx_check :: "job_context \<Rightarrow> unit res" where
  "ctx_check c =
     (if jc_state c = ACTIVE \<or> jc_state c = FINISHED then Inr ()
      else if jc_state c = EXPIRED then Inl DeadlineExceeded
      else Inl Cancelled)"

text \<open>The compare-and-swap of \<open>set_state\<close>: the new context and whether a notification follows.\<close>

definition set_state_cas :: "job_context \<Rightarrow> u8 \<Rightarrow> job_context \<times> bool" where
  "set_state_cas c v = (if jc_state c = ACTIVE then (c\<lparr>jc_state := v\<rparr>, True) else (c, False))"

text \<open>\<open>select\<close> polls the operation first, so a result that is ready wins over a cancellation.\<close>

definition run_poll :: "job_context \<Rightarrow> 'a res option \<Rightarrow> 'a res option" where
  "run_poll c operation =
     (case operation of
        Some result \<Rightarrow> Some result
      | None \<Rightarrow> (case ctx_check c of Inl e \<Rightarrow> Some (Inl e) | Inr _ \<Rightarrow> None))"

definition run_start :: "job_context \<Rightarrow> 'a res option \<Rightarrow> 'a res option" where
  "run_start c operation = (case ctx_check c of Inl e \<Rightarrow> Some (Inl e) | Inr _ \<Rightarrow> run_poll c operation)"

section \<open>Setters and waiters\<close>

datatype waiter_kind = State_Changed | Until_Cancelled

datatype waiter_phase = Entering | Listening | Sleeping | Returned

record waiter =
  w_kind :: waiter_kind
  w_phase :: waiter_phase
  w_notified :: bool

datatype setter_phase = To_Cas u8 | To_Notify | Set_Done

record ctx_sys =
  ctx :: job_context
  waiters :: "waiter list"
  setters :: "setter_phase list"

text \<open>Whether the loop of a waiter returns when it looks at the state.\<close>

definition sees_change :: "waiter_kind \<Rightarrow> job_context \<Rightarrow> bool" where
  "sees_change k c \<longleftrightarrow>
     (case k of
        State_Changed \<Rightarrow> jc_state c \<noteq> ACTIVE
      | Until_Cancelled \<Rightarrow> (case ctx_check c of Inl _ \<Rightarrow> True | Inr _ \<Rightarrow> False))"

definition notify_all :: "waiter list \<Rightarrow> waiter list" where
  "notify_all ws = map (\<lambda>w. if w_phase w = Listening \<or> w_phase w = Sleeping then w\<lparr>w_notified := True\<rparr> else w) ws"

inductive ctx_step :: "ctx_sys \<Rightarrow> ctx_sys \<Rightarrow> bool" where
  new_waiter: "ctx_step s (s\<lparr>waiters := waiters s @ [\<lparr>w_kind = k, w_phase = Entering, w_notified = False\<rparr>]\<rparr>)"
| new_setter: "v \<in> {CANCELLED, EXPIRED, FINISHED} \<Longrightarrow> ctx_step s (s\<lparr>setters := setters s @ [To_Cas v]\<rparr>)"
| listen: "i < length (waiters s) \<Longrightarrow> w_phase (waiters s ! i) = Entering \<Longrightarrow>
     ctx_step s (s\<lparr>waiters := (waiters s)[i := (waiters s ! i)\<lparr>w_phase := Listening, w_notified := False\<rparr>]\<rparr>)"
| look: "i < length (waiters s) \<Longrightarrow> w_phase (waiters s ! i) = Listening \<Longrightarrow>
     ctx_step s (s\<lparr>waiters := (waiters s)[i := (waiters s ! i)\<lparr>w_phase :=
       (if sees_change (w_kind (waiters s ! i)) (ctx s) then Returned else Sleeping)\<rparr>]\<rparr>)"
| wake: "i < length (waiters s) \<Longrightarrow> w_phase (waiters s ! i) = Sleeping \<Longrightarrow> w_notified (waiters s ! i) \<Longrightarrow>
     ctx_step s (s\<lparr>waiters := (waiters s)[i := (waiters s ! i)\<lparr>w_phase := Entering\<rparr>]\<rparr>)"
| set_cas: "i < length (setters s) \<Longrightarrow> setters s ! i = To_Cas v \<Longrightarrow> set_state_cas (ctx s) v = (c, won) \<Longrightarrow>
     ctx_step s (s\<lparr>ctx := c, setters := (setters s)[i := (if won then To_Notify else Set_Done)]\<rparr>)"
| set_notify: "i < length (setters s) \<Longrightarrow> setters s ! i = To_Notify \<Longrightarrow>
     ctx_step s (s\<lparr>waiters := notify_all (waiters s), setters := (setters s)[i := Set_Done]\<rparr>)"

definition ctx_start :: "instant option \<Rightarrow> durability \<Rightarrow> ctx_sys" where
  "ctx_start d dur = \<lparr>ctx = with_durability d dur, waiters = [], setters = []\<rparr>"

section \<open>No lost wake-ups\<close>

definition ctx_ok :: "ctx_sys \<Rightarrow> bool" where
  "ctx_ok s \<longleftrightarrow>
     jc_state (ctx s) \<in> {ACTIVE, CANCELLED, EXPIRED, FINISHED} \<and>
     (\<forall>v. To_Cas v \<in> set (setters s) \<longrightarrow> v \<in> {CANCELLED, EXPIRED, FINISHED}) \<and>
     (jc_state (ctx s) = ACTIVE \<longrightarrow> To_Notify \<notin> set (setters s)) \<and>
     (\<forall>w\<in>set (waiters s). w_phase w = Sleeping \<longrightarrow> \<not> w_notified w \<longrightarrow>
        jc_state (ctx s) = ACTIVE \<or> To_Notify \<in> set (setters s) \<or> \<not> sees_change (w_kind w) (ctx s))"

lemma set_update_elim: "x \<in> set (xs[i := y]) \<Longrightarrow> x = y \<or> x \<in> set xs"
  using set_update_subset_insert by fast

lemma set_update_other: "x \<in> set xs \<Longrightarrow> xs ! i \<noteq> x \<Longrightarrow> x \<in> set (xs[i := y])"
  by (metis in_set_conv_nth length_list_update nth_list_update_neq)

lemma ctx_step_ok: "ctx_step s t \<Longrightarrow> ctx_ok s \<Longrightarrow> ctx_ok t"
proof (induction rule: ctx_step.induct)
  case (set_cas i s v c won)
  have v: "v \<in> {CANCELLED, EXPIRED, FINISHED}"
    using set_cas.prems set_cas.hyps(2) nth_mem [OF set_cas.hyps(1)] unfolding ctx_ok_def by force
  have "To_Notify \<in> set (setters s) \<Longrightarrow> To_Notify \<in> set ((setters s)[i := y])" for y
    using set_cas.hyps(2) by (auto intro: set_update_other)
  then show ?case
    using v set_cas set_update_memI [OF set_cas.hyps(1), of To_Notify]
    by (cases "jc_state (ctx s) = ACTIVE")
      (auto simp: ctx_ok_def set_state_cas_def ctx_codes dest!: set_update_elim)
next
  case (set_notify i s)
  then show ?case
    by (auto simp: ctx_ok_def notify_all_def dest!: set_update_elim split: if_splits)
qed (auto simp: ctx_ok_def dest!: set_update_elim)

lemma ctx_reach_ok: "ctx_step\<^sup>*\<^sup>* (ctx_start d dur) s \<Longrightarrow> ctx_ok s"
proof (induction rule: rtranclp_induct)
  case base
  show ?case by (simp add: ctx_ok_def ctx_start_def with_durability_def)
qed (rule ctx_step_ok)

lemma ctx_step_keeps: "ctx_step u v \<Longrightarrow> jc_state (ctx u) \<noteq> ACTIVE \<Longrightarrow> ctx v = ctx u"
  by (induction rule: ctx_step.induct) (auto simp: set_state_cas_def)

text \<open>A job ends in one way only: the first of cancel, expire and finish decides the state, every
  later one is ignored, so everybody who checks the job afterwards gets the same answer.\<close>

theorem first_terminal_state_wins:
  assumes "ctx_step\<^sup>*\<^sup>* (ctx_start d dur) s" and "jc_state (ctx s) \<noteq> ACTIVE" and "ctx_step\<^sup>*\<^sup>* s t"
  shows "ctx t = ctx s \<and> jc_state (ctx s) \<in> {CANCELLED, EXPIRED, FINISHED} \<and> ctx_check (ctx t) = ctx_check (ctx s)"
proof -
  have "ctx t = ctx s"
    using assms(3)
  proof (induction rule: rtranclp_induct)
    case (step u v)
    then show ?case using ctx_step_keeps [of u v] assms(2) by simp
  qed simp
  then show ?thesis using ctx_reach_ok [OF assms(1)] assms(2) by (auto simp: ctx_ok_def)
qed

text \<open>C40: Nobody sleeps through the end of a job: once the state has changed and the setter has
  notified, every task that sleeps in \<open>state_changed\<close> or in \<open>cancelled\<close>, and would return if it
  looked, has been woken.\<close>

theorem no_lost_wakeups:
  assumes "ctx_step\<^sup>*\<^sup>* (ctx_start d dur) s" and "jc_state (ctx s) \<noteq> ACTIVE" and "To_Notify \<notin> set (setters s)"
    and "w \<in> set (waiters s)" and "w_phase w = Sleeping" and "sees_change (w_kind w) (ctx s)"
  shows "w_notified w"
  using ctx_reach_ok [OF assms(1)] assms(2-) unfolding ctx_ok_def by blast

definition demo_ctx :: "u8 \<Rightarrow> waiter list \<Rightarrow> setter_phase list \<Rightarrow> ctx_sys" where
  "demo_ctx v ws ss = \<lparr>ctx = (with_durability None Relaxed)\<lparr>jc_state := v\<rparr>, waiters = ws, setters = ss\<rparr>"

lemma demo_ctx_run:
  defines "w \<equiv> \<lambda>ph b. \<lparr>w_kind = State_Changed, w_phase = ph, w_notified = b\<rparr>"
  shows "ctx_step\<^sup>*\<^sup>* (ctx_start None Relaxed) (demo_ctx CANCELLED [w Sleeping True] [Set_Done])"
proof -
  have "ctx_start None Relaxed = demo_ctx ACTIVE [] []" by (simp add: ctx_start_def demo_ctx_def with_durability_def)
  moreover have "ctx_step (demo_ctx ACTIVE [] []) (demo_ctx ACTIVE [w Entering False] [])"
    using new_waiter [of "demo_ctx ACTIVE [] []" State_Changed] by (simp add: demo_ctx_def w_def)
  moreover have "ctx_step (demo_ctx ACTIVE [w Entering False] []) (demo_ctx ACTIVE [w Listening False] [])"
    using listen [of 0 "demo_ctx ACTIVE [w Entering False] []"] by (simp add: demo_ctx_def w_def)
  moreover have "ctx_step (demo_ctx ACTIVE [w Listening False] []) (demo_ctx ACTIVE [w Sleeping False] [])"
    using look [of 0 "demo_ctx ACTIVE [w Listening False] []"] by (simp add: demo_ctx_def w_def sees_change_def)
  moreover have "ctx_step (demo_ctx ACTIVE [w Sleeping False] []) (demo_ctx ACTIVE [w Sleeping False] [To_Cas CANCELLED])"
    using new_setter [of CANCELLED "demo_ctx ACTIVE [w Sleeping False] []"] by (simp add: demo_ctx_def)
  moreover have "ctx_step (demo_ctx ACTIVE [w Sleeping False] [To_Cas CANCELLED]) (demo_ctx CANCELLED [w Sleeping False] [To_Notify])"
    using set_cas [of 0 "demo_ctx ACTIVE [w Sleeping False] [To_Cas CANCELLED]" CANCELLED _ True]
    by (simp add: demo_ctx_def set_state_cas_def)
  moreover have "ctx_step (demo_ctx CANCELLED [w Sleeping False] [To_Notify]) (demo_ctx CANCELLED [w Sleeping True] [Set_Done])"
    using set_notify [of 0 "demo_ctx CANCELLED [w Sleeping False] [To_Notify]"] by (simp add: demo_ctx_def w_def notify_all_def)
  ultimately show ?thesis by (metis (no_types, lifting) rtranclp.rtrancl_refl rtranclp.rtrancl_into_rtrancl)
qed

theorem first_terminal_state_wins_witness:
  "ctx_check (ctx (demo_ctx CANCELLED [\<lparr>w_kind = State_Changed, w_phase = Sleeping, w_notified = True\<rparr>] [Set_Done])) = Inl Cancelled"
proof -
  have "ctx_check (ctx (demo_ctx CANCELLED [] [])) = Inl Cancelled"
    by (simp add: demo_ctx_def ctx_check_def with_durability_def ctx_codes)
  then show ?thesis
    using first_terminal_state_wins [OF demo_ctx_run _ rtranclp.rtrancl_refl] by (simp add: demo_ctx_def ctx_codes)
qed

theorem no_lost_wakeups_witness:
  "w_notified \<lparr>w_kind = State_Changed, w_phase = Sleeping, w_notified = True\<rparr>"
  by (rule no_lost_wakeups [OF demo_ctx_run])
    (simp_all add: demo_ctx_def sees_change_def ctx_codes)

end
