(* ===== verification/Progress.thy ===== *)
theory Progress
  imports Float64 "HOL-Library.Sublist"
begin

text \<open>
  \<^verbatim>\<open>src/crates/xde/src/progress.rs\<close>: progress reports and the thread that hands them to the
  application. The publisher's mutex makes each operation and each round of the callback thread
  atomic; a panic of the callback is caught and changes nothing.
\<close>

section \<open>Reports\<close>

record download_progress =
  downloaded_bytes :: u64
  total_bytes :: "u64 option"
  fraction :: "f64 option"
  bytes_per_second :: "f64 option"
  eta :: "duration option"

text \<open>\<open>None\<close> is the panic of \<open>Duration::from_secs_f64\<close>.\<close>

definition progress_new :: "u64 \<Rightarrow> u64 option \<Rightarrow> f64 option \<Rightarrow> download_progress option" where
  "progress_new bytes tot r =
     (let report = \<lambda>e. \<lparr>downloaded_bytes = bytes, total_bytes = tot,
            fraction = map_option (\<lambda>t. if t = 0 then Fin 1 else f64_div (f64_of_u64 bytes) (f64_of_u64 t)) tot,
            bytes_per_second = r, eta = e\<rparr>
      in case (Option.bind tot (\<lambda>t. checked_sub t bytes), if r \<noteq> None \<and> f64_lt (Fin 0) (the r) then r else None) of
           (Some remaining, Some v) \<Rightarrow>
             map_option (\<lambda>d. report (Some d)) (from_secs_f64 (f64_div (f64_of_u64 remaining) v))
         | _ \<Rightarrow> Some (report None))"

section \<open>The publisher and the callback thread\<close>

record 'p pub_state =
  latest :: 'p
  generation :: u64
  closed :: bool

definition publisher_spawn :: "'p \<Rightarrow> 'p pub_state" where
  "publisher_spawn zero = \<lparr>latest = zero, generation = 1, closed = False\<rparr>"

definition publish :: "'p \<Rightarrow> 'p pub_state \<Rightarrow> 'p pub_state" where
  "publish p s = s\<lparr>latest := p, generation := generation s + 1\<rparr>"

definition close :: "'p option \<Rightarrow> 'p pub_state \<Rightarrow> 'p pub_state" where
  "close po s =
     (case po of
        Some p \<Rightarrow> s\<lparr>latest := p, generation := generation s + 1, closed := True\<rparr>
      | None \<Rightarrow> s\<lparr>closed := True\<rparr>)"

text \<open>One round of \<open>run_callback\<close>: \<open>None\<close> while it waits, otherwise the report handed over, the
  generation seen and whether the thread ends.\<close>

definition callback_round :: "u64 \<Rightarrow> 'p pub_state \<Rightarrow> ('p option \<times> u64 \<times> bool) option" where
  "callback_round seen s =
     (if generation s = seen \<and> \<not> closed s then None
      else Some (if generation s \<noteq> seen then Some (latest s) else None, generation s, closed s))"

text \<open>\<open>sent\<close> records the reports handed to the publisher, \<open>delivered\<close> those given to the callback.\<close>

record 'p pub_sys =
  shared :: "'p pub_state"
  seen_gen :: u64
  sent :: "'p list"
  delivered :: "'p list"
  ended :: bool

inductive pub_step :: "'p pub_sys \<Rightarrow> 'p pub_sys \<Rightarrow> bool" where
  do_publish: "pub_step s (s\<lparr>shared := publish p (shared s), sent := sent s @ [p]\<rparr>)"
| do_close: "pub_step s (s\<lparr>shared := close po (shared s), sent := sent s @ (case po of None \<Rightarrow> [] | Some p \<Rightarrow> [p])\<rparr>)"
| round: "\<not> ended s \<Longrightarrow> callback_round (seen_gen s) (shared s) = Some (out, g, fin) \<Longrightarrow>
     pub_step s (s\<lparr>seen_gen := g, delivered := delivered s @ (case out of None \<Rightarrow> [] | Some p \<Rightarrow> [p]), ended := fin\<rparr>)"

definition pub_start :: "'p \<Rightarrow> 'p pub_sys" where
  "pub_start zero = \<lparr>shared = publisher_spawn zero, seen_gen = 0, sent = [zero], delivered = [], ended = False\<rparr>"

section \<open>Delivery\<close>

text \<open>\<open>k\<close> is the number of reports sent when the callback thread last looked.\<close>

definition pub_ok :: "nat \<Rightarrow> 'p pub_sys \<Rightarrow> bool" where
  "pub_ok k s \<longleftrightarrow>
     sent s \<noteq> [] \<and> latest (shared s) = last (sent s) \<and> generation (shared s) = of_nat (length (sent s)) \<and>
     seen_gen s = of_nat k \<and> k \<le> length (sent s) \<and> subseq (delivered s) (take k (sent s)) \<and>
     (0 < k \<longrightarrow> delivered s \<noteq> [] \<and> last (delivered s) = sent s ! (k - 1))"

lemma pub_step_sent: "pub_step s t \<Longrightarrow> \<exists>ps. sent t = sent s @ ps"
  by (induction rule: pub_step.induct) auto

lemma pub_ok_sent:
  assumes "pub_ok k s" "latest x = p" "generation x = generation (shared s) + 1"
  shows "pub_ok k (s\<lparr>shared := x, sent := sent s @ [p]\<rparr>)"
  using assms by (auto simp: pub_ok_def nth_append)

lemma subseq_snoc_last:
  assumes "subseq xs (take k ys)" "k < length ys"
  shows "subseq (xs @ [last ys]) ys"
proof -
  have "last ys \<in> set (drop k ys)" using assms(2) last_in_set [of "drop k ys"] by simp
  then have "subseq [last ys] (drop k ys)" by (simp add: subseq_singleton_left)
  from list_emb_append_mono [OF assms(1) this] show ?thesis by simp
qed

lemma of_nat_u64_inject: "m < 2 ^ 64 \<Longrightarrow> n < 2 ^ 64 \<Longrightarrow> (of_nat m :: u64) = of_nat n \<longleftrightarrow> m = n"
  by (simp add: word_of_nat_eq_iff take_bit_nat_eq_self)

lemma pub_step_ok:
  assumes "pub_step s t" and "pub_ok k s" and "length (sent t) < 2 ^ 64"
  shows "\<exists>k'. pub_ok k' t"
  using assms
proof (induction rule: pub_step.induct)
  case (do_publish s p)
  then show ?case using pub_ok_sent [of k s "publish p (shared s)" p] by (auto simp: publish_def)
next
  case (do_close s po)
  then show ?case
    using pub_ok_sent [of k s "close po (shared s)" "the po"]
    by (cases po) (auto simp: close_def pub_ok_def)
next
  case (round s out g fin)
  have eq: "generation (shared s) = seen_gen s \<longleftrightarrow> k = length (sent s)"
    using round.prems of_nat_u64_inject [of "length (sent s)" k] by (auto simp: pub_ok_def)
  have "pub_ok (length (sent s)) (s\<lparr>seen_gen := g, delivered := delivered s @ (case out of None \<Rightarrow> [] | Some p \<Rightarrow> [p]), ended := fin\<rparr>)"
    using round.prems round.hyps eq subseq_snoc_last [of "delivered s" k "sent s"]
    by (auto simp: pub_ok_def callback_round_def last_conv_nth split: if_splits)
  then show ?case by blast
qed

lemma pub_reach_ok:
  assumes "pub_step\<^sup>*\<^sup>* (pub_start zero) s" and "length (sent s) < 2 ^ 64"
  shows "\<exists>k. pub_ok k s"
  using assms
proof (induction rule: rtranclp_induct)
  case base
  have "pub_ok 0 (pub_start zero)" by (simp add: pub_ok_def pub_start_def publisher_spawn_def)
  then show ?case ..
next
  case (step s t)
  moreover have "length (sent s) < 2 ^ 64" using step.prems pub_step_sent [OF step.hyps(2)] by auto
  ultimately show ?case by (blast intro: pub_step_ok)
qed

text \<open>The callback sees reports in the order they were published, never the same one twice, and
  when the thread ends the last report it was given is the last one published, so the final state
  of a download is always reported. (Fewer than \<open>2 ^ 64\<close> reports are assumed: the generation
  counter wraps.)\<close>

theorem last_report_is_delivered:
  assumes "pub_step\<^sup>*\<^sup>* (pub_start zero) s" and "length (sent s) < 2 ^ 64"
    and "\<not> ended s" and "callback_round (seen_gen s) (shared s) = Some (out, g, True)"
  shows "last (delivered s @ (case out of None \<Rightarrow> [] | Some p \<Rightarrow> [p])) = last (sent s) \<and>
    subseq (delivered s @ (case out of None \<Rightarrow> [] | Some p \<Rightarrow> [p])) (sent s)"
proof -
  let ?t = "s\<lparr>seen_gen := g, delivered := delivered s @ (case out of None \<Rightarrow> [] | Some p \<Rightarrow> [p]), ended := True\<rparr>"
  have st: "pub_step s ?t" by (rule round [OF assms(3,4)])
  then have "pub_step\<^sup>*\<^sup>* (pub_start zero) ?t" using assms(1) by simp
  then obtain k where k: "pub_ok k ?t" using pub_reach_ok [of zero ?t] assms(2) by auto
  moreover have "g = generation (shared s)" using assms(4) by (auto simp: callback_round_def split: if_splits)
  ultimately have "(of_nat k :: u64) = of_nat (length (sent s))" by (auto simp: pub_ok_def)
  moreover have "k < 2 ^ 64" using k assms(2) by (simp add: pub_ok_def)
  ultimately have "k = length (sent s)" using assms(2) of_nat_u64_inject by blast
  then show ?thesis using k by (auto simp: pub_ok_def last_conv_nth)
qed

theorem last_report_is_delivered_witness:
  "last [0, 2] = last [0, 1, 2 :: nat] \<and> subseq [0, 2] [0, 1, 2 :: nat]"
proof -
  let ?s0 = "pub_start (0 :: nat)"
  let ?s1 = "?s0\<lparr>seen_gen := 1, delivered := [0]\<rparr>"
  let ?s2 = "?s1\<lparr>shared := publish 1 (shared ?s1), sent := [0, 1]\<rparr>"
  let ?s3 = "?s2\<lparr>shared := close (Some 2) (shared ?s2), sent := [0, 1, 2]\<rparr>"
  have "pub_step ?s0 ?s1" using round [of ?s0 "Some 0" 1 False]
    by (simp add: pub_start_def publisher_spawn_def callback_round_def)
  moreover have "pub_step ?s1 ?s2" using do_publish [of ?s1 1] by (simp add: pub_start_def)
  moreover have "pub_step ?s2 ?s3" using do_close [of ?s2 "Some 2"] by (simp add: pub_start_def)
  ultimately have "pub_step\<^sup>*\<^sup>* ?s0 ?s3" by (meson rtranclp.rtrancl_refl rtranclp.rtrancl_into_rtrancl)
  from last_report_is_delivered [OF this, of "Some 2" 3] show ?thesis
    by (simp add: pub_start_def publisher_spawn_def publish_def close_def callback_round_def)
qed

end
