(* ===== verification/World.thy ===== *)
theory World
  imports Segment_Inv Job_Spec
begin

text \<open>
  \<^verbatim>\<open>src/crates/xde/src/core/world.rs\<close>, with the persisted profile of \<^verbatim>\<open>core/profile.rs\<close> and the protocol
  names of \<^verbatim>\<open>core/events.rs\<close>: the control-plane model of jobs, origins, endpoints, connections and
  destinations.

  The slot maps are those of the segment plan: lists of key/value pairs in iteration order. The key
  and place of a new element are the parameter \<open>alloc\<close>, applied to the keys in use; what the code
  relies on is that the key is new (\<open>fresh_alloc\<close>). A \<open>SocketAddr\<close> is an opaque address and a port, an
  \<open>IpAddr\<close> a number. The clocks the code reads are passed in. Hash maps are association lists that are
  only looked up.
\<close>

section \<open>Protocols, phases and contexts\<close>

datatype protocol = Http1_1 | Http2 | Http3

definition protocol_str :: "protocol \<Rightarrow> string" where
  "protocol_str p = (case p of Http1_1 \<Rightarrow> ''http/1.1'' | Http2 \<Rightarrow> ''h2'' | Http3 \<Rightarrow> ''h3'')"

datatype address_family = V4 | V6

record network_context_key =
  iface_index :: "u32 option"
  iface_name :: "string option"
  family :: "address_family option"
  gateway :: "nat option"
  mtu :: "u32 option"

datatype job_phase = Created | Probing | Transferring | Committing | Completed | Cancelling | Failing | Failed

definition is_terminal :: "job_phase \<Rightarrow> bool" where
  "is_terminal p \<longleftrightarrow> p = Completed \<or> p = Failed"

definition is_draining :: "job_phase \<Rightarrow> bool" where
  "is_draining p \<longleftrightarrow> p = Cancelling \<or> p = Failing"

section \<open>Nodes\<close>

record resume_evidence =
  re_durable :: range_set
  re_total :: "u64 option"
  re_etag :: "string option"
  re_last_modified :: "system_time option"
  re_urls :: "string list"

record job_node =
  jn_id :: nat
  jn_artifact :: nat
  jn_sources :: "nat list"
  active_sources :: "nat list"
  jn_origin :: nat
  jn_destination :: nat
  phase :: job_phase
  jn_priority :: priority
  jn_urgency :: urgency
  jn_deadline :: "instant option"
  jn_durability :: durability
  jn_integrity :: integrity_spec
  jn_policy :: transfer_policy
  fingerprint_etag :: "string option"
  fingerprint_last_modified :: "system_time option"
  jn_supports_ranges :: bool
  jn_total_length :: "u64 option"
  jn_rep_lock :: rep_lock
  plan :: "segment_plan option"
  resolve_attempts :: u32
  jn_redirect_chain :: "string list"
  resume :: "resume_evidence option"
  resumed_bytes :: u64
  refresh_attempts :: u32
  failed_sources :: "nat list"
  probing_sources :: "nat list"
  sampling_sources :: "nat list"
  sink_caps :: destination_caps
  sink_hints :: destination_hints
  pending_terminal :: "(string + u64 \<times> digest option) option"
  virt_service :: f64

definition file_sink_caps :: destination_caps where
  "file_sink_caps =
     or RANDOM_ACCESS (or PARALLEL_WRITES (or OUT_OF_ORDER (or IDEMPOTENT_REWRITE
       (or SPARSE (or DURABLE_COMMIT (or READ_BACK PREALLOCATE))))))"

text \<open>\<open>None\<close> is the panic of an empty source list.\<close>

definition primary_source :: "job_node \<Rightarrow> nat option" where
  "primary_source j = nth_opt (jn_sources j) 0"

definition active_source :: "job_node \<Rightarrow> nat option" where
  "active_source j = nth_opt (active_sources j) 0"

definition strong_equivalence :: "job_node \<Rightarrow> bool" where
  "strong_equivalence j \<longleftrightarrow> is_expected (jn_integrity j) \<noteq> None"

definition bytes_remaining_estimate :: "job_node \<Rightarrow> u64" where
  "bytes_remaining_estimate j =
     (case Option.bind (plan j) bytes_remaining of None \<Rightarrow> u64_MAX | Some n \<Rightarrow> n)"

definition unused_sources :: "job_node \<Rightarrow> nat list" where
  "unused_sources j =
     filter (\<lambda>s. s \<notin> set (active_sources j) \<and> s \<notin> set (probing_sources j) \<and> s \<notin> set (failed_sources j)) (jn_sources j)"

datatype connection_status = Connecting | Ready | Poisoned | Retired

datatype connection_intent = Intent_Probe nat nat | Intent_Pool nat | Intent_Mirror nat nat

record connection_node =
  cn_id :: nat
  cn_origin :: nat
  cn_endpoint :: nat
  cn_shard :: nat
  cn_protocol :: protocol
  status :: connection_status
  opened_at :: instant
  cn_network_context :: "nat option"
  path :: "nat option"
  prefer_h3 :: bool
  serving_source :: "nat option"
  intent :: connection_intent

record path_node =
  pn_id :: nat
  pn_connection :: nat
  pn_endpoint :: nat
  pn_network_context :: "nat option"
  established_at :: instant

datatype topology_variable = Connection | Streams

definition next_after :: "topology_variable option \<Rightarrow> topology_variable" where
  "next_after v = (case v of Some Connection \<Rightarrow> Streams | Some Streams \<Rightarrow> Connection | None \<Rightarrow> Connection)"

record topology_experiment =
  te_variable :: topology_variable
  te_conn :: "nat option"
  baseline_rate_bps :: f64
  te_opened_at :: instant
  measure_start_at :: "instant option"
  measure_start_bytes :: u64
  measured_rate_bps :: "f64 option"

record origin_node =
  on_key :: transport_origin_key
  endpoints_of :: "nat list"
  connections_of :: "nat list"
  cooldown_until :: "instant option"
  on_supports_ranges :: "bool option"
  endpoint_failures :: "(nat \<times> u32) list"
  advertises_h3 :: bool
  adaptive_target_conns :: nat
  adaptive_target_streams :: u32
  last_window_bytes :: u64
  last_window_at :: instant
  window_rates :: "f64 list"
  adaptive_active :: bool
  topo_experiment :: "topology_experiment option"
  last_experiment_variable :: "topology_variable option"
  experiment_cooldown_until :: "instant option"
  h3_failures :: u32
  h3_retry_after :: "instant option"
  h3_alt_port :: "u16 option"

definition is_cooled_down :: "origin_node \<Rightarrow> instant \<Rightarrow> bool" where
  "is_cooled_down n now \<longleftrightarrow> (case cooldown_until n of None \<Rightarrow> False | Some t \<Rightarrow> t > now)"

record socket_addr =
  sa_ip :: nat
  sa_port :: u16

record contextual_sample =
  cs_network_context :: "nat option"
  cs_protocol :: protocol
  receive_rate_bps :: f64
  recorded_at :: instant

record endpoint_node =
  address :: socket_addr
  handshake_ewma :: "duration option"
  samples :: "contextual_sample list"

record evidence_summary =
  median_bps :: f64
  dispersion_bps :: f64
  es_samples :: nat
  last_seen :: instant

definition MAX_SAMPLES_PER_ENDPOINT :: nat where
  "MAX_SAMPLES_PER_ENDPOINT = 8"

definition SAMPLE_TTL :: duration where
  "SAMPLE_TTL = 600 * 1000000000"

record source_node =
  sn_artifact :: nat
  sn_url :: string
  sn_headers :: header_map
  sn_header_identity :: "u8 list"
  sn_origin :: nat

record destination_node =
  dn_key :: string
  leased_by :: "nat option"

text \<open>The profile that is written to disk between runs.\<close>

definition PROFILE_FORMAT_VERSION :: u32 where
  "PROFILE_FORMAT_VERSION = 1"

record persisted_sample =
  ps_addr :: socket_addr
  ps_protocol :: string
  ps_rate_bps :: f64
  recorded_at_unix :: u64

record persisted_origin =
  po_scheme :: string
  po_host :: string
  po_port :: u16
  context_sig :: string
  po_supports_ranges :: "bool option"
  po_h3_alt_port :: "u16 option"
  po_samples :: "persisted_sample list"

record persisted_profile =
  pp_format_version :: u32
  pp_origins :: "persisted_origin list"

record world_model =
  jobs :: "(nat \<times> job_node) list"
  artifacts :: "(nat \<times> u64 option) list"
  sources :: "(nat \<times> source_node) list"
  origins :: "(nat \<times> origin_node) list"
  endpoints :: "(nat \<times> endpoint_node) list"
  connections :: "(nat \<times> connection_node) list"
  paths :: "(nat \<times> path_node) list"
  network_contexts :: "(nat \<times> network_context_key) list"
  current_context :: "nat option"
  destinations :: "(nat \<times> destination_node) list"
  destination_index :: "(string \<times> nat) list"
  origin_index :: "(transport_origin_key \<times> nat) list"
  pending_learning :: "persisted_profile option"

definition world_new :: world_model where
  "world_new = \<lparr>jobs = [], artifacts = [], sources = [], origins = [], endpoints = [], connections = [],
     paths = [], network_contexts = [], current_context = None, destinations = [],
     destination_index = [], origin_index = [], pending_learning = None\<rparr>"

end
