(* ===== verification/World_Ops.thy ===== *)
theory World_Ops
  imports World
begin

text \<open>
  The operations of \<^verbatim>\<open>src/crates/xde/src/core/world.rs\<close> on the model of theory \<open>World\<close>. What the code
  takes from its surroundings is in \<open>world_env\<close>: the slot the maps give to a new element, the two
  clocks, and the rendering of an address.
\<close>

record world_env =
  alloc :: "nat list \<Rightarrow> nat \<times> nat"
  inst_now :: instant
  unix_secs :: u64
  show_ip :: "nat \<Rightarrow> string"

definition sm_add :: "world_env \<Rightarrow> (nat \<Rightarrow> 'v) \<Rightarrow> (nat \<times> 'v) list \<Rightarrow> nat \<times> (nat \<times> 'v) list" where
  "sm_add E f m = (let s = alloc E (map fst m) in (fst s, sm_insert s (f (fst s)) m))"

definition fresh_alloc :: "world_env \<Rightarrow> bool" where
  "fresh_alloc E \<longleftrightarrow> (\<forall>ks. fst (alloc E ks) \<notin> set ks)"

section \<open>Learned evidence\<close>

definition debug_str :: "string \<Rightarrow> string" where
  "debug_str s =
     CHR 0x22 # concat (map (\<lambda>c. if c = CHR 0x22 \<or> c = CHR 0x5C then [CHR 0x5C, c] else [c]) s) @ [CHR 0x22]"

definition debug_opt :: "('a \<Rightarrow> string) \<Rightarrow> 'a option \<Rightarrow> string" where
  "debug_opt f v = (case v of None \<Rightarrow> ''None'' | Some x \<Rightarrow> ''Some('' @ f x @ '')'')"

definition context_signature :: "world_env \<Rightarrow> network_context_key \<Rightarrow> string" where
  "context_signature E k =
     ''iface='' @ debug_opt debug_str (iface_name k) @
     '' family='' @ debug_opt (\<lambda>f. case f of V4 \<Rightarrow> ''V4'' | V6 \<Rightarrow> ''V6'') (family k) @
     '' gw='' @ debug_opt (show_ip E) (gateway k) @
     '' mtu='' @ debug_opt (\<lambda>n. show_nat (unat n)) (mtu k)"

definition current_signature :: "world_env \<Rightarrow> world_model \<Rightarrow> string" where
  "current_signature E w =
     (case Option.bind (current_context w) (sm_get (network_contexts w)) of
        None \<Rightarrow> [] | Some k \<Rightarrow> context_signature E k)"

definition f64_abs :: "f64 \<Rightarrow> f64" where
  "f64_abs x = (if f64_lt x (Fin 0) then f64_neg x else x)"

definition parse_protocol :: "string \<Rightarrow> protocol option" where
  "parse_protocol s =
     (if s = ''h1'' \<or> s = ''http/1.1'' then Some Http1_1
      else if s = ''h2'' then Some Http2 else if s = ''h3'' then Some Http3 else None)"

definition apply_sample :: "world_env \<Rightarrow> nat \<Rightarrow> world_model \<Rightarrow> persisted_sample \<Rightarrow> world_model" where
  "apply_sample E oid w ps =
     (case find (\<lambda>ep. case sm_get (endpoints w) ep of None \<Rightarrow> False | Some n \<Rightarrow> address n = ps_addr ps)
             (case sm_get (origins w) oid of None \<Rightarrow> [] | Some n \<Rightarrow> endpoints_of n) of
        None \<Rightarrow> w
      | Some ep \<Rightarrow>
          (case parse_protocol (ps_protocol ps) of
             None \<Rightarrow> w
           | Some pr \<Rightarrow>
               let age_secs = saturating_sub (unix_secs E) (recorded_at_unix ps);
                   back = unat (min age_secs 86400) * 1000000000;
                   rec_at = (if back \<le> inst_now E then inst_now E - back else inst_now E)
               in case sm_get (endpoints w) ep of
                    None \<Rightarrow> w
                  | Some n \<Rightarrow>
                      if list_ex (\<lambda>s. cs_protocol s = pr \<and>
                           f64_lt (f64_abs (f64_sub (receive_rate_bps s) (ps_rate_bps ps))) (Fin 1)) (samples n)
                      then w
                      else w\<lparr>endpoints := sm_update ep (\<lambda>n. n\<lparr>samples := samples n @
                             [\<lparr>cs_network_context = current_context w, cs_protocol = pr,
                               receive_rate_bps = ps_rate_bps ps, recorded_at = rec_at\<rparr>]\<rparr>) (endpoints w)\<rparr>))"

definition opt_or :: "'a option \<Rightarrow> 'a option \<Rightarrow> 'a option" where
  "opt_or a b = (case a of None \<Rightarrow> b | Some x \<Rightarrow> Some x)"

definition apply_origin ::
  "world_env \<Rightarrow> nat \<Rightarrow> string \<Rightarrow> transport_origin_key \<Rightarrow> world_model \<Rightarrow> persisted_origin \<Rightarrow> world_model" where
  "apply_origin E oid sig key w po =
     (if context_sig po \<noteq> sig then w
      else if po_scheme po \<noteq> scheme key \<or> po_host po \<noteq> host key \<or> po_port po \<noteq> port key then w
      else
        let w1 = foldl (apply_sample E oid) w (po_samples po)
        in w1\<lparr>origins := sm_update oid
             (\<lambda>n. n\<lparr>on_supports_ranges := opt_or (on_supports_ranges n) (po_supports_ranges po),
                    h3_alt_port := opt_or (h3_alt_port n) (po_h3_alt_port po),
                    advertises_h3 := (if po_h3_alt_port po \<noteq> None then True else advertises_h3 n)\<rparr>) (origins w1)\<rparr>)"

definition apply_pending_learning :: "world_env \<Rightarrow> nat \<Rightarrow> world_model \<Rightarrow> world_model" where
  "apply_pending_learning E oid w =
     (case pending_learning w of
        None \<Rightarrow> w
      | Some prof \<Rightarrow>
          (case sm_get (origins w) oid of
             None \<Rightarrow> w
           | Some n \<Rightarrow> foldl (apply_origin E oid (current_signature E w) (on_key n)) w (pp_origins prof)))"

definition import_profiles :: "world_env \<Rightarrow> persisted_profile \<Rightarrow> world_model \<Rightarrow> world_model" where
  "import_profiles E prof w =
     (if pp_format_version prof \<noteq> PROFILE_FORMAT_VERSION then w
      else
        let w1 = w\<lparr>pending_learning := Some prof\<rparr>
        in foldl (\<lambda>w' i. apply_pending_learning E i w') w1 (map fst (origins w1)))"

definition export_sample :: "world_env \<Rightarrow> socket_addr \<Rightarrow> contextual_sample \<Rightarrow> persisted_sample" where
  "export_sample E a s =
     \<lparr>ps_addr = a, ps_protocol = protocol_str (cs_protocol s), ps_rate_bps = receive_rate_bps s,
      recorded_at_unix = saturating_sub (unix_secs E) (of_nat ((inst_now E - recorded_at s) div 1000000000))\<rparr>"

definition export_profiles :: "world_env \<Rightarrow> world_model \<Rightarrow> persisted_profile" where
  "export_profiles E w =
     \<lparr>pp_format_version = PROFILE_FORMAT_VERSION,
      pp_origins = List.map_filter (\<lambda>(_, n).
        let ss = concat (map (\<lambda>ep. case sm_get (endpoints w) ep of
                   None \<Rightarrow> [] | Some e \<Rightarrow> map (export_sample E (address e)) (samples e)) (endpoints_of n))
        in if ss = [] \<and> on_supports_ranges n = None \<and> h3_alt_port n = None then None
           else Some \<lparr>po_scheme = scheme (on_key n), po_host = host (on_key n), po_port = port (on_key n),
                      context_sig = current_signature E w, po_supports_ranges = on_supports_ranges n,
                      po_h3_alt_port = h3_alt_port n, po_samples = ss\<rparr>) (origins w)\<rparr>"

section \<open>Admission\<close>

definition origin_new :: "instant \<Rightarrow> transport_origin_key \<Rightarrow> origin_node" where
  "origin_new now key =
     \<lparr>on_key = key, endpoints_of = [], connections_of = [], cooldown_until = None, on_supports_ranges = None,
      endpoint_failures = [], advertises_h3 = False, adaptive_target_conns = 1, adaptive_target_streams = 1,
      last_window_bytes = 0, last_window_at = now, window_rates = [], adaptive_active = False,
      topo_experiment = None, last_experiment_variable = None, experiment_cooldown_until = None,
      h3_failures = 0, h3_retry_after = None, h3_alt_port = None\<rparr>"

definition get_or_create_origin :: "world_env \<Rightarrow> transport_origin_key \<Rightarrow> world_model \<Rightarrow> nat \<times> world_model" where
  "get_or_create_origin E key w =
     (case map_of (origin_index w) key of
        Some i \<Rightarrow> (i, w)
      | None \<Rightarrow>
          let (i, os) = sm_add E (\<lambda>_. origin_new (inst_now E) key) (origins w)
          in (i, apply_pending_learning E i (w\<lparr>origins := os, origin_index := (key, i) # origin_index w\<rparr>)))"

fun admit_sources ::
  "world_env \<Rightarrow> 'u url_ops \<Rightarrow> (u8 list \<Rightarrow> u8 list) \<Rightarrow> nat \<Rightarrow> 'u source_request list \<Rightarrow> world_model
   \<Rightarrow> (nat \<times> nat) list \<times> world_model" where
  "admit_sources E U blake3 art [] w = ([], w)"
| "admit_sources E U blake3 art (src # srcs) w =
     (let (oid, w1) = get_or_create_origin E (origin_key U src) w;
          (sid, ss) = sm_add E (\<lambda>_. \<lparr>sn_artifact = art, sn_url = as_str U (sr_url src), sn_headers = sr_headers src,
                        sn_header_identity = representation_fingerprint U blake3 src, sn_origin = oid\<rparr>) (sources w1);
          (ids, w2) = admit_sources E U blake3 art srcs (w1\<lparr>sources := ss\<rparr>)
      in ((sid, oid) # ids, w2))"

definition job_new ::
  "'u url_ops \<Rightarrow> 'u job_spec \<Rightarrow> nat \<Rightarrow> nat list \<Rightarrow> nat \<Rightarrow> nat \<Rightarrow> nat \<Rightarrow> job_node" where
  "job_new U spec art source_ids oid dest i =
     \<lparr>jn_id = i, jn_artifact = art, jn_sources = source_ids, active_sources = [hd source_ids], jn_origin = oid,
      jn_destination = dest, phase = Created, jn_priority = js_priority spec, jn_urgency = js_urgency spec,
      jn_deadline = js_deadline spec, jn_durability = js_persistence spec, jn_integrity = js_integrity spec,
      jn_policy = js_policy spec, fingerprint_etag = None, fingerprint_last_modified = None,
      jn_supports_ranges = False, jn_total_length = None, jn_rep_lock = lock_new None None None, plan = None,
      resolve_attempts = 0, jn_redirect_chain = [as_str U (sr_url (hd (js_sources spec)))], resume = None,
      resumed_bytes = 0, refresh_attempts = 0, failed_sources = [], probing_sources = [], sampling_sources = [],
      sink_caps = file_sink_caps, sink_hints = destination_hints_default, pending_terminal = None,
      virt_service = Fin 0\<rparr>"

datatype lease_error = Busy string | NoSource

text \<open>The destination of a key, \<open>None\<close> inside when it is leased; the outer \<open>None\<close> is the panic of an
  index entry that points nowhere.\<close>

definition claim_destination :: "world_env \<Rightarrow> string \<Rightarrow> world_model \<Rightarrow> (nat option \<times> world_model) option" where
  "claim_destination E key w =
     (case map_of (destination_index w) key of
        Some i \<Rightarrow> map_option (\<lambda>d. (if leased_by d \<noteq> None then None else Some i, w)) (sm_get (destinations w) i)
      | None \<Rightarrow>
          let (i, ds) = sm_add E (\<lambda>_. \<lparr>dn_key = key, leased_by = None\<rparr>) (destinations w)
          in Some (Some i, w\<lparr>destinations := ds, destination_index := (key, i) # destination_index w\<rparr>))"

definition admit_job ::
  "world_env \<Rightarrow> 'u url_ops \<Rightarrow> (u8 list \<Rightarrow> u8 list) \<Rightarrow> 'u job_spec \<Rightarrow> string \<Rightarrow> world_model
   \<Rightarrow> ((lease_error + nat \<times> nat) \<times> world_model) option" where
  "admit_job E U blake3 spec key w =
     (case claim_destination E key w of
        None \<Rightarrow> None
      | Some (None, w1) \<Rightarrow> Some (Inl (Busy key), w1)
      | Some (Some dest, w1) \<Rightarrow>
          if js_sources spec = [] then Some (Inl NoSource, w1)
          else
            let (art, as) = sm_add E (\<lambda>_. None) (artifacts w1);
                (ids, w2) = admit_sources E U blake3 art (js_sources spec) (w1\<lparr>artifacts := as\<rparr>);
                (job, js) = sm_add E (job_new U spec art (map fst ids) (snd (hd ids)) dest) (jobs w2)
            in Some (Inr (job, art),
                w2\<lparr>jobs := js, destinations := sm_update dest (\<lambda>d. d\<lparr>leased_by := Some job\<rparr>) (destinations w2)\<rparr>))"

definition release_destination :: "nat \<Rightarrow> world_model \<Rightarrow> world_model" where
  "release_destination job w =
     (case sm_get (jobs w) job of
        None \<Rightarrow> w
      | Some j \<Rightarrow> w\<lparr>destinations := sm_update (jn_destination j)
          (\<lambda>d. if leased_by d = Some job then d\<lparr>leased_by := None\<rparr> else d) (destinations w)\<rparr>)"

text \<open>What \<open>finish_job\<close> of the controller does to the model: the node is removed and its lease released.\<close>

definition remove_job :: "nat \<Rightarrow> world_model \<Rightarrow> world_model" where
  "remove_job job w =
     (case sm_get (jobs w) job of
        None \<Rightarrow> w
      | Some j \<Rightarrow> w\<lparr>jobs := sm_remove job (jobs w), destinations := sm_update (jn_destination j)
          (\<lambda>d. if leased_by d = Some job then d\<lparr>leased_by := None\<rparr> else d) (destinations w)\<rparr>)"

definition set_destination_part_path :: "nat \<Rightarrow> world_model \<Rightarrow> unit res" where
  "set_destination_part_path job w =
     (if sm_get (jobs w) job \<noteq> None then Inr () else Inl (Config ''job vanished during admission''))"

definition set_sink_properties ::
  "nat \<Rightarrow> destination_caps \<Rightarrow> destination_hints \<Rightarrow> world_model \<Rightarrow> unit res \<times> world_model" where
  "set_sink_properties job caps hints w =
     (if sm_get (jobs w) job = None then (Inl (Config ''job vanished during admission''), w)
      else (Inr (), w\<lparr>jobs := sm_update job (\<lambda>j. j\<lparr>sink_caps := caps, sink_hints := hints\<rparr>) (jobs w)\<rparr>))"

section \<open>Endpoints\<close>

text \<open>\<open>None\<close> is the panic on an unknown origin.\<close>

fun note_addrs :: "world_env \<Rightarrow> nat \<Rightarrow> socket_addr list \<Rightarrow> world_model \<Rightarrow> nat list \<times> world_model" where
  "note_addrs E oid [] w = ([], w)"
| "note_addrs E oid (a # as) w =
     (if list_ex (\<lambda>e. case sm_get (endpoints w) e of None \<Rightarrow> False | Some n \<Rightarrow> address n = a)
           (case sm_get (origins w) oid of None \<Rightarrow> [] | Some n \<Rightarrow> endpoints_of n)
      then note_addrs E oid as w
      else
        let (e, es) = sm_add E (\<lambda>_. \<lparr>address = a, handshake_ewma = None, samples = []\<rparr>) (endpoints w);
            w1 = w\<lparr>endpoints := es,
                   origins := sm_update oid (\<lambda>n. n\<lparr>endpoints_of := endpoints_of n @ [e]\<rparr>) (origins w)\<rparr>;
            (fresh, w2) = note_addrs E oid as w1
        in (e # fresh, w2))"

definition note_endpoints :: "world_env \<Rightarrow> nat \<Rightarrow> socket_addr list \<Rightarrow> world_model \<Rightarrow> (nat list \<times> world_model) option" where
  "note_endpoints E oid addrs w =
     (if sm_get (origins w) oid = None then None
      else
        let (fresh, w1) = note_addrs E oid addrs w
        in Some (fresh, if fresh \<noteq> [] then apply_pending_learning E oid w1 else w1))"

text \<open>Stable sorting by a rate; the rates compared here are never \<open>NaN\<close>.\<close>

fun ins_by :: "('a \<Rightarrow> f64) \<Rightarrow> 'a \<Rightarrow> 'a list \<Rightarrow> 'a list" where
  "ins_by k x [] = [x]"
| "ins_by k x (y # ys) = (if f64_lt (k x) (k y) then x # y # ys else y # ins_by k x ys)"

definition sort_by_rate :: "('a \<Rightarrow> f64) \<Rightarrow> 'a list \<Rightarrow> 'a list" where
  "sort_by_rate k xs = foldl (\<lambda>ys x. ins_by k x ys) [] xs"

definition endpoint_evidence ::
  "world_model \<Rightarrow> nat \<Rightarrow> nat option \<Rightarrow> protocol option \<Rightarrow> instant \<Rightarrow> evidence_summary option" where
  "endpoint_evidence w ep ctxt pr now =
     (case sm_get (endpoints w) ep of
        None \<Rightarrow> None
      | Some n \<Rightarrow>
          let rates = map (\<lambda>s. (receive_rate_bps s, recorded_at s))
                (filter (\<lambda>s. cs_network_context s = ctxt \<and> (pr = None \<or> pr = Some (cs_protocol s)) \<and>
                   (now < SAMPLE_TTL \<or> now - SAMPLE_TTL \<le> recorded_at s)) (samples n))
          in if rates = [] then None
             else
               let sorted_rates = sort_by_rate fst rates;
                   median = fst (sorted_rates ! (length rates div 2));
                   dev = sort_by_rate id (map (\<lambda>(r, _). f64_abs (f64_sub r median)) sorted_rates)
               in Some \<lparr>median_bps = median, dispersion_bps = dev ! (length dev div 2),
                        es_samples = length rates, last_seen = Max (set (map snd rates))\<rparr>)"

text \<open>\<open>f64::to_bits\<close>: significand and biased exponent, with subnormals at the smallest exponent.\<close>

fun f64_to_bits :: "f64 \<Rightarrow> int" where
  "f64_to_bits (Fin v) =
     (if v = 0 then 0
      else
        let e = max (ilog2 \<bar>v\<bar>) (- 1022); m = \<lfloor>\<bar>v\<bar> / pow2 (e - 52)\<rfloor>
        in m + (e + 1022) * 2 ^ 52 + (if v < 0 then 2 ^ 63 else 0))"
| "f64_to_bits (Inf neg) = 0x7FF * 2 ^ 52 + (if neg then 2 ^ 63 else 0)"
| "f64_to_bits NaN = 0x7FF8 * 2 ^ 48"

definition failures_of :: "origin_node \<Rightarrow> nat \<Rightarrow> u32" where
  "failures_of n e = (case map_of (endpoint_failures n) e of None \<Rightarrow> 0 | Some f \<Rightarrow> f)"

definition endpoint_rank ::
  "world_model \<Rightarrow> origin_node \<Rightarrow> protocol option \<Rightarrow> instant \<Rightarrow> nat \<Rightarrow> u32 \<times> int \<times> duration \<times> u64" where
  "endpoint_rank w n pr now e =
     (let median = (case endpoint_evidence w e (current_context w) pr now of None \<Rightarrow> Fin 0 | Some s \<Rightarrow> median_bps s);
          hs = Option.bind (sm_get (endpoints w) e) handshake_ewma
      in (failures_of n e, - f64_to_bits median, (case hs of None \<Rightarrow> 0 | Some d \<Rightarrow> d),
          (case sm_get (endpoints w) e of None \<Rightarrow> 0 | Some m \<Rightarrow> ucast (sa_port (address m)))))"

text \<open>\<open>Iterator::min_by_key\<close>: the first of the smallest elements.\<close>

fun min_by_key :: "('a \<Rightarrow> 'k::linorder) \<Rightarrow> 'a list \<Rightarrow> 'a option" where
  "min_by_key k [] = None"
| "min_by_key k (x # xs) = Some (foldl (\<lambda>b y. if k y < k b then y else b) x xs)"

definition select_endpoint ::
  "world_model \<Rightarrow> nat \<Rightarrow> protocol option \<Rightarrow> instant \<Rightarrow> (nat \<Rightarrow> bool) \<Rightarrow> nat option" where
  "select_endpoint w oid pr now exclude =
     (case sm_get (origins w) oid of
        None \<Rightarrow> None
      | Some n \<Rightarrow> min_by_key (endpoint_rank w n pr now) (filter (\<lambda>e. \<not> exclude e) (endpoints_of n)))"

definition ranked_endpoints :: "world_model \<Rightarrow> nat \<Rightarrow> instant \<Rightarrow> protocol option \<Rightarrow> nat list" where
  "ranked_endpoints w oid now pr =
     (case sm_get (origins w) oid of
        None \<Rightarrow> []
      | Some n \<Rightarrow> sort_key (endpoint_rank w n pr now) (endpoints_of n))"

definition note_endpoint_sample :: "nat \<Rightarrow> transfer_sample \<Rightarrow> instant \<Rightarrow> world_model \<Rightarrow> world_model" where
  "note_endpoint_sample conn smp now w =
     (if ts_bytes smp = 0 \<or> f64_le (Fin (1 / 2)) (stall_fraction smp) then w
      else
        (case sm_get (connections w) conn of
           None \<Rightarrow> w
         | Some c \<Rightarrow>
             w\<lparr>endpoints := sm_update (cn_endpoint c)
                 (\<lambda>n. let ss = filter (\<lambda>s. now < SAMPLE_TTL \<or> now - SAMPLE_TTL \<le> recorded_at s)
                            (samples n @ [\<lparr>cs_network_context = cn_network_context c, cs_protocol = cn_protocol c,
                               receive_rate_bps = receive_rate smp, recorded_at = now\<rparr>])
                      in n\<lparr>samples := drop (length ss - MAX_SAMPLES_PER_ENDPOINT) ss\<rparr>) (endpoints w)\<rparr>))"

definition clear_endpoint_failures :: "nat \<Rightarrow> world_model \<Rightarrow> world_model" where
  "clear_endpoint_failures conn w =
     (case sm_get (connections w) conn of
        None \<Rightarrow> w
      | Some c \<Rightarrow> w\<lparr>origins := sm_update (cn_origin c)
          (\<lambda>n. if failures_of n (cn_endpoint c) > 0
               then n\<lparr>endpoint_failures := filter (\<lambda>x. fst x \<noteq> cn_endpoint c) (endpoint_failures n)\<rparr> else n)
          (origins w)\<rparr>)"

definition note_endpoint_failure :: "nat \<Rightarrow> world_model \<Rightarrow> world_model" where
  "note_endpoint_failure conn w =
     (case sm_get (connections w) conn of
        None \<Rightarrow> w
      | Some c \<Rightarrow> w\<lparr>origins := sm_update (cn_origin c)
          (\<lambda>n. n\<lparr>endpoint_failures := (cn_endpoint c, failures_of n (cn_endpoint c) + 1) #
                   filter (\<lambda>x. fst x \<noteq> cn_endpoint c) (endpoint_failures n)\<rparr>) (origins w)\<rparr>)"

section \<open>Connections\<close>

definition allocate_connection :: "world_env \<Rightarrow> nat \<Rightarrow> nat \<Rightarrow> nat \<Rightarrow> world_model \<Rightarrow> nat \<times> world_model" where
  "allocate_connection E oid ep shard w =
     (let (c, cs) = sm_add E (\<lambda>i. \<lparr>cn_id = i, cn_origin = oid, cn_endpoint = ep, cn_shard = shard,
            cn_protocol = Http1_1, status = Connecting, opened_at = inst_now E,
            cn_network_context = current_context w, path = None, prefer_h3 = False, serving_source = None,
            intent = Intent_Pool oid\<rparr>) (connections w);
          (p, ps) = sm_add E (\<lambda>i. \<lparr>pn_id = i, pn_connection = c, pn_endpoint = ep,
            pn_network_context = current_context w, established_at = inst_now E\<rparr>) (paths w)
      in (c, w\<lparr>origins := sm_update oid (\<lambda>n. n\<lparr>connections_of := connections_of n @ [c]\<rparr>) (origins w),
               paths := ps, connections := sm_update c (\<lambda>n. n\<lparr>path := Some p\<rparr>) cs\<rparr>))"

definition has_ready_connection :: "nat \<Rightarrow> world_model \<Rightarrow> bool" where
  "has_ready_connection oid w \<longleftrightarrow> list_ex (\<lambda>(_, c). cn_origin c = oid \<and> status c = Ready) (connections w)"

definition has_multiplexed_ready_connection :: "nat \<Rightarrow> world_model \<Rightarrow> bool" where
  "has_multiplexed_ready_connection oid w \<longleftrightarrow>
     list_ex (\<lambda>(_, c). cn_origin c = oid \<and> status c = Ready \<and> (cn_protocol c = Http2 \<or> cn_protocol c = Http3)) (connections w)"

definition retire_connection :: "nat \<Rightarrow> world_model \<Rightarrow> world_model" where
  "retire_connection i w =
     (case sm_get (connections w) i of
        None \<Rightarrow> w
      | Some c \<Rightarrow> w\<lparr>connections := sm_update i (\<lambda>c. c\<lparr>status := Retired\<rparr>) (connections w),
          origins := sm_update (cn_origin c) (\<lambda>n. n\<lparr>connections_of := filter (\<lambda>x. x \<noteq> i) (connections_of n)\<rparr>) (origins w)\<rparr>)"

definition remove_connection :: "nat \<Rightarrow> world_model \<Rightarrow> world_model" where
  "remove_connection i w =
     (case sm_get (connections w) i of
        None \<Rightarrow> w\<lparr>connections := sm_remove i (connections w)\<rparr>
      | Some c \<Rightarrow> w\<lparr>paths := (case path c of None \<Rightarrow> paths w | Some p \<Rightarrow> sm_remove p (paths w)),
          connections := sm_remove i (connections w),
          origins := sm_update (cn_origin c) (\<lambda>n. n\<lparr>connections_of := filter (\<lambda>x. x \<noteq> i) (connections_of n)\<rparr>) (origins w)\<rparr>)"

definition live_connections_for_origin :: "nat \<Rightarrow> world_model \<Rightarrow> nat" where
  "live_connections_for_origin oid w =
     length (filter (\<lambda>(_, c). cn_origin c = oid \<and> status c \<noteq> Retired) (connections w))"

definition set_network_context :: "world_env \<Rightarrow> network_context_key \<Rightarrow> world_model \<Rightarrow> nat \<times> world_model" where
  "set_network_context E key w =
     (case (current_context w, Option.bind (current_context w) (sm_get (network_contexts w)) = Some key) of
        (Some existing, True) \<Rightarrow> (existing, w)
      | _ \<Rightarrow>
          (case find (\<lambda>(_, k). k = key) (network_contexts w) of
             Some (i, _) \<Rightarrow> (i, w\<lparr>current_context := Some i\<rparr>)
           | None \<Rightarrow>
               let (i, cs) = sm_add E (\<lambda>_. key) (network_contexts w)
               in (i, w\<lparr>network_contexts := cs, current_context := Some i\<rparr>)))"

section \<open>The invariants the code asserts\<close>

definition job_asserts :: "world_model \<Rightarrow> job_node \<Rightarrow> bool" where
  "job_asserts w j \<longleftrightarrow>
     sm_get (destinations w) (jn_destination j) \<noteq> None \<and> sm_get (artifacts w) (jn_artifact j) \<noteq> None \<and>
     list_all (\<lambda>s. sm_get (sources w) s \<noteq> None) (jn_sources j) \<and>
     (case plan j of
        None \<Rightarrow> True
      | Some p \<Rightarrow> (case plan_total p of None \<Rightarrow> True | Some t \<Rightarrow> covered (completed p) \<le> t))"

definition assert_invariants :: "world_model \<Rightarrow> bool" where
  "assert_invariants w \<longleftrightarrow>
     list_all (\<lambda>(_, j). job_asserts w j) (jobs w) \<and>
     list_all (\<lambda>(i, d). length (filter (\<lambda>(_, j). jn_destination j = i) (jobs w)) \<le> 1) (destinations w) \<and>
     list_all (\<lambda>(_, c). case sm_get (origins w) (cn_origin c) of
        None \<Rightarrow> True | Some n \<Rightarrow> cn_id c \<in> set (connections_of n)) (connections w)"

end
