(* ===== verification/World_Props.thy ===== *)
theory World_Props
  imports World_Ops
begin

text \<open>
  What holds of the world model in every reachable state: the relation between jobs, leases,
  connections, paths and origins, the assertions the code makes itself, and what the evidence about
  endpoints is used for.
\<close>

section \<open>The invariant\<close>

definition plan_ok :: "job_node \<Rightarrow> bool" where
  "plan_ok j \<longleftrightarrow> (\<forall>p t. plan j = Some p \<longrightarrow> plan_total p = Some t \<longrightarrow>
     normalized (completed p) \<and> rs_set (completed p) \<subseteq> {0..<t})"

definition job_ok :: "world_model \<Rightarrow> nat \<Rightarrow> job_node \<Rightarrow> bool" where
  "job_ok w i j \<longleftrightarrow> jn_id j = i \<and> plan_ok j \<and>
     (\<exists>d. sm_get (destinations w) (jn_destination j) = Some d \<and> leased_by d = Some i) \<and>
     sm_get (artifacts w) (jn_artifact j) \<noteq> None \<and> list_all (\<lambda>s. sm_get (sources w) s \<noteq> None) (jn_sources j)"

definition conn_ok :: "world_model \<Rightarrow> nat \<Rightarrow> connection_node \<Rightarrow> bool" where
  "conn_ok w i c \<longleftrightarrow> cn_id c = i \<and>
     (\<exists>n. sm_get (origins w) (cn_origin c) = Some n \<and> i \<in> set (connections_of n)) \<and>
     (\<exists>p q. path c = Some p \<and> sm_get (paths w) p = Some q \<and> pn_connection q = i)"

definition origin_ok :: "world_model \<Rightarrow> nat \<Rightarrow> origin_node \<Rightarrow> bool" where
  "origin_ok w i n \<longleftrightarrow> distinct (connections_of n) \<and>
     (\<forall>c\<in>set (connections_of n). \<exists>x. sm_get (connections w) c = Some x \<and> cn_origin x = i)"

definition path_ok :: "world_model \<Rightarrow> nat \<Rightarrow> path_node \<Rightarrow> bool" where
  "path_ok w p q \<longleftrightarrow> (\<exists>c. sm_get (connections w) (pn_connection q) = Some c \<and> path c = Some p)"

definition maps_ok :: "world_model \<Rightarrow> bool" where
  "maps_ok w \<longleftrightarrow> keys_ok (jobs w) \<and> keys_ok (artifacts w) \<and> keys_ok (sources w) \<and> keys_ok (origins w) \<and>
     keys_ok (endpoints w) \<and> keys_ok (connections w) \<and> keys_ok (paths w) \<and> keys_ok (destinations w)"

definition world_ok :: "world_model \<Rightarrow> bool" where
  "world_ok w \<longleftrightarrow> maps_ok w \<and>
     (\<forall>i j. sm_get (jobs w) i = Some j \<longrightarrow> job_ok w i j) \<and>
     (\<forall>i c. sm_get (connections w) i = Some c \<longrightarrow> conn_ok w i c) \<and>
     (\<forall>i n. sm_get (origins w) i = Some n \<longrightarrow> origin_ok w i n) \<and>
     (\<forall>p q. sm_get (paths w) p = Some q \<longrightarrow> path_ok w p q) \<and>
     (\<forall>k i. map_of (destination_index w) k = Some i \<longrightarrow> (\<exists>d. sm_get (destinations w) i = Some d \<and> dn_key d = k))"

lemmas store = assign_store.store_laws

lemma world_okD:
  assumes "world_ok w"
  shows "maps_ok w" "\<And>i j. sm_get (jobs w) i = Some j \<Longrightarrow> job_ok w i j"
    "\<And>i c. sm_get (connections w) i = Some c \<Longrightarrow> conn_ok w i c"
    "\<And>i n. sm_get (origins w) i = Some n \<Longrightarrow> origin_ok w i n"
    "\<And>p q. sm_get (paths w) p = Some q \<Longrightarrow> path_ok w p q"
    "\<And>k i. map_of (destination_index w) k = Some i \<Longrightarrow> \<exists>d. sm_get (destinations w) i = Some d \<and> dn_key d = k"
  using assms by (simp_all add: world_ok_def)

lemma sm_add_laws:
  assumes "fresh_alloc E" "keys_ok m" "sm_add E f m = (i, m')"
  shows "keys_ok m'" "sm_get m i = None" "sm_get m' k = (if k = i then Some (f i) else sm_get m k)"
proof -
  have i: "i = fst (alloc E (map fst m))" "m' = sm_insert (alloc E (map fst m)) (f i) m"
    using assms(3) by (auto simp: sm_add_def Let_def)
  have "i \<notin> set (map fst m)" unfolding i(1) using assms(1) unfolding fresh_alloc_def by blast
  then show none: "sm_get m i = None" by (simp add: sm_get_def map_of_eq_None_iff)
  show "keys_ok m'" using store(4) assms(2) none i by metis
  show "sm_get m' k = (if k = i then Some (f i) else sm_get m k)" using store(1) assms(2) none i by metis
qed

section \<open>Changes that leave the relations alone\<close>

text \<open>The parts the invariant speaks about are kept: origins keep their connections, and other
  origins may appear with no connections.\<close>

definition origins_kept :: "world_model \<Rightarrow> world_model \<Rightarrow> bool" where
  "origins_kept w v \<longleftrightarrow> maps_ok v \<and>
     (\<forall>i n. sm_get (origins w) i = Some n \<longrightarrow> (\<exists>m. sm_get (origins v) i = Some m \<and> connections_of m = connections_of n)) \<and>
     (\<forall>i m. sm_get (origins v) i = Some m \<longrightarrow> sm_get (origins w) i = None \<longrightarrow> connections_of m = [])"

definition kept :: "world_model \<Rightarrow> world_model \<Rightarrow> bool" where
  "kept w v \<longleftrightarrow> jobs v = jobs w \<and> connections v = connections w \<and> paths v = paths w \<and>
     artifacts v = artifacts w \<and> sources v = sources w \<and> destinations v = destinations w \<and>
     destination_index v = destination_index w \<and> (maps_ok w \<longrightarrow> origins_kept w v)"

lemma origins_kept_trans:
  assumes "origins_kept w v" "origins_kept v u"
  shows "origins_kept w u"
proof -
  have "\<exists>m. sm_get (origins u) i = Some m \<and> connections_of m = connections_of n" if n: "sm_get (origins w) i = Some n" for i n
  proof -
    from assms(1) n obtain m where "sm_get (origins v) i = Some m" "connections_of m = connections_of n"
      unfolding origins_kept_def by blast
    then show ?thesis using assms(2) unfolding origins_kept_def by metis
  qed
  moreover have "connections_of m = []" if m: "sm_get (origins u) i = Some m" and none: "sm_get (origins w) i = None" for i m
  proof (cases "sm_get (origins v) i")
    case None
    then show ?thesis using assms(2) m unfolding origins_kept_def by blast
  next
    case (Some x)
    then have "connections_of x = []" using assms(1) none unfolding origins_kept_def by blast
    then show ?thesis using assms(2) m Some unfolding origins_kept_def by force
  qed
  ultimately show ?thesis using assms(2) unfolding origins_kept_def by blast
qed

lemma kept_refl [simp]: "kept w w"
  by (auto simp: kept_def origins_kept_def)

lemma kept_trans:
  assumes "kept w v" "kept v u"
  shows "kept w u"
proof -
  have "origins_kept w u" if "maps_ok w"
  proof -
    have wv: "origins_kept w v" using assms(1) that by (simp add: kept_def)
    then have "maps_ok v" by (simp add: origins_kept_def)
    then have "origins_kept v u" using assms(2) by (simp add: kept_def)
    with wv show ?thesis by (rule origins_kept_trans)
  qed
  then show ?thesis using assms by (simp add: kept_def)
qed

lemma kept_foldl: "(\<And>w x. kept w (f w x)) \<Longrightarrow> kept w (foldl f w xs)"
  by (induction xs arbitrary: w) (auto intro: kept_trans)

lemma kept_ok:
  assumes k: "kept w v" and ok: "world_ok w"
  shows "world_ok v"
proof -
  have maps: "maps_ok w" "maps_ok v" using k ok by (auto simp: kept_def origins_kept_def world_ok_def)
  have same: "jobs v = jobs w" "connections v = connections w" "paths v = paths w" "artifacts v = artifacts w"
    "sources v = sources w" "destinations v = destinations w" "destination_index v = destination_index w"
    using k by (simp_all add: kept_def)
  have fwd: "\<exists>m. sm_get (origins v) i = Some m \<and> connections_of m = connections_of n"
    if "sm_get (origins w) i = Some n" for i n
    using k maps that by (simp add: kept_def origins_kept_def)
  have new: "connections_of m = []" if "sm_get (origins v) i = Some m" "sm_get (origins w) i = None" for i m
    using k maps that by (simp add: kept_def origins_kept_def)
  have "conn_ok v i c" if "sm_get (connections w) i = Some c" for i c
  proof -
    have "conn_ok w i c" using ok that by (simp add: world_ok_def)
    then obtain n where "sm_get (origins w) (cn_origin c) = Some n" "i \<in> set (connections_of n)" by (auto simp: conn_ok_def)
    with fwd [of "cn_origin c" n] show ?thesis using \<open>conn_ok w i c\<close> by (auto simp: conn_ok_def same)
  qed
  moreover have "origin_ok v i m" if "sm_get (origins v) i = Some m" for i m
  proof (cases "sm_get (origins w) i")
    case None
    then show ?thesis using new [OF that] by (simp add: origin_ok_def)
  next
    case (Some n)
    then have "origin_ok w i n" "connections_of m = connections_of n" using fwd [OF Some] that ok by (auto simp: world_ok_def)
    then show ?thesis by (simp add: origin_ok_def same)
  qed
  ultimately show ?thesis
    using ok maps by (auto simp: world_ok_def same job_ok_def path_ok_def)
qed

lemma kept_endpoints: "(maps_ok w \<Longrightarrow> keys_ok es) \<Longrightarrow> kept w (w\<lparr>endpoints := es\<rparr>)"
  by (auto simp: kept_def origins_kept_def maps_ok_def)

lemma kept_origins:
  assumes "\<And>n. connections_of (f n) = connections_of n"
  shows "kept w (w\<lparr>origins := sm_update i f (origins w)\<rparr>)"
  using assms by (auto simp: kept_def origins_kept_def maps_ok_def store split: if_splits)

lemma kept_learning [simp]: "kept w (w\<lparr>pending_learning := x\<rparr>)"
  by (auto simp: kept_def origins_kept_def maps_ok_def)

lemma kept_context [simp]: "kept w (w\<lparr>network_contexts := x, current_context := y\<rparr>)" "kept w (w\<lparr>current_context := y\<rparr>)"
  by (auto simp: kept_def origins_kept_def maps_ok_def)

lemma kept_apply_sample: "kept w (apply_sample E oid w ps)"
  by (auto simp: apply_sample_def Let_def maps_ok_def store intro!: kept_endpoints split: option.split)

lemma kept_apply_pending: "kept w (apply_pending_learning E oid w)"
proof -
  have "kept v (apply_origin E oid sig key v po)" for v sig key po
  proof -
    let ?v1 = "foldl (apply_sample E oid) v (po_samples po)"
    have "kept v ?v1" by (rule kept_foldl) (rule kept_apply_sample)
    moreover have "kept ?v1 (?v1\<lparr>origins := sm_update oid f (origins ?v1)\<rparr>)"
      if "\<And>n. connections_of (f n) = connections_of n" for f using that by (rule kept_origins)
    ultimately show ?thesis by (auto simp: apply_origin_def Let_def intro: kept_trans)
  qed
  then show ?thesis
    by (auto simp: apply_pending_learning_def intro: kept_foldl split: option.split)
qed

lemma kept_import: "kept w (import_profiles E prof w)"
  unfolding import_profiles_def Let_def
  by (auto intro!: kept_trans [OF kept_learning kept_foldl] kept_apply_pending)

lemma kept_note_addrs: "fresh_alloc E \<Longrightarrow> note_addrs E oid as w = (es, v) \<Longrightarrow> kept w v"
proof (induction E oid as w arbitrary: es v rule: note_addrs.induct)
  case (2 E oid a as w)
  obtain e m where m: "sm_add E (\<lambda>_. \<lparr>address = a, handshake_ewma = None, samples = []\<rparr>) (endpoints w) = (e, m)" by fastforce
  let ?w1 = "w\<lparr>endpoints := m\<rparr>" and ?f = "\<lambda>n. n\<lparr>endpoints_of := endpoints_of n @ [e]\<rparr>"
  have "kept w ?w1" using sm_add_laws(1) [OF 2(3) _ m] by (intro kept_endpoints) (simp add: maps_ok_def)
  moreover have "kept ?w1 (?w1\<lparr>origins := sm_update oid ?f (origins ?w1)\<rparr>)" by (rule kept_origins) simp
  ultimately have "kept w (w\<lparr>endpoints := m, origins := sm_update oid ?f (origins w)\<rparr>)"
    using kept_trans by fastforce
  then show ?case using 2 m by (auto simp: Let_def intro: kept_trans split: if_splits prod.splits)
qed simp

lemma kept_note_endpoints:
  "fresh_alloc E \<Longrightarrow> note_endpoints E oid as w = Some (es, v) \<Longrightarrow> kept w v"
  by (auto simp: note_endpoints_def Let_def intro: kept_trans kept_apply_pending kept_note_addrs
      split: if_splits prod.splits)

lemma kept_origin_created:
  assumes "fresh_alloc E" "get_or_create_origin E key w = (i, v)"
  shows "kept w v"
proof (cases "map_of (origin_index w) key")
  case None
  obtain m where m: "sm_add E (\<lambda>_. origin_new (inst_now E) key) (origins w) = (i, m)"
    and v: "v = apply_pending_learning E i (w\<lparr>origins := m, origin_index := (key, i) # origin_index w\<rparr>)"
    using assms(2) None by (auto simp: get_or_create_origin_def Let_def split: prod.splits)
  have "keys_ok (origins w) \<Longrightarrow> keys_ok m \<and> sm_get (origins w) i = None \<and>
      (\<forall>k. sm_get m k = (if k = i then Some (origin_new (inst_now E) key) else sm_get (origins w) k))"
    using sm_add_laws [OF assms(1) _ m] by simp
  then have "kept w (w\<lparr>origins := m, origin_index := (key, i) # origin_index w\<rparr>)"
    by (auto simp: kept_def origins_kept_def maps_ok_def origin_new_def split: if_splits)
  then show ?thesis unfolding v by (rule kept_trans) (rule kept_apply_pending)
qed (use assms(2) in \<open>auto simp: get_or_create_origin_def\<close>)

lemma kept_sample: "kept w (note_endpoint_sample c smp now w)"
  by (auto simp: note_endpoint_sample_def maps_ok_def store intro!: kept_endpoints split: option.split)

lemma kept_failures: "kept w (clear_endpoint_failures c w)" "kept w (note_endpoint_failure c w)"
  by (auto simp: clear_endpoint_failures_def note_endpoint_failure_def intro!: kept_origins split: option.split)

lemma kept_set_context: "set_network_context E key w = (i, v) \<Longrightarrow> kept w v"
  by (auto simp: set_network_context_def Let_def split: option.splits bool.splits prod.splits)

section \<open>Jobs and leases\<close>

lemma world_ok_leases:
  assumes "world_ok w" "connections v = connections w" "origins v = origins w" "paths v = paths w" "maps_ok v"
    and "\<And>i j. sm_get (jobs v) i = Some j \<Longrightarrow> job_ok v i j"
    and "\<And>k i. map_of (destination_index v) k = Some i \<Longrightarrow> \<exists>d. sm_get (destinations v) i = Some d \<and> dn_key d = k"
  shows "world_ok v"
  using assms by (simp add: world_ok_def conn_ok_def origin_ok_def path_ok_def)

lemma sources_mono:
  assumes "fresh_alloc E" "admit_sources E U blake3 art srcs w = (ids, v)" "world_ok w"
  shows "world_ok v" "jobs v = jobs w" "destinations v = destinations w" "artifacts v = artifacts w"
    "length ids = length srcs" "list_all (\<lambda>s. sm_get (sources v) s \<noteq> None) (map fst ids)"
    "\<And>s. sm_get (sources w) s \<noteq> None \<Longrightarrow> sm_get (sources v) s \<noteq> None"
proof -
  have "world_ok v \<and> jobs v = jobs w \<and> destinations v = destinations w \<and> artifacts v = artifacts w \<and>
      length ids = length srcs \<and> list_all (\<lambda>s. sm_get (sources v) s \<noteq> None) (map fst ids) \<and>
      (\<forall>s. sm_get (sources w) s \<noteq> None \<longrightarrow> sm_get (sources v) s \<noteq> None)"
    using assms
  proof (induction E U blake3 art srcs w arbitrary: ids v rule: admit_sources.induct)
    case (2 E U blake3 art src srcs w)
    obtain oid w1 where o: "get_or_create_origin E (origin_key U src) w = (oid, w1)" by fastforce
    obtain sid ss where m: "sm_add E (\<lambda>_. \<lparr>sn_artifact = art, sn_url = as_str U (sr_url src), sn_headers = sr_headers src,
        sn_header_identity = representation_fingerprint U blake3 src, sn_origin = oid\<rparr>) (sources w1) = (sid, ss)" by fastforce
    obtain ids' where r: "admit_sources E U blake3 art srcs (w1\<lparr>sources := ss\<rparr>) = (ids', v)" and ids: "ids = (sid, oid) # ids'"
      using 2(3) o m by (auto simp: Let_def split: prod.splits)
    have k: "kept w w1" by (rule kept_origin_created [OF 2(2) o])
    have ok1: "world_ok w1" by (rule kept_ok [OF k 2(4)])
    then have "keys_ok (sources w1)" by (simp add: world_ok_def maps_ok_def)
    note laws = sm_add_laws [OF 2(2) this m]
    have "world_ok (w1\<lparr>sources := ss\<rparr>)"
      using ok1 laws by (auto simp: world_ok_def maps_ok_def job_ok_def conn_ok_def origin_ok_def path_ok_def list_all_iff)
    from 2(1) [OF o [symmetric] refl m [symmetric] refl 2(2) r this] show ?case
      using k laws by (auto simp: kept_def ids list_all_iff)
  qed simp
  then show "world_ok v" "jobs v = jobs w" "destinations v = destinations w" "artifacts v = artifacts w"
    "length ids = length srcs" "list_all (\<lambda>s. sm_get (sources v) s \<noteq> None) (map fst ids)"
    "\<And>s. sm_get (sources w) s \<noteq> None \<Longrightarrow> sm_get (sources v) s \<noteq> None"
    by auto
qed

lemma claim_destination_ok:
  assumes "fresh_alloc E" "world_ok w" "claim_destination E key w = Some (r, v)"
  shows "world_ok v" "jobs v = jobs w"
    "\<And>i. r = Some i \<Longrightarrow> \<exists>d. sm_get (destinations v) i = Some d \<and> leased_by d = None \<and> dn_key d = key"
    "r = None \<Longrightarrow> v = w \<and> (\<exists>i d j. map_of (destination_index w) key = Some i \<and>
       sm_get (destinations w) i = Some d \<and> leased_by d = Some j)"
proof -
  have keys: "keys_ok (destinations w)" using assms(2) by (simp add: world_ok_def maps_ok_def)
  have *: "world_ok v \<and> jobs v = jobs w \<and>
      (\<forall>i. r = Some i \<longrightarrow> (\<exists>d. sm_get (destinations v) i = Some d \<and> leased_by d = None \<and> dn_key d = key)) \<and>
      (r = None \<longrightarrow> v = w \<and> (\<exists>i d j. map_of (destination_index w) key = Some i \<and>
         sm_get (destinations w) i = Some d \<and> leased_by d = Some j))"
  proof (cases "map_of (destination_index w) key")
    case None
    obtain i m where m: "sm_add E (\<lambda>_. \<lparr>dn_key = key, leased_by = None\<rparr>) (destinations w) = (i, m)" by fastforce
    note laws = sm_add_laws [OF assms(1) keys m]
    have v: "v = w\<lparr>destinations := m, destination_index := (key, i) # destination_index w\<rparr>" and r: "r = Some i"
      using assms(3) None m by (auto simp: claim_destination_def Let_def)
    have "world_ok v"
    proof (rule world_ok_leases [OF assms(2)])
      fix k j assume "sm_get (jobs v) k = Some j"
      then have "job_ok w k j" using assms(2) by (simp add: v world_ok_def)
      then show "job_ok v k j" using laws(2,3) by (auto simp: v job_ok_def)
    next
      fix k x assume x: "map_of (destination_index v) k = Some x"
      show "\<exists>d. sm_get (destinations v) x = Some d \<and> dn_key d = k"
      proof (cases "k = key")
        case False
        then have "map_of (destination_index w) k = Some x" using x by (simp add: v)
        then obtain d where "sm_get (destinations w) x = Some d" "dn_key d = k" using world_okD(6) [OF assms(2)] by blast
        then show ?thesis using laws(2,3) by (auto simp: v)
      qed (use x laws in \<open>auto simp: v\<close>)
    qed (use assms(2) laws(1) in \<open>simp_all add: v world_ok_def maps_ok_def\<close>)
    then show ?thesis using laws by (simp add: v r)
  next
    case (Some i)
    then obtain d where "sm_get (destinations w) i = Some d" "dn_key d = key" using world_okD(6) [OF assms(2)] by blast
    moreover from this have "(r, v) = (if leased_by d \<noteq> None then None else Some i, w)"
      using assms(3) Some by (simp add: claim_destination_def)
    ultimately show ?thesis using assms(2) Some by (cases "leased_by d") simp_all
  qed
  then show "world_ok v" "jobs v = jobs w"
    "\<And>i. r = Some i \<Longrightarrow> \<exists>d. sm_get (destinations v) i = Some d \<and> leased_by d = None \<and> dn_key d = key"
    "r = None \<Longrightarrow> v = w \<and> (\<exists>i d j. map_of (destination_index w) key = Some i \<and>
       sm_get (destinations w) i = Some d \<and> leased_by d = Some j)"
    by auto
qed

lemma admit_job_ok:
  assumes E: "fresh_alloc E" and ok: "world_ok w" and adm: "admit_job E U blake3 spec key w = Some (r, v)"
  shows "world_ok v"
proof -
  obtain d w1 where c: "claim_destination E key w = Some (d, w1)"
    using adm by (auto simp: admit_job_def split: option.splits prod.splits)
  note cl = claim_destination_ok [OF E ok c]
  show ?thesis
  proof (cases "d = None \<or> js_sources spec = []")
    case True
    then have "v = w1" using adm c by (auto simp: admit_job_def split: option.splits)
    then show ?thesis using cl(1) by simp
  next
    case False
    then obtain dest where dest: "d = Some dest" by auto
    obtain art as where a: "sm_add E (\<lambda>_. None) (artifacts w1) = (art, as)" by fastforce
    obtain ids w2 where sr: "admit_sources E U blake3 art (js_sources spec) (w1\<lparr>artifacts := as\<rparr>) = (ids, w2)" by fastforce
    obtain job js where jb: "sm_add E (job_new U spec art (map fst ids) (snd (hd ids)) dest) (jobs w2) = (job, js)" by fastforce
    have v: "v = w2\<lparr>jobs := js, destinations := sm_update dest (\<lambda>d. d\<lparr>leased_by := Some job\<rparr>) (destinations w2)\<rparr>"
      using adm False by (simp add: admit_job_def c dest a sr jb)
    have maps1: "maps_ok w1" using cl(1) by (simp add: world_ok_def)
    note al = sm_add_laws [OF E _ a]
    have "world_ok (w1\<lparr>artifacts := as\<rparr>)"
    proof (rule world_ok_leases [OF cl(1)])
      fix i j assume "sm_get (jobs (w1\<lparr>artifacts := as\<rparr>)) i = Some j"
      then have "job_ok w1 i j" using cl(1) by (simp add: world_ok_def)
      then show "job_ok (w1\<lparr>artifacts := as\<rparr>) i j" using al maps1 by (auto simp: job_ok_def maps_ok_def)
    qed (use cl(1) al maps1 in \<open>simp_all add: world_ok_def maps_ok_def\<close>)
    note sl = sources_mono [OF E sr this]
    have maps2: "maps_ok w2" using sl(1) by (simp add: world_ok_def)
    then have keys: "keys_ok (jobs w2)" "keys_ok (destinations w2)" by (simp_all add: maps_ok_def)
    note jl = sm_add_laws [OF E keys(1) jb]
    obtain dn where dn: "sm_get (destinations w2) dest = Some dn" "leased_by dn = None" "dn_key dn = key"
      using cl(3) [OF dest] sl(3) by auto
    show ?thesis
    proof (rule world_ok_leases [OF sl(1)])
      fix i j assume j: "sm_get (jobs v) i = Some j"
      show "job_ok v i j"
      proof (cases "i = job")
        case True
        then show ?thesis
          using j jl(3) dn sl(4,6) al(3) maps1 keys
          by (auto simp: v job_ok_def job_new_def plan_ok_def store maps_ok_def)
      next
        case False
        then have "job_ok w2 i j" using j jl(3) sl(1) by (simp add: v world_ok_def)
        moreover have "jn_destination j \<noteq> dest" using calculation dn by (auto simp: job_ok_def)
        ultimately show ?thesis using keys by (auto simp: v job_ok_def store)
      qed
    next
      fix k i assume "map_of (destination_index v) k = Some i"
      then have "map_of (destination_index w2) k = Some i" by (simp add: v)
      then obtain d where "sm_get (destinations w2) i = Some d" "dn_key d = k" using world_okD(6) [OF sl(1)] by blast
      moreover from this have "sm_get (destinations v) i = Some (if i = dest then d\<lparr>leased_by := Some job\<rparr> else d)"
        using keys by (cases "i = dest") (simp_all add: v store(3))
      ultimately show "\<exists>d. sm_get (destinations v) i = Some d \<and> dn_key d = k" by auto
    qed (use maps2 jl(1) in \<open>simp_all add: v maps_ok_def store\<close>)
  qed
qed

lemma remove_job_ok:
  assumes "world_ok w"
  shows "world_ok (remove_job i w)"
proof (cases "sm_get (jobs w) i")
  case (Some x)
  have keys: "keys_ok (jobs w)" "keys_ok (destinations w)" using assms by (simp_all add: world_ok_def maps_ok_def)
  show ?thesis
  proof (rule world_ok_leases [OF assms])
    fix k j assume "sm_get (jobs (remove_job i w)) k = Some j"
    then have "k \<noteq> i" "job_ok w k j" using Some assms keys by (auto simp: remove_job_def store world_ok_def split: if_splits)
    moreover from this obtain d where "sm_get (destinations w) (jn_destination j) = Some d" "leased_by d = Some k"
      by (auto simp: job_ok_def)
    moreover from this have "sm_get (destinations (remove_job i w)) (jn_destination j) = Some d"
      using Some keys \<open>k \<noteq> i\<close> by (cases "jn_destination j = jn_destination x") (simp_all add: remove_job_def store(3))
    ultimately show "job_ok (remove_job i w) k j" using Some by (auto simp: job_ok_def) (simp_all add: remove_job_def)
  next
    fix k j assume "map_of (destination_index (remove_job i w)) k = Some j"
    then have "map_of (destination_index w) k = Some j" using Some by (simp add: remove_job_def)
    then obtain d where "sm_get (destinations w) j = Some d" "dn_key d = k" using world_okD(6) [OF assms] by blast
    moreover from this have "sm_get (destinations (remove_job i w)) j =
        Some (if j = jn_destination x \<and> leased_by d = Some i then d\<lparr>leased_by := None\<rparr> else d)"
      using Some keys by (cases "j = jn_destination x") (simp_all add: remove_job_def store(3))
    ultimately show "\<exists>d. sm_get (destinations (remove_job i w)) j = Some d \<and> dn_key d = k" by auto
  qed (use assms Some in \<open>simp_all add: remove_job_def world_ok_def maps_ok_def store\<close>)
qed (use assms in \<open>simp add: remove_job_def\<close>)

lemma update_job_ok:
  assumes "world_ok w" "sm_get (jobs w) i = Some x"
    and f: "jn_id (f x) = jn_id x" "jn_destination (f x) = jn_destination x" "jn_artifact (f x) = jn_artifact x"
      "jn_sources (f x) = jn_sources x" "plan_ok (f x)"
  shows "world_ok (w\<lparr>jobs := sm_update i f (jobs w)\<rparr>)"
proof (rule world_ok_leases [OF assms(1)])
  have keys: "keys_ok (jobs w)" using assms by (simp add: world_ok_def maps_ok_def)
  fix k j assume "sm_get (jobs (w\<lparr>jobs := sm_update i f (jobs w)\<rparr>)) k = Some j"
  then have "job_ok w k j \<or> k = i \<and> j = f x" using assms keys by (auto simp: store world_ok_def split: if_splits)
  moreover have "job_ok w i x" using assms by (simp add: world_ok_def)
  ultimately show "job_ok (w\<lparr>jobs := sm_update i f (jobs w)\<rparr>) k j" using f by (auto simp: job_ok_def)
qed (use assms in \<open>simp_all add: world_ok_def maps_ok_def store\<close>)

section \<open>Connections\<close>

lemma allocate_connection_ok:
  assumes E: "fresh_alloc E" and ok: "world_ok w" and o: "sm_get (origins w) oid \<noteq> None"
    and al: "allocate_connection E oid ep shard w = (c, v)"
  shows "world_ok v"
proof -
  define cnode where "cnode = (\<lambda>i. \<lparr>cn_id = i, cn_origin = oid, cn_endpoint = ep, cn_shard = shard,
     cn_protocol = Http1_1, status = Connecting, opened_at = inst_now E, cn_network_context = current_context w,
     path = None, prefer_h3 = False, serving_source = None, intent = Intent_Pool oid\<rparr>)"
  define pnode where "pnode = (\<lambda>i. \<lparr>pn_id = i, pn_connection = c, pn_endpoint = ep,
     pn_network_context = current_context w, established_at = inst_now E\<rparr>)"
  obtain cs where cs: "sm_add E cnode (connections w) = (c, cs)"
    using al by (auto simp: allocate_connection_def cnode_def Let_def split: prod.splits)
  obtain p ps where ps: "sm_add E pnode (paths w) = (p, ps)" by fastforce
  have v: "v = w\<lparr>origins := sm_update oid (\<lambda>n. n\<lparr>connections_of := connections_of n @ [c]\<rparr>) (origins w),
      paths := ps, connections := sm_update c (\<lambda>n. n\<lparr>path := Some p\<rparr>) cs\<rparr>"
    using al cs ps by (simp add: allocate_connection_def cnode_def pnode_def)
  have keys: "keys_ok (connections w)" "keys_ok (paths w)" "keys_ok (origins w)"
    using world_okD(1) [OF ok] by (simp_all add: maps_ok_def)
  note cl = sm_add_laws [OF E keys(1) cs] and pl = sm_add_laws [OF E keys(2) ps]
  have getc: "sm_get (connections v) i = (if i = c then Some ((cnode c)\<lparr>path := Some p\<rparr>) else sm_get (connections w) i)" for i
    using cl by (simp add: v store(3))
  have getp: "sm_get (paths v) q = (if q = p then Some (pnode p) else sm_get (paths w) q)" for q
    using pl by (simp add: v)
  have geto: "sm_get (origins v) i = (if i = oid then map_option (\<lambda>n. n\<lparr>connections_of := connections_of n @ [c]\<rparr>) (sm_get (origins w) i)
      else sm_get (origins w) i)" for i
    using keys by (simp add: v store(3))
  show ?thesis unfolding world_ok_def
  proof (intro conjI allI impI)
    show "maps_ok v" using world_okD(1) [OF ok] cl(1) pl(1) by (simp add: v maps_ok_def store)
    show "job_ok v i j" if "sm_get (jobs v) i = Some j" for i j
      using world_okD(2) [OF ok, of i j] that by (simp add: v job_ok_def)
    show "\<exists>d. sm_get (destinations v) i = Some d \<and> dn_key d = k" if "map_of (destination_index v) k = Some i" for k i
      using world_okD(6) [OF ok, of k i] that by (simp add: v)
    show "conn_ok v i x" if x: "sm_get (connections v) i = Some x" for i x
    proof (cases "i = c")
      case True
      then show ?thesis using x o by (auto simp: conn_ok_def getc geto getp cnode_def pnode_def)
    next
      case False
      then have "conn_ok w i x" using x world_okD(3) [OF ok] by (simp add: getc)
      then show ?thesis using pl(2) by (auto simp: conn_ok_def geto getp)
    qed
    show "path_ok v q x" if x: "sm_get (paths v) q = Some x" for q x
    proof (cases "q = p")
      case True
      then show ?thesis using x by (auto simp: path_ok_def getp getc pnode_def cnode_def)
    next
      case False
      then have "path_ok w q x" using x world_okD(5) [OF ok] by (simp add: getp)
      then show ?thesis using cl(2) by (auto simp: path_ok_def getc)
    qed
    show "origin_ok v i n" if n: "sm_get (origins v) i = Some n" for i n
    proof -
      obtain m where m: "sm_get (origins w) i = Some m" "connections_of n = (if i = oid then connections_of m @ [c] else connections_of m)"
        using n by (auto simp: geto split: if_splits)
      have "origin_ok w i m" by (rule world_okD(4) [OF ok m(1)])
      moreover from this have "c \<notin> set (connections_of m)" using cl(2) by (auto simp: origin_ok_def)
      ultimately show ?thesis using m(2) by (auto simp: origin_ok_def getc cnode_def)
    qed
  qed
qed

lemma remove_connection_ok:
  assumes ok: "world_ok w"
  shows "world_ok (remove_connection i w)"
proof (cases "sm_get (connections w) i")
  case None
  then have "sm_remove i (connections w) = connections w"
    by (auto simp: sm_remove_def sm_get_def map_of_eq_None_iff filter_id_conv)
  then show ?thesis using ok None by (simp add: remove_connection_def)
next
  case (Some c)
  have "conn_ok w i c" by (rule world_okD(3) [OF ok Some])
  then obtain p q where pq: "path c = Some p" "sm_get (paths w) p = Some q" "pn_connection q = i" by (auto simp: conn_ok_def)
  define v where "v = remove_connection i w"
  have keys: "keys_ok (connections w)" "keys_ok (paths w)" "keys_ok (origins w)"
    using world_okD(1) [OF ok] by (simp_all add: maps_ok_def)
  have v: "v = w\<lparr>paths := sm_remove p (paths w), connections := sm_remove i (connections w),
      origins := sm_update (cn_origin c) (\<lambda>n. n\<lparr>connections_of := filter (\<lambda>x. x \<noteq> i) (connections_of n)\<rparr>) (origins w)\<rparr>"
    using Some pq by (simp add: v_def remove_connection_def)
  have getc: "sm_get (connections v) k = (if k = i then None else sm_get (connections w) k)" for k
    using keys by (simp add: v store(2))
  have getp: "sm_get (paths v) k = (if k = p then None else sm_get (paths w) k)" for k
    using keys by (simp add: v store(2))
  have geto: "sm_get (origins v) k = (if k = cn_origin c then map_option (\<lambda>n. n\<lparr>connections_of := filter (\<lambda>x. x \<noteq> i) (connections_of n)\<rparr>)
      (sm_get (origins w) k) else sm_get (origins w) k)" for k
    using keys by (simp add: v store(3))
  show ?thesis unfolding v_def [symmetric] world_ok_def
  proof (intro conjI allI impI)
    show "maps_ok v" using world_okD(1) [OF ok] by (simp add: v maps_ok_def store)
    show "job_ok v k j" if "sm_get (jobs v) k = Some j" for k j
      using world_okD(2) [OF ok, of k j] that by (simp add: v job_ok_def)
    show "\<exists>d. sm_get (destinations v) x = Some d \<and> dn_key d = k" if "map_of (destination_index v) k = Some x" for k x
      using world_okD(6) [OF ok, of k x] that by (simp add: v)
    show "conn_ok v k x" if "sm_get (connections v) k = Some x" for k x
    proof -
      have "k \<noteq> i" "conn_ok w k x" using that world_okD(3) [OF ok] by (auto simp: getc split: if_splits)
      then obtain pa qa where pa: "path x = Some pa" "sm_get (paths w) pa = Some qa" "pn_connection qa = k"
        by (auto simp: conn_ok_def)
      have "pa \<noteq> p" using pa pq \<open>k \<noteq> i\<close> by auto
      then show ?thesis using pa \<open>k \<noteq> i\<close> \<open>conn_ok w k x\<close> by (auto simp: conn_ok_def geto getp)
    qed
    show "path_ok v k x" if "sm_get (paths v) k = Some x" for k x
    proof -
      have "k \<noteq> p" "path_ok w k x" using that world_okD(5) [OF ok] by (auto simp: getp split: if_splits)
      then show ?thesis using Some pq by (auto simp: path_ok_def getc)
    qed
    show "origin_ok v k n" if n: "sm_get (origins v) k = Some n" for k n
    proof -
      obtain m where m: "sm_get (origins w) k = Some m" "connections_of n = (if k = cn_origin c then filter (\<lambda>x. x \<noteq> i) (connections_of m) else connections_of m)"
        using n by (auto simp: geto split: if_splits)
      have "origin_ok w k m" by (rule world_okD(4) [OF ok m(1)])
      then show ?thesis using m(2) Some by (auto simp: origin_ok_def getc)
    qed
  qed
qed

section \<open>Reachable worlds\<close>

text \<open>Every operation of the model, and the updates the controller makes to single nodes in place: of
  a job without changing what it is and with a plan that stays within its length, of an origin
  without changing its connections, of a connection without changing its identity.\<close>

inductive world_step :: "'u url_ops \<Rightarrow> (u8 list \<Rightarrow> u8 list) \<Rightarrow> world_model \<Rightarrow> world_model \<Rightarrow> bool"
  for U :: "'u url_ops" and blake3 where
  w_admit: "fresh_alloc E \<Longrightarrow> admit_job E U blake3 spec key w = Some (r, v) \<Longrightarrow> world_step U blake3 w v"
| w_finish: "world_step U blake3 w (remove_job i w)"
| w_sink: "set_sink_properties i caps hints w = (r, v) \<Longrightarrow> world_step U blake3 w v"
| w_job: "sm_get (jobs w) i = Some x \<Longrightarrow> jn_id (f x) = jn_id x \<Longrightarrow> jn_destination (f x) = jn_destination x \<Longrightarrow>
     jn_artifact (f x) = jn_artifact x \<Longrightarrow> jn_sources (f x) = jn_sources x \<Longrightarrow> plan_ok (f x) \<Longrightarrow>
     world_step U blake3 w (w\<lparr>jobs := sm_update i f (jobs w)\<rparr>)"
| w_origin: "fresh_alloc E \<Longrightarrow> get_or_create_origin E okey w = (i, v) \<Longrightarrow> world_step U blake3 w v"
| w_origin_update: "(\<And>n. connections_of (g n) = connections_of n) \<Longrightarrow>
     world_step U blake3 w (w\<lparr>origins := sm_update i g (origins w)\<rparr>)"
| w_endpoints: "fresh_alloc E \<Longrightarrow> note_endpoints E i addrs w = Some (es, v) \<Longrightarrow> world_step U blake3 w v"
| w_sample: "world_step U blake3 w (note_endpoint_sample c smp now w)"
| w_clear: "world_step U blake3 w (clear_endpoint_failures c w)"
| w_failure: "world_step U blake3 w (note_endpoint_failure c w)"
| w_context: "set_network_context E ckey w = (i, v) \<Longrightarrow> world_step U blake3 w v"
| w_import: "world_step U blake3 w (import_profiles E prof w)"
| w_connect: "fresh_alloc E \<Longrightarrow> sm_get (origins w) i \<noteq> None \<Longrightarrow> allocate_connection E i ep shard w = (c, v) \<Longrightarrow>
     world_step U blake3 w v"
| w_connection_update: "(\<And>c. cn_id (h c) = cn_id c \<and> cn_origin (h c) = cn_origin c \<and> path (h c) = path c) \<Longrightarrow>
     world_step U blake3 w (w\<lparr>connections := sm_update i h (connections w)\<rparr>)"
| w_disconnect: "world_step U blake3 w (remove_connection i w)"

lemma update_connection_ok:
  assumes ok: "world_ok w" and h: "\<And>c. cn_id (h c) = cn_id c \<and> cn_origin (h c) = cn_origin c \<and> path (h c) = path c"
  shows "world_ok (w\<lparr>connections := sm_update i h (connections w)\<rparr>)" (is "world_ok ?v")
proof -
  have "keys_ok (connections w)" using world_okD(1) [OF ok] by (simp add: maps_ok_def)
  then have get: "sm_get (connections ?v) k = map_option (if k = i then h else id) (sm_get (connections w) k)" for k
    by (simp add: store(3) option.map_id)
  have same: "cn_id ((if k = i then h else id) c) = cn_id c" "cn_origin ((if k = i then h else id) c) = cn_origin c"
    "path ((if k = i then h else id) c) = path c" for k c
    using h by auto
  show ?thesis unfolding world_ok_def
  proof (intro conjI allI impI)
    show "maps_ok ?v" using world_okD(1) [OF ok] by (simp add: maps_ok_def store)
    show "job_ok ?v k j" if "sm_get (jobs ?v) k = Some j" for k j
      using world_okD(2) [OF ok, of k j] that by (simp add: job_ok_def)
    show "\<exists>d. sm_get (destinations ?v) x = Some d \<and> dn_key d = k" if "map_of (destination_index ?v) k = Some x" for k x
      using world_okD(6) [OF ok, of k x] that by simp
    show "conn_ok ?v k x" if "sm_get (connections ?v) k = Some x" for k x
    proof -
      from that have "map_option (if k = i then h else id) (sm_get (connections w) k) = Some x" by (simp only: get)
      then obtain y where "sm_get (connections w) k = Some y" "x = (if k = i then h else id) y"
        by (cases "sm_get (connections w) k") simp_all
      then show ?thesis using world_okD(3) [OF ok, of k y] same by (auto simp: conn_ok_def)
    qed
    show "path_ok ?v k x" if "sm_get (paths ?v) k = Some x" for k x
    proof -
      have "path_ok w k x" using world_okD(5) [OF ok] that by simp
      then show ?thesis using get same unfolding path_ok_def by (metis option.simps(9))
    qed
    show "origin_ok ?v k n" if "sm_get (origins ?v) k = Some n" for k n
    proof -
      have "origin_ok w k n" using world_okD(4) [OF ok] that by simp
      then show ?thesis using get same unfolding origin_ok_def by (metis option.simps(9))
    qed
  qed
qed

lemma world_step_ok: "world_step U blake3 w v \<Longrightarrow> world_ok w \<Longrightarrow> world_ok v"
proof (induction rule: world_step.induct)
  case (w_sink i caps hints w r v)
  show ?case
  proof (cases "sm_get (jobs w) i")
    case (Some x)
    have "plan_ok x" using world_okD(2) [OF w_sink.prems Some] by (simp add: job_ok_def)
    then have "world_ok (w\<lparr>jobs := sm_update i (\<lambda>j. j\<lparr>sink_caps := caps, sink_hints := hints\<rparr>) (jobs w)\<rparr>)"
      by (intro update_job_ok [OF w_sink.prems Some]) (simp_all add: plan_ok_def)
    then show ?thesis using w_sink.hyps Some by (simp add: set_sink_properties_def)
  qed (use w_sink in \<open>simp add: set_sink_properties_def\<close>)
qed (auto intro: admit_job_ok remove_job_ok update_job_ok kept_ok kept_origin_created kept_origins kept_note_endpoints
    kept_sample kept_failures kept_set_context kept_import allocate_connection_ok update_connection_ok remove_connection_ok)

lemma world_new_ok: "world_ok world_new"
  by (simp add: world_ok_def world_new_def maps_ok_def keys_ok_def sm_get_def)

lemma world_reach_ok: "(world_step U blake3)\<^sup>*\<^sup>* world_new w \<Longrightarrow> world_ok w"
  by (induction rule: rtranclp_induct) (auto intro: world_new_ok world_step_ok)

section \<open>Properties\<close>

lemma completed_within_total:
  assumes "normalized s" "rs_set s \<subseteq> {0..<t}"
  shows "covered s \<le> t"
proof -
  have "card (rs_set s) \<le> card {0..<t}" using assms(2) by (intro card_mono) auto
  then show ?thesis using covered_is_card [OF assms(1)] by (simp add: word_atLeastLessThan_card word_le_nat_alt)
qed

lemma mem_sm_get: "keys_ok m \<Longrightarrow> (i, v) \<in> set m \<Longrightarrow> sm_get m i = Some v"
  by (simp add: keys_ok_def sm_get_def)

lemma same_destination:
  assumes "world_ok w" "sm_get (jobs w) i = Some x" "sm_get (jobs w) k = Some y" "jn_destination x = jn_destination y"
  shows "i = k"
  using world_okD(2) [OF assms(1,2)] world_okD(2) [OF assms(1,3)] assms(4) by (auto simp: job_ok_def)

lemma distinct_filter_le_1:
  assumes "distinct (map fst m)" "\<And>x y. x \<in> set m \<Longrightarrow> y \<in> set m \<Longrightarrow> P x \<Longrightarrow> P y \<Longrightarrow> fst x = fst y"
  shows "length (filter P m) \<le> 1"
proof (rule ccontr)
  assume "\<not> length (filter P m) \<le> 1"
  then obtain a b r where f: "filter P m = a # b # r" by (cases "filter P m"; cases "tl (filter P m)") auto
  have "a \<in> set (filter P m)" "b \<in> set (filter P m)" by (simp_all add: f)
  then have "a \<in> set m" "b \<in> set m" "P a" "P b" by simp_all
  then have "fst a = fst b" using assms(2) by blast
  moreover have "distinct (map fst (filter P m))" using assms(1) by (rule distinct_map_filter)
  ultimately show False using f by simp
qed

lemma assert_invariants_ok:
  assumes "world_ok w"
  shows "assert_invariants w"
proof -
  have keys: "keys_ok (jobs w)" "keys_ok (connections w)" using world_okD(1) [OF assms] by (simp_all add: maps_ok_def)
  have "job_asserts w j" if "(i, j) \<in> set (jobs w)" for i j
  proof -
    have "job_ok w i j" using world_okD(2) [OF assms] mem_sm_get [OF keys(1) that] by blast
    then show ?thesis using completed_within_total
      by (auto simp: job_ok_def job_asserts_def plan_ok_def split: option.splits)
  qed
  moreover have "length (filter (\<lambda>(_, j). jn_destination j = d) (jobs w)) \<le> 1" for d
  proof (rule distinct_filter_le_1)
    show "distinct (map fst (jobs w))" using keys(1) by (simp add: keys_ok_def)
    show "fst x = fst y" if "x \<in> set (jobs w)" "y \<in> set (jobs w)" "case x of (_, j) \<Rightarrow> jn_destination j = d"
      "case y of (_, j) \<Rightarrow> jn_destination j = d" for x y
      using same_destination [OF assms, of "fst x" "snd x" "fst y" "snd y"] mem_sm_get [OF keys(1)] that
      by (cases x; cases y) auto
  qed
  moreover have "case sm_get (origins w) (cn_origin c) of None \<Rightarrow> True | Some n \<Rightarrow> cn_id c \<in> set (connections_of n)"
    if "(i, c) \<in> set (connections w)" for i c
    using world_okD(3) [OF assms mem_sm_get [OF keys(2) that]] by (auto simp: conn_ok_def)
  ultimately show ?thesis by (auto simp: assert_invariants_def list_all_iff)
qed

text \<open>Whatever the sequence of operations, the world model satisfies the assertions the code makes
  about it: jobs point to existing destinations, artifacts and sources and never have more verified
  bytes than the object, at most one job holds a destination, and every connection is listed by its
  origin.\<close>

theorem world_invariants_hold:
  assumes "(world_step U blake3)\<^sup>*\<^sup>* world_new w"
  shows "assert_invariants w"
  using world_reach_ok [OF assms] by (rule assert_invariants_ok)


text \<open>A small world for the examples: one job on \<open>http://h\<close> that writes to destination \<open>d\<close>.\<close>

definition demo_env :: world_env where
  "demo_env = \<lparr>alloc = \<lambda>ks. (Suc (sum_list ks), 0), inst_now = 0, unix_secs = 0, show_ip = show_nat\<rparr>"

definition demo_url :: "string url_ops" where
  "demo_url = \<lparr>scheme_of = \<lambda>_. ''http'', host_str = Some, port_or_known_default = \<lambda>_. Some 80, as_str = \<lambda>u. u\<rparr>"

definition demo_world :: world_model where
  "demo_world = snd (the (admit_job demo_env demo_url (take 32) (job_spec_new ''h'') ''d'' world_new))"

lemma demo_env_fresh: "fresh_alloc demo_env"
proof -
  have "Suc (sum_list ks) \<notin> set ks" for ks :: "nat list" using member_le_sum_list [of "Suc (sum_list ks)" ks] by auto
  then show ?thesis by (simp add: fresh_alloc_def demo_env_def)
qed

lemmas demo_world_simps = demo_world_def admit_job_def claim_destination_def world_new_def sm_add_def sm_insert_def
  demo_env_def job_spec_new_def source_request_new_def get_or_create_origin_def apply_pending_learning_def
  demo_url_def origin_key_def sm_get_def sm_update_def

lemma demo_admitted:
  "admit_job demo_env demo_url (take 32) (job_spec_new ''h'') ''d'' world_new = Some (Inr (1, 1), demo_world)"
  by (simp add: demo_world_simps)

lemma demo_world_parts:
  "map fst (jobs demo_world) = [1]" "destinations demo_world = [(1, \<lparr>dn_key = ''d'', leased_by = Some 1\<rparr>)]"
  "destination_index demo_world = [(''d'', 1)]" "map fst (origins demo_world) = [1]" "connections demo_world = []"
  by (simp_all add: demo_world_simps)

lemma demo_world_reached: "(world_step demo_url (take 32))\<^sup>*\<^sup>* world_new demo_world"
  using w_admit [OF demo_env_fresh demo_admitted] by (rule r_into_rtranclp)

theorem world_invariants_hold_witness: "jobs demo_world \<noteq> [] \<and> assert_invariants demo_world"
  using world_invariants_hold [OF demo_world_reached] demo_world_parts(1) by auto


lemma foldl_min_Cons:
  fixes k :: "'a \<Rightarrow> 'k::linorder"
  shows "foldl (\<lambda>b y. if k y < k b then y else b) x (y # ys) =
    (let m = foldl (\<lambda>b y. if k y < k b then y else b) y ys in if k m < k x then m else x)"
proof (induction ys arbitrary: x y)
  case (Cons z zs)
  from Cons [of "if k y < k x then y else x" z] Cons [of y z] show ?case
    by (auto simp: Let_def split: if_splits)
qed simp

lemma min_by_key_sort:
  fixes k :: "'a \<Rightarrow> 'k::linorder"
  shows "min_by_key k xs = nth_opt (sort_key k xs) 0"
proof (induction xs)
  case (Cons x xs)
  show ?case
  proof (cases xs)
    case (Cons y ys)
    obtain m ms where m: "sort_key k xs = m # ms" using Cons by (metis insort_not_Nil list.exhaust sort_key_simps(2))
    then have "foldl (\<lambda>b y. if k y < k b then y else b) y ys = m"
      using Cons.IH Cons by simp
    then show ?thesis using m foldl_min_Cons [of k x y ys] Cons by (auto simp: Let_def not_less)
  qed simp
qed simp

lemma sorted_map_fst: "sorted xs \<Longrightarrow> sorted (map fst (xs :: ('a::linorder \<times> 'b::linorder) list))"
  by (induction xs) (auto simp: less_eq_prod_def)

text \<open>Choosing one endpoint and ranking all of them agree: without exclusions the selected endpoint is
  the first of the ranking, the ranking is a permutation of the endpoints of the origin, and no
  endpoint is put before one with fewer failures.\<close>

theorem ranking_agrees_with_selection:
  assumes "sm_get (origins w) oid = Some n"
  shows "select_endpoint w oid pr now (\<lambda>_. False) = nth_opt (ranked_endpoints w oid now pr) 0 \<and>
    mset (ranked_endpoints w oid now pr) = mset (endpoints_of n) \<and>
    sorted (map (failures_of n) (ranked_endpoints w oid now pr))"
proof -
  let ?k = "endpoint_rank w n pr now"
  have "min_by_key k xs = nth_opt (sort_key k xs) 0" for k :: "nat \<Rightarrow> u32 \<times> int \<times> nat \<times> u64" and xs
    by (rule min_by_key_sort)
  moreover have "sorted (map fst (map ?k (sort_key ?k (endpoints_of n))))"
    by (rule sorted_map_fst) simp
  moreover have "fst (?k e) = failures_of n e" for e by (simp add: endpoint_rank_def Let_def)
  ultimately show ?thesis using assms by (simp add: select_endpoint_def ranked_endpoints_def comp_def)
qed

definition demo_endpoints :: world_model where
  "demo_endpoints = snd (the (note_endpoints demo_env 1 [\<lparr>sa_ip = 7, sa_port = 443\<rparr>, \<lparr>sa_ip = 8, sa_port = 80\<rparr>] demo_world))"

lemma demo_world_origin: "origins demo_world = [(1, origin_new 0 \<lparr>scheme = ''http'', host = ''h'', port = 80\<rparr>)]"
  and demo_world_rest: "endpoints demo_world = []" "pending_learning demo_world = None" "current_context demo_world = None"
  by (simp_all add: demo_world_simps)

lemma demo_endpoints_parts:
  "sm_get (origins demo_endpoints) 1 = Some ((origin_new 0 \<lparr>scheme = ''http'', host = ''h'', port = 80\<rparr>)\<lparr>endpoints_of := [1, 2]\<rparr>)"
  "endpoints demo_endpoints = [(2, \<lparr>address = \<lparr>sa_ip = 8, sa_port = 80\<rparr>, handshake_ewma = None, samples = []\<rparr>),
     (1, \<lparr>address = \<lparr>sa_ip = 7, sa_port = 443\<rparr>, handshake_ewma = None, samples = []\<rparr>)]"
  by (simp_all add: demo_endpoints_def note_endpoints_def demo_world_origin demo_world_rest sm_get_def sm_update_def
      sm_add_def sm_insert_def demo_env_def origin_new_def apply_pending_learning_def)

theorem ranking_agrees_with_selection_witness:
  "select_endpoint demo_endpoints 1 None 0 (\<lambda>_. False) = Some 2 \<and> ranked_endpoints demo_endpoints 1 0 None = [2, 1]"
proof -
  have "ranked_endpoints demo_endpoints 1 0 None = [2, 1]"
  proof -
    have "endpoint_rank demo_endpoints ((origin_new 0 \<lparr>scheme = ''http'', host = ''h'', port = 80\<rparr>)\<lparr>endpoints_of := [1, 2]\<rparr>) None 0 e =
        (0, 0, 0, if e = 1 then 443 else 80)" if "e = 1 \<or> e = 2" for e
      using that by (auto simp: endpoint_rank_def endpoint_evidence_def demo_endpoints_parts(2) failures_of_def origin_new_def sm_get_def)
    then show ?thesis
      by (simp add: ranked_endpoints_def demo_endpoints_parts(1) less_eq_prod_def del: One_nat_def)
  qed
  then show ?thesis using ranking_agrees_with_selection [OF demo_endpoints_parts(1), of None 0] by simp
qed

text \<open>The samples a query looks at.\<close>

definition relevant :: "nat option \<Rightarrow> protocol option \<Rightarrow> instant \<Rightarrow> contextual_sample \<Rightarrow> bool" where
  "relevant ctxt pr now s \<longleftrightarrow> cs_network_context s = ctxt \<and> (pr = None \<or> pr = Some (cs_protocol s)) \<and>
     (now < SAMPLE_TTL \<or> now - SAMPLE_TTL \<le> recorded_at s)"

text \<open>Evidence about an endpoint never leaks across network contexts, protocols or time: a query gives
  the same summary whatever irrelevant samples (of another context, of another protocol than the one
  asked for, or older than ten minutes) are recorded, and none when there is no relevant one.\<close>

theorem evidence_is_scoped:
  assumes "sm_get (endpoints w) ep = Some n" "sm_get (endpoints v) ep = Some m"
    and "filter (relevant ctxt pr now) (samples n) = filter (relevant ctxt pr now) (samples m)"
  shows "endpoint_evidence w ep ctxt pr now = endpoint_evidence v ep ctxt pr now \<and>
    (endpoint_evidence w ep ctxt pr now = None \<longleftrightarrow> filter (relevant ctxt pr now) (samples n) = [])"
  using assms by (simp add: endpoint_evidence_def relevant_def [abs_def] Let_def)

theorem evidence_is_scoped_witness:
  "endpoint_evidence (world_new\<lparr>endpoints := [(1, \<lparr>address = \<lparr>sa_ip = 7, sa_port = 443\<rparr>, handshake_ewma = None,
     samples = [\<lparr>cs_network_context = Some 3, cs_protocol = Http2, receive_rate_bps = Fin 5, recorded_at = 0\<rparr>]\<rparr>)]\<rparr>) 1 None (Some Http2) 9 = None"
  (is "endpoint_evidence ?w 1 None (Some Http2) 9 = None")
proof -
  have "filter (relevant None (Some Http2) 9) (samples (snd (hd (endpoints ?w)))) = []" by (simp add: relevant_def)
  moreover have "sm_get (endpoints ?w) 1 = Some (snd (hd (endpoints ?w)))" by (simp add: sm_get_def)
  ultimately show ?thesis using evidence_is_scoped [of ?w 1 _ ?w _ None "Some Http2" 9] by blast
qed

text \<open>Retiring a connection instead of removing it breaks the model's own assertion: the connection
  stays in the model but is no longer listed by its origin.\<close>

theorem retiring_breaks_the_invariant:
  assumes "(world_step U blake3)\<^sup>*\<^sup>* world_new w" and "sm_get (connections w) i = Some c"
  shows "\<not> assert_invariants (retire_connection i w)"
proof -
  have ok: "world_ok w" by (rule world_reach_ok [OF assms(1)])
  have keys: "keys_ok (connections w)" "keys_ok (origins w)" using world_okD(1) [OF ok] by (simp_all add: maps_ok_def)
  obtain n where n: "sm_get (origins w) (cn_origin c) = Some n" and i: "cn_id c = i"
    using world_okD(3) [OF ok assms(2)] by (auto simp: conn_ok_def)
  let ?v = "retire_connection i w"
  have "sm_get (connections ?v) i = Some (c\<lparr>status := Retired\<rparr>)" using assms(2) keys by (simp add: retire_connection_def store(3))
  then have mem: "(i, c\<lparr>status := Retired\<rparr>) \<in> set (connections ?v)" by (auto simp: sm_get_def dest: map_of_SomeD)
  have "sm_get (origins ?v) (cn_origin c) = Some (n\<lparr>connections_of := filter (\<lambda>x. x \<noteq> i) (connections_of n)\<rparr>)"
    using assms(2) keys n by (simp add: retire_connection_def store(3))
  then show ?thesis using mem i by (auto simp: assert_invariants_def list_all_iff dest!: bspec)
qed

definition demo_connected :: world_model where
  "demo_connected = snd (allocate_connection demo_env 1 1 0 demo_world)"

theorem retiring_breaks_the_invariant_witness: "\<not> assert_invariants (retire_connection 1 demo_connected)"
proof -
  have al: "allocate_connection demo_env 1 1 0 demo_world = (1, demo_connected)"
    by (simp add: demo_connected_def allocate_connection_def sm_add_def demo_env_def demo_world_parts)
  have "world_step demo_url (take 32) demo_world demo_connected"
    by (rule w_connect [OF demo_env_fresh _ al]) (simp add: demo_world_origin sm_get_def)
  with demo_world_reached have "(world_step demo_url (take 32))\<^sup>*\<^sup>* world_new demo_connected" by simp
  moreover have "\<exists>c. sm_get (connections demo_connected) 1 = Some c"
    by (simp add: demo_connected_def allocate_connection_def sm_add_def demo_env_def demo_world_parts sm_insert_def
        sm_update_def sm_get_def)
  ultimately show ?thesis using retiring_breaks_the_invariant by blast
qed

text \<open>Recording keeps the newest samples, at most eight of them, and none older than ten minutes.\<close>

lemma samples_are_bounded:
  assumes "keys_ok (endpoints w)" "sm_get (connections w) conn = Some c" "sm_get (endpoints w) (cn_endpoint c) = Some n"
    and "ts_bytes smp \<noteq> 0" "\<not> f64_le (Fin (1 / 2)) (stall_fraction smp)"
  shows "\<exists>m. sm_get (endpoints (note_endpoint_sample conn smp now w)) (cn_endpoint c) = Some m \<and>
    length (samples m) \<le> 8 \<and> last (samples m) = \<lparr>cs_network_context = cn_network_context c, cs_protocol = cn_protocol c,
      receive_rate_bps = receive_rate smp, recorded_at = now\<rparr> \<and>
    (\<forall>s\<in>set (samples m). now < SAMPLE_TTL \<or> now - SAMPLE_TTL \<le> recorded_at s)"
  using assms by (auto simp: note_endpoint_sample_def store(3) MAX_SAMPLES_PER_ENDPOINT_def Let_def dest: in_set_dropD)

end
