(* ===== verification/Controller.thy ===== *)
theory Controller
  imports World_Props Timers "HOL-Library.While_Combinator"
begin

text \<open>
  \<^verbatim>\<open>src/crates/xde/src/core/controller.rs\<close>, first part: the observations and actions of the control
  plane, the state of the \<open>Controller\<close>, and its methods that only read it.

  A \<open>SecondaryMap\<close> of the \<open>slotmap\<close> crate is a list of key/value pairs with one entry per key. The
  null key of \<open>unwrap_or_default\<close> is in no map, so it is \<open>None\<close>. A \<open>usize\<close> is a natural number.
  \<open>actions\<close>, the vector every method appends to, is the field \<open>acts\<close> of the state.
\<close>

section \<open>Observations\<close>

record https_record_info =
  hr_priority :: u16
  hr_target :: string
  alpn :: "string list"
  hr_port :: "u16 option"
  ipv4_hint :: "nat list"
  ipv6_hint :: "nat list"
  ech :: bool
  ttl :: duration

datatype dispatch_operation =
    Op_Resolve | Op_OpenConnection | Op_Probe | Op_StartAssignment | Op_StartFullBody | Op_SampleMirror
  | Op_TruncateAssignment | Op_CloseConnection | Op_AttachDestination | Op_CloseLane | Op_CommitDestination

datatype connection_health = State_Poisoned | State_Reusable | State_Gone

datatype stream_health = Stream_Completed | Stream_Truncated | Stream_Failed

datatype connect_failure = Connect_Dns | Connect_Refused | Connect_Timeout | Connect_Tls | Connect_Other

definition retryable :: "connect_failure \<Rightarrow> bool" where
  "retryable k \<longleftrightarrow> k \<noteq> Connect_Tls"

datatype probe_failure_kind = Credentials | Kind_RateLimited "duration option" | Kind_Transport

record probe_failure =
  pf_kind :: probe_failure_kind
  pf_status :: u16

definition probe_failure_from_error :: "error \<Rightarrow> probe_failure" where
  "probe_failure_from_error e =
     (case e of
        Http (Dispositioned d st) \<Rightarrow>
          \<lparr>pf_kind = (case d of RefreshCredentials _ \<Rightarrow> Credentials | BackOffOrigin after _ \<Rightarrow> Kind_RateLimited after
                       | _ \<Rightarrow> Kind_Transport), pf_status = st\<rparr>
      | Http (RangeUnsupported st) \<Rightarrow> \<lparr>pf_kind = Kind_Transport, pf_status = st\<rparr>
      | Http (InvalidStatus st) \<Rightarrow> \<lparr>pf_kind = Kind_Transport, pf_status = st\<rparr>
      | _ \<Rightarrow> \<lparr>pf_kind = Kind_Transport, pf_status = 0\<rparr>)"

datatype destination_failure = DigestMismatch | NoSpace | DestinationError

definition destination_failure_from_error :: "error \<Rightarrow> destination_failure" where
  "destination_failure_from_error e =
     (case e of Integrity _ \<Rightarrow> DigestMismatch | Destination Enospc \<Rightarrow> NoSpace | _ \<Rightarrow> DestinationError)"

datatype 'u observation =
    JobAdmitted job_id "'u job_spec" "resume_evidence option"
  | JobCancelled job_id
  | Resolved origin_id "socket_addr list" bool "https_record_info list"
  | ConnectionReady connection_id duration protocol
  | ConnectionFailed connection_id connect_failure
  | ConnectionGone connection_id
  | DispatchFailed dispatch_operation "job_id option" "assignment_ref option" "connection_id option" "origin_id option"
  | Probed job_id connection_id nat bool "u64 option" "string option" "system_time option" bool "u16 option"
  | ProbeRedirected job_id connection_id u16 string
  | MirrorSampled job_id nat connection_id bool bool
  | ProbeFailed job_id connection_id nat probe_failure connection_health
  | AssignmentVerified job_id assignment_ref byte_range transfer_sample connection_id bool
  | AssignmentFailed job_id assignment_ref u32 disposition "connection_id option" connection_health stream_health
  | DestinationCommitted job_id u64 "digest option"
  | DestinationFailed job_id destination_failure
  | Origin_RateLimited origin_id "duration option"
  | TimerExpired timer_event
  | SourceRefreshed job_id "string option" "header_map option"
  | CredentialRefreshFailed job_id u16

section \<open>Actions\<close>

datatype action =
    Act_Resolve origin_id string u16
  | OpenConnection connection_id origin_id nat nat bool "u16 option"
  | CloseConnection connection_id
  | Act_Probe job_id connection_id "nat option"
  | StartAssignment job_id assignment_ref connection_id byte_range u32 bool
  | StartFullBody job_id assignment_ref connection_id bool
  | SampleMirror job_id nat connection_id byte_range
  | ResetResumeData job_id
  | ReportSourceQuarantined job_id "nat list" string
  | TruncateAssignment job_id assignment_ref connection_id u64
  | RequestCredentialRefresh job_id string u16 u32
  | CommitDestination job_id u64 "digest_check option"
  | DiscardDestination job_id
  | FailJob job_id string
  | CompleteJob job_id u64 "digest option" u64
  | ScheduleTimer instant timer_event

definition CONNECT_STAGGER :: duration where
  "CONNECT_STAGGER = 250 * 1000000"

definition CANCELLED_SENTINEL :: string where
  "CANCELLED_SENTINEL = ''cancelled''"

definition DEADLINE_SENTINEL :: string where
  "DEADLINE_SENTINEL = ''deadline exceeded''"

record topology_experiment_view =
  tv_variable :: topology_variable
  tv_conn :: "nat option"
  tv_baseline :: f64
  tv_opened_at :: instant
  tv_measure_start_at :: "instant option"
  tv_measure_start :: u64
  already_measured :: bool

record decision_inputs =
  di_rate :: f64
  di_stall_fraction :: f64
  di_experiment :: "topology_experiment_view option"
  di_remaining :: "u64 option"
  has_work :: bool
  ceiling_of :: nat
  live :: nat
  multiplexed :: bool
  di_handshake :: duration
  stream_ceiling :: u32
  max_streams :: u32

record tail_cut =
  tc_job :: job_id
  tc_victim :: assign_id
  tc_connection :: connection_id
  tc_new_end :: u64

record claimed_piece =
  cp_assign :: assign_id
  cp_range :: byte_range
  cp_overlap :: u32
  cp_frontier :: bool
  cp_tail_cut :: "tail_cut option"

record connection_runtime_state =
  in_flight :: nat
  cr_ewma :: "ewma_var option"

definition runtime_default :: connection_runtime_state where
  "runtime_default = \<lparr>in_flight = 0, cr_ewma = None\<rparr>"

section \<open>The controller\<close>

record controller =
  world :: world_model
  c_retry :: retry_policy
  epoch :: instant
  engine_max_active_assignments :: u32
  engine_max_connections :: u16
  engine_max_jobs :: nat
  active_assignment_count :: nat
  shard_load :: "nat list"
  origin_live_conns :: "(origin_id \<times> nat) list"
  origin_verified :: "(origin_id \<times> u64) list"
  origin_avg_handshake :: "(origin_id \<times> duration) list"
  origin_generation :: "(origin_id \<times> u64) list"
  origin_last_invalidation :: "(origin_id \<times> instant) list"
  connection_state :: "(connection_id \<times> connection_runtime_state) list"
  origin_state :: "(origin_id \<times> duration \<times> duration) list"
  origin_admission :: "(origin_id \<times> instant) list"
  acts :: "action list"

text \<open>The surroundings: those of the world model (whose clock is the \<open>Instant::now\<close> that some methods
  read), the URL parser, the sensitivity flag of a header value, the hash and the exponential.\<close>

record 'u ctl_env =
  wenv :: world_env
  url_ops_of :: "'u url_ops"
  url_parse :: "string \<Rightarrow> 'u option"
  is_sensitive :: "string \<times> u8 list \<Rightarrow> bool"
  blake3_of :: "u8 list \<Rightarrow> u8 list"
  exp_of :: "f64 \<Rightarrow> f64"

definition sec_get :: "('k \<times> 'v) list \<Rightarrow> 'k \<Rightarrow> 'v option" where
  "sec_get m k = map_of m k"

definition sec_remove :: "'k \<Rightarrow> ('k \<times> 'v) list \<Rightarrow> ('k \<times> 'v) list" where
  "sec_remove k m = filter (\<lambda>kv. fst kv \<noteq> k) m"

definition sec_insert :: "'k \<Rightarrow> 'v \<Rightarrow> ('k \<times> 'v) list \<Rightarrow> ('k \<times> 'v) list" where
  "sec_insert k v m = (k, v) # sec_remove k m"

definition opt_default :: "'a \<Rightarrow> 'a option \<Rightarrow> 'a" where
  "opt_default d v = (case v of None \<Rightarrow> d | Some x \<Rightarrow> x)"

definition emit :: "action \<Rightarrow> controller \<Rightarrow> controller" where
  "emit a s = s\<lparr>acts := acts s @ [a]\<rparr>"

text \<open>\<open>self.world.jobs.get_mut(job)\<close> and its like, with what is done to the node.\<close>

definition upd_job :: "job_id \<Rightarrow> (job_node \<Rightarrow> job_node) \<Rightarrow> controller \<Rightarrow> controller" where
  "upd_job j f s = s\<lparr>world := (world s)\<lparr>jobs := sm_update j f (jobs (world s))\<rparr>\<rparr>"

definition upd_origin :: "origin_id \<Rightarrow> (origin_node \<Rightarrow> origin_node) \<Rightarrow> controller \<Rightarrow> controller" where
  "upd_origin i f s = s\<lparr>world := (world s)\<lparr>origins := sm_update i f (origins (world s))\<rparr>\<rparr>"

definition upd_conn :: "connection_id \<Rightarrow> (connection_node \<Rightarrow> connection_node) \<Rightarrow> controller \<Rightarrow> controller" where
  "upd_conn i f s = s\<lparr>world := (world s)\<lparr>connections := sm_update i f (connections (world s))\<rparr>\<rparr>"

definition upd_source :: "nat \<Rightarrow> (source_node \<Rightarrow> source_node) \<Rightarrow> controller \<Rightarrow> controller" where
  "upd_source i f s = s\<lparr>world := (world s)\<lparr>sources := sm_update i f (sources (world s))\<rparr>\<rparr>"

definition upd_endpoint :: "nat \<Rightarrow> (endpoint_node \<Rightarrow> endpoint_node) \<Rightarrow> controller \<Rightarrow> controller" where
  "upd_endpoint i f s = s\<lparr>world := (world s)\<lparr>endpoints := sm_update i f (endpoints (world s))\<rparr>\<rparr>"

definition upd_world :: "(world_model \<Rightarrow> world_model) \<Rightarrow> controller \<Rightarrow> controller" where
  "upd_world f s = s\<lparr>world := f (world s)\<rparr>"

definition job_of :: "controller \<Rightarrow> job_id \<Rightarrow> job_node option" where
  "job_of s j = sm_get (jobs (world s)) j"

definition conn_of :: "controller \<Rightarrow> connection_id \<Rightarrow> connection_node option" where
  "conn_of s c = sm_get (connections (world s)) c"

definition origin_of :: "controller \<Rightarrow> origin_id \<Rightarrow> origin_node option" where
  "origin_of s i = sm_get (origins (world s)) i"

definition source_of :: "controller \<Rightarrow> nat \<Rightarrow> source_node option" where
  "source_of s i = sm_get (sources (world s)) i"

definition with_shards :: "instant \<Rightarrow> nat \<Rightarrow> controller" where
  "with_shards now n =
     \<lparr>world = world_new, c_retry = retry_default, epoch = now,
      engine_max_active_assignments = el_max_active_assignments engine_limits_default,
      engine_max_connections = el_max_physical_connections engine_limits_default,
      engine_max_jobs = max_jobs engine_limits_default, active_assignment_count = 0,
      shard_load = replicate (max n 1) 0, origin_live_conns = [], origin_verified = [],
      origin_avg_handshake = [], origin_generation = [], origin_last_invalidation = [],
      connection_state = [], origin_state = [], origin_admission = [], acts = []\<rparr>"

definition set_engine_limits :: "engine_limits \<Rightarrow> controller \<Rightarrow> controller" where
  "set_engine_limits l s =
     s\<lparr>engine_max_active_assignments := max (el_max_active_assignments l) 1,
       engine_max_connections := max (el_max_physical_connections l) 1,
       engine_max_jobs := max (max_jobs l) 1\<rparr>"

section \<open>Shards\<close>

definition place_shard :: "controller \<Rightarrow> nat" where
  "place_shard s = (case min_by_key (\<lambda>(idx, n). (n, idx)) (enumerate 0 (shard_load s)) of None \<Rightarrow> 0 | Some (idx, _) \<Rightarrow> idx)"

definition inc_shard_load :: "nat \<Rightarrow> controller \<Rightarrow> controller" where
  "inc_shard_load k s =
     (if k < length (shard_load s) then s\<lparr>shard_load := (shard_load s)[k := shard_load s ! k + 1]\<rparr> else s)"

definition dec_shard_load :: "nat \<Rightarrow> controller \<Rightarrow> controller" where
  "dec_shard_load k s =
     (if k < length (shard_load s) then s\<lparr>shard_load := (shard_load s)[k := shard_load s ! k - 1]\<rparr> else s)"

section \<open>Weights, jitter and generations\<close>

text \<open>The first constant is \<open>NOMINAL_STREAM_RATE\<close>.\<close>

definition deadline_pressure :: "instant option \<Rightarrow> u64 \<Rightarrow> instant \<Rightarrow> f64" where
  "deadline_pressure deadline remaining now =
     (case deadline of
        None \<Rightarrow> Fin 1
      | Some dl \<Rightarrow>
          if remaining = 0 then Fin 1
          else if dl - now = 0 then Fin 8
          else f64_clamp (f64_div (f64_div (f64_of_u64 remaining) (as_secs_f64 (dl - now))) (Fin (10 * 1024 * 1024)))
                 (Fin 1) (Fin 8))"

definition eff_weight :: "job_node \<Rightarrow> instant \<Rightarrow> f64" where
  "eff_weight j now =
     (let remaining = opt_default 0 (Option.bind (plan j) bytes_remaining)
      in f64_mul (f64_mul (weight (jn_priority j)) (allocator_bias (jn_urgency j)))
           (deadline_pressure (jn_deadline j) remaining now))"

definition jitter_for :: "instant \<Rightarrow> instant \<Rightarrow> f64" where
  "jitter_for now ep =
     (let nanos = (now - ep) mod 1000000000 in f64_div (f64_add (f64_of_nat (nanos mod 997)) (Fin 1)) (Fin 998))"

definition bump_generation :: "origin_id \<Rightarrow> instant \<Rightarrow> controller \<Rightarrow> controller" where
  "bump_generation i now s =
     s\<lparr>origin_generation := sec_insert i (opt_default 0 (sec_get (origin_generation s) i) + 1) (origin_generation s),
       origin_last_invalidation := sec_insert i now (origin_last_invalidation s)\<rparr>"

definition origin_verified_bytes :: "controller \<Rightarrow> origin_id \<Rightarrow> u64" where
  "origin_verified_bytes s i = opt_default 0 (sec_get (origin_verified s) i)"

definition bump_verified :: "origin_id \<Rightarrow> u64 \<Rightarrow> controller \<Rightarrow> controller" where
  "bump_verified i n s =
     s\<lparr>origin_verified := sec_insert i (saturating_add (origin_verified_bytes s i) n) (origin_verified s)\<rparr>"

text \<open>\<open>Duration::mul_f32\<close> in binary32 arithmetic, as rounding of rationals to 24 significant bits; the
  values that occur are neither subnormal nor too large.\<close>

definition f32_round :: "rat \<Rightarrow> rat" where
  "f32_round x = (if x = 0 then 0 else of_int (round_half_even (x / pow2 (ilog2 x - 23))) * pow2 (ilog2 x - 23))"

definition as_secs_f32 :: "duration \<Rightarrow> rat" where
  "as_secs_f32 d =
     f32_round (f32_round (of_nat (d div 1000000000)) +
       f32_round (f32_round (of_nat (d mod 1000000000)) / 1000000000))"

definition mul_f32 :: "duration \<Rightarrow> rat \<Rightarrow> duration" where
  "mul_f32 d k = nat (round_half_even (f32_round (f32_round k * as_secs_f32 d) * 1000000000))"

definition blend_handshake :: "duration \<Rightarrow> duration \<Rightarrow> duration" where
  "blend_handshake prev handshake = mul_f32 prev (7 / 10) + mul_f32 handshake (3 / 10)"

section \<open>Adaptive constants and measures\<close>

definition ADAPTIVE_NOISE_FLOOR :: f64 where "ADAPTIVE_NOISE_FLOOR = f64_round (5 / 100)"
definition ADAPTIVE_MIN_REMAINING :: u64 where "ADAPTIVE_MIN_REMAINING = 256 * 1024"
definition ADAPTIVE_WINDOW :: duration where "ADAPTIVE_WINDOW = 1500 * 1000000"
definition ADAPTIVE_RAMP :: duration where "ADAPTIVE_RAMP = 800 * 1000000"
definition ADAPTIVE_COOLDOWN :: duration where "ADAPTIVE_COOLDOWN = 3 * 1000000000"
definition ADAPTIVE_MAX_CONNS :: nat where "ADAPTIVE_MAX_CONNS = 8"
definition STALL_EXPERIMENT_GUARD :: f64 where "STALL_EXPERIMENT_GUARD = Fin (1 / 2)"
definition DRAIN_POLL :: duration where "DRAIN_POLL = 500 * 1000000"
definition REBALANCE_INTERVAL :: duration where "REBALANCE_INTERVAL = 1000 * 1000000"

definition in_flight_on :: "controller \<Rightarrow> connection_id \<Rightarrow> nat" where
  "in_flight_on s c = (case sec_get (connection_state s) c of None \<Rightarrow> 0 | Some r \<Rightarrow> in_flight r)"

definition retired_and_drained :: "controller \<Rightarrow> connection_id \<Rightarrow> bool" where
  "retired_and_drained s c \<longleftrightarrow>
     (case conn_of s c of None \<Rightarrow> False | Some n \<Rightarrow> status n = Retired) \<and> in_flight_on s c = 0"

definition cooling :: "controller \<Rightarrow> origin_id \<Rightarrow> instant \<Rightarrow> bool" where
  "cooling s i now \<longleftrightarrow> (case origin_of s i of None \<Rightarrow> False | Some n \<Rightarrow> is_cooled_down n now)"

definition median_rate :: "f64 list \<Rightarrow> f64" where
  "median_rate rs = sort_by_rate id rs ! (length rs div 2)"

definition noise_floor_bps :: "controller \<Rightarrow> origin_id \<Rightarrow> f64 \<Rightarrow> f64" where
  "noise_floor_bps s i baseline =
     (let floor = f64_mul (f64_max baseline (Fin 1)) ADAPTIVE_NOISE_FLOOR
      in case origin_of s i of
           None \<Rightarrow> floor
         | Some n \<Rightarrow>
             if length (window_rates n) < 4 then floor
             else
               let median = median_rate (window_rates n)
               in f64_max (median_rate (map (\<lambda>r. f64_abs (f64_sub r median)) (window_rates n))) floor)"

definition window_stall_fraction :: "controller \<Rightarrow> origin_id \<Rightarrow> f64" where
  "window_stall_fraction s i =
     (case sec_get (origin_state s) i of
        None \<Rightarrow> Fin 0
      | Some (blocked, wall) \<Rightarrow>
          if wall = 0 then Fin 0 else f64_clamp (f64_div (as_secs_f64 blocked) (as_secs_f64 wall)) (Fin 0) (Fin 1))"

definition probing_or_transferring :: "job_phase \<Rightarrow> bool" where
  "probing_or_transferring p \<longleftrightarrow> p = Probing \<or> p = Transferring"

definition adaptive_ceiling :: "controller \<Rightarrow> origin_id \<Rightarrow> nat" where
  "adaptive_ceiling s i =
     opt_default 1 (max_opt (map (\<lambda>(_, j). unat (max_physical_connections (transport (jn_policy j))))
       (filter (\<lambda>(_, j). jn_origin j = i \<and> probing_or_transferring (phase j)) (jobs (world s)))))"

text \<open>The jobs that transfer from an origin, and the sum of what they still expect.\<close>

definition transferring_on :: "controller \<Rightarrow> origin_id \<Rightarrow> (job_id \<times> job_node) list" where
  "transferring_on s i = filter (\<lambda>(_, j). jn_origin j = i \<and> phase j = Transferring) (jobs (world s))"

definition remaining_estimate_on :: "controller \<Rightarrow> origin_id \<Rightarrow> u64" where
  "remaining_estimate_on s i = sum_list (map (\<lambda>(_, j). bytes_remaining_estimate j) (transferring_on s i))"

section \<open>Who waits for a probe\<close>

fun probes_for :: "job_id \<Rightarrow> connection_intent \<Rightarrow> bool" where
  "probes_for j (Intent_Probe j' _) \<longleftrightarrow> j' = j"
| "probes_for j _ \<longleftrightarrow> False"

definition job_has_inflight_probe :: "controller \<Rightarrow> job_id \<Rightarrow> bool" where
  "job_has_inflight_probe s j \<longleftrightarrow>
     list_ex (\<lambda>(_, c). probes_for j (intent c) \<and> (status c = Connecting \<or> status c = Ready)) (connections (world s))"

definition waiting_in :: "job_phase \<Rightarrow> controller \<Rightarrow> origin_id \<Rightarrow> job_id option" where
  "waiting_in ph s i =
     map_option fst (find (\<lambda>(k, j). jn_origin j = i \<and> phase j = ph \<and> \<not> job_has_inflight_probe s k) (jobs (world s)))"

definition waiting_probe_job :: "controller \<Rightarrow> origin_id \<Rightarrow> job_id option" where
  "waiting_probe_job s i = opt_or (waiting_in Created s i) (waiting_in Probing s i)"

definition prefer_h3_for :: "controller \<Rightarrow> origin_id \<Rightarrow> instant \<Rightarrow> bool" where
  "prefer_h3_for s i now \<longleftrightarrow>
     \<not> list_ex (\<lambda>(_, j). jn_origin j = i \<and> http_version (jn_policy j) = Http1Only) (jobs (world s)) \<and>
     (case origin_of s i of
        None \<Rightarrow> False
      | Some n \<Rightarrow> advertises_h3 n \<and> (case h3_retry_after n of None \<Rightarrow> True | Some t \<Rightarrow> t \<le> now) \<and> h3_failures n < 5)"

section \<open>Who gets the next piece\<close>

definition connection_rate_estimate :: "controller \<Rightarrow> connection_id \<Rightarrow> rate" where
  "connection_rate_estimate s c =
     (let fallback = (case Option.bind (conn_of s c) (\<lambda>n. origin_of s (cn_origin n)) of
            Some m \<Rightarrow> if window_rates m \<noteq> [] then from_bps (median_rate (window_rates m)) else Rate_COLD_START
          | None \<Rightarrow> Rate_COLD_START)
      in case Option.bind (sec_get (connection_state s) c) cr_ewma of
           Some e \<Rightarrow> if is_warm e then from_bps (ev_mean e) else fallback
         | None \<Rightarrow> fallback)"

definition stream_capacity :: "controller \<Rightarrow> connection_id \<Rightarrow> nat" where
  "stream_capacity s c =
     (case conn_of s c of
        None \<Rightarrow> 0
      | Some n \<Rightarrow>
          if status n \<noteq> Ready then 0
          else (case cn_protocol n of
                  Http1_1 \<Rightarrow> 1
                | _ \<Rightarrow> (case origin_of s (cn_origin n) of None \<Rightarrow> 1 | Some m \<Rightarrow> unat (max (adaptive_target_streams m) 1))))"

definition serves_origin :: "controller \<Rightarrow> job_node \<Rightarrow> origin_id \<Rightarrow> bool" where
  "serves_origin s j i \<longleftrightarrow> jn_origin j = i \<or>
     list_ex (\<lambda>sid. case source_of s sid of None \<Rightarrow> False | Some n \<Rightarrow> sn_origin n = i) (active_sources j)"

text \<open>\<open>admits_worker\<close> reads the clock.\<close>

definition is_runnable :: "world_env \<Rightarrow> controller \<Rightarrow> job_id \<Rightarrow> origin_id \<Rightarrow> bool" where
  "is_runnable E s k i \<longleftrightarrow>
     (case job_of s k of
        None \<Rightarrow> False
      | Some j \<Rightarrow>
          phase j = Transferring \<and> \<not> is_draining (phase j) \<and> serves_origin s j i \<and>
          (case plan j of
             None \<Rightarrow> False
           | Some p \<Rightarrow> admits_worker p (inst_now E) \<and>
               length (assignments p) < min (unat (max_active_assignments (transport (jn_policy j))))
                 (unat (max (max_parallel_writes (sink_hints j)) 1))))"

definition f64_eq :: "f64 \<Rightarrow> f64 \<Rightarrow> bool" where
  "f64_eq a b \<longleftrightarrow> a \<noteq> NaN \<and> a = b"

definition wfq_better :: "job_id \<Rightarrow> f64 \<Rightarrow> (job_id \<times> f64) option \<Rightarrow> bool" where
  "wfq_better k score best =
     (case best of None \<Rightarrow> True | Some (b, sc) \<Rightarrow> f64_lt score sc \<or> f64_eq score sc \<and> k < b)"

definition pick_wfq_job :: "world_env \<Rightarrow> controller \<Rightarrow> origin_id \<Rightarrow> job_id option" where
  "pick_wfq_job E s i =
     (if unat (engine_max_active_assignments s) \<le> active_assignment_count s then None
      else map_option fst (foldl (\<lambda>best (k, j).
             if is_runnable E s k i \<and> wfq_better k (virt_service j) best then Some (k, virt_service j) else best)
           None (jobs (world s))))"

end
