(* ===== verification/Controller_Ops.thy ===== *)
theory Controller_Ops
  imports Controller "HOL-Library.Monad_Syntax"
begin

text \<open>
  \<^verbatim>\<open>src/crates/xde/src/core/controller.rs\<close>, second part: the methods that the observation handlers are
  built from. A method that may panic, or whose loop may not end, returns an \<open>option\<close>: \<open>None\<close> is
  either. The loops of \<open>pump\<close> and \<open>scale_connections\<close> end, which is proved with their definition; the
  loop of \<open>ensure_probes\<close> need not, so it is a \<open>while_option\<close>.
\<close>

primrec for_each :: "('a \<Rightarrow> 's \<Rightarrow> 's option) \<Rightarrow> 'a list \<Rightarrow> 's \<Rightarrow> 's option" where
  "for_each f [] s = Some s"
| "for_each f (x # xs) s = Option.bind (f x s) (for_each f xs)"

section \<open>Connections\<close>

definition forget_connection :: "connection_id \<Rightarrow> job_node \<Rightarrow> job_node" where
  "forget_connection c j =
     j\<lparr>plan := map_option (\<lambda>p. p\<lparr>assignments := map (\<lambda>(i, a).
         (i, if a_connection a = Some c then a\<lparr>a_connection := None\<rparr> else a)) (assignments p)\<rparr>) (plan j)\<rparr>"

definition forget_live :: "connection_node \<Rightarrow> controller \<Rightarrow> controller" where
  "forget_live n s =
     (let s1 = dec_shard_load (cn_shard n) s
      in case sec_get (origin_live_conns s1) (cn_origin n) of
           None \<Rightarrow> s1
         | Some k \<Rightarrow> s1\<lparr>origin_live_conns := sec_insert (cn_origin n) (k - 1) (origin_live_conns s1)\<rparr>)"

definition drop_connection :: "connection_id \<Rightarrow> controller \<Rightarrow> controller" where
  "drop_connection c s =
     (let s1 = s\<lparr>world := remove_connection c (world s), connection_state := sec_remove c (connection_state s)\<rparr>;
          s2 = (case conn_of s c of None \<Rightarrow> s1 | Some n \<Rightarrow> forget_live n s1)
      in s2\<lparr>world := (world s2)\<lparr>jobs := map (\<lambda>(i, j). (i, forget_connection c j)) (jobs (world s2))\<rparr>\<rparr>)"

definition first_source :: "job_node \<Rightarrow> nat option" where
  "first_source j = opt_or (active_source j) (nth_opt (jn_sources j) 0)"

definition dial_intent :: "controller \<Rightarrow> origin_id \<Rightarrow> nat option \<Rightarrow> connection_intent" where
  "dial_intent s i serving =
     (case serving of
        Some src \<Rightarrow>
          (case find (\<lambda>(_, j). src \<in> set (probing_sources j) \<or> src \<in> set (sampling_sources j)) (jobs (world s)) of
             Some (k, _) \<Rightarrow> Intent_Mirror k src
           | None \<Rightarrow> Intent_Pool i)
      | None \<Rightarrow>
          (case Option.bind (waiting_probe_job s i) (\<lambda>k.
                  Option.bind (job_of s k) (\<lambda>j. map_option (Pair k) (first_source j))) of
             Some (k, src) \<Rightarrow> Intent_Probe k src
           | None \<Rightarrow> Intent_Pool i))"

definition dial_connection ::
  "world_env \<Rightarrow> origin_id \<Rightarrow> nat \<Rightarrow> nat \<Rightarrow> bool \<Rightarrow> nat option \<Rightarrow> instant \<Rightarrow> controller \<Rightarrow> connection_id \<times> controller" where
  "dial_connection E i ep shard allow_h3 serving now s =
     (let h3 = (allow_h3 \<and> prefer_h3_for s i now);
          alt = (if h3 then Option.bind (origin_of s i) h3_alt_port else None);
          (c, w1) = allocate_connection E i ep shard (world s);
          s1 = inc_shard_load shard (s\<lparr>world := w1\<rparr>);
          s2 = s1\<lparr>origin_live_conns :=
                 sec_insert i (opt_default 0 (sec_get (origin_live_conns s1) i) + 1) (origin_live_conns s1)\<rparr>;
          it = dial_intent s2 i serving;
          s3 = upd_conn c (\<lambda>n. n\<lparr>prefer_h3 := h3, serving_source := serving, intent := it\<rparr>) s2
      in (c, emit (OpenConnection c i ep shard h3 alt) s3))"

text \<open>The common \<open>place_shard\<close> and \<open>dial_connection\<close> of an endpoint.\<close>

definition dial ::
  "world_env \<Rightarrow> origin_id \<Rightarrow> nat \<Rightarrow> bool \<Rightarrow> nat option \<Rightarrow> instant \<Rightarrow> controller \<Rightarrow> controller" where
  "dial E i ep allow_h3 serving now s = snd (dial_connection E i ep (place_shard s) allow_h3 serving now s)"

definition any_endpoint :: "controller \<Rightarrow> origin_id \<Rightarrow> instant \<Rightarrow> nat option" where
  "any_endpoint s i now = select_endpoint (world s) i None now (\<lambda>_. False)"

definition open_one_connection :: "world_env \<Rightarrow> origin_id \<Rightarrow> instant \<Rightarrow> bool \<Rightarrow> controller \<Rightarrow> controller" where
  "open_one_connection E i now allow_h3 s =
     (if cooling s i now then s
      else case any_endpoint s i now of None \<Rightarrow> s | Some ep \<Rightarrow> dial E i ep allow_h3 None now s)"

section \<open>Probes\<close>

definition idle_connection :: "controller \<Rightarrow> origin_id \<Rightarrow> connection_id option" where
  "idle_connection s i =
     map_option fst (find (\<lambda>(cid, c). cn_origin c = i \<and> status c = Ready \<and> serving_source c = None \<and>
       in_flight_on s cid = 0) (connections (world s)))"

text \<open>One round of the loop; the first component says whether it goes round again.\<close>

definition ensure_round :: "world_env \<Rightarrow> origin_id \<Rightarrow> instant \<Rightarrow> controller \<Rightarrow> bool \<times> controller" where
  "ensure_round E i now s =
     (case waiting_probe_job s i of
        None \<Rightarrow> (False, s)
      | Some job \<Rightarrow>
          (case idle_connection s i of
             Some c \<Rightarrow>
               let s1 = upd_job job (\<lambda>j. j\<lparr>phase := Probing\<rparr>) s;
                   s2 = (case Option.bind (job_of s1 job) first_source of
                           None \<Rightarrow> s1
                         | Some src \<Rightarrow> upd_conn c (\<lambda>n. n\<lparr>intent := Intent_Probe job src\<rparr>) s1)
               in (True, emit (Act_Probe job c None) s2)
           | None \<Rightarrow>
               (case any_endpoint s i now of
                  None \<Rightarrow> (False, s)
                | Some ep \<Rightarrow>
                    let s1 = upd_job job (\<lambda>j. j\<lparr>phase := Probing\<rparr>) (dial E i ep True None now s)
                    in (job_has_inflight_probe s1 job, s1))))"

definition ensure_loop :: "world_env \<Rightarrow> origin_id \<Rightarrow> instant \<Rightarrow> controller \<Rightarrow> controller option" where
  "ensure_loop E i now s = map_option snd (while_option fst (\<lambda>(_, t). ensure_round E i now t) (True, s))"

definition ensure_probes :: "world_env \<Rightarrow> origin_id \<Rightarrow> instant \<Rightarrow> controller \<Rightarrow> controller option" where
  "ensure_probes E i now s =
     (case origin_of s i of
        Some n \<Rightarrow> if is_cooled_down n now \<or> endpoints_of n = [] then Some s else ensure_loop E i now s
      | None \<Rightarrow> ensure_loop E i now s)"

section \<open>Claims\<close>

definition set_connection :: "assign_id \<Rightarrow> connection_id \<Rightarrow> segment_plan \<Rightarrow> segment_plan" where
  "set_connection i c p = p\<lparr>assignments := sm_update i (\<lambda>a. a\<lparr>a_connection := Some c\<rparr>) (assignments p)\<rparr>"

definition set_plan :: "job_id \<Rightarrow> segment_plan \<Rightarrow> controller \<Rightarrow> controller" where
  "set_plan job p s = upd_job job (\<lambda>j. j\<lparr>plan := Some p\<rparr>) s"

definition claim_on_plan ::
  "world_env \<Rightarrow> job_id \<Rightarrow> connection_id \<Rightarrow> instant \<Rightarrow> controller \<Rightarrow> (claimed_piece option \<times> controller) option" where
  "claim_on_plan E job c now s =
     (let max_conns = (case job_of s job of None \<Rightarrow> 1 | Some j \<Rightarrow> max_physical_connections (transport (jn_policy j)));
          solo = (max_conns \<le> 1 \<and> stream_capacity s c \<le> 1)
      in case Option.bind (job_of s job) plan of
           None \<Rightarrow> Some (None, s)
         | Some p \<Rightarrow>
             (case claim_with (alloc E (map fst (assignments p))) p (connection_rate_estimate s c) now solo (max max_conns 1) of
                None \<Rightarrow> None
              | Some (Fresh i, q) \<Rightarrow>
                  (case sm_get (assignments q) i of
                     None \<Rightarrow> None
                   | Some a \<Rightarrow>
                       Some (Some \<lparr>cp_assign = i, cp_range = wire_range a, cp_overlap = a_overlap a,
                               cp_frontier = (r_start (wire_range a) \<le> contiguous_prefix (completed p)), cp_tail_cut = None\<rparr>,
                             set_plan job (set_connection i c q) s))
              | Some (Stolen i v, q) \<Rightarrow>
                  (case sm_get (assignments q) i of
                     None \<Rightarrow> None
                   | Some a \<Rightarrow>
                       let q1 = set_connection i c q
                       in Some (Some \<lparr>cp_assign = i, cp_range = wire_range a, cp_overlap = a_overlap a, cp_frontier = False,
                               cp_tail_cut = map_option (\<lambda>vc. \<lparr>tc_job = job, tc_victim = v, tc_connection = vc,
                                   tc_new_end = r_start (a_range a)\<rparr>) (Option.bind (sm_get (assignments q1) v) a_connection)\<rparr>,
                             set_plan job q1 s))
              | Some (_, q) \<Rightarrow> Some (None, set_plan job q s)))"

definition count_claim :: "connection_id \<Rightarrow> controller \<Rightarrow> controller" where
  "count_claim c s =
     s\<lparr>connection_state := (case sec_get (connection_state s) c of
          Some r \<Rightarrow> sec_insert c (r\<lparr>in_flight := in_flight r + 1\<rparr>) (connection_state s)
        | None \<Rightarrow> sec_insert c (runtime_default\<lparr>in_flight := 1\<rparr>) (connection_state s))\<rparr>"

definition start_action :: "bool \<Rightarrow> job_id \<Rightarrow> connection_id \<Rightarrow> claimed_piece \<Rightarrow> action" where
  "start_action supports_ranges job c cl =
     (let r = \<lparr>ar_job = job, ar_assignment = cp_assign cl\<rparr>
      in if supports_ranges then StartAssignment job r c (cp_range cl) (cp_overlap cl) (cp_frontier cl)
         else StartFullBody job r c (cp_frontier cl))"

definition claim_one :: "world_env \<Rightarrow> connection_id \<Rightarrow> instant \<Rightarrow> controller \<Rightarrow> (bool \<times> controller) option" where
  "claim_one E c now s =
     (case conn_of s c of
        None \<Rightarrow> Some (False, s)
      | Some n \<Rightarrow>
          if status n \<noteq> Ready then Some (False, s)
          else
            (case pick_wfq_job E s (cn_origin n) of
               None \<Rightarrow> Some (False, s)
             | Some job \<Rightarrow>
                 let ranged = (case job_of s job of None \<Rightarrow> False | Some j \<Rightarrow> jn_supports_ranges j)
                 in (case claim_on_plan E job c now s of
                       None \<Rightarrow> None
                     | Some (None, s1) \<Rightarrow> Some (False, s1)
                     | Some (Some cl, s1) \<Rightarrow>
                         let s2 = count_claim c s1;
                             s3 = (case cp_tail_cut cl of
                                     None \<Rightarrow> s2
                                   | Some t \<Rightarrow> emit (TruncateAssignment (tc_job t) \<lparr>ar_job = tc_job t, ar_assignment = tc_victim t\<rparr>
                                       (tc_connection t) (tc_new_end t)) s2);
                             s4 = s3\<lparr>active_assignment_count := active_assignment_count s3 + 1\<rparr>
                         in Some (True, emit (start_action ranged job c cl) s4))))"

definition release_assignment_slot :: "connection_id option \<Rightarrow> controller \<Rightarrow> controller" where
  "release_assignment_slot c s =
     (let s1 = s\<lparr>active_assignment_count := active_assignment_count s - 1\<rparr>
      in case c of
           None \<Rightarrow> s1
         | Some k \<Rightarrow>
             (case sec_get (connection_state s1) k of
                None \<Rightarrow> s1
              | Some r \<Rightarrow> s1\<lparr>connection_state := sec_insert k (r\<lparr>in_flight := in_flight r - 1\<rparr>) (connection_state s1)\<rparr>))"

section \<open>The pump\<close>

lemma world_books [simp]:
  "active_assignment_count (upd_job j f s) = active_assignment_count s"
  "engine_max_active_assignments (upd_job j f s) = engine_max_active_assignments s"
  "active_assignment_count (emit a s) = active_assignment_count s"
  "engine_max_active_assignments (emit a s) = engine_max_active_assignments s"
  by (simp_all add: upd_job_def emit_def)

lemma claim_one_counts:
  "claim_one E c now s = Some (b, t) \<Longrightarrow>
     active_assignment_count t = active_assignment_count s + (if b then 1 else 0) \<and>
     engine_max_active_assignments t = engine_max_active_assignments s"
  by (auto simp: claim_one_def claim_on_plan_def Let_def set_plan_def count_claim_def
      split: option.splits if_splits claim.splits prod.splits)

definition best_connection :: "connection_id list \<Rightarrow> controller \<Rightarrow> connection_id option" where
  "best_connection conns s =
     min_by_key (in_flight_on s) (filter (\<lambda>c. in_flight_on s c < stream_capacity s c)
       (filter (\<lambda>c. case conn_of s c of None \<Rightarrow> False | Some n \<Rightarrow> status n = Ready) conns))"

function pump_loop :: "world_env \<Rightarrow> connection_id list \<Rightarrow> instant \<Rightarrow> controller \<Rightarrow> controller option" where
  "pump_loop E conns now s =
     (if unat (engine_max_active_assignments s) \<le> active_assignment_count s then Some s
      else
        (case best_connection conns s of
           None \<Rightarrow> Some s
         | Some c \<Rightarrow>
             (case claim_one E c now s of
                None \<Rightarrow> None
              | Some (False, t) \<Rightarrow> Some t
              | Some (True, t) \<Rightarrow> pump_loop E conns now t)))"
  by pat_completeness auto
termination
  by (relation "measure (\<lambda>(E, conns, now, s). unat (engine_max_active_assignments s) - active_assignment_count s)")
    (auto dest!: claim_one_counts)

declare pump_loop.simps [simp del]

definition pump :: "world_env \<Rightarrow> origin_id \<Rightarrow> instant \<Rightarrow> controller \<Rightarrow> controller option" where
  "pump E i now s =
     pump_loop E (case origin_of s i of None \<Rightarrow> [] | Some n \<Rightarrow> connections_of n) now s"

section \<open>Scaling\<close>

lemma live_after_dial:
  "live_connections_for_origin i (world (dial E i ep h3 serving now s)) = Suc (live_connections_for_origin i (world s))"
proof -
  let ?P = "\<lambda>(_, c). cn_origin c = i \<and> status c \<noteq> Retired"
  have upd: "length (filter ?P (sm_update c f m)) = length (filter ?P m)"
    if "\<And>x. cn_origin (f x) = cn_origin x \<and> status (f x) = status x" for c f and m :: "(nat \<times> connection_node) list"
  proof -
    have "?P \<circ> (\<lambda>(k, v). (k, if k = c then f v else v)) = ?P" using that by (auto simp: fun_eq_iff)
    then show ?thesis by (simp add: sm_update_def filter_map)
  qed
  have ins: "length (filter ?P (sm_insert k n m)) = Suc (length (filter ?P m))"
    if "cn_origin n = i" "status n = Connecting" for k n and m :: "(nat \<times> connection_node) list"
  proof -
    obtain A B where "m = A @ B" "sm_insert k n m = A @ (fst k, n) # B" by (rule sm_insert_split)
    then show ?thesis using that by simp
  qed
  show ?thesis
    by (simp add: dial_def dial_connection_def allocate_connection_def live_connections_for_origin_def Let_def
        sm_add_def emit_def upd_conn_def inc_shard_load_def upd ins case_prod_beta)
qed

function scale_loop :: "world_env \<Rightarrow> origin_id \<Rightarrow> instant \<Rightarrow> nat \<Rightarrow> controller \<Rightarrow> controller" where
  "scale_loop E i now target s =
     (if live_connections_for_origin i (world s) < target then
        (case any_endpoint s i now of
           None \<Rightarrow> s
         | Some ep \<Rightarrow> scale_loop E i now target (dial E i ep True None now s))
      else s)"
  by pat_completeness auto
termination
  by (relation "measure (\<lambda>(E, i, now, target, s). target - live_connections_for_origin i (world s))")
    (auto simp: live_after_dial)

declare scale_loop.simps [simp del]

definition wanted_connections :: "controller \<Rightarrow> origin_id \<Rightarrow> (nat \<times> nat) option" where
  "wanted_connections s i =
     foldl (\<lambda>acc (_, j).
         let t = unat (initial_physical_connections (jn_policy j));
             m = unat (max_physical_connections (transport (jn_policy j)))
         in Some (case acc of None \<Rightarrow> (t, m) | Some (t', m') \<Rightarrow> (max t' t, max m' m)))
       None (filter (\<lambda>(_, j). jn_origin j = i \<and> phase j \<in> {Created, Probing, Transferring}) (jobs (world s)))"

definition scale_connections :: "world_env \<Rightarrow> origin_id \<Rightarrow> instant \<Rightarrow> controller \<Rightarrow> controller" where
  "scale_connections E i now s =
     (if cooling s i now then s
      else
        (case wanted_connections s i of
           None \<Rightarrow> s
         | Some (target, mx) \<Rightarrow>
             let target' = max (min target mx) 1;
                 eff = (case origin_of s i of None \<Rightarrow> target' | Some n \<Rightarrow> min target' (max (adaptive_target_conns n) 1))
             in scale_loop E i now eff s))"

section \<open>Ending a job\<close>

definition finish_job ::
  "world_env \<Rightarrow> job_id \<Rightarrow> (string + u64 \<times> digest option) \<Rightarrow> controller \<Rightarrow> controller option" where
  "finish_job E job outcome s =
     (case job_of s job of
        None \<Rightarrow> Some s
      | Some j \<Rightarrow>
          ensure_probes E (jn_origin j) (inst_now E)
            (emit (case outcome of Inr (n, d) \<Rightarrow> CompleteJob job n d (resumed_bytes j) | Inl e \<Rightarrow> FailJob job e)
              (upd_world (remove_job job) s)))"

definition try_complete_drain :: "world_env \<Rightarrow> job_id \<Rightarrow> controller \<Rightarrow> controller option" where
  "try_complete_drain E job s =
     (case job_of s job of
        None \<Rightarrow> Some s
      | Some j \<Rightarrow>
          if \<not> is_draining (phase j) then Some s
          else if (case plan j of None \<Rightarrow> 0 | Some p \<Rightarrow> length (assignments p)) > 0 then Some s
          else finish_job E job (opt_default (Inl ''drained'') (pending_terminal j)) s)"

definition begin_fail :: "world_env \<Rightarrow> job_id \<Rightarrow> string \<Rightarrow> controller \<Rightarrow> controller option" where
  "begin_fail E job err s =
     (case job_of s job of
        None \<Rightarrow> Some s
      | Some j \<Rightarrow>
          if is_terminal (phase j) \<or> is_draining (phase j) then Some s
          else try_complete_drain E job
            (upd_job job (\<lambda>j. j\<lparr>phase := Failing, pending_terminal := Some (Inl err)\<rparr>) s))"

definition backoff_now :: "controller \<Rightarrow> u32 \<Rightarrow> instant \<Rightarrow> duration option" where
  "backoff_now s attempt now = backoff (c_retry s) attempt (jitter_for now (epoch s))"

definition retry_resolve :: "world_env \<Rightarrow> job_id \<Rightarrow> instant \<Rightarrow> controller \<Rightarrow> controller option" where
  "retry_resolve E job now s =
     (case job_of s job of
        None \<Rightarrow> finish_job E job (Inl ''resolution failed'') s
      | Some j \<Rightarrow>
          if max (max_attempts_per_range (retry (jn_policy j))) 3 \<le> resolve_attempts j
          then finish_job E job (Inl ''resolution failed'') s
          else
            (case origin_of s (jn_origin j) of
               None \<Rightarrow> None
             | Some n \<Rightarrow>
                 (case backoff_now s (resolve_attempts j) now of
                    None \<Rightarrow> None
                  | Some delay \<Rightarrow>
                      Some (emit (ScheduleTimer (now + delay) (ResolveRetry (jn_origin j) (host (on_key n)) (port (on_key n))))
                        (upd_job job (\<lambda>j. j\<lparr>resolve_attempts := resolve_attempts j + 1\<rparr>) s)))))"

definition activate_next_source :: "job_id \<Rightarrow> controller \<Rightarrow> bool \<times> controller" where
  "activate_next_source job s =
     (case Option.bind (job_of s job) (\<lambda>j. nth_opt (unused_sources j) 0) of
        None \<Rightarrow> (False, s)
      | Some sid \<Rightarrow>
          (case source_of s sid of
             None \<Rightarrow> (False, s)
           | Some src \<Rightarrow>
               (case origin_of s (sn_origin src) of
                  None \<Rightarrow> (False, s)
                | Some n \<Rightarrow>
                    (True, emit (Act_Resolve (sn_origin src) (host (on_key n)) (port (on_key n)))
                      (upd_job job (\<lambda>j. j\<lparr>active_sources := [sid], jn_origin := sn_origin src, phase := Created,
                         resolve_attempts := 0\<rparr>) s)))))"

definition has_unused_mirror :: "controller \<Rightarrow> job_id \<Rightarrow> nat option \<Rightarrow> origin_id option \<Rightarrow> bool" where
  "has_unused_mirror s job source failed_origin \<longleftrightarrow>
     (case job_of s job of
        None \<Rightarrow> False
      | Some j \<Rightarrow>
          (case Option.bind source (source_of s) of None \<Rightarrow> False | Some n \<Rightarrow> Some (sn_origin n) = failed_origin) \<and>
          unused_sources j \<noteq> [])"

definition on_intent_connect_failed ::
  "world_env \<Rightarrow> job_id \<Rightarrow> nat option \<Rightarrow> connect_failure \<Rightarrow> origin_id option \<Rightarrow> instant \<Rightarrow> controller \<Rightarrow> controller option" where
  "on_intent_connect_failed E job source kind failed_origin now s =
     (if \<not> retryable kind then begin_fail E job ''connection failed: tls'' s
      else
        (case (if has_unused_mirror s job source failed_origin then activate_next_source job s else (False, s)) of
           (True, s1) \<Rightarrow> Some s1
         | (False, s1) \<Rightarrow> retry_resolve E job now s1))"

end
