(* ===== verification/Controller_Adaptive.thy ===== *)
theory Controller_Adaptive
  imports Controller_Ops
begin

text \<open>
  \<^verbatim>\<open>src/crates/xde/src/core/controller.rs\<close>, third part: the topology experiments and the rebalancing
  that the timers drive.
\<close>

section \<open>Opening a further connection\<close>

definition new_experiment :: "topology_variable \<Rightarrow> nat option \<Rightarrow> f64 \<Rightarrow> instant \<Rightarrow> topology_experiment" where
  "new_experiment v c baseline now =
     \<lparr>te_variable = v, te_conn = c, baseline_rate_bps = baseline, te_opened_at = now, measure_start_at = None,
      measure_start_bytes = 0, measured_rate_bps = None\<rparr>"

definition cooling_or_experimenting :: "controller \<Rightarrow> origin_id \<Rightarrow> instant \<Rightarrow> bool" where
  "cooling_or_experimenting s i now \<longleftrightarrow>
     (case origin_of s i of None \<Rightarrow> False | Some n \<Rightarrow> is_cooled_down n now \<or> topo_experiment n \<noteq> None)"

definition open_parallel_connection ::
  "world_env \<Rightarrow> origin_id \<Rightarrow> instant \<Rightarrow> f64 \<Rightarrow> controller \<Rightarrow> controller option" where
  "open_parallel_connection E i now baseline s =
     (let lv = live_connections_for_origin i (world s)
      in if cooling_or_experimenting s i now then Some s
         else if remaining_estimate_on s i \<le> ADAPTIVE_MIN_REMAINING then Some s
         else if lv < 1 \<or> adaptive_ceiling s i \<le> lv \<or> ADAPTIVE_MAX_CONNS \<le> lv then Some s
         else if unat (engine_max_connections s) \<le> length (connections (world s)) then Some s
         else
           (case any_endpoint s i now of
              None \<Rightarrow> Some s
            | Some ep \<Rightarrow>
                let (c, s1) = dial_connection E i ep (place_shard s) True None now s
                in pump E i now (upd_origin i (\<lambda>n. n\<lparr>topo_experiment := Some (new_experiment Connection (Some c) baseline now),
                     adaptive_target_conns := max (adaptive_target_conns n) (lv + 1)\<rparr>) s1)))"

definition consider_early_connection_scale ::
  "world_env \<Rightarrow> origin_id \<Rightarrow> instant \<Rightarrow> transfer_sample \<Rightarrow> controller \<Rightarrow> controller option" where
  "consider_early_connection_scale E i now smp s =
     (let stall = f64_div (as_secs_f64 (ts_memory_blocked smp + ts_destination_blocked smp))
                    (f64_max (as_secs_f64 (ts_response_wall smp)) (f64_round (1 / 1000000000)));
          remaining = remaining_estimate_on s i;
          r = receive_rate smp
      in if ts_bytes smp = 0 \<or> ts_response_wall smp = 0 then Some s
         else if f64_lt STALL_EXPERIMENT_GUARD stall then Some s
         else if cooling_or_experimenting s i now then Some s
         else if remaining \<le> ADAPTIVE_MIN_REMAINING then Some s
         else if \<not> is_finite r \<or> f64_le r (Fin 0) then Some s
         else if f64_lt (f64_div (f64_of_u64 remaining) r) (f64_round (4 / 10)) then Some s
         else open_parallel_connection E i now r s)"

section \<open>Experiments\<close>

definition close_connection :: "connection_id \<Rightarrow> controller \<Rightarrow> controller" where
  "close_connection c s = drop_connection c (emit (CloseConnection c) s)"

definition revert_connection :: "connection_id \<Rightarrow> instant \<Rightarrow> controller \<Rightarrow> controller" where
  "revert_connection c now s =
     (if retired_and_drained s c then close_connection c s
      else emit (ScheduleTimer (now + DRAIN_POLL) (DrainConnection c)) (upd_conn c (\<lambda>n. n\<lparr>status := Retired\<rparr>) s))"

definition revert :: "topology_variable \<Rightarrow> connection_id option \<Rightarrow> origin_id \<Rightarrow> instant \<Rightarrow> controller \<Rightarrow> controller" where
  "revert var exp_conn i now s =
     (let s1 = (case var of
                  Connection \<Rightarrow>
                    upd_origin i (\<lambda>n. n\<lparr>adaptive_target_conns := max (adaptive_target_conns n - 1) 1\<rparr>)
                      (case exp_conn of None \<Rightarrow> s | Some c \<Rightarrow> revert_connection c now s)
                | Streams \<Rightarrow>
                    upd_origin i (\<lambda>n. n\<lparr>adaptive_target_streams := max (saturating_sub (adaptive_target_streams n) 1) 1\<rparr>) s)
      in upd_origin i (\<lambda>n. n\<lparr>topo_experiment := None, last_experiment_variable := Some var,
           experiment_cooldown_until := Some (now + ADAPTIVE_COOLDOWN)\<rparr>) s1)"

text \<open>Whether a finished measurement pays: the gain is beyond the noise and, projected over the
  remaining bytes, worth twice the setup of the added resource.\<close>

definition keep_experiment :: "controller \<Rightarrow> decision_inputs \<Rightarrow> topology_experiment_view \<Rightarrow> origin_id \<Rightarrow> instant \<Rightarrow> bool" where
  "keep_experiment s d v i now =
     (let measured_bytes = saturating_sub (origin_verified_bytes s i) (tv_measure_start v);
          elapsed = f64_max (case tv_measure_start_at v of
                        Some t \<Rightarrow> as_secs_f64 (now - t) | None \<Rightarrow> as_secs_f64 ADAPTIVE_WINDOW) (f64_round (1 / 1000000000));
          measured = f64_div (f64_of_u64 measured_bytes) elapsed;
          noise = noise_floor_bps s i (tv_baseline v);
          gain = f64_sub measured (tv_baseline v);
          handshake = opt_default (di_handshake d) (sec_get (origin_avg_handshake s) i);
          setup_cost = (case tv_variable v of
              Streams \<Rightarrow> Fin 0 | Connection \<Rightarrow> f64_mul (as_secs_f64 handshake) (f64_max measured (Fin 1)));
          projected_secs = f64_div (f64_of_u64 (opt_default 0 (di_remaining d))) (f64_max measured (Fin 1024));
          worth = f64_lt (f64_mul (Fin 2) setup_cost) (f64_mul gain projected_secs);
          clearly_worse = f64_lt gain (f64_neg noise)
      in f64_lt noise gain \<and> worth \<and> \<not> clearly_worse)"

definition judge_experiment ::
  "decision_inputs \<Rightarrow> topology_experiment_view \<Rightarrow> origin_id \<Rightarrow> instant \<Rightarrow> controller \<Rightarrow> controller" where
  "judge_experiment d v i now s =
     (if now - tv_opened_at v < ADAPTIVE_RAMP then s
      else if \<not> already_measured v then
        upd_origin i (\<lambda>n. n\<lparr>topo_experiment := map_option (\<lambda>e. e\<lparr>measure_start_at := Some now,
          measure_start_bytes := origin_verified_bytes s i, measured_rate_bps := Some (Fin 0)\<rparr>) (topo_experiment n)\<rparr>) s
      else if keep_experiment s d v i now then
        upd_origin i (\<lambda>n. n\<lparr>topo_experiment := None, last_experiment_variable := Some (tv_variable v)\<rparr>) s
      else revert (tv_variable v) (tv_conn v) i now s)"

text \<open>The two candidates of an idle origin; \<open>None\<close> is \<open>continue\<close>.\<close>

definition try_connection ::
  "world_env \<Rightarrow> decision_inputs \<Rightarrow> origin_id \<Rightarrow> instant \<Rightarrow> controller \<Rightarrow> controller option" where
  "try_connection E d i now s =
     (if ceiling_of d \<le> live d \<or> ADAPTIVE_MAX_CONNS \<le> live d \<or> live d < 1 then None
      else if unat (engine_max_connections s) \<le> length (connections (world s)) then None
      else
        (case any_endpoint s i now of
           None \<Rightarrow> None
         | Some ep \<Rightarrow>
             let (c, s1) = dial_connection E i ep (place_shard s) True None now s
             in Some (upd_origin i (\<lambda>n. n\<lparr>topo_experiment := Some (new_experiment Connection (Some c) (di_rate d) now),
                  adaptive_target_conns := adaptive_target_conns n + 1\<rparr>) s1)))"

definition try_streams :: "decision_inputs \<Rightarrow> origin_id \<Rightarrow> instant \<Rightarrow> controller \<Rightarrow> controller option" where
  "try_streams d i now s =
     (let live_now = of_nat (max (live_connections_for_origin i (world s)) 1) :: u32;
          slots_per_conn = engine_max_active_assignments s div live_now
      in if \<not> multiplexed d \<or> max_streams d \<le> stream_ceiling d \<or> max slots_per_conn 1 \<le> stream_ceiling d then None
         else Some (upd_origin i (\<lambda>n. n\<lparr>topo_experiment := Some (new_experiment Streams None (di_rate d) now),
                adaptive_target_streams := adaptive_target_streams n + 1\<rparr>) s))"

definition start_experiment ::
  "world_env \<Rightarrow> decision_inputs \<Rightarrow> origin_id \<Rightarrow> instant \<Rightarrow> controller \<Rightarrow> controller option" where
  "start_experiment E d i now s =
     (let conn = try_connection E d i now s;
          streams = try_streams d i now s
      in case next_after (Option.bind (origin_of s i) last_experiment_variable) of
           Connection \<Rightarrow>
             (case conn of Some t \<Rightarrow> Some t | None \<Rightarrow> (case streams of Some t \<Rightarrow> pump E i now t | None \<Rightarrow> Some s))
         | Streams \<Rightarrow>
             (case streams of Some t \<Rightarrow> pump E i now t | None \<Rightarrow> (case conn of Some t \<Rightarrow> Some t | None \<Rightarrow> Some s)))"

definition evaluate_experiment ::
  "world_env \<Rightarrow> decision_inputs \<Rightarrow> origin_id \<Rightarrow> instant \<Rightarrow> controller \<Rightarrow> controller option" where
  "evaluate_experiment E d i now s =
     (if (case sec_get (origin_last_invalidation s) i of None \<Rightarrow> False | Some t \<Rightarrow> now - t < ADAPTIVE_WINDOW * 2) then Some s
      else if f64_lt STALL_EXPERIMENT_GUARD (di_stall_fraction d) \<and> di_experiment d \<noteq> None then Some s
      else
        (case di_experiment d of
           Some v \<Rightarrow> Some (judge_experiment d v i now s)
         | None \<Rightarrow>
             if \<not> has_work d then Some s
             else if f64_lt STALL_EXPERIMENT_GUARD (di_stall_fraction d) then Some s
             else if cooling s i now then Some s
             else start_experiment E d i now s))"

section \<open>The adaptive tick\<close>

definition view_of :: "topology_experiment \<Rightarrow> topology_experiment_view" where
  "view_of e =
     \<lparr>tv_variable = te_variable e, tv_conn = te_conn e, tv_baseline = baseline_rate_bps e, tv_opened_at = te_opened_at e,
      tv_measure_start_at = measure_start_at e, tv_measure_start = measure_start_bytes e,
      already_measured = (measured_rate_bps e \<noteq> None)\<rparr>"

definition close_drained :: "controller \<Rightarrow> controller" where
  "close_drained s =
     foldl (\<lambda>t c. close_connection c t) s
       (filter (retired_and_drained s) (map fst (filter (\<lambda>(_, c). status c = Retired) (connections (world s)))))"

definition repoll_draining :: "instant \<Rightarrow> controller \<Rightarrow> controller" where
  "repoll_draining now s =
     foldl (\<lambda>t c. emit (ScheduleTimer (now + DRAIN_POLL) (DrainConnection c)) t) s
       (map fst (filter (\<lambda>(_, c). status c = Retired) (connections (world s))))"

definition push_window :: "f64 \<Rightarrow> f64 list \<Rightarrow> f64 list" where
  "push_window r rs = (let rs' = rs @ [r] in if length rs' > 8 then tl rs' else rs')"

text \<open>Measuring the window: the inputs of the decision and the state with the window closed. \<open>None\<close> is the
  early return of a window that is too short.\<close>

definition remaining_on :: "controller \<Rightarrow> origin_id \<Rightarrow> u64" where
  "remaining_on s i =
     foldl saturating_add 0 (List.map_filter (\<lambda>(_, j). Option.bind (plan j) bytes_remaining) (transferring_on s i))"

definition has_work_on :: "world_env \<Rightarrow> controller \<Rightarrow> origin_id \<Rightarrow> bool" where
  "has_work_on E s i \<longleftrightarrow>
     list_ex (\<lambda>(_, j). case plan j of
         None \<Rightarrow> False
       | Some p \<Rightarrow> admits_worker p (inst_now E) \<and>
           (case bytes_remaining p of None \<Rightarrow> True | Some r \<Rightarrow> ADAPTIVE_MIN_REMAINING < r)) (transferring_on s i)"

definition ready_on :: "controller \<Rightarrow> origin_id \<Rightarrow> connection_node list" where
  "ready_on s i = map snd (filter (\<lambda>(_, c). cn_origin c = i \<and> status c = Ready) (connections (world s)))"

definition measure_window ::
  "world_env \<Rightarrow> origin_id \<Rightarrow> instant \<Rightarrow> controller \<Rightarrow> (decision_inputs \<times> controller) option" where
  "measure_window E i now s =
     (let verified = origin_verified_bytes s i;
          stall = window_stall_fraction s i;
          handshake = sum_list (List.map_filter (\<lambda>c. Option.bind (sm_get (endpoints (world s)) (cn_endpoint c)) handshake_ewma)
                        (ready_on s i));
          mx = opt_default 1 (max_opt (map (\<lambda>(_, j). ucast (max_streams_per_connection (transport (jn_policy j))))
                 (filter (\<lambda>(_, j). jn_origin j = i) (jobs (world s)))))
      in case origin_of s i of
           None \<Rightarrow> None
         | Some n \<Rightarrow>
             let elapsed = now - last_window_at n
             in if elapsed < ADAPTIVE_WINDOW then None
                else
                  let delta = saturating_sub verified (last_window_bytes n);
                      r = f64_div (f64_of_u64 delta) (f64_max (as_secs_f64 elapsed) (f64_round (1 / 1000000000)));
                      s1 = upd_origin i (\<lambda>n. n\<lparr>window_rates := push_window r (window_rates n),
                             last_window_bytes := verified, last_window_at := now\<rparr>) s;
                      rem = remaining_on s1 i
                  in Some (\<lparr>di_rate = r, di_stall_fraction = stall, di_experiment = map_option view_of (topo_experiment n),
                       di_remaining = (if rem = 0 then None else Some rem), has_work = has_work_on E s1 i,
                       ceiling_of = adaptive_ceiling s i, live = length (ready_on s i),
                       multiplexed = has_multiplexed_ready_connection i (world s), di_handshake = handshake,
                       stream_ceiling = adaptive_target_streams n, max_streams = mx\<rparr>, s1))"

definition adaptive_decide :: "world_env \<Rightarrow> origin_id \<Rightarrow> instant \<Rightarrow> controller \<Rightarrow> controller option" where
  "adaptive_decide E i now s =
     (let s1 = repoll_draining now (close_drained s);
          m = measure_window E i now s1;
          s2 = (case m of None \<Rightarrow> s1 | Some (_, t) \<Rightarrow> t);
          s3 = s2\<lparr>origin_state := sec_remove i (origin_state s2)\<rparr>
      in case m of
           None \<Rightarrow> Some s3
         | Some (d, _) \<Rightarrow>
             evaluate_experiment E d i now (emit (ScheduleTimer (now + ADAPTIVE_WINDOW) (AdaptiveTick i)) s3))"

definition adaptive_tick :: "world_env \<Rightarrow> origin_id \<Rightarrow> instant \<Rightarrow> controller \<Rightarrow> controller option" where
  "adaptive_tick E i now s =
     (case origin_of s i of
        None \<Rightarrow> Some s
      | Some n \<Rightarrow>
          if \<not> adaptive_active n \<or> is_cooled_down n now then Some s
          else if \<not> list_ex (\<lambda>(_, j). jn_origin j = i \<and> probing_or_transferring (phase j)) (jobs (world s)) then
            let s1 = upd_origin i (\<lambda>n. n\<lparr>adaptive_active := False, topo_experiment := None\<rparr>) s
            in Some (s1\<lparr>origin_state := sec_remove i (origin_state s1)\<rparr>)
          else
            (case experiment_cooldown_until n of
               Some until \<Rightarrow>
                 if now < until then Some (emit (ScheduleTimer until (AdaptiveTick i)) s)
                 else adaptive_decide E i now (upd_origin i (\<lambda>n. n\<lparr>experiment_cooldown_until := None\<rparr>) s)
             | None \<Rightarrow> adaptive_decide E i now s))"

definition start_adaptive :: "origin_id \<Rightarrow> instant \<Rightarrow> controller \<Rightarrow> controller" where
  "start_adaptive i now s =
     (case origin_of s i of
        None \<Rightarrow> s
      | Some n \<Rightarrow>
          let s1 = (if \<not> adaptive_active n then upd_origin i (\<lambda>n. n\<lparr>adaptive_active := True, last_window_at := now\<rparr>) s else s);
              s2 = s1\<lparr>origin_last_invalidation := sec_remove i (origin_last_invalidation s1)\<rparr>
          in emit (ScheduleTimer (now + REBALANCE_INTERVAL) (RebalanceTick i))
               (emit (ScheduleTimer (now + ADAPTIVE_WINDOW + ADAPTIVE_RAMP) (AdaptiveTick i)) s2))"

section \<open>Rebalancing\<close>

text \<open>The constant is \<open>SAMPLE_LEN\<close>.\<close>

definition sample_one :: "job_id \<Rightarrow> u64 \<Rightarrow> nat list \<Rightarrow> nat \<Rightarrow> controller \<Rightarrow> controller" where
  "sample_one job prefix sampling sid s =
     (if sid \<in> set sampling then s
      else
        (case find (\<lambda>(_, c). status c = Ready \<and> serving_source c = Some sid) (connections (world s)) of
           None \<Rightarrow> s
         | Some (c, _) \<Rightarrow>
             emit (SampleMirror job sid c (ByteRange_new (prefix - 128 * 1024) prefix))
               (upd_job job (\<lambda>j. j\<lparr>sampling_sources := sampling_sources j @ [sid]\<rparr>) s)))"

definition retry_pending_mirror_sample :: "job_id \<Rightarrow> controller \<Rightarrow> controller" where
  "retry_pending_mirror_sample job s =
     (case job_of s job of
        None \<Rightarrow> s
      | Some j \<Rightarrow>
          (case plan j of
             None \<Rightarrow> s
           | Some p \<Rightarrow>
               let prefix = contiguous_prefix (completed p)
               in if prefix < 128 * 1024 then s
                  else foldl (\<lambda>t sid. sample_one job prefix (sampling_sources j) sid t) s (probing_sources j)))"

definition truncate_cut :: "job_id \<Rightarrow> assign_id \<times> u64 \<Rightarrow> controller \<Rightarrow> controller" where
  "truncate_cut job ce s =
     (case Option.bind (Option.bind (Option.bind (job_of s job) plan) (\<lambda>p. sm_get (assignments p) (fst ce))) a_connection of
        None \<Rightarrow> s
      | Some c \<Rightarrow> emit (TruncateAssignment job \<lparr>ar_job = job, ar_assignment = fst ce\<rparr> c (snd ce)) s)"

definition rebalance_job :: "instant \<Rightarrow> controller \<Rightarrow> job_id \<Rightarrow> controller" where
  "rebalance_job now s job =
     (case Option.bind (job_of s job) plan of
        None \<Rightarrow> s
      | Some p \<Rightarrow>
          let (cuts, q) = rebalance_stragglers p now
          in foldl (\<lambda>t ce. truncate_cut job ce t) (set_plan job q s) cuts)"

definition mix_mirror :: "world_env \<Rightarrow> instant \<Rightarrow> controller \<Rightarrow> job_id \<Rightarrow> controller" where
  "mix_mirror E now s0 job =
     (let s = retry_pending_mirror_sample job s0
      in case Option.bind (job_of s job) (\<lambda>j. nth_opt (unused_sources j) 0) of
           None \<Rightarrow> s
         | Some sid \<Rightarrow>
             if (case job_of s job of None \<Rightarrow> True
                 | Some j \<Rightarrow> bytes_remaining_estimate j \<le> saturating_mul ADAPTIVE_MIN_REMAINING 4) then s
             else
               (case source_of s sid of
                  None \<Rightarrow> s
                | Some src \<Rightarrow>
                    if cooling s (sn_origin src) now then s
                    else
                      let s1 = upd_job job (\<lambda>j. j\<lparr>probing_sources := probing_sources j @ [sid]\<rparr>) s
                      in case origin_of s1 (sn_origin src) of
                           None \<Rightarrow> s1
                         | Some n \<Rightarrow>
                             if endpoints_of n = [] then emit (Act_Resolve (sn_origin src) (host (on_key n)) (port (on_key n))) s1
                             else (case any_endpoint s1 (sn_origin src) now of
                                     None \<Rightarrow> s1
                                   | Some ep \<Rightarrow> dial E (sn_origin src) ep True (Some sid) now s1)))"

definition rebalance_tick :: "world_env \<Rightarrow> origin_id \<Rightarrow> instant \<Rightarrow> controller \<Rightarrow> controller option" where
  "rebalance_tick E i now s =
     (let ids = map fst (transferring_on s i);
          s1 = (if ids \<noteq> [] then emit (ScheduleTimer (now + REBALANCE_INTERVAL) (RebalanceTick i)) s else s);
          s2 = foldl (rebalance_job now) s1 ids;
          s3 = (if length (connections (world s2)) < unat (engine_max_connections s2)
                then foldl (mix_mirror E now) s2 (map fst (filter (\<lambda>(_, j). phase j = Transferring \<and> strong_equivalence j \<and>
                       (unused_sources j \<noteq> [] \<or> probing_sources j \<noteq> [])) (jobs (world s2))))
                else s2)
      in if transferring_on s3 i \<noteq> [] then pump E i now s3 else Some s3)"

end
