(* ===== verification/Controller_Handle.thy ===== *)
theory Controller_Handle
  imports Controller_Adaptive
begin

text \<open>
  \<^verbatim>\<open>src/crates/xde/src/core/controller.rs\<close>, fourth part: what an assignment's disposition leads to,
  redirects, and \<open>handle\<close> with one definition per observation.
\<close>

section \<open>Dispositions\<close>

text \<open>The delay and number of the next attempt; the outer \<open>None\<close> is the panic of the backoff.\<close>

definition retry_plan_of ::
  "controller \<Rightarrow> disposition \<Rightarrow> u32 \<Rightarrow> instant \<Rightarrow> (duration \<times> u32) option option" where
  "retry_plan_of s d attempt now =
     (case d of
        RetrySameRange after _ \<Rightarrow>
          let nxt = saturating_add attempt 1
          in (case after of
                Some delay \<Rightarrow> Some (Some (delay, nxt))
              | None \<Rightarrow> map_option (\<lambda>delay. Some (delay, nxt)) (backoff_now s nxt now))
      | _ \<Rightarrow> Some None)"

definition give_back ::
  "job_id \<Rightarrow> assign_id option \<Rightarrow> (duration \<times> u32) option \<Rightarrow> u32 \<Rightarrow> instant \<Rightarrow> controller \<Rightarrow> controller" where
  "give_back job assign rp max_attempts now s =
     (case assign of
        None \<Rightarrow> s
      | Some i \<Rightarrow>
          (case Option.bind (job_of s job) plan of
             None \<Rightarrow> s
           | Some p \<Rightarrow>
               set_plan job (case rp of
                   None \<Rightarrow> snd (abandon p i)
                 | Some (delay, nxt) \<Rightarrow> abandon_and_defer p i (now + delay) nxt max_attempts) s))"

definition draining :: "controller \<Rightarrow> job_id \<Rightarrow> bool" where
  "draining s job \<longleftrightarrow> (case job_of s job of None \<Rightarrow> False | Some j \<Rightarrow> is_draining (phase j))"

text \<open>\<open>origin.cooldown_until = now + delay\<close> with the timer that ends it.\<close>

definition cool_origin_of :: "job_id \<Rightarrow> duration \<Rightarrow> instant \<Rightarrow> controller \<Rightarrow> controller" where
  "cool_origin_of job delay now s =
     (case job_of s job of
        None \<Rightarrow> s
      | Some j \<Rightarrow>
          emit (ScheduleTimer (now + delay) (OriginCooldownExpired (jn_origin j)))
            (upd_origin (jn_origin j) (\<lambda>n. n\<lparr>cooldown_until := Some (now + delay)\<rparr>) s))"

definition on_retry ::
  "world_env \<Rightarrow> job_id \<Rightarrow> assign_id option \<Rightarrow> byte_range \<Rightarrow> duration \<times> u32 \<Rightarrow> u32 \<Rightarrow> instant \<Rightarrow> controller \<Rightarrow> controller option" where
  "on_retry E job assign r rp max_attempts now s =
     (case assign of
        Some i \<Rightarrow>
          if max_attempts < snd rp then begin_fail E job ''range retry budget exhausted'' s
          else Some (emit (ScheduleTimer (now + fst rp) (RetryReady \<lparr>ar_job = job, ar_assignment = i\<rparr> r (snd rp))) s)
      | None \<Rightarrow> Some (cool_origin_of job (fst rp) now s))"

definition on_refresh_credentials :: "world_env \<Rightarrow> job_id \<Rightarrow> u16 \<Rightarrow> controller \<Rightarrow> controller option" where
  "on_refresh_credentials E job st s =
     (let attempts = (case job_of s job of None \<Rightarrow> 0 | Some j \<Rightarrow> refresh_attempts j);
          url = (case Option.bind (Option.bind (job_of s job) active_source) (source_of s) of None \<Rightarrow> [] | Some n \<Rightarrow> sn_url n)
      in if 3 \<le> attempts
         then finish_job E job (Inl (''credentials rejected ('' @ show_nat (unat st) @ ''); refresh budget exhausted'')) s
         else Some (emit (RequestCredentialRefresh job url st attempts) s))"

definition on_full_body :: "world_env \<Rightarrow> job_id \<Rightarrow> instant \<Rightarrow> controller \<Rightarrow> controller" where
  "on_full_body E job now s =
     (case job_of s job of
        None \<Rightarrow> s
      | Some j \<Rightarrow>
          let p = set_single_stream True (plan_new (jn_total_length j)
                    (case plan j of None \<Rightarrow> rs_new | Some q \<Rightarrow> completed q)
                    (segmentation (jn_policy j)) (piece_duration_target (jn_urgency j)) 0)
          in open_one_connection E (jn_origin j) now True
               (upd_job job (\<lambda>j. j\<lparr>jn_supports_ranges := False, plan := Some p\<rparr>) s))"

definition on_recheck_length :: "world_env \<Rightarrow> job_id \<Rightarrow> instant \<Rightarrow> controller \<Rightarrow> controller" where
  "on_recheck_length E job now s =
     (case job_of s job of
        None \<Rightarrow> s
      | Some j \<Rightarrow> open_one_connection E (jn_origin j) now True (upd_job job (\<lambda>j. j\<lparr>phase := Probing\<rparr>) s))"

definition sources_at :: "controller \<Rightarrow> job_node \<Rightarrow> origin_id \<Rightarrow> nat list" where
  "sources_at s j i =
     filter (\<lambda>sid. case source_of s sid of None \<Rightarrow> False | Some n \<Rightarrow> sn_origin n = i) (active_sources j)"

definition quarantine_source :: "nat \<Rightarrow> job_node \<Rightarrow> job_node" where
  "quarantine_source sid j =
     j\<lparr>active_sources := filter (\<lambda>x. x \<noteq> sid) (active_sources j),
       failed_sources := (if sid \<in> set (failed_sources j) then failed_sources j else failed_sources j @ [sid])\<rparr>"

text \<open>The running assignments of a connection, over all jobs.\<close>

definition riders :: "controller \<Rightarrow> connection_id \<Rightarrow> (job_id \<times> assign_id) list" where
  "riders s c =
     concat (map (\<lambda>(k, j). case plan j of
         None \<Rightarrow> []
       | Some p \<Rightarrow> map (\<lambda>(i, _). (k, i)) (filter (\<lambda>(_, a). a_connection a = Some c) (assignments p))) (jobs (world s)))"

definition evict_rider ::
  "job_id \<Rightarrow> connection_id \<Rightarrow> instant \<Rightarrow> controller \<Rightarrow> job_id \<times> assign_id \<Rightarrow> controller" where
  "evict_rider job c now s v =
     (let s1 = (case Option.bind (job_of s (fst v)) plan of
                  None \<Rightarrow> s
                | Some p \<Rightarrow>
                    let (a, q) = abandon p (snd v); t = set_plan (fst v) q s
                    in (case a of
                          None \<Rightarrow> t
                        | Some x \<Rightarrow> emit (TruncateAssignment (fst v) \<lparr>ar_job = fst v, ar_assignment = snd v\<rparr> c (cursor x)) t));
          s2 = (case sec_get (connection_state s1) c of
                  None \<Rightarrow> s1
                | Some r \<Rightarrow> s1\<lparr>connection_state := sec_insert c (r\<lparr>in_flight := in_flight r - 1\<rparr>) (connection_state s1)\<rparr>)
      in case job_of s2 job of None \<Rightarrow> s2 | Some j \<Rightarrow> bump_generation (jn_origin j) now s2)"

definition on_quarantine ::
  "world_env \<Rightarrow> job_id \<Rightarrow> connection_id option \<Rightarrow> string \<Rightarrow> instant \<Rightarrow> controller \<Rightarrow> controller option" where
  "on_quarantine E job c reason now s =
     (let quarantined = (case (job_of s job, Option.bind c (conn_of s)) of
            (Some j, Some n) \<Rightarrow> sources_at s j (cn_origin n) | _ \<Rightarrow> [])
      in if quarantined = [] then finish_job E job (Inl (''artifact inconsistent across sources: '' @ reason)) s
         else
           let s1 = foldl (\<lambda>t sid. upd_job job (quarantine_source sid) t) s quarantined;
               s2 = emit (ReportSourceQuarantined job quarantined reason) s1;
               s3 = (case c of None \<Rightarrow> s2 | Some k \<Rightarrow> foldl (evict_rider job k now) s2 (riders s2 k));
               has_active = (case job_of s3 job of None \<Rightarrow> False | Some j \<Rightarrow> active_sources j \<noteq> [])
           in if has_active then Some s3
              else (case activate_next_source job s3 of
                      (True, t) \<Rightarrow> Some t
                    | (False, t) \<Rightarrow> finish_job E job (Inl (''all sources failed or were quarantined: '' @ reason)) t))"

definition on_fatal :: "world_env \<Rightarrow> job_id \<Rightarrow> assign_id option \<Rightarrow> u16 \<Rightarrow> string \<Rightarrow> controller \<Rightarrow> controller option" where
  "on_fatal E job assign st reason s =
     (case (if assign = None then activate_next_source job s else (False, s)) of
        (True, t) \<Rightarrow> Some t
      | (False, t) \<Rightarrow> finish_job E job (Inl (''fatal ('' @ show_nat (unat st) @ ''): '' @ reason)) t)"

definition act_on_disposition ::
  "world_env \<Rightarrow> job_id \<Rightarrow> assign_id option \<Rightarrow> byte_range \<Rightarrow> disposition \<Rightarrow> (duration \<times> u32) option \<Rightarrow> u32 \<Rightarrow> u32
   \<Rightarrow> connection_id option \<Rightarrow> instant \<Rightarrow> controller \<Rightarrow> controller option" where
  "act_on_disposition E job assign r d rp attempt max_attempts c now s =
     (case d of
        Accept \<Rightarrow> Some s
      | RetrySameRange _ _ \<Rightarrow> (case rp of None \<Rightarrow> Some s | Some q \<Rightarrow> on_retry E job assign r q max_attempts now s)
      | BackOffOrigin after _ \<Rightarrow>
          (case (case after of Some delay \<Rightarrow> Some delay | None \<Rightarrow> backoff_now s (attempt + 3) now) of
             None \<Rightarrow> None
           | Some delay \<Rightarrow> Some (cool_origin_of job delay now s))
      | RefreshCredentials st \<Rightarrow> on_refresh_credentials E job st s
      | InvalidateArtifact reason \<Rightarrow>
          finish_job E job (Inl (''artifact invalidated: '' @ reason)) (emit (DiscardDestination job) s)
      | FullBodyForRangeRequest \<Rightarrow> Some (on_full_body E job now s)
      | RecheckLength \<Rightarrow> Some (on_recheck_length E job now s)
      | RangeCapabilityLost_disposition \<Rightarrow> Some (upd_job job (\<lambda>j. j\<lparr>jn_supports_ranges := False\<rparr>) s)
      | QuarantineSource reason \<Rightarrow> on_quarantine E job c reason now s
      | Fatal st reason \<Rightarrow> on_fatal E job assign st reason s)"

definition handle_assignment_disposition ::
  "world_env \<Rightarrow> job_id \<Rightarrow> assign_id option \<Rightarrow> byte_range \<Rightarrow> disposition \<Rightarrow> u32 \<Rightarrow> connection_id option \<Rightarrow> instant
   \<Rightarrow> controller \<Rightarrow> controller option" where
  "handle_assignment_disposition E job assign r d attempt c now s =
     (let max_attempts = (case job_of s job of None \<Rightarrow> 6 | Some j \<Rightarrow> max_attempts_per_range (retry (jn_policy j)))
      in do {
           rp \<leftarrow> retry_plan_of s d attempt now;
           let s1 = give_back job assign rp max_attempts now s;
           s2 \<leftarrow> (if draining s1 job then try_complete_drain E job s1 else Some s1);
           act_on_disposition E job assign r d rp attempt max_attempts c now s2
         })"

section \<open>Admission, cancellation and resolution\<close>

definition on_job_admitted ::
  "world_env \<Rightarrow> job_id \<Rightarrow> 'u job_spec \<Rightarrow> resume_evidence option \<Rightarrow> instant \<Rightarrow> controller \<Rightarrow> controller option" where
  "on_job_admitted E job spec evid now s =
     (let min_peer = foldl f64_min (Inf False) (map (\<lambda>(_, j). virt_service j)
            (filter (\<lambda>(k, j). k \<noteq> job \<and> Some (jn_origin j) = map_option jn_origin (job_of s job) \<and> phase j = Transferring)
               (jobs (world s))));
          s1 = upd_job job (\<lambda>j. j\<lparr>jn_integrity := js_integrity spec, resume := evid,
                 virt_service := (if is_finite min_peer then min_peer else virt_service j)\<rparr>) s
      in case job_of s job of
           None \<Rightarrow> Some s1
         | Some j \<Rightarrow>
             let i = jn_origin j; s2 = bump_generation i now s1
             in (case origin_of s2 i of
                   None \<Rightarrow> Some s2
                 | Some n \<Rightarrow>
                     if endpoints_of n \<noteq> [] then ensure_probes E i now s2
                     else Some (emit (Act_Resolve i (host (on_key n)) (port (on_key n))) s2)))"

definition on_job_cancelled :: "world_env \<Rightarrow> job_id \<Rightarrow> instant \<Rightarrow> controller \<Rightarrow> controller option" where
  "on_job_cancelled E job now s =
     (case job_of s job of
        None \<Rightarrow> Some s
      | Some j \<Rightarrow>
          if is_terminal (phase j) then Some s
          else try_complete_drain E job (bump_generation (jn_origin j) now
                 (upd_job job (\<lambda>j. j\<lparr>phase := Cancelling, pending_terminal := Some (Inl CANCELLED_SENTINEL)\<rparr>) s)))"

definition drop_candidate :: "nat \<Rightarrow> job_node \<Rightarrow> job_node" where
  "drop_candidate sid j =
     j\<lparr>probing_sources := filter (\<lambda>x. x \<noteq> sid) (probing_sources j), failed_sources := failed_sources j @ [sid]\<rparr>"

definition pending_mirrors :: "controller \<Rightarrow> origin_id \<Rightarrow> (job_id \<times> nat) list" where
  "pending_mirrors s i =
     concat (map (\<lambda>(k, j). map (Pair k) (filter (\<lambda>sid. case source_of s sid of None \<Rightarrow> False | Some n \<Rightarrow> sn_origin n = i)
         (probing_sources j))) (filter (\<lambda>(_, j). phase j = Transferring) (jobs (world s))))"

definition dial_mirror ::
  "world_env \<Rightarrow> origin_id \<Rightarrow> bool \<Rightarrow> instant \<Rightarrow> controller \<Rightarrow> job_id \<times> nat \<Rightarrow> controller" where
  "dial_mirror E i unreachable now s m =
     (if unreachable then upd_job (fst m) (drop_candidate (snd m)) s
      else (case any_endpoint s i now of None \<Rightarrow> s | Some ep \<Rightarrow> dial E i ep True (Some (snd m)) now s))"

definition on_resolved ::
  "world_env \<Rightarrow> origin_id \<Rightarrow> socket_addr list \<Rightarrow> bool \<Rightarrow> https_record_info list \<Rightarrow> instant \<Rightarrow> controller \<Rightarrow> controller option" where
  "on_resolved E i addrs failed records now s =
     (let adv = list_ex (\<lambda>r. list_ex (\<lambda>p. p = ''h3'') (alpn r)) records;
          s1 = upd_origin i (\<lambda>n. n\<lparr>advertises_h3 := (adv \<or> advertises_h3 n)\<rparr>) s
      in case note_endpoints E i addrs (world s1) of
           None \<Rightarrow> None
         | Some (_, w) \<Rightarrow>
             let s2 = s1\<lparr>world := w\<rparr>; unreachable = (failed \<or> addrs = [])
             in (case waiting_probe_job s2 i of
                   None \<Rightarrow> Some (foldl (dial_mirror E i unreachable now) s2 (pending_mirrors s2 i))
                 | Some job \<Rightarrow>
                     if unreachable then retry_resolve E job now s2
                     else
                       (case any_endpoint s2 i now of
                          None \<Rightarrow> retry_resolve E job now s2
                        | Some ep \<Rightarrow>
                            ensure_probes E i now
                              (upd_job job (\<lambda>j. j\<lparr>phase := Probing, resolve_attempts := 0\<rparr>)
                                (emit (ScheduleTimer (now + CONNECT_STAGGER) (EndpointStagger i 1))
                                  (dial E i ep True None now s2))))))"

section \<open>Connections\<close>

definition intent_job :: "connection_intent \<Rightarrow> job_id option" where
  "intent_job it = (case it of Intent_Probe j _ \<Rightarrow> Some j | Intent_Mirror j _ \<Rightarrow> Some j | Intent_Pool _ \<Rightarrow> None)"

text \<open>Lost the race: still connecting to the same origin, and not dialled for another job.\<close>

definition race_losers :: "controller \<Rightarrow> connection_id \<Rightarrow> connection_node \<Rightarrow> connection_id list" where
  "race_losers s c n =
     map fst (filter (\<lambda>(k, x). cn_origin x = cn_origin n \<and> status x = Connecting \<and> k \<noteq> c \<and>
        (case (intent_job (intent n), intent_job (intent x)) of (Some a, Some b) \<Rightarrow> b = a | _ \<Rightarrow> True)) (connections (world s)))"

definition retire_losers :: "connection_id \<Rightarrow> controller \<Rightarrow> controller" where
  "retire_losers c s =
     (case conn_of s c of
        None \<Rightarrow> s
      | Some n \<Rightarrow>
          if list_ex (\<lambda>(k, x). cn_origin x = cn_origin n \<and> status x = Ready \<and> k \<noteq> c) (connections (world s)) then s
          else foldl (\<lambda>t l. close_connection l t) s (race_losers s c n))"

definition note_handshake :: "connection_id \<Rightarrow> duration \<Rightarrow> controller \<Rightarrow> controller" where
  "note_handshake c handshake s =
     (case conn_of s c of
        None \<Rightarrow> s
      | Some n \<Rightarrow>
          let avg = opt_default handshake (sec_get (origin_avg_handshake s) (cn_origin n));
              blended = (if avg = 0 then handshake else blend_handshake avg handshake)
          in s\<lparr>origin_avg_handshake := sec_insert (cn_origin n) blended (origin_avg_handshake s)\<rparr>)"

definition clear_h3_failures :: "connection_id \<Rightarrow> controller \<Rightarrow> controller" where
  "clear_h3_failures c s =
     (case conn_of s c of
        None \<Rightarrow> s
      | Some n \<Rightarrow>
          if cn_protocol n = Http3 then upd_origin (cn_origin n) (\<lambda>m. m\<lparr>h3_failures := 0, h3_retry_after := None\<rparr>) s else s)"

definition probe_on :: "job_id \<Rightarrow> connection_id \<Rightarrow> controller \<Rightarrow> controller" where
  "probe_on job c s = emit (Act_Probe job c None) (upd_job job (\<lambda>j. j\<lparr>phase := Probing\<rparr>) s)"

definition dialled_for :: "controller \<Rightarrow> connection_node \<Rightarrow> job_id option" where
  "dialled_for s n =
     (case intent n of
        Intent_Probe job _ \<Rightarrow>
          (case job_of s job of
             None \<Rightarrow> None
           | Some j \<Rightarrow> if jn_origin j = cn_origin n \<and> (phase j = Created \<or> phase j = Probing) then Some job else None)
      | _ \<Rightarrow> None)"

definition use_connection :: "world_env \<Rightarrow> connection_id \<Rightarrow> connection_node \<Rightarrow> instant \<Rightarrow> controller \<Rightarrow> controller option" where
  "use_connection E c n now s =
     (case serving_source n of
        Some sid \<Rightarrow>
          (case find (\<lambda>(_, j). phase j = Transferring \<and> sid \<in> set (jn_sources j)) (jobs (world s)) of
             Some (job, _) \<Rightarrow> Some (emit (Act_Probe job c (Some sid)) s)
           | None \<Rightarrow> Some (close_connection c s))
      | None \<Rightarrow>
          (case opt_or (dialled_for s n) (waiting_probe_job s (cn_origin n)) of
             Some job \<Rightarrow> Some (probe_on job c s)
           | None \<Rightarrow> Option.bind (ensure_probes E (cn_origin n) now s) (pump E (cn_origin n) now)))"

definition on_connection_ready ::
  "world_env \<Rightarrow> connection_id \<Rightarrow> duration \<Rightarrow> protocol \<Rightarrow> instant \<Rightarrow> controller \<Rightarrow> controller option" where
  "on_connection_ready E c handshake pr now s =
     (let s1 = upd_conn c (\<lambda>n. n\<lparr>status := Ready, cn_protocol := pr\<rparr>) s;
          s2 = upd_world (clear_endpoint_failures c) (note_handshake c handshake s1);
          s3 = retire_losers c (clear_h3_failures c s2)
      in case conn_of s3 c of
           None \<Rightarrow> Some s3
         | Some n \<Rightarrow>
             use_connection E c n now
               (upd_endpoint (cn_endpoint n) (\<lambda>e. e\<lparr>handshake_ewma := Some (case handshake_ewma e of
                   Some prev \<Rightarrow> blend_handshake prev handshake | None \<Rightarrow> handshake)\<rparr>) s3))"

definition note_h3_failure :: "connection_id \<Rightarrow> instant \<Rightarrow> controller \<Rightarrow> controller" where
  "note_h3_failure c now s =
     (case conn_of s c of
        None \<Rightarrow> s
      | Some n \<Rightarrow>
          if prefer_h3 n then
            upd_origin (cn_origin n) (\<lambda>m. let f = h3_failures m + 1
              in m\<lparr>h3_failures := f, h3_retry_after := Some (now + secs (30 * 2 ^ unat (min f 5)))\<rparr>) s
          else s)"

text \<open>The failed dial is forgotten; an HTTP/3 dial with no ready connection beside it is replaced over TCP,
  which the flag reports.\<close>

definition replace_h3 :: "world_env \<Rightarrow> connection_node option \<Rightarrow> instant \<Rightarrow> controller \<Rightarrow> bool \<times> controller" where
  "replace_h3 E n now s =
     (case n of
        None \<Rightarrow> (False, s)
      | Some x \<Rightarrow>
          if prefer_h3 x \<and> \<not> has_ready_connection (cn_origin x) (world s)
          then (True, open_one_connection E (cn_origin x) now False s) else (False, s))"

definition probing_on :: "controller \<Rightarrow> origin_id \<Rightarrow> job_id list" where
  "probing_on s i = map fst (filter (\<lambda>(_, j). jn_origin j = i \<and> phase j = Probing) (jobs (world s)))"

definition on_connection_failed ::
  "world_env \<Rightarrow> connection_id \<Rightarrow> connect_failure \<Rightarrow> instant \<Rightarrow> controller \<Rightarrow> controller option" where
  "on_connection_failed E c kind now s =
     (let n = conn_of s c;
          s1 = upd_world (note_endpoint_failure c) (note_h3_failure c now s);
          s2 = (case n of None \<Rightarrow> s1 | Some x \<Rightarrow> bump_generation (cn_origin x) now s1);
          (replaced, s3) = replace_h3 E n now (drop_connection c s2)
      in case n of
           None \<Rightarrow> Some s3
         | Some x \<Rightarrow>
             (case intent x of
                Intent_Probe job src \<Rightarrow>
                  if replaced then Some s3 else on_intent_connect_failed E job (Some src) kind (Some (cn_origin x)) now s3
              | Intent_Mirror job src \<Rightarrow> Some (upd_job job (drop_candidate src) s3)
              | Intent_Pool i \<Rightarrow>
                  if \<not> retryable kind
                  then for_each (\<lambda>job. begin_fail E job ''connection failed: tls'') (probing_on s3 i) s3
                  else Some (open_one_connection E i now True s3)))"

definition undo_dispatch ::
  "world_env \<Rightarrow> dispatch_operation \<Rightarrow> job_id option \<Rightarrow> assignment_ref option \<Rightarrow> connection_id option \<Rightarrow> origin_id option
   \<Rightarrow> instant \<Rightarrow> controller \<Rightarrow> controller option" where
  "undo_dispatch E op job assign c i now s =
     (if op \<in> {Op_StartAssignment, Op_StartFullBody} then
        (case assign of
           None \<Rightarrow> Some s
         | Some a \<Rightarrow>
             handle_assignment_disposition E (ar_job a) (Some (ar_assignment a)) (ByteRange_new 0 0)
               (RetrySameRange (Some 0) ''assignment dispatch failed'') 0 c now (release_assignment_slot c s))
      else if op = Op_TruncateAssignment then
        (case job of
           None \<Rightarrow> Some s
         | Some k \<Rightarrow> begin_fail E k ''failed to stop an assignment during range rebalancing'' s)
      else if op \<in> {Op_Probe, Op_OpenConnection} then
        (case c of
           Some x \<Rightarrow>
             (case map_option intent (conn_of s x) of
                Some (Intent_Probe k _) \<Rightarrow> retry_resolve E k now (drop_connection x s)
              | Some (Intent_Mirror k src) \<Rightarrow> Some (upd_job k (drop_candidate src) (drop_connection x s))
              | _ \<Rightarrow> Some (drop_connection x s))
         | None \<Rightarrow>
             (case job of
                Some k \<Rightarrow> retry_resolve E k now s
              | None \<Rightarrow>
                  (case i of
                     None \<Rightarrow> Some s
                   | Some oid \<Rightarrow> for_each (\<lambda>k. retry_resolve E k now) (probing_on s oid) s)))
      else if op = Op_Resolve then
        (case i of
           None \<Rightarrow> Some s
         | Some oid \<Rightarrow>
             for_each (\<lambda>k. retry_resolve E k now)
               (map fst (filter (\<lambda>(_, j). jn_origin j = oid \<and> \<not> is_terminal (phase j)) (jobs (world s)))) s)
      else if op = Op_SampleMirror then Some s
      else
        (case job of
           None \<Rightarrow> Some s
         | Some k \<Rightarrow> begin_fail E k ''state-changing command dispatch failed'' s))"

definition on_dispatch_failed ::
  "world_env \<Rightarrow> dispatch_operation \<Rightarrow> job_id option \<Rightarrow> assignment_ref option \<Rightarrow> connection_id option \<Rightarrow> origin_id option
   \<Rightarrow> instant \<Rightarrow> controller \<Rightarrow> controller option" where
  "on_dispatch_failed E op job assign c i now s =
     Option.bind (undo_dispatch E op job assign c i now s) (\<lambda>s1.
       case Option.bind (opt_or job (map_option ar_job assign)) (job_of s1) of
         None \<Rightarrow> Some s1
       | Some j \<Rightarrow> pump E (jn_origin j) now s1)"

end
