(* ===== verification/Controller_Observe.thy ===== *)
theory Controller_Observe
  imports Controller_Handle
begin

text \<open>
  \<^verbatim>\<open>src/crates/xde/src/core/controller.rs\<close>, fifth part: the observations of probes, redirects, assignments,
  destinations and timers, and \<open>handle\<close> itself. The assertion of the world model's invariants after
  some of them is compiled into debug builds only and has no effect in a release build; theory
  \<open>Controller_Inv\<close> proves it.
\<close>

section \<open>Probes\<close>

definition integrity_check :: "integrity_spec \<Rightarrow> digest_check option" where
  "integrity_check sp =
     (case is_expected sp of
        Some ex \<Rightarrow> Some \<lparr>dc_kind = ed_kind ex, dc_expected = Some (ed_bytes ex)\<rparr>
      | None \<Rightarrow> map_option (\<lambda>k. \<lparr>dc_kind = k, dc_expected = None\<rparr>) (is_compute sp))"

definition opt_agrees :: "'a option \<Rightarrow> 'a option \<Rightarrow> bool" where
  "opt_agrees a b = (case (a, b) of (Some x, Some y) \<Rightarrow> x = y | (None, None) \<Rightarrow> True | _ \<Rightarrow> False)"

definition strong_etag :: "string option \<Rightarrow> bool" where
  "strong_etag et = (case et of None \<Rightarrow> False | Some e \<Rightarrow> starts_with e [CHR 0x22] \<and> \<not> starts_with e ''W/'')"

datatype resume_verdict = Trust | Refetch | Reset

definition judge_resume ::
  "job_node \<Rightarrow> u64 option \<Rightarrow> string option \<Rightarrow> system_time option \<Rightarrow> resume_evidence \<Rightarrow> resume_verdict" where
  "judge_resume j len et lm r =
     (let url_ok = (re_urls r \<noteq> [] \<and> jn_redirect_chain j \<noteq> [] \<and> last (re_urls r) = last (jn_redirect_chain j));
          length_agrees = (case (re_total r, len) of (Some a, Some b) \<Rightarrow> a = b | (None, _) \<Rightarrow> True | _ \<Rightarrow> False);
          validators_ok = (if strong_etag et then opt_agrees (re_etag r) et
                           else opt_agrees (re_etag r) et \<and> opt_agrees (re_last_modified r) lm)
      in if url_ok \<and> length_agrees \<and> validators_ok \<and> (strong_etag et \<or> \<not> verify_on_resume (jn_integrity j)) then Trust
         else if url_ok \<and> length_agrees \<and> validators_ok \<and> verify_on_resume (jn_integrity j) then Refetch
         else Reset)"

definition seed_ranges :: "u64 option \<Rightarrow> range_set \<Rightarrow> byte_range list" where
  "seed_ranges len durable = filter (\<lambda>r. case len of None \<Rightarrow> True | Some t \<Rightarrow> r_end r \<le> t) (ranges durable)"

definition fresh_plan :: "job_node \<Rightarrow> bool \<Rightarrow> range_set \<Rightarrow> segment_plan" where
  "fresh_plan j supports seeded =
     (let p = plan_new (jn_total_length j) seeded (segmentation (jn_policy j)) (piece_duration_target (jn_urgency j))
                (is_overlap_bytes (jn_integrity j));
          p1 = (if \<not> supports then set_single_stream True p else p);
          p2 = (if \<not> supports_segmentation (sink_caps j) then set_single_stream True p1 else p1)
      in clamp_max_piece (max_operation_bytes (sink_hints j)) p2)"

text \<open>The job node after the answer: what the server said, the judged evidence and the fresh plan.\<close>

definition probed_node ::
  "bool \<Rightarrow> u64 option \<Rightarrow> string option \<Rightarrow> system_time option \<Rightarrow> job_node \<Rightarrow> job_node" where
  "probed_node supports len et lm j =
     (let seeds = (case resume j of
            None \<Rightarrow> []
          | Some r \<Rightarrow> (case judge_resume j len et lm r of Trust \<Rightarrow> seed_ranges len (re_durable r) | _ \<Rightarrow> []));
          j1 = j\<lparr>jn_supports_ranges := supports, jn_total_length := opt_or len (jn_total_length j), fingerprint_etag := et,
                 fingerprint_last_modified := lm, jn_rep_lock := snd (lock_validate (jn_rep_lock j) et None len),
                 resume := None, resumed_bytes := sum_len seeds\<rparr>
      in j1\<lparr>plan := Some (fresh_plan j1 supports (foldl rs_insert rs_new seeds)), phase := Transferring\<rparr>)"

definition evidence_rejected ::
  "job_node \<Rightarrow> u64 option \<Rightarrow> string option \<Rightarrow> system_time option \<Rightarrow> bool" where
  "evidence_rejected j len et lm \<longleftrightarrow>
     (case resume j of None \<Rightarrow> False | Some r \<Rightarrow> judge_resume j len et lm r = Reset)"

definition mirror_probed ::
  "job_id \<Rightarrow> job_node \<Rightarrow> connection_id \<Rightarrow> nat \<Rightarrow> bool \<Rightarrow> u64 option \<Rightarrow> bool \<Rightarrow> controller \<Rightarrow> controller" where
  "mirror_probed job j c src supports len reusable s =
     (let agrees = (case (len, jn_total_length j) of (Some a, Some b) \<Rightarrow> a = b | _ \<Rightarrow> False);
          prefix = (case plan j of None \<Rightarrow> 0 | Some p \<Rightarrow> contiguous_prefix (completed p));
          requeue = (\<lambda>j. j\<lparr>probing_sources := filter (\<lambda>x. x \<noteq> src) (probing_sources j) @ [src]\<rparr>)
      in if \<not> agrees \<or> \<not> supports then
           let s1 = emit (ReportSourceQuarantined job [src]
                      (if supports then ''length mismatch across mirrors'' else ''mirror lacks range support''))
                      (upd_job job (drop_candidate src) s)
           in if reusable then s1 else close_connection c s1
         else if prefix = 0 then upd_job job requeue s
         else emit (SampleMirror job src c (ByteRange_new (saturating_sub prefix (128 * 1024)) prefix)) (upd_job job requeue s))"

text \<open>\<open>Alt-Svc\<close> evidence, and the HTTP/3 dial it may lead to.\<close>

definition note_alt_svc :: "origin_id \<Rightarrow> u16 option \<Rightarrow> controller \<Rightarrow> controller" where
  "note_alt_svc i alt s =
     (case alt of None \<Rightarrow> s | Some p \<Rightarrow> upd_origin i (\<lambda>n. n\<lparr>advertises_h3 := True, h3_alt_port := Some p\<rparr>) s)"

definition dial_h3 :: "world_env \<Rightarrow> origin_id \<Rightarrow> u16 option \<Rightarrow> instant \<Rightarrow> controller \<Rightarrow> controller" where
  "dial_h3 E i alt now s =
     (if alt = None \<or> list_ex (\<lambda>(_, c). cn_origin c = i \<and> (prefer_h3 c \<or> cn_protocol c = Http3)) (connections (world s))
      then s
      else (case any_endpoint s i now of None \<Rightarrow> s | Some ep \<Rightarrow> dial E i ep True None now s))"

definition raise_targets :: "job_node \<Rightarrow> origin_node \<Rightarrow> origin_node" where
  "raise_targets j n =
     n\<lparr>adaptive_target_conns := max (adaptive_target_conns n) (unat (max (initial_physical_connections (jn_policy j)) 1)),
       adaptive_target_streams := max (adaptive_target_streams n)
         (ucast (min (max (initial_streams_per_connection (jn_policy j)) 1) (max_streams_per_connection (transport (jn_policy j)))))\<rparr>"

definition commit_complete :: "job_id \<Rightarrow> controller \<Rightarrow> controller" where
  "commit_complete job s =
     (case job_of s job of
        None \<Rightarrow> s
      | Some j \<Rightarrow>
          emit (CommitDestination job (opt_default 0 (opt_or (Option.bind (plan j) plan_total) (jn_total_length j)))
                 (integrity_check (jn_integrity j)))
            (upd_job job (\<lambda>j. j\<lparr>phase := Committing\<rparr>) s))"

definition on_probed ::
  "world_env \<Rightarrow> job_id \<Rightarrow> connection_id \<Rightarrow> nat \<Rightarrow> bool \<Rightarrow> u64 option \<Rightarrow> string option \<Rightarrow> system_time option \<Rightarrow> bool
   \<Rightarrow> u16 option \<Rightarrow> instant \<Rightarrow> controller \<Rightarrow> controller option" where
  "on_probed E job c src supports len et lm reusable alt now s =
     (case job_of s job of
        None \<Rightarrow> Some s
      | Some j \<Rightarrow>
          if src \<in> set (probing_sources j) then Some (mirror_probed job j c src supports len reusable s)
          else
            let i = jn_origin j;
                s1 = note_alt_svc i alt s;
                s2 = (if evidence_rejected j len et lm then emit (ResetResumeData job) s1 else s1);
                s3 = upd_job job (probed_node supports len et lm) s2;
                s4 = upd_origin i (raise_targets j) (s3\<lparr>origin_admission := sec_insert i now (origin_admission s3)\<rparr>);
                s5 = (if reusable then s4 else close_connection c s4);
                s6 = scale_connections E i now (dial_h3 E i alt now s5);
                complete = plan_is_complete (the (plan (probed_node supports len et lm j)))
            in do {
                 s7 \<leftarrow> ensure_probes E i now s6;
                 let s8 = start_adaptive i now s7;
                 (if complete then Some (commit_complete job s8) else pump E i now s8)
               })"

definition on_probe_failed ::
  "world_env \<Rightarrow> job_id \<Rightarrow> connection_id \<Rightarrow> nat \<Rightarrow> probe_failure \<Rightarrow> connection_health \<Rightarrow> instant \<Rightarrow> controller \<Rightarrow> controller option" where
  "on_probe_failed E job c src failure health now s =
     (if (case job_of s job of None \<Rightarrow> False | Some j \<Rightarrow> src \<in> set (probing_sources j))
      then Some (upd_job job (drop_candidate src) s)
      else
        handle_assignment_disposition E job None (ByteRange_new 0 0)
          (case pf_kind failure of
             Credentials \<Rightarrow> RefreshCredentials (pf_status failure)
           | Kind_RateLimited after \<Rightarrow> BackOffOrigin after ''probe rate limited''
           | Kind_Transport \<Rightarrow> RetrySameRange None ''probe failed'') 0 (Some c) now
          (if health = State_Reusable then s else close_connection c s))"

definition on_mirror_sampled ::
  "world_env \<Rightarrow> job_id \<Rightarrow> nat \<Rightarrow> connection_id \<Rightarrow> bool \<Rightarrow> bool \<Rightarrow> instant \<Rightarrow> controller \<Rightarrow> controller option" where
  "on_mirror_sampled E job src c matches reusable now s =
     (case job_of s job of
        None \<Rightarrow> Some s
      | Some _ \<Rightarrow>
          let s1 = upd_job job (\<lambda>j. j\<lparr>probing_sources := filter (\<lambda>x. x \<noteq> src) (probing_sources j),
                     sampling_sources := filter (\<lambda>x. x \<noteq> src) (sampling_sources j)\<rparr>) s
          in if \<not> matches then
               let s2 = emit (ReportSourceQuarantined job [src] ''mirror bytes disagreed with verified artifact window'')
                          (upd_job job (\<lambda>j. j\<lparr>failed_sources := failed_sources j @ [src]\<rparr>) s1)
               in Some (if reusable then s2 else close_connection c s2)
             else
               let s2 = upd_job job (\<lambda>j. if src \<in> set (active_sources j) then j
                          else j\<lparr>active_sources := active_sources j @ [src]\<rparr>) s1
               in (case conn_of s2 c of None \<Rightarrow> Some s2 | Some n \<Rightarrow> pump E (cn_origin n) now s2))"

section \<open>Redirects\<close>

definition is_loop :: "string list \<Rightarrow> string \<Rightarrow> bool" where
  "is_loop chain url \<longleftrightarrow> length (remdups (chain @ [url])) \<noteq> length chain + 1"

text \<open>\<open>HeaderMap::drain\<close> gives the name with the first value of a header only; the other values are
  dropped by the filter.\<close>

fun drain_named :: "string list \<Rightarrow> header_map \<Rightarrow> header_map" where
  "drain_named seen [] = []"
| "drain_named seen ((n, v) # hs) = (if n \<in> set seen then drain_named seen hs else (n, v) # drain_named (n # seen) hs)"

definition strip_credentials :: "(string \<times> u8 list \<Rightarrow> bool) \<Rightarrow> header_map \<Rightarrow> header_map" where
  "strip_credentials sensitive hs =
     filter (\<lambda>h. \<not> sensitive h) (drain_named [] (filter (\<lambda>(n, _). n \<notin> set [''authorization'', ''proxy-authorization'', ''cookie'']) hs))"

text \<open>The steps of a hop that is followed; \<open>old\<close> is the key of the job's origin.\<close>

definition follow_same_origin :: "job_id \<Rightarrow> connection_id \<Rightarrow> nat \<Rightarrow> string \<Rightarrow> controller \<Rightarrow> controller" where
  "follow_same_origin job c sid url s =
     emit (Act_Probe job c None)
       (upd_job job (\<lambda>j. j\<lparr>jn_redirect_chain := jn_redirect_chain j @ [url]\<rparr>)
         (upd_source sid (\<lambda>n. n\<lparr>sn_url := url\<rparr>) s))"

definition follow_cross_origin ::
  "'u ctl_env \<Rightarrow> job_id \<Rightarrow> connection_id \<Rightarrow> nat \<Rightarrow> 'u \<Rightarrow> transport_origin_key \<Rightarrow> bool \<Rightarrow> controller \<Rightarrow> controller" where
  "follow_cross_origin C job c sid u key forward s =
     (let url = as_str (url_ops_of C) u;
          s1 = (if forward then s
                else upd_source sid (\<lambda>n. let hs = strip_credentials (is_sensitive C) (sn_headers n)
                  in n\<lparr>sn_headers := hs, sn_header_identity := fingerprint_of (url_ops_of C) (blake3_of C) u hs\<rparr>) s);
          (i, w) = get_or_create_origin (wenv C) key (world s1);
          s2 = upd_job job (\<lambda>j. j\<lparr>jn_origin := i, jn_rep_lock := lock_new None None None, phase := Created,
                 resolve_attempts := 0, jn_redirect_chain := jn_redirect_chain j @ [url]\<rparr>) (s1\<lparr>world := w\<rparr>);
          s3 = upd_source sid (\<lambda>n. n\<lparr>sn_url := url, sn_origin := i\<rparr>) s2
      in emit (Act_Resolve i (host key) (port key)) (close_connection c s3))"

definition handle_probe_redirect ::
  "'u ctl_env \<Rightarrow> job_id \<Rightarrow> connection_id \<Rightarrow> string \<Rightarrow> controller \<Rightarrow> controller option" where
  "handle_probe_redirect C job c location s =
     (let E = wenv C; fail = (\<lambda>msg. finish_job E job (Inl msg) s)
      in case job_of s job of
           None \<Rightarrow> Some s
         | Some j \<Rightarrow>
             if unat (max (max_redirects (jn_policy j)) 1) \<le> length (jn_redirect_chain j)
             then fail (''redirect limit exceeded at RedirectTarget { url: '' @ debug_str location @ '' }'')
             else
               (case url_parse C location of
                  None \<Rightarrow> fail ''redirect Location was not a valid URL''
                | Some u \<Rightarrow>
                    (case from_url (url_ops_of C) u of
                       None \<Rightarrow> fail (''redirect to unsupported scheme '' @ [CHR 0x27] @ scheme_of (url_ops_of C) u @ [CHR 0x27])
                     | Some key \<Rightarrow>
                         if is_loop (jn_redirect_chain j) (as_str (url_ops_of C) u) then fail ''redirect loop detected''
                         else
                           (case active_source j of
                              None \<Rightarrow> Some s
                            | Some sid \<Rightarrow>
                                let old = map_option on_key (origin_of s (jn_origin j))
                                in if (case old of None \<Rightarrow> False | Some k \<Rightarrow> scheme k = ''https'') \<and> scheme key = ''http'' \<and>
                                      \<not> allow_https_to_http (redirects (jn_policy j))
                                   then fail ''insecure redirect downgrade from https to http rejected''
                                   else if (case old of None \<Rightarrow> False | Some k \<Rightarrow> same_origin k key)
                                   then Some (follow_same_origin job c sid (as_str (url_ops_of C) u) s)
                                   else Some (follow_cross_origin C job c sid u key
                                          (forward_credentials_cross_origin (redirects (jn_policy j))) s)))))"

section \<open>Assignments\<close>

definition count_service :: "job_id \<Rightarrow> connection_id \<Rightarrow> transfer_sample \<Rightarrow> instant \<Rightarrow> controller \<Rightarrow> controller" where
  "count_service job c smp now s =
     (case conn_of s c of
        None \<Rightarrow> s
      | Some n \<Rightarrow>
          let i = cn_origin n; b0 = ts_memory_blocked smp + ts_destination_blocked smp;
              s1 = upd_job job (\<lambda>j. j\<lparr>virt_service := f64_add (virt_service j)
                     (f64_div (f64_of_u64 (ts_bytes smp)) (f64_max (eff_weight j now) (f64_round (1 / 1000000000))))\<rparr>)
                     (bump_verified i (ts_bytes smp) s);
              (b, w) = opt_default (0, 0) (sec_get (origin_state s1) i)
          in s1\<lparr>origin_state := sec_insert i (b + b0, w + ts_response_wall smp) (origin_state s1)\<rparr>)"

definition observe_rate :: "(f64 \<Rightarrow> f64) \<Rightarrow> connection_id \<Rightarrow> transfer_sample \<Rightarrow> controller \<Rightarrow> controller" where
  "observe_rate fexp c smp s =
     (if f64_lt (stall_fraction smp) (Fin (1 / 2)) then
        let r = opt_default runtime_default (sec_get (connection_state s) c);
            e = opt_default (ewma_var_new (4 * 1000000000)) (cr_ewma r)
        in s\<lparr>connection_state := sec_insert c
             (r\<lparr>cr_ewma := Some (ewma_var_observe fexp e (receive_rate smp) (ts_response_wall smp))\<rparr>) (connection_state s)\<rparr>
      else s)"

definition close_spent :: "connection_id \<Rightarrow> bool \<Rightarrow> controller \<Rightarrow> controller" where
  "close_spent c reusable s =
     (let h1 = (case conn_of s c of None \<Rightarrow> False | Some n \<Rightarrow> cn_protocol n = Http1_1)
      in if h1 \<and> \<not> reusable \<or> retired_and_drained s c then close_connection c s else s)"

definition record_verified :: "job_id \<Rightarrow> assign_id \<Rightarrow> byte_range \<Rightarrow> controller \<Rightarrow> controller" where
  "record_verified job i r s =
     (case job_of s job of
        None \<Rightarrow> s
      | Some j \<Rightarrow>
          (case plan j of
             None \<Rightarrow> s
           | Some p \<Rightarrow>
               let q = snd (finish_verified (on_response_verified p i r) i); s1 = set_plan job q s
               in if plan_is_complete q then
                    emit (CommitDestination job (case plan_total q of None \<Rightarrow> bytes_done q | Some t \<Rightarrow> t)
                           (integrity_check (jn_integrity j)))
                      (upd_job job (\<lambda>j. j\<lparr>phase := Committing\<rparr>) s1)
                  else s1))"

definition on_assignment_verified ::
  "'u ctl_env \<Rightarrow> job_id \<Rightarrow> assign_id \<Rightarrow> byte_range \<Rightarrow> transfer_sample \<Rightarrow> connection_id \<Rightarrow> bool \<Rightarrow> instant \<Rightarrow> controller
   \<Rightarrow> controller option" where
  "on_assignment_verified C job i r smp c reusable now s =
     (let E = wenv C;
          s1 = observe_rate (exp_of C) c smp (count_service job c smp now (release_assignment_slot (Some c) s));
          s2 = close_spent c reusable (upd_world (note_endpoint_sample c smp now) s1);
          s3 = record_verified job i r s2
      in if draining s3 job then try_complete_drain E job s3
         else
           (case job_of s3 job of
              None \<Rightarrow> Some s3
            | Some j \<Rightarrow>
                let needs_work = (case plan j of None \<Rightarrow> False | Some p \<Rightarrow> admits_worker p (inst_now E)); oid = jn_origin j
                in do {
                     s4 \<leftarrow> consider_early_connection_scale E oid now smp s3;
                     (if needs_work then pump E oid now (scale_connections E oid now s4) else Some s4)
                   }))"

definition on_assignment_failed ::
  "world_env \<Rightarrow> job_id \<Rightarrow> assign_id \<Rightarrow> u32 \<Rightarrow> disposition \<Rightarrow> connection_id option \<Rightarrow> connection_health \<Rightarrow> instant
   \<Rightarrow> controller \<Rightarrow> controller option" where
  "on_assignment_failed E job i attempt d c health now s =
     (let s1 = release_assignment_slot c s;
          s2 = (case c of None \<Rightarrow> s1 | Some k \<Rightarrow> if health = State_Reusable then s1 else close_connection k s1)
      in do {
           s3 \<leftarrow> handle_assignment_disposition E job (Some i) (ByteRange_new 0 0) d attempt c now s2;
           let oids = (case job_of s3 job of
                         None \<Rightarrow> []
                       | Some j \<Rightarrow> List.map_filter (\<lambda>sid. map_option sn_origin (source_of s3 sid)) (active_sources j));
           for_each (\<lambda>oid t. pump E oid now (scale_connections E oid now t)) oids s3
         })"

section \<open>Destinations, limits and credentials\<close>

definition destination_message :: "destination_failure \<Rightarrow> string" where
  "destination_message f =
     (case f of
        DigestMismatch \<Rightarrow> ''integrity verification failed; artifact not published''
      | NoSpace \<Rightarrow> ''destination has no space left''
      | DestinationError \<Rightarrow> ''destination failed during commit'')"

definition on_rate_limited :: "origin_id \<Rightarrow> duration option \<Rightarrow> instant \<Rightarrow> controller \<Rightarrow> controller" where
  "on_rate_limited i after now s =
     (let delay = opt_default (secs 5) after
      in emit (ScheduleTimer (now + delay) (OriginCooldownExpired i))
           (bump_generation i now (upd_origin i (\<lambda>n. n\<lparr>cooldown_until := Some (now + delay)\<rparr>) s)))"

definition refreshed_source :: "'u ctl_env \<Rightarrow> string option \<Rightarrow> header_map option \<Rightarrow> source_node \<Rightarrow> source_node option" where
  "refreshed_source C url hs n =
     (let u = opt_default (sn_url n) url; h = opt_default (sn_headers n) hs
      in map_option (\<lambda>p. n\<lparr>sn_url := u, sn_headers := h, sn_header_identity := fingerprint_of (url_ops_of C) (blake3_of C) p h\<rparr>)
           (opt_or (url_parse C u) (url_parse C ''about:invalid'')))"

definition on_source_refreshed ::
  "'u ctl_env \<Rightarrow> job_id \<Rightarrow> string option \<Rightarrow> header_map option \<Rightarrow> instant \<Rightarrow> controller \<Rightarrow> controller option" where
  "on_source_refreshed C job url hs now s =
     (case job_of s job of
        None \<Rightarrow> Some s
      | Some j \<Rightarrow>
          let s1 = upd_job job (\<lambda>j. j\<lparr>refresh_attempts := refresh_attempts j + 1\<rparr>) s
          in (case active_source j of
                None \<Rightarrow> Some s1
              | Some sid \<Rightarrow>
                  do {
                    s2 \<leftarrow> (case source_of s1 sid of
                             None \<Rightarrow> Some s1
                           | Some n \<Rightarrow> map_option (\<lambda>n'. upd_source sid (\<lambda>_. n') s1) (refreshed_source C url hs n));
                    Some (open_one_connection (wenv C) (jn_origin j) now True
                      (bump_generation (jn_origin j) now (upd_job job (\<lambda>j. j\<lparr>phase := Probing\<rparr>) s2)))
                  }))"

section \<open>Timers\<close>

definition on_retry_ready :: "world_env \<Rightarrow> job_id \<Rightarrow> instant \<Rightarrow> controller \<Rightarrow> controller option" where
  "on_retry_ready E job now s =
     (let s1 = (case Option.bind (job_of s job) plan of
                  None \<Rightarrow> s | Some p \<Rightarrow> set_plan job (snd (release_due p now)) s)
      in case job_of s1 job of
           None \<Rightarrow> Some s1
         | Some j \<Rightarrow>
             let i = jn_origin j
             in pump E i now (if \<not> cooling s1 i now \<and> \<not> has_ready_connection i (world s1)
                              then open_one_connection E i now True s1 else s1))"

definition on_cooldown_expired :: "world_env \<Rightarrow> origin_id \<Rightarrow> instant \<Rightarrow> controller \<Rightarrow> controller option" where
  "on_cooldown_expired E i now s =
     do {
       s1 \<leftarrow> ensure_probes E i now (bump_generation i now (upd_origin i (\<lambda>n. n\<lparr>cooldown_until := None\<rparr>) s));
       pump E i now (if waiting_probe_job s1 i \<noteq> None \<and> \<not> has_ready_connection i (world s1)
                     then open_one_connection E i now True s1 else s1)
     }"

definition on_drain_connection :: "connection_id \<Rightarrow> instant \<Rightarrow> controller \<Rightarrow> controller" where
  "on_drain_connection c now s =
     (if retired_and_drained s c then close_connection c s
      else if (case conn_of s c of None \<Rightarrow> False | Some n \<Rightarrow> status n = Retired)
      then emit (ScheduleTimer (now + DRAIN_POLL) (DrainConnection c)) s
      else s)"

definition on_endpoint_stagger :: "world_env \<Rightarrow> origin_id \<Rightarrow> nat \<Rightarrow> instant \<Rightarrow> controller \<Rightarrow> controller" where
  "on_endpoint_stagger E i rank now s =
     (if has_ready_connection i (world s) \<or> cooling s i now then s
      else
        let ranked = ranked_endpoints (world s) i now None
        in (case nth_opt ranked rank of
              None \<Rightarrow> s
            | Some ep \<Rightarrow>
                let s1 = dial E i ep False None now s
                in if rank + 1 < length ranked
                   then emit (ScheduleTimer (now + CONNECT_STAGGER) (EndpointStagger i (rank + 1))) s1 else s1))"

definition on_timer :: "world_env \<Rightarrow> timer_event \<Rightarrow> instant \<Rightarrow> controller \<Rightarrow> controller option" where
  "on_timer E ev now s =
     (case ev of
        JobDeadline job \<Rightarrow> finish_job E job (Inl DEADLINE_SENTINEL) s
      | RetryReady a _ _ \<Rightarrow> on_retry_ready E (ar_job a) now s
      | ResolveRetry i h p \<Rightarrow> Some (emit (Act_Resolve i h p) s)
      | OriginCooldownExpired i \<Rightarrow> on_cooldown_expired E i now s
      | CheckpointDue _ \<Rightarrow> Some s
      | AdaptiveTick i \<Rightarrow> adaptive_tick E i now s
      | RebalanceTick i \<Rightarrow> rebalance_tick E i now s
      | DrainConnection c \<Rightarrow> Some (on_drain_connection c now s)
      | EndpointStagger i rank \<Rightarrow> Some (on_endpoint_stagger E i rank now s))"

section \<open>The handler\<close>

definition react :: "'u ctl_env \<Rightarrow> 'u observation \<Rightarrow> instant \<Rightarrow> controller \<Rightarrow> controller option" where
  "react C obs now s =
     (let E = wenv C
      in case obs of
           JobAdmitted job spec evid \<Rightarrow> on_job_admitted E job spec evid now s
         | JobCancelled job \<Rightarrow> on_job_cancelled E job now s
         | Resolved i addrs failed recs \<Rightarrow> on_resolved E i addrs failed recs now s
         | ConnectionReady c hs pr \<Rightarrow> on_connection_ready E c hs pr now s
         | ConnectionFailed c kind \<Rightarrow> on_connection_failed E c kind now s
         | ConnectionGone c \<Rightarrow> Some (drop_connection c s)
         | DispatchFailed op job a c i \<Rightarrow> on_dispatch_failed E op job a c i now s
         | Probed job c src rg len et lm reusable alt \<Rightarrow> on_probed E job c src rg len et lm reusable alt now s
         | ProbeRedirected job c st loc \<Rightarrow> handle_probe_redirect C job c loc s
         | MirrorSampled job src c matches reusable \<Rightarrow> on_mirror_sampled E job src c matches reusable now s
         | ProbeFailed job c src f health \<Rightarrow> on_probe_failed E job c src f health now s
         | AssignmentVerified job a r smp c reusable \<Rightarrow> on_assignment_verified C job (ar_assignment a) r smp c reusable now s
         | AssignmentFailed job a attempt d c health sh \<Rightarrow> on_assignment_failed E job (ar_assignment a) attempt d c health now s
         | DestinationCommitted job n d \<Rightarrow> finish_job E job (Inr (n, d)) s
         | DestinationFailed job f \<Rightarrow> finish_job E job (Inl (destination_message f)) s
         | Origin_RateLimited i after \<Rightarrow> Some (on_rate_limited i after now s)
         | TimerExpired ev \<Rightarrow> on_timer E ev now s
         | SourceRefreshed job url hs \<Rightarrow> on_source_refreshed C job url hs now s
         | CredentialRefreshFailed job st \<Rightarrow>
             finish_job E job (Inl (''credentials rejected ('' @ show_nat (unat st) @ '') and refresh failed'')) s)"

definition handle :: "'u ctl_env \<Rightarrow> 'u observation \<Rightarrow> instant \<Rightarrow> controller \<Rightarrow> (action list \<times> controller) option" where
  "handle C obs now s = map_option (\<lambda>t. (acts t, t\<lparr>acts := []\<rparr>)) (react C obs now (s\<lparr>acts := []\<rparr>))"

end
