(* ===== verification/Controller_Steps.thy ===== *)
theory Controller_Steps
  imports Controller_Observe Segment_Steps
begin

text \<open>
  The controller as a state machine. \<open>ctl_step\<close> lists the primitive changes that
  \<^verbatim>\<open>core/controller.rs\<close> makes to its state, with the guard under which the code makes each of them; every
  observation handler is shown to be a sequence of such changes. Invariants of the controller are
  proved step by step in theory \<open>Controller_Inv\<close>.
\<close>

section \<open>Steps\<close>

text \<open>Actions that are not tied to one of the steps below.\<close>

fun plain_action :: "action \<Rightarrow> bool" where
  "plain_action (OpenConnection _ _ _ _ _ _) \<longleftrightarrow> False"
| "plain_action (StartAssignment _ _ _ _ _ _) \<longleftrightarrow> False"
| "plain_action (StartFullBody _ _ _ _) \<longleftrightarrow> False"
| "plain_action (CommitDestination _ _ _) \<longleftrightarrow> False"
| "plain_action (FailJob _ _) \<longleftrightarrow> False"
| "plain_action (CompleteJob _ _ _ _) \<longleftrightarrow> False"
| "plain_action _ \<longleftrightarrow> True"

definition job_frame :: "(job_node \<Rightarrow> job_node) \<Rightarrow> bool" where
  "job_frame f \<longleftrightarrow> (\<forall>j. jn_id (f j) = jn_id j \<and> jn_destination (f j) = jn_destination j \<and>
     jn_artifact (f j) = jn_artifact j \<and> jn_sources (f j) = jn_sources j \<and> plan (f j) = plan j \<and>
     jn_total_length (f j) = jn_total_length j)"

definition conn_frame :: "(connection_node \<Rightarrow> connection_node) \<Rightarrow> bool" where
  "conn_frame h \<longleftrightarrow> (\<forall>c. cn_id (h c) = cn_id c \<and> cn_origin (h c) = cn_origin c \<and> path (h c) = path c \<and>
     cn_shard (h c) = cn_shard c)"

definition outcome_action :: "job_id \<Rightarrow> job_node \<Rightarrow> (string + u64 \<times> digest option) \<Rightarrow> action" where
  "outcome_action job j out =
     (case out of Inr (n, d) \<Rightarrow> CompleteJob job n d (resumed_bytes j) | Inl e \<Rightarrow> FailJob job e)"

definition full_plan :: "job_node \<Rightarrow> segment_plan" where
  "full_plan j =
     set_single_stream True (plan_new (jn_total_length j) (case plan j of None \<Rightarrow> rs_new | Some q \<Rightarrow> completed q)
       (segmentation (jn_policy j)) (piece_duration_target (jn_urgency j)) 0)"

inductive ctl_step :: "world_env \<Rightarrow> controller \<Rightarrow> controller \<Rightarrow> bool" for E where
  c_emit: "plain_action a \<Longrightarrow> ctl_step E s (emit a s)"
| c_dial: "origin_of s i \<noteq> None \<Longrightarrow> dial_connection E i ep (place_shard s) h3 srv now s = (c, t) \<Longrightarrow> ctl_step E s t"
| c_drop: "ctl_step E s (drop_connection c s)"
| c_finish: "job_of s job = Some j \<Longrightarrow>
     ctl_step E s (emit (outcome_action job j out) (upd_world (remove_job job) s))"
| c_claim: "active_assignment_count s < unat (engine_max_active_assignments s) \<Longrightarrow>
     in_flight_on s c < stream_capacity s c \<Longrightarrow> claim_one E c now s = Some (b, t) \<Longrightarrow> ctl_step E s t"
| c_release: "ctl_step E s (release_assignment_slot c s)"
| c_job: "job_frame f \<Longrightarrow> (\<And>j. job_of s job = Some j \<Longrightarrow> resume (f j) = resume j \<or> resume (f j) = None \<or> jn_total_length j = None) \<Longrightarrow>
     ctl_step E s (upd_job job f s)"
| c_plan: "Option.bind (job_of s job) plan = Some p \<Longrightarrow> controller_step p q \<Longrightarrow> ctl_step E s (set_plan job q s)"
| c_probed: "ctl_step E s (upd_job job (probed_node supports len et lm) s)"
| c_full: "job_of s job = Some j \<Longrightarrow>
     ctl_step E s (upd_job job (\<lambda>j'. j'\<lparr>jn_supports_ranges := False, plan := Some (full_plan j)\<rparr>) s)"
| c_commit: "job_of s job = Some j \<Longrightarrow> plan j = Some p \<Longrightarrow> plan_is_complete p \<Longrightarrow> plan_total p = Some len \<Longrightarrow>
     ctl_step E s (emit (CommitDestination job len (integrity_check (jn_integrity j)))
       (upd_job job (\<lambda>j. j\<lparr>phase := Committing\<rparr>) s))"
| c_conn: "conn_frame h \<Longrightarrow> ctl_step E s (upd_conn c h s)"
| c_source: "ctl_step E s (upd_source i g s)"
| c_kept: "kept (world s) w \<Longrightarrow> ctl_step E s (s\<lparr>world := w\<rparr>)"
| c_books: "ctl_step E s (s\<lparr>origin_verified := va, origin_avg_handshake := vb, origin_generation := vc,
     origin_last_invalidation := vd, connection_state := ve, origin_state := vf, origin_admission := vg\<rparr>)"

abbreviation ctl_steps :: "world_env \<Rightarrow> controller \<Rightarrow> controller \<Rightarrow> bool" where
  "ctl_steps E \<equiv> (ctl_step E)\<^sup>*\<^sup>*"

section \<open>The primitive operations\<close>

text \<open>Each rule extends a sequence of steps by one operation; \<open>total\<close> collects those of total operations,
  \<open>partial\<close> those of operations that may fail.\<close>

named_theorems total "extending a sequence of controller steps by a total operation"
named_theorems partial "extending a sequence of controller steps by an operation that may fail"

lemma steps_refl [total]: "ctl_steps E s s" by simp

lemma steps_emit [total]: "plain_action a \<Longrightarrow> ctl_steps E s t \<Longrightarrow> ctl_steps E s (emit a t)"
  by (blast intro: c_emit rtranclp.rtrancl_into_rtrancl)

lemma steps_drop [total]: "ctl_steps E s t \<Longrightarrow> ctl_steps E s (drop_connection c t)"
  by (blast intro: c_drop rtranclp.rtrancl_into_rtrancl)

lemma steps_release [total]: "ctl_steps E s t \<Longrightarrow> ctl_steps E s (release_assignment_slot c t)"
  by (blast intro: c_release rtranclp.rtrancl_into_rtrancl)

lemma steps_job [total]:
  "job_frame f \<Longrightarrow> (\<And>j. resume (f j) = resume j) \<Longrightarrow> ctl_steps E s t \<Longrightarrow> ctl_steps E s (upd_job job f t)"
  by (blast intro: c_job rtranclp.rtrancl_into_rtrancl)

lemma steps_plan:
  "Option.bind (job_of t job) plan = Some p \<Longrightarrow> controller_step p q \<Longrightarrow> ctl_steps E s t \<Longrightarrow> ctl_steps E s (set_plan job q t)"
  by (blast intro: c_plan rtranclp.rtrancl_into_rtrancl)

lemma steps_conn [total]: "conn_frame h \<Longrightarrow> ctl_steps E s t \<Longrightarrow> ctl_steps E s (upd_conn c h t)"
  by (blast intro: c_conn rtranclp.rtrancl_into_rtrancl)

lemma steps_source [total]: "ctl_steps E s t \<Longrightarrow> ctl_steps E s (upd_source i g t)"
  by (blast intro: c_source rtranclp.rtrancl_into_rtrancl)

lemma steps_kept: "kept (world t) w \<Longrightarrow> ctl_steps E s t \<Longrightarrow> ctl_steps E s (t\<lparr>world := w\<rparr>)"
  by (blast intro: c_kept rtranclp.rtrancl_into_rtrancl)

lemma steps_origin [total]:
  "(\<And>n. connections_of (g n) = connections_of n) \<Longrightarrow> ctl_steps E s t \<Longrightarrow> ctl_steps E s (upd_origin i g t)"
  unfolding upd_origin_def by (intro steps_kept kept_origins) auto

lemma steps_endpoint [total]: "ctl_steps E s t \<Longrightarrow> ctl_steps E s (upd_endpoint i g t)"
  unfolding upd_endpoint_def by (intro steps_kept kept_endpoints) (auto simp: maps_ok_def)

lemma steps_world [total]:
  "ctl_steps E s t \<Longrightarrow> ctl_steps E s (upd_world (clear_endpoint_failures c) t)"
  "ctl_steps E s t \<Longrightarrow> ctl_steps E s (upd_world (note_endpoint_failure c) t)"
  "ctl_steps E s t \<Longrightarrow> ctl_steps E s (upd_world (note_endpoint_sample c smp now) t)"
  unfolding upd_world_def by (intro steps_kept kept_failures kept_sample; assumption)+

lemma steps_books: "ctl_steps E s t \<Longrightarrow>
    ctl_steps E s (t\<lparr>origin_verified := va, origin_avg_handshake := vb, origin_generation := vc,
     origin_last_invalidation := vd, connection_state := ve, origin_state := vf, origin_admission := vg\<rparr>)"
  by (blast intro: c_books rtranclp.rtrancl_into_rtrancl)

text \<open>The single fields.\<close>

lemma steps_book [total]:
  assumes "ctl_steps E s t"
  shows "ctl_steps E s (t\<lparr>origin_verified := x1\<rparr>)" "ctl_steps E s (t\<lparr>origin_avg_handshake := x2\<rparr>)"
    "ctl_steps E s (t\<lparr>origin_generation := x3, origin_last_invalidation := x4\<rparr>)"
    "ctl_steps E s (t\<lparr>origin_last_invalidation := x4\<rparr>)" "ctl_steps E s (t\<lparr>connection_state := x5\<rparr>)"
    "ctl_steps E s (t\<lparr>origin_state := x6\<rparr>)" "ctl_steps E s (t\<lparr>origin_admission := x7\<rparr>)"
proof -
  note b = steps_books [OF assms]
  show "ctl_steps E s (t\<lparr>origin_verified := x1\<rparr>)"
    using b [where va = x1 and vb = "origin_avg_handshake t" and vc = "origin_generation t" and vd = "origin_last_invalidation t" and ve = "connection_state t" and vf = "origin_state t" and vg = "origin_admission t"] by simp
  show "ctl_steps E s (t\<lparr>origin_avg_handshake := x2\<rparr>)"
    using b [where va = "origin_verified t" and vb = x2 and vc = "origin_generation t" and vd = "origin_last_invalidation t" and ve = "connection_state t" and vf = "origin_state t" and vg = "origin_admission t"] by simp
  show "ctl_steps E s (t\<lparr>origin_generation := x3, origin_last_invalidation := x4\<rparr>)"
    using b [where va = "origin_verified t" and vb = "origin_avg_handshake t" and vc = x3 and vd = x4 and ve = "connection_state t" and vf = "origin_state t" and vg = "origin_admission t"] by simp
  show "ctl_steps E s (t\<lparr>origin_last_invalidation := x4\<rparr>)"
    using b [where va = "origin_verified t" and vb = "origin_avg_handshake t" and vc = "origin_generation t" and vd = x4 and ve = "connection_state t" and vf = "origin_state t" and vg = "origin_admission t"] by simp
  show "ctl_steps E s (t\<lparr>connection_state := x5\<rparr>)"
    using b [where va = "origin_verified t" and vb = "origin_avg_handshake t" and vc = "origin_generation t" and vd = "origin_last_invalidation t" and ve = x5 and vf = "origin_state t" and vg = "origin_admission t"] by simp
  show "ctl_steps E s (t\<lparr>origin_state := x6\<rparr>)"
    using b [where va = "origin_verified t" and vb = "origin_avg_handshake t" and vc = "origin_generation t" and vd = "origin_last_invalidation t" and ve = "connection_state t" and vf = x6 and vg = "origin_admission t"] by simp
  show "ctl_steps E s (t\<lparr>origin_admission := x7\<rparr>)"
    using b [where va = "origin_verified t" and vb = "origin_avg_handshake t" and vc = "origin_generation t" and vd = "origin_last_invalidation t" and ve = "connection_state t" and vf = "origin_state t" and vg = x7] by simp
qed

lemma frame_simps [simp]:
  "job_frame f \<longleftrightarrow> (\<forall>j. jn_id (f j) = jn_id j \<and> jn_destination (f j) = jn_destination j \<and>
     jn_artifact (f j) = jn_artifact j \<and> jn_sources (f j) = jn_sources j \<and> plan (f j) = plan j \<and>
     jn_total_length (f j) = jn_total_length j)"
  "conn_frame h \<longleftrightarrow> (\<forall>c. cn_id (h c) = cn_id c \<and> cn_origin (h c) = cn_origin c \<and> path (h c) = path c \<and>
     cn_shard (h c) = cn_shard c)"
  by (simp_all add: job_frame_def conn_frame_def)

lemma steps_generation [total]: "ctl_steps E s t \<Longrightarrow> ctl_steps E s (bump_generation i now t)"
  by (simp add: bump_generation_def total)

lemma steps_verified [total]: "ctl_steps E s t \<Longrightarrow> ctl_steps E s (bump_verified i n t)"
  by (simp add: bump_verified_def total)

lemma steps_close [total]: "ctl_steps E s t \<Longrightarrow> ctl_steps E s (close_connection c t)"
  by (simp add: close_connection_def total)

lemma steps_foldl: "(\<And>t x. ctl_steps E s t \<Longrightarrow> ctl_steps E s (f t x)) \<Longrightarrow> ctl_steps E s t \<Longrightarrow> ctl_steps E s (foldl f t xs)"
  by (induction xs arbitrary: t) auto

lemma steps_for_each:
  "(\<And>x t u. f x t = Some u \<Longrightarrow> ctl_steps E s t \<Longrightarrow> ctl_steps E s u) \<Longrightarrow> for_each f xs t = Some u \<Longrightarrow>
     ctl_steps E s t \<Longrightarrow> ctl_steps E s u"
  by (induction xs arbitrary: t) (auto simp: Option.bind_eq_Some_conv)

section \<open>The methods\<close>

lemma any_endpoint_origin: "any_endpoint s i now = Some ep \<Longrightarrow> origin_of s i \<noteq> None"
  by (simp add: any_endpoint_def select_endpoint_def origin_of_def split: option.splits)

lemma steps_dial_connection:
  "dial_connection E i ep (place_shard t) h3 srv now t = (c, u) \<Longrightarrow> origin_of t i \<noteq> None \<Longrightarrow> ctl_steps E s t \<Longrightarrow> ctl_steps E s u"
  by (blast intro: c_dial rtranclp.rtrancl_into_rtrancl)

lemma steps_dial_origin:
  "origin_of t i \<noteq> None \<Longrightarrow> ctl_steps E s t \<Longrightarrow> ctl_steps E s (dial E i ep h3 srv now t)"
  unfolding dial_def
  by (cases "dial_connection E i ep (place_shard t) h3 srv now t") (simp add: steps_dial_connection)

lemma steps_dial:
  "any_endpoint t i now' = Some ep \<Longrightarrow> ctl_steps E s t \<Longrightarrow> ctl_steps E s (dial E i ep h3 srv now t)"
  by (simp add: steps_dial_origin any_endpoint_origin)

lemma steps_open [total]: "ctl_steps E s t \<Longrightarrow> ctl_steps E s (open_one_connection E i now h3 t)"
  by (auto simp: open_one_connection_def intro: steps_dial split: option.splits)

lemma steps_ensure_round:
  "ctl_steps E s t \<Longrightarrow> ctl_steps E s (snd (ensure_round E i now t))"
  by (auto simp: ensure_round_def Let_def intro!: total steps_dial split: option.splits)

lemma steps_ensure [partial]: "ensure_probes E i now t = Some u \<Longrightarrow> ctl_steps E s t \<Longrightarrow> ctl_steps E s u"
proof -
  assume st: "ctl_steps E s t" and u: "ensure_probes E i now t = Some u"
  have "ctl_steps E s v" if loop: "ensure_loop E i now t = Some v" for v
  proof -
    from loop obtain b where w: "while_option fst (\<lambda>(_, t). ensure_round E i now t) (True, t) = Some (b, v)"
      by (auto simp: ensure_loop_def)
    have "ctl_steps E s (snd (b, v))"
    proof (rule while_option_rule [where P = "\<lambda>x. ctl_steps E s (snd x)", OF _ w])
      show "ctl_steps E s (snd (case x of (_, t) \<Rightarrow> ensure_round E i now t))" if "ctl_steps E s (snd x)" for x
        using steps_ensure_round [OF that] by (simp add: case_prod_beta)
    qed (simp add: st)
    then show ?thesis by simp
  qed
  then show ?thesis using u st by (auto simp: ensure_probes_def split: option.splits if_splits)
qed

lemma best_connection_room: "best_connection conns s = Some c \<Longrightarrow> in_flight_on s c < stream_capacity s c"
proof -
  have "x \<in> set xs" if "min_by_key k xs = Some x" for k :: "connection_id \<Rightarrow> nat" and x xs
  proof -
    have "foldl (\<lambda>b y. if k y < k b then y else b) z zs \<in> insert z (set zs)" for z zs
      by (induction zs arbitrary: z) (auto split: if_splits)
    then show ?thesis using that by (cases xs) auto
  qed
  then show "best_connection conns s = Some c \<Longrightarrow> ?thesis" by (fastforce simp: best_connection_def)
qed

lemma steps_pump_loop: "pump_loop E conns now t = Some u \<Longrightarrow> ctl_steps E s t \<Longrightarrow> ctl_steps E s u"
proof (induction E conns now t rule: pump_loop.induct)
  case (1 E conns now t)
  show ?case
  proof (cases "unat (engine_max_active_assignments t) \<le> active_assignment_count t \<or> best_connection conns t = None")
    case True
    then have "pump_loop E conns now t = Some t" by (subst pump_loop.simps) auto
    then show ?thesis using 1(2,3) by simp
  next
    case False
    then obtain c where c: "best_connection conns t = Some c" and m: "\<not> unat (engine_max_active_assignments t) \<le> active_assignment_count t"
      by auto
    then obtain b v where v: "claim_one E c now t = Some (b, v)"
      using 1(2) by (subst (asm) pump_loop.simps) (auto split: option.splits)
    have "ctl_steps E s v"
      using 1(3) c_claim [OF _ best_connection_room [OF c] v] m by (auto intro: rtranclp.rtrancl_into_rtrancl)
    moreover have "pump_loop E conns now t = (if b then pump_loop E conns now v else Some v)"
      using c m v by (subst pump_loop.simps) simp
    ultimately show ?thesis using 1(1) [OF m c v] 1(2) by (cases b) auto
  qed
qed

lemma steps_pump [partial]: "pump E i now t = Some u \<Longrightarrow> ctl_steps E s t \<Longrightarrow> ctl_steps E s u"
  by (auto simp: pump_def intro: steps_pump_loop)

lemma steps_scale_loop: "ctl_steps E s t \<Longrightarrow> ctl_steps E s (scale_loop E i now target t)"
proof (induction E i now target t rule: scale_loop.induct)
  case (1 E i now target t)
  then show ?case by (subst scale_loop.simps) (auto intro: steps_dial split: option.splits)
qed

lemma steps_scale [total]: "ctl_steps E s t \<Longrightarrow> ctl_steps E s (scale_connections E i now t)"
  by (auto simp: scale_connections_def Let_def intro: steps_scale_loop split: option.splits)

lemma steps_finish [partial]: "finish_job E job out t = Some u \<Longrightarrow> ctl_steps E s t \<Longrightarrow> ctl_steps E s u"
  by (auto simp: finish_job_def outcome_action_def [symmetric] split: option.splits
      intro: steps_ensure c_finish rtranclp.rtrancl_into_rtrancl)

lemma steps_drain [partial]: "try_complete_drain E job t = Some u \<Longrightarrow> ctl_steps E s t \<Longrightarrow> ctl_steps E s u"
  by (auto simp: try_complete_drain_def intro: steps_finish split: option.splits if_splits)

lemma steps_begin_fail [partial]: "begin_fail E job err t = Some u \<Longrightarrow> ctl_steps E s t \<Longrightarrow> ctl_steps E s u"
  by (auto simp: begin_fail_def elim!: steps_drain intro!: total split: option.splits if_splits)

lemma steps_retry_resolve [partial]: "retry_resolve E job now t = Some u \<Longrightarrow> ctl_steps E s t \<Longrightarrow> ctl_steps E s u"
  by (auto simp: retry_resolve_def intro: steps_finish intro!: steps_emit steps_job split: option.splits if_splits)

lemma steps_activate: "activate_next_source job t = (b, u) \<Longrightarrow> ctl_steps E s t \<Longrightarrow> ctl_steps E s u"
  by (auto simp: activate_next_source_def intro!: total split: option.splits)

lemma steps_intent_failed [partial]:
  "on_intent_connect_failed E job src kind i now t = Some u \<Longrightarrow> ctl_steps E s t \<Longrightarrow> ctl_steps E s u"
  by (auto simp: on_intent_connect_failed_def intro: steps_begin_fail steps_retry_resolve steps_activate
      split: if_splits prod.splits bool.splits)

section \<open>Experiments and rebalancing\<close>

lemma steps_parallel [partial]: "open_parallel_connection E i now r t = Some u \<Longrightarrow> ctl_steps E s t \<Longrightarrow> ctl_steps E s u"
  by (auto simp: open_parallel_connection_def Let_def elim!: steps_pump intro!: steps_origin
      intro: steps_dial_connection dest: any_endpoint_origin split: option.splits if_splits prod.splits)

lemma steps_early [partial]:
  "consider_early_connection_scale E i now smp t = Some u \<Longrightarrow> ctl_steps E s t \<Longrightarrow> ctl_steps E s u"
  by (auto simp: consider_early_connection_scale_def Let_def intro: steps_parallel split: if_splits)

lemma steps_revert [total]: "ctl_steps E s t \<Longrightarrow> ctl_steps E s (revert v c i now t)"
  by (auto simp: revert_def revert_connection_def Let_def intro!: total split: topology_variable.splits option.splits)

lemma steps_judge [total]: "ctl_steps E s t \<Longrightarrow> ctl_steps E s (judge_experiment d v i now t)"
  by (auto simp: judge_experiment_def intro!: total)

lemma steps_try_connection: "try_connection E d i now t = Some u \<Longrightarrow> ctl_steps E s t \<Longrightarrow> ctl_steps E s u"
  by (auto simp: try_connection_def intro!: steps_origin intro: steps_dial_connection dest: any_endpoint_origin
      split: option.splits if_splits prod.splits)

lemma steps_try_streams: "try_streams d i now t = Some u \<Longrightarrow> ctl_steps E s t \<Longrightarrow> ctl_steps E s u"
  by (auto simp: try_streams_def Let_def intro!: total split: if_splits)

lemma steps_start_experiment: "start_experiment E d i now t = Some u \<Longrightarrow> ctl_steps E s t \<Longrightarrow> ctl_steps E s u"
  by (auto simp: start_experiment_def Let_def intro: steps_pump steps_try_connection steps_try_streams
      split: option.splits topology_variable.splits)

lemma steps_evaluate [partial]: "evaluate_experiment E d i now t = Some u \<Longrightarrow> ctl_steps E s t \<Longrightarrow> ctl_steps E s u"
  by (auto simp: evaluate_experiment_def intro: steps_start_experiment total split: option.splits if_splits)

lemma steps_close_drained [total]: "ctl_steps E s t \<Longrightarrow> ctl_steps E s (close_drained t)"
  unfolding close_drained_def by (intro steps_foldl steps_close)

lemma steps_repoll [total]: "ctl_steps E s t \<Longrightarrow> ctl_steps E s (repoll_draining now t)"
  unfolding repoll_draining_def by (intro steps_foldl steps_emit) auto

lemma steps_measure: "measure_window E i now t = Some (d, u) \<Longrightarrow> ctl_steps E s t \<Longrightarrow> ctl_steps E s u"
  by (auto simp: measure_window_def Let_def intro!: total split: option.splits if_splits)

lemma steps_decide [partial]: "adaptive_decide E i now t = Some u \<Longrightarrow> ctl_steps E s t \<Longrightarrow> ctl_steps E s u"
  by (auto simp: adaptive_decide_def Let_def elim!: steps_evaluate intro!: total intro: steps_measure split: option.splits)

lemma steps_adaptive_tick [partial]: "adaptive_tick E i now t = Some u \<Longrightarrow> ctl_steps E s t \<Longrightarrow> ctl_steps E s u"
  by (auto simp: adaptive_tick_def Let_def elim!: steps_decide intro!: total split: option.splits if_splits)

lemma steps_start_adaptive [total]: "ctl_steps E s t \<Longrightarrow> ctl_steps E s (start_adaptive i now t)"
  by (auto simp: start_adaptive_def Let_def intro!: total split: option.splits)

lemma steps_sample [total]: "ctl_steps E s t \<Longrightarrow> ctl_steps E s (retry_pending_mirror_sample job t)"
  by (auto simp: retry_pending_mirror_sample_def sample_one_def Let_def intro!: total steps_foldl split: option.splits)

lemma steps_rebalance_job [total]: "ctl_steps E s t \<Longrightarrow> ctl_steps E s (rebalance_job now t job)"
proof (cases "Option.bind (job_of t job) plan")
  case (Some p)
  assume "ctl_steps E s t"
  then have "ctl_steps E s (set_plan job (snd (rebalance_stragglers p now)) t)"
    by (rule steps_plan [OF Some ctl_rebalance])
  moreover have "ctl_steps E s (truncate_cut job ce v)" if "ctl_steps E s v" for ce v
    using that by (auto simp: truncate_cut_def intro!: total split: option.splits)
  ultimately show ?thesis by (simp add: rebalance_job_def Some case_prod_beta steps_foldl)
qed (simp add: rebalance_job_def)

lemma steps_mix [total]: "ctl_steps E s t \<Longrightarrow> ctl_steps E s (mix_mirror E now t job)"
  by (auto simp: mix_mirror_def Let_def intro!: total steps_dial split: option.splits)

lemma steps_rebalance_tick [partial]: "rebalance_tick E i now t = Some u \<Longrightarrow> ctl_steps E s t \<Longrightarrow> ctl_steps E s u"
proof -
  assume st: "ctl_steps E s t" and u: "rebalance_tick E i now t = Some u"
  define v where "v = foldl (rebalance_job now)
     (if map fst (transferring_on t i) \<noteq> [] then emit (ScheduleTimer (now + REBALANCE_INTERVAL) (RebalanceTick i)) t else t)
     (map fst (transferring_on t i))"
  have "ctl_steps E s v" unfolding v_def using st by (intro steps_foldl steps_rebalance_job) (auto intro!: total)
  then have "ctl_steps E s (foldl (mix_mirror E now) v xs)" for xs by (rule steps_foldl [rotated]) (rule steps_mix)
  moreover define w where "w = (if length (connections (world v)) < unat (engine_max_connections v)
      then foldl (mix_mirror E now) v (map fst (filter (\<lambda>(_, j). phase j = Transferring \<and> strong_equivalence j \<and>
         (unused_sources j \<noteq> [] \<or> probing_sources j \<noteq> [])) (jobs (world v)))) else v)"
  ultimately have "ctl_steps E s w" using \<open>ctl_steps E s v\<close> by simp
  moreover have "rebalance_tick E i now t = (if transferring_on w i \<noteq> [] then pump E i now w else Some w)"
    unfolding rebalance_tick_def Let_def w_def v_def ..
  ultimately show ?thesis using u by (auto intro: steps_pump split: if_splits)
qed

section \<open>Dispositions\<close>

lemma steps_give_back [total]: "ctl_steps E s t \<Longrightarrow> ctl_steps E s (give_back job a rp m now t)"
  by (auto simp: give_back_def intro!: steps_plan intro: ctl_abandon ctl_fail split: option.splits)

lemma steps_cool [total]: "ctl_steps E s t \<Longrightarrow> ctl_steps E s (cool_origin_of job d now t)"
  by (auto simp: cool_origin_of_def intro!: total split: option.splits)

lemma steps_full_body [total]: "ctl_steps E s t \<Longrightarrow> ctl_steps E s (on_full_body E job now t)"
  by (auto simp: on_full_body_def Let_def full_plan_def [symmetric] intro!: steps_open split: option.splits
      intro: c_full rtranclp.rtrancl_into_rtrancl)

lemma steps_evict [total]: "ctl_steps E s t \<Longrightarrow> ctl_steps E s (evict_rider job c now t v)"
proof -
  assume st: "ctl_steps E s t"
  have "ctl_steps E s (set_plan (fst v) q t)" if "Option.bind (job_of t (fst v)) plan = Some p" "abandon p (snd v) = (a, q)" for p a q
    using steps_plan [OF that(1) ctl_abandon st, of "snd v"] that(2) by simp
  then show ?thesis using st by (auto simp: evict_rider_def Let_def intro!: total split: option.splits prod.splits)
qed

lemma steps_quarantine [partial]: "on_quarantine E job c reason now t = Some u \<Longrightarrow> ctl_steps E s t \<Longrightarrow> ctl_steps E s u"
proof -
  assume st: "ctl_steps E s t" and u: "on_quarantine E job c reason now t = Some u"
  have ev: "ctl_steps E s (foldl (evict_rider job k now) w vs)" if "ctl_steps E s w" for w k vs
    by (rule steps_foldl [OF _ that]) (rule steps_evict)
  have "ctl_steps E s (foldl (\<lambda>t sid. upd_job job (quarantine_source sid) t) t xs)" for xs
    using st by (intro steps_foldl) (auto intro!: total simp: quarantine_source_def)
  then have rep: "ctl_steps E s (emit (ReportSourceQuarantined job xs reason)
      (foldl (\<lambda>t sid. upd_job job (quarantine_source sid) t) t xs))" for xs
    by (auto intro!: steps_emit)
  define xs where "xs = (case (job_of t job, Option.bind c (conn_of t)) of
      (Some j, Some n) \<Rightarrow> sources_at t j (cn_origin n) | _ \<Rightarrow> [])"
  define v where "v = emit (ReportSourceQuarantined job xs reason)
      (foldl (\<lambda>t sid. upd_job job (quarantine_source sid) t) t xs)"
  define w where "w = (case c of None \<Rightarrow> v | Some k \<Rightarrow> foldl (evict_rider job k now) v (riders v k))"
  have "ctl_steps E s w" using rep [of xs] ev by (auto simp: w_def v_def split: option.splits)
  moreover have "on_quarantine E job c reason now t =
     (if xs = [] then finish_job E job (Inl (''artifact inconsistent across sources: '' @ reason)) t
      else if (case job_of w job of None \<Rightarrow> False | Some j \<Rightarrow> active_sources j \<noteq> []) then Some w
      else (case activate_next_source job w of
              (True, t) \<Rightarrow> Some t
            | (False, t) \<Rightarrow> finish_job E job (Inl (''all sources failed or were quarantined: '' @ reason)) t))"
    unfolding on_quarantine_def Let_def w_def v_def xs_def ..
  ultimately show ?thesis
    using u st by (auto intro: steps_finish steps_activate split: if_splits prod.splits bool.splits)
qed

lemma steps_act [partial]:
  "act_on_disposition E job a r d rp att m c now t = Some u \<Longrightarrow> ctl_steps E s t \<Longrightarrow> ctl_steps E s u"
  by (cases d) (auto simp: act_on_disposition_def on_retry_def on_refresh_credentials_def on_recheck_length_def on_fatal_def Let_def
      intro!: total elim!: steps_finish intro: steps_begin_fail steps_quarantine steps_activate
      split: option.splits if_splits prod.splits bool.splits)

lemma steps_disposition [partial]:
  "handle_assignment_disposition E job a r d att c now t = Some u \<Longrightarrow> ctl_steps E s t \<Longrightarrow> ctl_steps E s u"
  by (auto simp: handle_assignment_disposition_def Let_def Option.bind_eq_Some_conv elim!: steps_act
      intro: steps_drain total split: if_splits)

section \<open>Completed plans\<close>

definition plan_complete :: "job_id \<Rightarrow> controller \<Rightarrow> bool" where
  "plan_complete job s \<longleftrightarrow> (\<exists>j p. job_of s job = Some j \<and> plan j = Some p \<and> plan_is_complete p)"

lemma job_of_upd [simp]:
  "job_of (upd_job k f s) job = (if job = k then map_option f (job_of s job) else job_of s job)"
proof -
  have "sm_get (sm_update k f m) job = (if job = k then map_option f (sm_get m job) else sm_get m job)" for m
    by (induction m) (auto simp: sm_get_def sm_update_def)
  then show ?thesis by (simp add: job_of_def upd_job_def)
qed

lemma job_of_other [simp]:
  "job_of (emit a s) = job_of s" "job_of (upd_conn c h s) = job_of s" "job_of (upd_origin i g s) = job_of s"
  "job_of (s\<lparr>origin_last_invalidation := m\<rparr>) = job_of s"
  by (simp_all add: fun_eq_iff job_of_def emit_def upd_conn_def upd_origin_def)

lemma job_of_dial [simp]: "job_of (snd (dial_connection E i ep k h3 srv now s)) = job_of s"
  by (simp add: dial_connection_def Let_def allocate_connection_def case_prod_beta inc_shard_load_def
      fun_eq_iff job_of_def emit_def upd_conn_def)

lemma plan_complete_same: "job_of t = job_of s \<Longrightarrow> plan_complete job t = plan_complete job s"
  by (simp add: plan_complete_def)

lemma plan_complete_simps [simp]:
  "plan_complete job (emit a s) = plan_complete job s" "plan_complete job (upd_conn c h s) = plan_complete job s"
  "plan_complete job (snd (dial_connection E i ep k h3 srv now s)) = plan_complete job s"
  by (simp_all add: plan_complete_def)

lemma plan_complete_upd: "(\<And>j. plan (f j) = plan j) \<Longrightarrow> plan_complete job (upd_job k f s) = plan_complete job s"
  by (auto simp: plan_complete_def)

lemma plan_complete_ensure:
  assumes "ensure_probes E i now s = Some t" "plan_complete job s"
  shows "plan_complete job t"
proof -
  have round: "plan_complete job (snd (ensure_round E i now u))" if "plan_complete job u" for u
    using that by (auto simp: ensure_round_def Let_def dial_def plan_complete_upd split: option.splits)
  have "plan_complete job v" if loop: "ensure_loop E i now s = Some v" for v
  proof -
    from loop obtain b where w: "while_option fst (\<lambda>(_, t). ensure_round E i now t) (True, s) = Some (b, v)"
      by (auto simp: ensure_loop_def)
    have "plan_complete job (snd (b, v))"
    proof (rule while_option_rule [where P = "\<lambda>x. plan_complete job (snd x)", OF _ w])
      show "plan_complete job (snd (case x of (_, t) \<Rightarrow> ensure_round E i now t))" if "plan_complete job (snd x)" for x
        using round [OF that] by (simp add: case_prod_beta)
    qed (simp add: assms(2))
    then show ?thesis by simp
  qed
  then show ?thesis using assms by (auto simp: ensure_probes_def split: option.splits if_splits)
qed

lemma plan_complete_start: "plan_complete job (start_adaptive i now s) = plan_complete job s"
  by (auto simp: start_adaptive_def Let_def intro!: plan_complete_same split: option.splits)

lemma job_of_scale: "job_of (scale_connections E i now s) = job_of s"
proof -
  have "job_of (scale_loop E i now target u) = job_of u" for target u
    by (induction E i now target u rule: scale_loop.induct) (subst scale_loop.simps, auto simp: dial_def split: option.splits)
  then show ?thesis by (auto simp: scale_connections_def Let_def split: option.splits)
qed

lemma job_of_dial_h3: "job_of (dial_h3 E i alt now s) = job_of s"
  by (auto simp: dial_h3_def dial_def split: option.splits)

lemma jobs_drop: "jobs (world (drop_connection c s)) = map (\<lambda>(i, j). (i, forget_connection c j)) (jobs (world s))"
  by (auto simp: drop_connection_def Let_def forget_live_def dec_shard_load_def remove_connection_def split: option.splits)

lemma job_of_drop: "job_of (drop_connection c s) job = map_option (forget_connection c) (job_of s job)"
  by (simp add: job_of_def jobs_drop sm_get_def map_of_map)

lemma plan_complete_close:
  assumes "plan_complete job s"
  shows "plan_complete job (close_connection c s)"
proof -
  obtain j p where j: "job_of s job = Some j" "plan j = Some p" "plan_is_complete p"
    using assms by (auto simp: plan_complete_def)
  have "plan (forget_connection c j) = Some (p\<lparr>assignments := map (\<lambda>(i, a).
      (i, if a_connection a = Some c then a\<lparr>a_connection := None\<rparr> else a)) (assignments p)\<rparr>)"
    using j(2) by (simp add: forget_connection_def)
  moreover have "plan_is_complete (p\<lparr>assignments := m\<rparr>)" for m using j(3) by (simp add: plan_is_complete_def split: option.splits)
  ultimately show ?thesis using j(1) by (simp add: plan_complete_def close_connection_def job_of_drop)
qed

lemma steps_commit_complete: "plan_complete job t \<Longrightarrow> ctl_steps E s t \<Longrightarrow> ctl_steps E s (commit_complete job t)"
proof -
  assume st: "ctl_steps E s t" and "plan_complete job t"
  then obtain j p where j: "job_of t job = Some j" "plan j = Some p" "plan_is_complete p" by (auto simp: plan_complete_def)
  then obtain len where len: "plan_total p = Some len" by (auto simp: plan_is_complete_def split: option.splits)
  show ?thesis
    using c_commit [OF j len] st j(1,2) len
    by (auto simp: commit_complete_def opt_or_def opt_default_def intro: rtranclp.rtrancl_into_rtrancl)
qed

lemma steps_record_verified [total]: "ctl_steps E s t \<Longrightarrow> ctl_steps E s (record_verified job i r t)"
proof (cases "Option.bind (job_of t job) plan")
  case (Some p)
  assume st: "ctl_steps E s t"
  obtain j where j: "job_of t job = Some j" "plan j = Some p" using Some by (auto simp: Option.bind_eq_Some_conv)
  define q where "q = snd (finish_verified (on_response_verified p i r) i)"
  have v: "ctl_steps E s (set_plan job q t)" unfolding q_def by (rule steps_plan [OF Some ctl_response st])
  have "ctl_steps E s (emit (CommitDestination job len (integrity_check (jn_integrity j)))
      (upd_job job (\<lambda>j. j\<lparr>phase := Committing\<rparr>) (set_plan job q t)))" if "plan_is_complete q" "plan_total q = Some len" for len
    using c_commit [of "set_plan job q t" job "j\<lparr>plan := Some q\<rparr>" q len] that j v
    by (auto simp: set_plan_def intro: rtranclp.rtrancl_into_rtrancl)
  then show ?thesis using v j
    by (auto simp: record_verified_def Let_def q_def [symmetric] plan_is_complete_def split: option.splits)
qed (auto simp: record_verified_def Option.bind_eq_None_conv split: option.splits)

section \<open>Observations\<close>

text \<open>Resume evidence arrives with the admission of a job, before anything is known about its length.\<close>

fun obs_ok :: "'u observation \<Rightarrow> controller \<Rightarrow> bool" where
  "obs_ok (JobAdmitted job spec (Some ev)) s \<longleftrightarrow>
     (case job_of s job of None \<Rightarrow> True | Some j \<Rightarrow> jn_total_length j = None)"
| "obs_ok _ s \<longleftrightarrow> True"

lemma steps_admitted:
  assumes "on_job_admitted E job spec ev now s = Some t" "obs_ok (JobAdmitted job spec ev) s"
  shows "ctl_steps E s t"
proof -
  have "ctl_steps E s (upd_job job f s)" if "job_frame f" "\<And>j. resume (f j) = ev" for f
  proof -
    have "ctl_step E s (upd_job job f s)"
      by (rule c_job [OF that(1)]) (use assms(2) that(2) in \<open>cases ev; auto\<close>)
    then show ?thesis by (rule r_into_rtranclp)
  qed
  then show ?thesis using assms(1)
    by (auto simp: on_job_admitted_def Let_def elim!: steps_ensure intro!: steps_emit steps_generation split: option.splits if_splits)
qed

lemma steps_cancelled: "on_job_cancelled E job now t = Some u \<Longrightarrow> ctl_steps E s t \<Longrightarrow> ctl_steps E s u"
  by (auto simp: on_job_cancelled_def elim!: steps_drain intro!: total split: option.splits if_splits)

lemma steps_resolved:
  assumes "fresh_alloc E" "on_resolved E i addrs failed recs now t = Some u" "ctl_steps E s t"
  shows "ctl_steps E s u"
proof -
  define t1 where "t1 = upd_origin i (\<lambda>n. n\<lparr>advertises_h3 := list_ex (\<lambda>r. list_ex (\<lambda>p. p = ''h3'') (alpn r)) recs \<or> advertises_h3 n\<rparr>) t"
  obtain es w where w: "note_endpoints E i addrs (world t1) = Some (es, w)"
    using assms(2) by (auto simp: on_resolved_def Let_def t1_def split: option.splits)
  have "ctl_steps E s t1" unfolding t1_def using assms(3) by (auto intro!: total)
  then have t2: "ctl_steps E s (t1\<lparr>world := w\<rparr>)" by (rule steps_kept [OF kept_note_endpoints [OF assms(1) w]])
  have m: "ctl_steps E s (dial_mirror E i b now x y)" if "ctl_steps E s x" for b x y
    using that by (auto simp: dial_mirror_def drop_candidate_def intro!: total steps_dial split: option.splits)
  have "ctl_steps E s (foldl (dial_mirror E i b now) (t1\<lparr>world := w\<rparr>) ys)" for b ys
    by (rule steps_foldl [OF m t2])
  then show ?thesis using assms(2) w t2
    by (auto simp: on_resolved_def Let_def t1_def [symmetric] elim!: steps_ensure steps_retry_resolve
        intro!: steps_job steps_emit steps_dial split: option.splits if_splits)
qed

lemma steps_retire_losers [total]: "ctl_steps E s t \<Longrightarrow> ctl_steps E s (retire_losers c t)"
  by (auto simp: retire_losers_def intro!: steps_foldl steps_close split: option.splits)

lemma steps_use: "use_connection E c n now t = Some u \<Longrightarrow> ctl_steps E s t \<Longrightarrow> ctl_steps E s u"
  by (auto simp: use_connection_def probe_on_def Option.bind_eq_Some_conv intro!: steps_emit steps_close steps_job
      intro: steps_pump steps_ensure split: option.splits)

lemma steps_ready: "on_connection_ready E c h pr now t = Some u \<Longrightarrow> ctl_steps E s t \<Longrightarrow> ctl_steps E s u"
  by (auto simp: on_connection_ready_def Let_def clear_h3_failures_def note_handshake_def
      elim!: steps_use intro!: total split: option.splits if_splits)

lemma steps_failed: "on_connection_failed E c kind now t = Some u \<Longrightarrow> ctl_steps E s t \<Longrightarrow> ctl_steps E s u"
proof -
  assume st: "ctl_steps E s t" and u: "on_connection_failed E c kind now t = Some u"
  define v where "v = drop_connection c (case conn_of t c of
      None \<Rightarrow> upd_world (note_endpoint_failure c) (note_h3_failure c now t)
    | Some x \<Rightarrow> bump_generation (cn_origin x) now (upd_world (note_endpoint_failure c) (note_h3_failure c now t)))"
  obtain b w where w: "replace_h3 E (conn_of t c) now v = (b, w)" by fastforce
  have "ctl_steps E s v" unfolding v_def
    using st by (auto simp: note_h3_failure_def Let_def intro!: total split: option.splits)
  then have st': "ctl_steps E s w" using w by (auto simp: replace_h3_def intro: steps_open split: option.splits if_splits)
  have fe: "ctl_steps E s y" if "for_each (\<lambda>job. begin_fail E job err) ks w = Some y" for ks y err
    by (rule steps_for_each [OF steps_begin_fail that st'])
  have "on_connection_failed E c kind now t = (case conn_of t c of
           None \<Rightarrow> Some w
         | Some x \<Rightarrow>
             (case intent x of
                Intent_Probe job src \<Rightarrow>
                  if b then Some w else on_intent_connect_failed E job (Some src) kind (Some (cn_origin x)) now w
              | Intent_Mirror job src \<Rightarrow> Some (upd_job job (drop_candidate src) w)
              | Intent_Pool i \<Rightarrow>
                  if \<not> retryable kind
                  then for_each (\<lambda>job. begin_fail E job ''connection failed: tls'') (probing_on w i) w
                  else Some (open_one_connection E i now True w)))"
    using w by (simp add: on_connection_failed_def Let_def v_def split: prod.splits)
  then show ?thesis using u st'
    by (auto simp: drop_candidate_def intro: steps_intent_failed fe intro!: steps_job steps_open
        split: option.splits connection_intent.splits if_splits)
qed

lemma steps_undo: "undo_dispatch E op job a c i now t = Some u \<Longrightarrow> ctl_steps E s t \<Longrightarrow> ctl_steps E s u"
proof -
  assume st: "ctl_steps E s t" and u: "undo_dispatch E op job a c i now t = Some u"
  have fe: "ctl_steps E s y" if "for_each (\<lambda>k. retry_resolve E k now) ks t = Some y" for ks y
    by (rule steps_for_each [OF steps_retry_resolve that st])
  have dr: "ctl_steps E s y" if "retry_resolve E k now (drop_connection x t) = Some y" for k x y
    by (rule steps_retry_resolve [OF that steps_drop [OF st]])
  have dp: "ctl_steps E s y" if "handle_assignment_disposition E k x r d att c now (release_assignment_slot c t) = Some y" for k x r d att y
    by (rule steps_disposition [OF that steps_release [OF st]])
  show ?thesis using u st
    by (auto simp: undo_dispatch_def drop_candidate_def intro: fe dr dp steps_begin_fail steps_retry_resolve
        intro!: steps_job steps_drop split: option.splits if_splits connection_intent.splits)
qed

lemma steps_dispatch_failed: "on_dispatch_failed E op job a c i now t = Some u \<Longrightarrow> ctl_steps E s t \<Longrightarrow> ctl_steps E s u"
  by (auto simp: on_dispatch_failed_def Option.bind_eq_Some_conv[of "undo_dispatch E op job a c i now t"]
      intro: steps_undo steps_pump split: option.splits)

lemma steps_mirror_probed [total]: "ctl_steps E s t \<Longrightarrow> ctl_steps E s (mirror_probed job j c src b len r t)"
  by (auto simp: mirror_probed_def drop_candidate_def Let_def intro!: total)

lemma steps_probed_node [total]: "ctl_steps E s t \<Longrightarrow> ctl_steps E s (upd_job job (probed_node b len et lm) t)"
  by (blast intro: c_probed rtranclp.rtrancl_into_rtrancl)

lemma steps_dial_h3 [total]: "ctl_steps E s t \<Longrightarrow> ctl_steps E s (dial_h3 E i alt now t)"
  by (auto simp: dial_h3_def intro: steps_dial split: option.splits)

lemma steps_probed:
  assumes u: "on_probed E job c src b len et lm r alt now t = Some u" and st: "ctl_steps E s t"
  shows "ctl_steps E s u"
proof (cases "\<exists>j. job_of t job = Some j \<and> src \<notin> set (probing_sources j)")
  case False
  then show ?thesis using u st by (auto simp: on_probed_def intro: steps_mirror_probed split: option.splits if_splits)
next
  case True
  then obtain j where j: "job_of t job = Some j" "src \<notin> set (probing_sources j)" by blast
  define v where "v = upd_job job (probed_node b len et lm)
      (if evidence_rejected j len et lm then emit (ResetResumeData job) (note_alt_svc (jn_origin j) alt t) else note_alt_svc (jn_origin j) alt t)"
  define w where "w = upd_origin (jn_origin j) (raise_targets j) (v\<lparr>origin_admission := sec_insert (jn_origin j) now (origin_admission v)\<rparr>)"
  define x where "x = (if r then w else close_connection c w)"
  define y where "y = scale_connections E (jn_origin j) now (dial_h3 E (jn_origin j) alt now x)"
  have "ctl_steps E s v" unfolding v_def using st by (auto simp: note_alt_svc_def intro!: total split: option.splits)
  then have "ctl_steps E s w" unfolding w_def by (auto simp: raise_targets_def intro!: total)
  then have sy: "ctl_steps E s y" by (auto simp: y_def x_def intro!: total)
  let ?done = "plan_is_complete (the (plan (probed_node b len et lm j)))"
  have pc: "plan_complete job y" if "?done"
  proof -
    obtain p where "plan (probed_node b len et lm j) = Some p" by (simp add: probed_node_def Let_def)
    then have "plan_complete job v" using that j(1) by (auto simp: plan_complete_def v_def note_alt_svc_def split: option.splits)
    moreover have "job_of w = job_of v" by (simp add: w_def fun_eq_iff job_of_def upd_origin_def)
    ultimately have "plan_complete job w" by (simp add: plan_complete_def)
    then have "plan_complete job x" by (simp add: x_def plan_complete_close)
    then show ?thesis by (simp add: y_def plan_complete_def job_of_scale job_of_dial_h3)
  qed
  have "on_probed E job c src b len et lm r alt now t = Option.bind (ensure_probes E (jn_origin j) now y) (\<lambda>z.
      if ?done then Some (commit_complete job (start_adaptive (jn_origin j) now z))
      else pump E (jn_origin j) now (start_adaptive (jn_origin j) now z))"
    unfolding on_probed_def Let_def y_def x_def w_def v_def j(1) option.case using j(2) by (simp only: if_False)
  then have "Option.bind (ensure_probes E (jn_origin j) now y) (\<lambda>z.
      if ?done then Some (commit_complete job (start_adaptive (jn_origin j) now z))
      else pump E (jn_origin j) now (start_adaptive (jn_origin j) now z)) = Some u"
    using u by (rule trans [OF sym])
  then obtain z where z: "ensure_probes E (jn_origin j) now y = Some z"
    and fin: "(if ?done then Some (commit_complete job (start_adaptive (jn_origin j) now z))
       else pump E (jn_origin j) now (start_adaptive (jn_origin j) now z)) = Some u"
    unfolding Option.bind_eq_Some_conv by blast
  have sz: "ctl_steps E s (start_adaptive (jn_origin j) now z)" by (intro steps_start_adaptive steps_ensure [OF z sy])
  show ?thesis
  proof (cases ?done)
    case True
    have "plan_complete job (start_adaptive (jn_origin j) now z)"
      using plan_complete_ensure [OF z pc [OF True]] by (simp add: plan_complete_start)
    then have "ctl_steps E s (commit_complete job (start_adaptive (jn_origin j) now z))" using sz by (rule steps_commit_complete)
    then show ?thesis using fin True by simp
  next
    case False
    then show ?thesis using fin steps_pump [OF _ sz] by simp
  qed
qed

lemma steps_probe_failed: "on_probe_failed E job c src f health now t = Some u \<Longrightarrow> ctl_steps E s t \<Longrightarrow> ctl_steps E s u"
  by (auto simp: on_probe_failed_def drop_candidate_def elim!: steps_disposition intro!: total split: if_splits)

lemma steps_sampled: "on_mirror_sampled E job src c b r now t = Some u \<Longrightarrow> ctl_steps E s t \<Longrightarrow> ctl_steps E s u"
  by (auto simp: on_mirror_sampled_def Let_def elim!: steps_pump intro!: total split: option.splits if_splits)

lemma steps_cross:
  assumes "fresh_alloc (wenv C)" "ctl_steps (wenv C) s t"
  shows "ctl_steps (wenv C) s (follow_cross_origin C job c sid u key fwd t)"
proof -
  define t1 where "t1 = (if fwd then t else upd_source sid (\<lambda>n. let hs = strip_credentials (is_sensitive C) (sn_headers n)
       in n\<lparr>sn_headers := hs, sn_header_identity := fingerprint_of (url_ops_of C) (blake3_of C) u hs\<rparr>) t)"
  obtain i w where w: "get_or_create_origin (wenv C) key (world t1) = (i, w)" by fastforce
  have "ctl_steps (wenv C) s t1" using assms(2) by (auto simp: t1_def intro!: total)
  then have "ctl_steps (wenv C) s (t1\<lparr>world := w\<rparr>)" by (rule steps_kept [OF kept_origin_created [OF assms(1) w]])
  then show ?thesis unfolding follow_cross_origin_def Let_def t1_def [unfolded Let_def, symmetric] w prod.case
    by (auto intro!: total)
qed

lemma steps_redirect:
  assumes "fresh_alloc (wenv C)" "handle_probe_redirect C job c loc t = Some u" "ctl_steps (wenv C) s t"
  shows "ctl_steps (wenv C) s u"
  using assms(2,3) steps_cross [OF assms(1,3)] steps_finish [OF _ assms(3)]
  by (auto simp: handle_probe_redirect_def Let_def follow_same_origin_def intro!: steps_emit steps_job steps_source
      split: option.splits if_splits)

lemma steps_assignment_verified:
  "on_assignment_verified C job i r smp c b now t = Some u \<Longrightarrow> ctl_steps (wenv C) s t \<Longrightarrow> ctl_steps (wenv C) s u"
proof -
  assume st: "ctl_steps (wenv C) s t" and u: "on_assignment_verified C job i r smp c b now t = Some u"
  define v where "v = record_verified job i r (close_spent c b (upd_world (note_endpoint_sample c smp now)
      (observe_rate (exp_of C) c smp (count_service job c smp now (release_assignment_slot (Some c) t)))))"
  have cs: "ctl_steps (wenv C) s (count_service job c smp now x)" if "ctl_steps (wenv C) s x" for x
    using that by (auto simp: count_service_def Let_def intro!: total split: option.splits prod.splits)
  have ob: "ctl_steps (wenv C) s (observe_rate (exp_of C) c smp x)" if "ctl_steps (wenv C) s x" for x
    using that by (auto simp: observe_rate_def Let_def intro!: total)
  have cl: "ctl_steps (wenv C) s (close_spent c b x)" if "ctl_steps (wenv C) s x" for x
    using that by (auto simp: close_spent_def Let_def intro!: total)
  have "ctl_steps (wenv C) s v" unfolding v_def using st by (intro steps_record_verified cl ob cs steps_world steps_release)
  then show ?thesis using u
    by (auto simp: on_assignment_verified_def Let_def v_def [symmetric] Option.bind_eq_Some_conv intro!: steps_scale
        elim!: steps_pump intro: steps_drain steps_early split: option.splits if_splits)
qed

lemma steps_assignment_failed: "on_assignment_failed E job i att d c h now t = Some u \<Longrightarrow> ctl_steps E s t \<Longrightarrow> ctl_steps E s u"
proof -
  assume st: "ctl_steps E s t" and u: "on_assignment_failed E job i att d c h now t = Some u"
  define v where "v = (case c of None \<Rightarrow> release_assignment_slot c t
      | Some k \<Rightarrow> if h = State_Reusable then release_assignment_slot c t else close_connection k (release_assignment_slot c t))"
  have sv: "ctl_steps E s v" unfolding v_def using st by (auto intro!: total split: option.splits)
  obtain w ks where w: "handle_assignment_disposition E job (Some i) (ByteRange_new 0 0) d att c now v = Some w"
    and fe: "for_each (\<lambda>oid t. pump E oid now (scale_connections E oid now t)) ks w = Some u"
    using u by (auto simp: on_assignment_failed_def Let_def v_def [symmetric] Option.bind_eq_Some_conv)
  show ?thesis
    by (rule steps_for_each [OF _ fe steps_disposition [OF w sv]]) (rule steps_pump, assumption, rule steps_scale)
qed

lemma steps_refreshed:
  "on_source_refreshed C job url hs now t = Some u \<Longrightarrow> ctl_steps (wenv C) s t \<Longrightarrow> ctl_steps (wenv C) s u"
  by (auto simp: on_source_refreshed_def Let_def Option.bind_eq_Some_conv intro!: total split: option.splits)

lemma steps_timer: "on_timer E ev now t = Some u \<Longrightarrow> ctl_steps E s t \<Longrightarrow> ctl_steps E s u"
proof -
  assume st: "ctl_steps E s t" and u: "on_timer E ev now t = Some u"
  have rr: "ctl_steps E s v" if "on_retry_ready E job now t = Some v" for job v
    using that st by (auto simp: on_retry_ready_def Let_def elim!: steps_pump intro!: total steps_plan [OF _ ctl_release]
        split: option.splits if_splits)
  have ce: "ctl_steps E s v" if "on_cooldown_expired E i now t = Some v" for i v
    using that st by (auto simp: on_cooldown_expired_def Option.bind_eq_Some_conv elim!: steps_pump steps_ensure
        intro!: total split: if_splits)
  have st': "ctl_steps E s (on_endpoint_stagger E i rank now t)" for i rank
    using st by (auto simp: on_endpoint_stagger_def Let_def ranked_endpoints_def origin_of_def
        intro!: steps_emit steps_dial_origin split: option.splits)
  show ?thesis using u st st'
    by (cases ev) (auto simp: on_timer_def on_drain_connection_def
        intro: rr ce steps_finish steps_adaptive_tick steps_rebalance_tick intro!: steps_emit steps_close split: option.splits)
qed

lemma react_refines:
  assumes "fresh_alloc (wenv C)" "obs_ok obs s" "react C obs now s = Some t"
  shows "ctl_steps (wenv C) s t"
  using assms
  by (cases obs) (auto simp: react_def Let_def on_rate_limited_def intro!: steps_emit steps_generation steps_origin steps_drop
      intro: steps_admitted steps_cancelled steps_resolved steps_ready steps_failed steps_dispatch_failed steps_probed steps_redirect
        steps_sampled steps_probe_failed steps_assignment_verified steps_assignment_failed steps_finish steps_timer steps_refreshed)

end
