(* ===== verification/Controller_Inv.thy ===== *)
theory Controller_Inv
  imports Controller_Steps
begin

text \<open>
  What holds of the controller in every reachable state: the invariant of the world model (so the
  assertions the code makes in debug builds), plans that stay within the artifact, the load
  accounting of the shards, the engine-wide bound on running assignments, and the accounting of
  finished jobs.
\<close>

section \<open>Plans\<close>

definition plan_safe :: "segment_plan \<Rightarrow> bool" where
  "plan_safe p \<longleftrightarrow> keys_ok (assignments p) \<and> all_unreported (assignments p) \<and>
     (\<forall>tot. plan_total p = Some tot \<longrightarrow> normalized (completed p) \<and> normalized (claimed p) \<and>
        rs_set (completed p) \<subseteq> {0..<tot} \<and> (\<forall>k a. (k, a) \<in> set (assignments p) \<longrightarrow> range_ok tot (a_range a)))"

lemma plan_safeD:
  assumes "plan_safe p"
  shows "keys_ok (assignments p)" "all_unreported (assignments p)"
    "plan_total p = Some tot \<Longrightarrow> normalized (completed p)" "plan_total p = Some tot \<Longrightarrow> normalized (claimed p)"
    "plan_total p = Some tot \<Longrightarrow> rs_set (completed p) \<subseteq> {0..<tot}"
    "plan_total p = Some tot \<Longrightarrow> (k, a) \<in> set (assignments p) \<Longrightarrow> range_ok tot (a_range a)"
  using assms by (auto simp: plan_safe_def)

text \<open>A change of the assignments that keeps their keys and keeps every range within its old bounds.\<close>

lemma plan_safe_assignments:
  assumes "plan_safe p" "keys_ok m" "all_unreported m" "normalized (claimed p) \<Longrightarrow> normalized clm"
    "\<And>tot k a. plan_total p = Some tot \<Longrightarrow> (k, a) \<in> set m \<Longrightarrow> range_ok tot (a_range a)"
  shows "plan_safe (p\<lparr>claimed := clm, assignments := m\<rparr>)"
  using assms by (auto simp: plan_safe_def)

lemma normalized_foldl_remove: "normalized s \<Longrightarrow> normalized (foldl rs_remove s rs)"
  by (induction rs arbitrary: s) (simp_all add: rs_remove_correct)

lemma normalized_foldl_insert: "normalized s \<Longrightarrow> normalized (foldl rs_insert s rs)"
  by (induction rs arbitrary: s) (simp_all add: rs_insert_correct)

lemma keys_ok_insert: "keys_ok m \<Longrightarrow> fst slot \<notin> fst ` set m \<Longrightarrow> keys_ok (sm_insert slot a m)"
  by (rule store(4)) (auto simp: sm_get_def map_of_eq_None_iff)

lemma set_sm_insert: "set (sm_insert slot a m) = insert (fst slot, a) (set m)"
  by (metis (no_types, lifting) sm_insert_split list.simps(15) set_append Un_insert_right)

lemma plan_safe_push:
  assumes p: "plan_safe p" and slot: "fresh_slot slot p" and r: "\<And>tot. plan_total p = Some tot \<Longrightarrow> range_ok tot r"
    and q: "push_assignment slot p r now ov = (i, q)"
  shows "plan_safe q"
proof -
  have q': "q = p\<lparr>claimed := if r_end r \<noteq> u64_MAX then rs_insert (claimed p) r else claimed p,
      assignments := sm_insert slot (new_assignment r now ov) (assignments p)\<rparr>"
    using q by (simp add: push_assignment_def)
  show ?thesis unfolding q'
  proof (rule plan_safe_assignments [OF p])
    show "keys_ok (sm_insert slot (new_assignment r now ov) (assignments p))"
      using plan_safeD(1) [OF p] slot by (simp add: keys_ok_insert fresh_slot_def)
    show "all_unreported (sm_insert slot (new_assignment r now ov) (assignments p))"
      by (rule all_unreported_sm(4) [OF plan_safeD(2) [OF p]])
    show "range_ok tot (a_range a)"
      if "plan_total p = Some tot" "(k, a) \<in> set (sm_insert slot (new_assignment r now ov) (assignments p))" for tot k a
      using that r plan_safeD(6) [OF p that(1)] by (auto simp: set_sm_insert new_assignment_def)
  qed (simp add: rs_insert_correct)
qed

lemma set_sm_update: "(l, a) \<in> set (sm_update k f m) \<Longrightarrow> \<exists>b. (l, b) \<in> set m \<and> a = (if l = k then f b else b)"
  by (auto simp: sm_update_def)

lemma plan_safe_update:
  assumes p: "plan_safe p" and f: "\<And>a. unreported a \<Longrightarrow> unreported (f a)"
    and r: "\<And>tot a. plan_total p = Some tot \<Longrightarrow> (i, a) \<in> set (assignments p) \<Longrightarrow> range_ok tot (a_range (f a))"
  shows "plan_safe (p\<lparr>assignments := sm_update i f (assignments p)\<rparr>)"
proof -
  have "plan_safe (p\<lparr>claimed := claimed p, assignments := sm_update i f (assignments p)\<rparr>)"
  proof (rule plan_safe_assignments [OF p])
    show "all_unreported (sm_update i f (assignments p))" by (rule all_unreported_sm(2) [OF plan_safeD(2) [OF p] f])
    show "range_ok tot (a_range a)" if "plan_total p = Some tot" "(k, a) \<in> set (sm_update i f (assignments p))" for tot k a
      using set_sm_update [OF that(2)] plan_safeD(6) [OF p that(1)] r [OF that(1)] by (auto split: if_splits)
  qed (use plan_safeD(1) [OF p] in simp_all)
  then show ?thesis by simp
qed

lemma plan_safe_claim:
  assumes p: "plan_safe p" and slot: "fresh_slot slot p" and c: "claim_with slot p est now solo ps = Some (cl, q)"
  shows "plan_safe q"
proof (cases "plan_total p")
  case None
  then show ?thesis using c plan_safe_push [OF p slot] p
    by (auto simp: claim_with_def split: if_splits prod.splits)
next
  case (Some tot)
  have single: "plan_safe q'" if "push_assignment slot p (ByteRange_new s tot) now 0 = (i, q')" "s < tot" for s i q'
    by (rule plan_safe_push [OF p slot _ that(1)]) (use that(2) Some in \<open>auto simp: range_ok_def ByteRange_new_def\<close>)
  have fresh: "plan_safe (q'\<lparr>assignments := sm_update i (\<lambda>a. a\<lparr>a_attempt := att\<rparr>) (assignments q')\<rparr>)"
    if "next_claimable_gap p tot now = Some gap"
      "push_assignment slot p (snap_end (truncated_to gap n) al tot) now ov = (i, q')" for gap n al ov i q' att
  proof -
    note g = next_claimable_gap_unclaimed [OF plan_safeD(4) [OF p Some] that(1)]
    have "range_ok tot (snap_end (truncated_to gap n) al tot)"
      using snap_end_within [OF g(1,2) refl, of n al] g(2) by (auto simp: range_ok_def)
    then have q': "plan_safe q'" using plan_safe_push [OF p slot _ that(2)] Some by simp
    show ?thesis by (rule plan_safe_update [OF q'])
      (use plan_safeD(6) [OF q'] in \<open>force simp: unreported_update\<close>)+
  qed
  have steal: "plan_safe q'"
    if s: "plan_steal p est now = Some (Some (victim, cutp))" "sm_get (assignments p) victim = Some v"
      "push_assignment slot (p\<lparr>assignments := sm_update victim (\<lambda>a. a\<lparr>a_range := ByteRange_new (r_start (a_range v)) cutp,
         truncated := True\<rparr>) (assignments p)\<rparr>) (ByteRange_new cutp (r_end (a_range v))) now 0 = (i, q')" for victim cutp v i q'
  proof -
    obtain a where a: "(victim, a) \<in> set (assignments p)" "cursor a < cutp" "cutp < r_end (a_range a)"
      using plan_steal_SomeD [OF s(1)] by metis
    then have "v = a" using s(2) plan_safeD(1) [OF p] by (simp add: sm_get_def keys_ok_def)
    have ra: "range_ok tot (a_range v)" using plan_safeD(6) [OF p Some a(1)] \<open>v = a\<close> by simp
    have "unreported a" using plan_safeD(2) [OF p] a(1) by (force simp: all_unreported_def)
    then have "normalized (committed_ranges a)" by (simp add: unreported_def normalized_new)
    then have "r_start (a_range v) \<le> cursor v" using ra cursor_bounds(1) \<open>v = a\<close> by (auto simp: range_ok_def)
    then have b: "range_ok tot (ByteRange_new (r_start (a_range v)) cutp)" "range_ok tot (ByteRange_new cutp (r_end (a_range v)))"
      using ra a \<open>v = a\<close> by (auto simp: range_ok_def ByteRange_new_def)
    have p1: "plan_safe (p\<lparr>assignments := sm_update victim (\<lambda>a. a\<lparr>a_range := ByteRange_new (r_start (a_range v)) cutp,
         truncated := True\<rparr>) (assignments p)\<rparr>)"
      by (rule plan_safe_update [OF p]) (use b Some in \<open>simp_all add: unreported_update\<close>)
    show ?thesis by (rule plan_safe_push [OF p1 _ _ s(3)]) (use slot b Some in \<open>simp_all add: fresh_slot_def\<close>)
  qed
  show ?thesis using c Some p single fresh steal
    by (auto simp: claim_with_def Let_def not_le split: if_splits option.splits prod.splits)
qed

lemma plan_safe_leave:
  assumes p: "plan_safe p" and compl: "\<And>tot. plan_total p = Some tot \<Longrightarrow> normalized compl \<and> rs_set compl \<subseteq> {0..<tot}"
    and clm: "\<And>tot. plan_total p = Some tot \<Longrightarrow> normalized clm"
  shows "plan_safe (p\<lparr>completed := compl, claimed := clm, assignments := sm_remove i (assignments p)\<rparr>)"
  using p compl clm all_unreported_sm(3) [OF plan_safeD(2) [OF p]]
  by (auto simp: plan_safe_def store) (auto simp: sm_remove_def)

lemma plan_safe_sets:
  assumes "plan_safe p" "\<And>tot. plan_total p = Some tot \<Longrightarrow> normalized compl \<and> rs_set compl \<subseteq> {0..<tot} \<and> normalized clm"
  shows "plan_safe (p\<lparr>completed := compl, claimed := clm\<rparr>)"
  using assms by (auto simp: plan_safe_def)

lemma plan_safe_verified: "plan_safe p \<Longrightarrow> plan_safe (on_response_verified p i r)"
proof (cases "sm_get (assignments p) i")
  case (Some a)
  assume p: "plan_safe p"
  define q where "q = (case intersection r (a_range a) of
      None \<Rightarrow> ByteRange_new (r_start (a_range a)) (r_start (a_range a)) | Some i \<Rightarrow> i)"
  have "br_set q \<subseteq> {0..<tot}" if "plan_total p = Some tot" for tot
  proof -
    have "range_ok tot (a_range a)" using plan_safeD(6) [OF p that] Some by (auto simp: sm_get_def dest: map_of_SomeD)
    then show ?thesis using range_ok_within unfolding q_def intersection_default_set by blast
  qed
  then have "plan_safe (p\<lparr>completed := rs_insert (completed p) q, claimed := rs_insert (claimed p) q\<rparr>)"
    using plan_safeD(3-5) [OF p] by (intro plan_safe_sets [OF p]) (simp add: rs_insert_correct)
  then show ?thesis using p Some by (simp add: on_response_verified_def Let_def q_def)
qed (simp add: on_response_verified_def)

lemma plan_safe_finish: "plan_safe p \<Longrightarrow> plan_safe (snd (finish_verified p i))"
proof (cases "sm_get (assignments p) i")
  case (Some a)
  assume p: "plan_safe p"
  have "unreported a" using plan_safeD(2) [OF p] Some by (force simp: all_unreported_def sm_get_def dest: map_of_SomeD)
  then have "ranges (committed_ranges a) = []" by (simp add: unreported_def rs_new_def)
  moreover have "plan_safe (p\<lparr>completed := completed p, claimed := (if r_end (a_range a) \<noteq> u64_MAX
      then foldl rs_remove (claimed p) (filter (\<lambda>u. \<not> br_is_empty u) (unverified_parts (completed p) (a_range a)))
      else claimed p), assignments := sm_remove i (assignments p)\<rparr>)"
    using plan_safeD(3-5) [OF p] by (intro plan_safe_leave [OF p]) (auto intro!: normalized_foldl_remove)
  ultimately show ?thesis using Some by (simp add: finish_verified_def Let_def)
qed (simp add: finish_verified_def)

lemma plan_safe_abandon: "plan_safe p \<Longrightarrow> plan_safe (snd (abandon p i))"
proof (cases "sm_get (assignments p) i")
  case (Some a)
  assume p: "plan_safe p"
  have "plan_safe (p\<lparr>completed := completed p, claimed := (if r_end (a_range a) \<noteq> u64_MAX
      then foldl rs_remove (claimed p) (unverified_parts (completed p) (a_range a)) else claimed p),
      assignments := sm_remove i (assignments p)\<rparr>)"
    using plan_safeD(3-5) [OF p] by (intro plan_safe_leave [OF p]) (auto intro!: normalized_foldl_remove)
  then show ?thesis using Some by (simp add: abandon_def)
qed (simp add: abandon_def)

lemma plan_safe_claimed:
  "plan_safe p \<Longrightarrow> (normalized (claimed p) \<Longrightarrow> normalized clm) \<Longrightarrow> plan_safe (p\<lparr>claimed := clm, deferred := d\<rparr>)"
  by (auto simp: plan_safe_def)

lemma plan_safe_defer: "plan_safe p \<Longrightarrow> plan_safe (defer_range p r until att)"
proof -
  assume p: "plan_safe p"
  have "plan_safe (p\<lparr>claimed := (if r_end r \<noteq> u64_MAX then rs_insert (claimed p) r else claimed p), deferred := d\<rparr>)" for d
    by (rule plan_safe_claimed [OF p]) (simp add: rs_insert_correct)
  then show ?thesis using p by (simp add: defer_range_def)
qed

lemma release_loop_normalized: "normalized clm \<Longrightarrow> normalized (fst (release_loop now ds clm mx keep))"
  by (induction now ds clm mx keep rule: release_loop.induct) (auto simp: rs_remove_correct)

lemma plan_safe_new:
  assumes "\<And>t. tot = Some t \<Longrightarrow> normalized compl \<and> rs_set compl \<subseteq> {0..<t}"
  shows "plan_safe (plan_new tot compl pol pd ov)"
  using assms by (simp add: plan_safe_def plan_new_def keys_ok_def all_unreported_def)

lemma plan_safe_flags [simp]:
  "plan_safe (set_single_stream b p) = plan_safe p" "plan_total (set_single_stream b p) = plan_total p"
  "plan_safe (clamp_max_piece m p) = plan_safe p" "plan_total (clamp_max_piece m p) = plan_total p"
  "plan_total (plan_new tot compl pol pd ov) = tot"
  by (simp_all add: plan_safe_def set_single_stream_def clamp_max_piece_def plan_new_def)

lemma plan_safe_step: "controller_step p q \<Longrightarrow> plan_safe p \<Longrightarrow> plan_safe q"
proof (induction rule: controller_step.induct)
  case (ctl_fail p i until nxt mx)
  obtain a p' where a: "abandon p i = (a, p')" by fastforce
  have "plan_safe p'" using plan_safe_abandon [OF ctl_fail, of i] a by simp
  then show ?case using a by (auto simp: abandon_and_defer_def intro: plan_safe_defer split: option.splits)
next
  case (ctl_release p now)
  obtain clm mx keep where r: "release_loop now (deferred p) (claimed p) 0 [] = (clm, mx, keep)" by (rule prod_cases3)
  have "normalized (claimed p) \<Longrightarrow> normalized clm" using release_loop_normalized [of "claimed p" now "deferred p" 0 "[]"] r by simp
  then show ?case using ctl_release r by (auto simp: release_due_def intro!: plan_safe_claimed)
next
  case (ctl_rebalance p now)
  then show ?case using rebalance_unreported [OF plan_safeD(2)] by simp
qed (auto intro: plan_safe_claim plan_safe_verified plan_safe_finish plan_safe_abandon)

lemma rebalance_one_frame:
  "plan_total (snd (rebalance_one p i)) = plan_total p \<and> single_stream (snd (rebalance_one p i)) = single_stream p"
  by (auto simp: rebalance_one_def Let_def split: option.splits prod.splits)

lemma controller_step_frame:
  "controller_step p q \<Longrightarrow> plan_total q = plan_total p \<and> single_stream q = single_stream p"
proof (induction rule: controller_step.induct)
  case (ctl_claim slot p est now solo ps cl q)
  then show ?case by (auto simp: claim_with_def push_assignment_def Let_def split: option.splits if_splits prod.splits)
next
  case (ctl_rebalance p now)
  have "plan_total (snd (rebalance_loop is p)) = plan_total p \<and> single_stream (snd (rebalance_loop is p)) = single_stream p" for "is" p
    by (induction "is" arbitrary: p) (auto simp: case_prod_beta Let_def rebalance_one_frame)
  then show ?case by (simp add: rebalance_stragglers_def)
qed (auto simp: on_response_verified_def finish_verified_def abandon_def abandon_and_defer_def defer_range_def
    release_due_def clamp_max_piece_def Let_def split: option.splits prod.splits)

lemma plan_safe_connections:
  assumes "plan_safe p"
  shows "plan_safe (set_connection i c p)"
    "plan_safe (p\<lparr>assignments := map (\<lambda>(i, a). (i, if a_connection a = Some c then a\<lparr>a_connection := None\<rparr> else a)) (assignments p)\<rparr>)"
proof -
  have u: "unreported (a\<lparr>a_connection := x\<rparr>) = unreported a" for a x by (simp add: unreported_def)
  show "plan_safe (set_connection i c p)" unfolding set_connection_def
    by (rule plan_safe_update [OF assms]) (use plan_safeD(6) [OF assms] in \<open>auto simp: u\<close>)
  show "plan_safe (p\<lparr>assignments := map (\<lambda>(i, a). (i, if a_connection a = Some c then a\<lparr>a_connection := None\<rparr> else a)) (assignments p)\<rparr>)"
    using assms by (auto simp: plan_safe_def keys_ok_def all_unreported_def comp_def case_prod_beta u; fastforce)
qed

text \<open>A segmented plan of a known length also has the ownership invariant of theory \<open>Segment_Inv\<close>.\<close>

definition plan_good :: "segment_plan \<Rightarrow> bool" where
  "plan_good p \<longleftrightarrow> plan_safe p \<and>
     (\<forall>tot. plan_total p = Some tot \<longrightarrow> \<not> single_stream p \<longrightarrow> tot \<noteq> u64_MAX \<longrightarrow> seg_inv tot p)"

lemma plan_good_step: "controller_step p q \<Longrightarrow> plan_good p \<Longrightarrow> plan_good q"
  using plan_safe_step controller_step_frame plan_reach_inv [OF controller_step_plan] by (simp add: plan_good_def)

lemma plan_good_connections:
  assumes "plan_good p"
  shows "plan_good (set_connection i c p)"
    "plan_good (p\<lparr>assignments := map (\<lambda>(i, a). (i, if a_connection a = Some c then a\<lparr>a_connection := None\<rparr> else a)) (assignments p)\<rparr>)"
    (is "plan_good (p\<lparr>assignments := ?m\<rparr>)")
proof -
  have w: "work_ok tot (a\<lparr>a_connection := x\<rparr>) = work_ok tot a" for tot a x by (simp add: work_ok_def)
  have "seg_inv tot (set_connection i c p)" if "seg_inv tot p" for tot
    unfolding set_connection_def by (rule seg_inv_same_range [OF that]) (use seg_invD(8) [OF that] in \<open>auto simp: w\<close>)
  then show "plan_good (set_connection i c p)"
    using assms plan_safe_connections(1) by (auto simp: plan_good_def set_connection_def)
  have "seg_inv tot (p\<lparr>assignments := ?m\<rparr>)" if "seg_inv tot p" for tot
  proof -
    have "owners (p\<lparr>assignments := ?m\<rparr>) = owners p" by (auto simp: owners_def)
    moreover have "\<forall>(i, a)\<in>set ?m. work_ok tot a" using seg_invD(8) [OF that] by (auto simp: w)
    moreover have "keys_ok ?m" using seg_invD(7) [OF that] by (simp add: keys_ok_def comp_def case_prod_beta)
    ultimately show ?thesis using that by (simp add: seg_inv_def)
  qed
  then show "plan_good (p\<lparr>assignments := ?m\<rparr>)"
    using assms plan_safe_connections(2) by (auto simp: plan_good_def)
qed

lemma plan_good_new:
  assumes "\<And>t. tot = Some t \<Longrightarrow> normalized compl \<and> rs_set compl \<subseteq> {0..<t}"
  shows "plan_good (plan_new tot compl pol pd ov)"
  using assms seg_inv_new plan_safe_new by (simp add: plan_good_def)

lemma plan_good_flags [simp]:
  "plan_good p \<Longrightarrow> plan_good (set_single_stream True p)" "plan_good p \<Longrightarrow> plan_good (clamp_max_piece m p)"
  by (auto simp: plan_good_def seg_inv_clamp_max_piece) (auto simp: set_single_stream_def clamp_max_piece_def split: if_splits)

section \<open>Jobs and the world\<close>

definition job_safe :: "job_node \<Rightarrow> bool" where
  "job_safe j \<longleftrightarrow> (\<forall>p. plan j = Some p \<longrightarrow> plan_total p = jn_total_length j \<and> plan_good p) \<and>
     (resume j \<noteq> None \<longrightarrow> jn_total_length j = None)"

lemma job_safe_plan_ok: "job_safe j \<Longrightarrow> plan_ok j"
  by (auto simp: job_safe_def plan_ok_def plan_good_def plan_safe_def)

definition ctl_ok :: "controller \<Rightarrow> bool" where
  "ctl_ok s \<longleftrightarrow> world_ok (world s) \<and> (\<forall>k j. job_of s k = Some j \<longrightarrow> job_safe j)"

lemma ctl_ok_upd_job:
  assumes ok: "ctl_ok s"
    and f: "\<And>j. job_of s job = Some j \<Longrightarrow> jn_id (f j) = jn_id j \<and> jn_destination (f j) = jn_destination j \<and>
      jn_artifact (f j) = jn_artifact j \<and> jn_sources (f j) = jn_sources j \<and> job_safe (f j)"
  shows "ctl_ok (upd_job job f s)"
proof (cases "job_of s job")
  case None
  then have "upd_job job f s = s" by (simp add: upd_job_def job_of_def sm_update_missing)
  then show ?thesis using ok by simp
next
  case (Some j)
  then have "world_ok (world (upd_job job f s))"
    using ok f [OF Some] unfolding upd_job_def
    by (auto simp: ctl_ok_def job_of_def intro!: update_job_ok job_safe_plan_ok)
  then show ?thesis using ok f by (auto simp: ctl_ok_def)
qed

lemma ctl_ok_same: "world t = world s \<Longrightarrow> ctl_ok t = ctl_ok s"
  by (simp add: ctl_ok_def job_of_def)

lemma foldl_insert_set: "normalized s \<Longrightarrow> rs_set (foldl rs_insert s rs) = rs_set s \<union> (\<Union>r\<in>set rs. br_set r)"
  by (induction rs arbitrary: s) (auto simp: rs_insert_correct)

lemma full_plan_safe:
  assumes "job_safe j"
  shows "plan_good (full_plan j)" "plan_total (full_plan j) = jn_total_length j"
proof -
  have "plan_good (plan_new (jn_total_length j) (case plan j of None \<Rightarrow> rs_new | Some q \<Rightarrow> completed q) pol pd ov)" for pol pd ov
    by (rule plan_good_new) (use assms in \<open>auto simp: job_safe_def plan_good_def plan_safeD split: option.splits\<close>)
  then show "plan_good (full_plan j)" "plan_total (full_plan j) = jn_total_length j" by (simp_all add: full_plan_def)
qed

lemma probed_node_safe:
  assumes "job_safe j"
  shows "job_safe (probed_node b len et lm j)"
proof -
  define seeds where "seeds = (case resume j of None \<Rightarrow> []
      | Some r \<Rightarrow> (case judge_resume j len et lm r of Trust \<Rightarrow> seed_ranges len (re_durable r) | _ \<Rightarrow> []))"
  let ?c = "foldl rs_insert rs_new seeds"
  have "normalized ?c \<and> rs_set ?c \<subseteq> {0..<t}" if "opt_or len (jn_total_length j) = Some t" for t
  proof -
    have "r_end r \<le> t" if "r \<in> set seeds" for r
      using that \<open>opt_or len _ = _\<close> assms
      by (auto simp: seeds_def seed_ranges_def job_safe_def opt_or_def split: option.splits resume_verdict.splits)
    then have "br_set r \<subseteq> {0..<t}" if "r \<in> set seeds" for r using that by (force simp: br_set_def)
    then show ?thesis using foldl_insert_set [of rs_new seeds] by (auto simp: normalized_foldl_insert simp del: list_set_simps)
  qed
  then have "plan_good (plan_new (opt_or len (jn_total_length j)) ?c pol pd ov)" for pol pd ov
    by (rule plan_good_new)
  then show ?thesis
    by (simp add: probed_node_def Let_def job_safe_def fresh_plan_def seeds_def [symmetric])
qed

section \<open>Steps\<close>

lemma update_source_ok: "world_ok w \<Longrightarrow> world_ok (w\<lparr>sources := sm_update i g (sources w)\<rparr>)"
proof -
  assume ok: "world_ok w"
  have "sm_get (sm_update i g (sources w)) k = None \<longleftrightarrow> sm_get (sources w) k = None" for k
    using world_okD(1) [OF ok] by (auto simp: maps_ok_def store)
  then have "job_ok (w\<lparr>sources := sm_update i g (sources w)\<rparr>) = job_ok w" by (simp add: job_ok_def fun_eq_iff)
  then show ?thesis using ok
    by (auto simp: world_ok_def conn_ok_def origin_ok_def path_ok_def maps_ok_def store)
qed

lemma forget_connection_safe: "job_safe j \<Longrightarrow> job_safe (forget_connection c j)"
  by (auto simp: job_safe_def forget_connection_def intro: plan_good_connections(2))

lemma forget_connection_ok:
  assumes "world_ok w" "\<And>k j. sm_get (jobs w) k = Some j \<Longrightarrow> job_safe j"
  shows "world_ok (w\<lparr>jobs := map (\<lambda>(i, j). (i, forget_connection c j)) (jobs w)\<rparr>)" (is "world_ok ?v")
proof (rule world_ok_leases [OF assms(1)])
  have get: "sm_get (jobs ?v) k = map_option (forget_connection c) (sm_get (jobs w) k)" for k
    by (simp add: sm_get_def map_of_map)
  show "job_ok ?v k j" if j: "sm_get (jobs ?v) k = Some j" for k j
  proof -
    obtain x where x: "sm_get (jobs w) k = Some x" "j = forget_connection c x" using j get [of k]
      by (cases "sm_get (jobs w) k") simp_all
    moreover have "plan_ok j" using x assms(2) by (auto intro: job_safe_plan_ok forget_connection_safe)
    ultimately show ?thesis using world_okD(2) [OF assms(1) x(1)] by (simp add: job_ok_def forget_connection_def)
  qed
  show "maps_ok ?v" using world_okD(1) [OF assms(1)] by (simp add: maps_ok_def keys_ok_def comp_def case_prod_beta)
  show "\<exists>d. sm_get (destinations ?v) i = Some d \<and> dn_key d = k" if "map_of (destination_index ?v) k = Some i" for k i
    using world_okD(6) [OF assms(1), of k i] that by simp
qed simp_all

lemma world_forget_live [simp]: "world (forget_live n s) = world s" "world (inc_shard_load k s) = world s"
  by (simp_all add: forget_live_def dec_shard_load_def inc_shard_load_def Let_def split: option.splits)

lemma ctl_ok_drop: "ctl_ok s \<Longrightarrow> ctl_ok (drop_connection c s)"
proof -
  assume ok: "ctl_ok s"
  let ?w = "remove_connection c (world s)"
  have w: "world (drop_connection c s) = ?w\<lparr>jobs := map (\<lambda>(i, j). (i, forget_connection c j)) (jobs ?w)\<rparr>"
    by (simp add: drop_connection_def Let_def split: option.splits)
  have "jobs ?w = jobs (world s)" by (simp add: remove_connection_def split: option.splits)
  then have "world_ok (world (drop_connection c s))"
    unfolding w using ok by (intro forget_connection_ok remove_connection_ok) (auto simp: ctl_ok_def job_of_def)
  moreover have "job_safe j" if "job_of (drop_connection c s) k = Some j" for k j
    using that ok by (auto simp: job_of_drop ctl_ok_def forget_connection_safe)
  ultimately show ?thesis by (simp add: ctl_ok_def)
qed

lemma jobs_remove: "jobs (remove_job job w) = sm_remove job (jobs w)"
proof (cases "sm_get (jobs w) job")
  case None
  then have "sm_remove job (jobs w) = jobs w" by (auto simp: sm_remove_def sm_get_def map_of_eq_None_iff filter_id_conv)
  then show ?thesis using None by (simp add: remove_job_def)
qed (simp add: remove_job_def)

lemma sm_get_remove: "sm_get (sm_remove k m) i = (if i = k then None else sm_get m i)"
  by (induction m) (auto simp: sm_get_def sm_remove_def)

lemma ctl_ok_dial:
  assumes ok: "ctl_ok s" and E: "fresh_alloc E" and i: "origin_of s i \<noteq> None"
    and d: "dial_connection E i ep shard h3 srv now s = (c, t)"
  shows "ctl_ok t"
proof -
  obtain c' w where a: "allocate_connection E i ep shard (world s) = (c', w)" by fastforce
  have w: "world_ok w" using allocate_connection_ok [OF E _ _ a] ok i by (simp add: ctl_ok_def origin_of_def)
  have j: "jobs w = jobs (world s)" using a by (auto simp: allocate_connection_def Let_def split: prod.splits)
  obtain h where h: "world t = w\<lparr>connections := sm_update c' h (connections w)\<rparr>"
    "\<And>n. cn_id (h n) = cn_id n \<and> cn_origin (h n) = cn_origin n \<and> path (h n) = path n"
    using d a by (auto simp: dial_connection_def Let_def emit_def upd_conn_def)
  then have "world_ok (world t)" using update_connection_ok [OF w] by simp
  then show ?thesis using ok h(1) j by (simp add: ctl_ok_def job_of_def)
qed

lemma claim_one_world:
  assumes "claim_one E c now s = Some (b, t)" "fresh_alloc E"
  obtains "world t = world s"
  | job p q q' where "Option.bind (job_of s job) plan = Some p" "controller_step p q"
      "q' = q \<or> (\<exists>i. q' = set_connection i c q)" "world t = world (set_plan job q' s)"
proof -
  have step: "controller_step p q" if "claim_with (alloc E (map fst (assignments p))) p est now solo ps = Some (cl, q)" for p est solo ps cl q
    by (rule ctl_claim [OF _ that]) (use assms(2) [unfolded fresh_alloc_def, rule_format, of "map fst (assignments p)"] in \<open>simp add: fresh_slot_def\<close>)
  have plan: "r = None \<and> u = s \<or> (\<exists>p q q'. Option.bind (job_of s job) plan = Some p \<and> controller_step p q \<and>
       (q' = q \<or> (\<exists>i. q' = set_connection i c q)) \<and> u = set_plan job q' s)"
    if "claim_on_plan E job c now s = Some (r, u)" for job r u
    using that by (auto simp: claim_on_plan_def Let_def dest!: step split: option.splits prod.splits claim.splits; blast)
  have "world t = world s \<or> (\<exists>job r u. claim_on_plan E job c now s = Some (r, u) \<and> world t = world u)"
    using assms(1) by (auto simp: claim_one_def Let_def count_claim_def emit_def split: option.splits if_splits; blast)
  then show ?thesis using plan that by metis
qed

lemma plan_change_ok:
  assumes "ctl_ok s" "Option.bind (job_of s job) plan = Some p" "plan_good p \<Longrightarrow> plan_good q" "plan_total q = plan_total p"
  shows "ctl_ok (set_plan job q s)"
  unfolding set_plan_def
proof (rule ctl_ok_upd_job [OF assms(1)])
  fix j assume "job_of s job = Some j"
  then show "jn_id (j\<lparr>plan := Some q\<rparr>) = jn_id j \<and> jn_destination (j\<lparr>plan := Some q\<rparr>) = jn_destination j \<and>
      jn_artifact (j\<lparr>plan := Some q\<rparr>) = jn_artifact j \<and> jn_sources (j\<lparr>plan := Some q\<rparr>) = jn_sources j \<and> job_safe (j\<lparr>plan := Some q\<rparr>)"
    using assms by (auto simp: ctl_ok_def job_safe_def)
qed

lemma probed_node_frame:
  "jn_id (probed_node b len et lm j) = jn_id j" "jn_destination (probed_node b len et lm j) = jn_destination j"
  "jn_artifact (probed_node b len et lm j) = jn_artifact j" "jn_sources (probed_node b len et lm j) = jn_sources j"
  by (simp_all add: probed_node_def Let_def)

lemma ctl_step_ok:
  assumes "fresh_alloc E"
  shows "ctl_step E s t \<Longrightarrow> ctl_ok s \<Longrightarrow> ctl_ok t"
proof (induction rule: ctl_step.induct)
  case (c_emit a s)
  then show ?case using ctl_ok_same [of "emit a s" s] by (simp add: emit_def)
next
  case (c_dial s i ep h3 srv now c t)
  then show ?case using ctl_ok_dial assms by blast
next
  case (c_finish s job j out)
  then show ?case
    using remove_job_ok [of "world s" job]
    by (auto simp: ctl_ok_def emit_def upd_world_def job_of_def jobs_remove sm_get_remove split: if_splits)
next
  case (c_claim s c now b t)
  from claim_one_world [OF c_claim(3) assms] show ?case
  proof cases
    case 1
    then show ?thesis using c_claim ctl_ok_same by blast
  next
    case (2 job p q q')
    have "ctl_ok (set_plan job q' s)"
      by (rule plan_change_ok [OF c_claim(4) 2(1)])
        (use 2(2,3) plan_good_step plan_good_connections controller_step_frame in \<open>auto simp: set_connection_def\<close>)
    then show ?thesis using 2(4) ctl_ok_same by blast
  qed
next
  case (c_release s c)
  then show ?case using ctl_ok_same [of "release_assignment_slot c s" s]
    by (simp add: release_assignment_slot_def Let_def split: option.splits)
next
  case (c_job f s job)
  show ?case by (rule ctl_ok_upd_job [OF c_job(3)]) (use c_job in \<open>auto simp: ctl_ok_def job_safe_def\<close>)
next
  case (c_plan s job p q)
  then show ?case using plan_change_ok [OF c_plan(3,1)] plan_good_step [OF c_plan(2)] controller_step_frame [OF c_plan(2)] by blast
next
  case (c_probed s job b len et lm)
  then show ?case
    by (intro ctl_ok_upd_job conjI) (simp_all add: ctl_ok_def probed_node_safe probed_node_frame)
next
  case (c_full s job j)
  then show ?case using full_plan_safe by (intro ctl_ok_upd_job) (auto simp: ctl_ok_def job_safe_def)
next
  case (c_commit s job j p len)
  then have safe: "job_safe x" if "job_of s job = Some x" for x using that by (simp add: ctl_ok_def)
  have "ctl_ok (upd_job job (\<lambda>j. j\<lparr>phase := Committing\<rparr>) s)"
    by (rule ctl_ok_upd_job [OF c_commit(5)]) (use safe in \<open>simp add: job_safe_def\<close>)
  then show ?case using ctl_ok_same [of "emit _ _"] by (simp add: emit_def)
next
  case (c_conn h s c)
  then show ?case by (auto simp: ctl_ok_def upd_conn_def job_of_def intro!: update_connection_ok)
next
  case (c_source s i g)
  then show ?case by (auto simp: ctl_ok_def upd_source_def job_of_def intro!: update_source_ok)
next
  case (c_kept s w)
  then show ?case by (auto simp: ctl_ok_def job_of_def kept_def intro: kept_ok)
next
  case (c_drop s c)
  then show ?case by (rule ctl_ok_drop)
qed (simp add: ctl_ok_def job_of_def)

end
