(* ===== verification/Controller_Books.thy ===== *)
theory Controller_Books
  imports Controller_Inv "HOL-Library.Multiset"
begin

text \<open>
  The books the controller keeps beside the world model: the load of the shards, the live connections
  of the origins, the running assignments and the finished jobs.
\<close>

section \<open>Where the connections are\<close>

definition place :: "connection_id \<times> connection_node \<Rightarrow> nat \<times> origin_id" where
  "place kc = (cn_shard (snd kc), cn_origin (snd kc))"

definition places :: "controller \<Rightarrow> (nat \<times> origin_id) multiset" where
  "places s = mset (map place (connections (world s)))"

text \<open>Every connection is on a shard, the load of a shard is the number of its connections, the counter
  of an origin is the number of its connections, and the running assignments are within the limit.\<close>

definition books_ok :: "controller \<Rightarrow> bool" where
  "books_ok s \<longleftrightarrow> shard_load s \<noteq> [] \<and> (\<forall>x\<in>#places s. fst x < length (shard_load s)) \<and>
     (\<forall>k<length (shard_load s). shard_load s ! k = count (image_mset fst (places s)) k) \<and>
     (\<forall>i. opt_default 0 (sec_get (origin_live_conns s) i) = count (image_mset snd (places s)) i) \<and>
     active_assignment_count s \<le> unat (engine_max_active_assignments s)"

lemma sec_get_insert: "sec_get (sec_insert k v m) i = (if i = k then Some v else sec_get m i)"
  by (induction m) (auto simp: sec_get_def sec_insert_def sec_remove_def)

lemma opt_default_simps [simp]: "opt_default d None = d" "opt_default d (Some x) = x"
  by (simp_all add: opt_default_def)

lemma min_by_key_mem: "min_by_key (f :: 'a \<Rightarrow> 'b::linorder) xs = Some x \<Longrightarrow> x \<in> set xs"
proof -
  have "foldl (\<lambda>b y. if f y < f b then y else b) z zs \<in> insert z (set zs)" for z zs
    by (induction zs arbitrary: z) (auto split: if_splits)
  then show "min_by_key f xs = Some x \<Longrightarrow> x \<in> set xs" by (cases xs) auto
qed

lemma place_shard_in_range: "shard_load s \<noteq> [] \<Longrightarrow> place_shard s < length (shard_load s)"
proof -
  assume ne: "shard_load s \<noteq> []"
  have "fst x < length (shard_load s)" if "min_by_key (\<lambda>(idx, n). (n, idx)) (enumerate 0 (shard_load s)) = Some x" for x
  proof -
    have "x \<in> set (enumerate 0 (shard_load s))" using that by (rule min_by_key_mem)
    then show ?thesis by (simp only: in_set_enumerate_eq) simp
  qed
  then show ?thesis using ne by (auto simp: place_shard_def split: option.splits)
qed

lemma place_update:
  "(\<And>n. cn_shard (f n) = cn_shard n \<and> cn_origin (f n) = cn_origin n) \<Longrightarrow> map place (sm_update c f m) = map place m"
  by (auto simp: place_def sm_update_def)

lemma places_update:
  "(\<And>n. cn_shard (f n) = cn_shard n \<and> cn_origin (f n) = cn_origin n) \<Longrightarrow> places (upd_conn c f s) = places s"
proof -
  assume "\<And>n. cn_shard (f n) = cn_shard n \<and> cn_origin (f n) = cn_origin n"
  then have "map place (sm_update c f (connections (world s))) = map place (connections (world s))" by (rule place_update)
  then have "mset (map place (sm_update c f (connections (world s)))) = mset (map place (connections (world s)))" by (rule arg_cong)
  then show ?thesis by (simp add: places_def upd_conn_def)
qed

lemma places_insert: "mset (map g (sm_insert slot v m)) = add_mset (g (fst slot, v)) (mset (map g m))"
proof -
  obtain A B where "m = A @ B" "sm_insert slot v m = A @ (fst slot, v) # B" by (rule sm_insert_split)
  then show ?thesis by simp
qed

lemma places_removed:
  assumes "keys_ok m" "sm_get m k = Some v"
  shows "mset (map g m) = add_mset (g (k, v)) (mset (map g (sm_remove k m)))"
proof -
  obtain A B where m: "m = A @ (k, v) # B" "k \<notin> fst ` set A" "k \<notin> fst ` set B" using sm_get_split [OF assms(1,2)] by metis
  then have "sm_remove k m = A @ B" by (simp add: sm_append sm_remove_notin)
  then show ?thesis using m by simp
qed

lemma books_same:
  assumes "books_ok s" "places t = places s" "shard_load t = shard_load s" "origin_live_conns t = origin_live_conns s"
    "engine_max_active_assignments t = engine_max_active_assignments s"
    "active_assignment_count t \<le> unat (engine_max_active_assignments s)"
  shows "books_ok t"
  using assms by (simp add: books_ok_def)

lemma books_dial:
  assumes ok: "books_ok s" and d: "dial_connection E i ep (place_shard s) h3 srv now s = (c, t)"
  shows "books_ok t"
proof -
  let ?k = "place_shard s"
  obtain c' w where a: "allocate_connection E i ep ?k (world s) = (c', w)" by fastforce
  have k: "?k < length (shard_load s)" using ok place_shard_in_range by (simp add: books_ok_def)
  have "mset (map place (connections w)) = add_mset (?k, i) (places s)"
  proof -
    define slot where "slot = alloc E (map fst (connections (world s)))"
    define n where "n = \<lparr>cn_id = fst slot, cn_origin = i, cn_endpoint = ep, cn_shard = ?k, cn_protocol = Http1_1, status = Connecting,
      opened_at = inst_now E, cn_network_context = current_context (world s), path = None, prefer_h3 = False,
      serving_source = None, intent = Intent_Pool i\<rparr>"
    define p where "p = fst (alloc E (map fst (paths (world s))))"
    have w: "connections w = sm_update c' (\<lambda>n. n\<lparr>path := Some p\<rparr>) (sm_insert slot n (connections (world s)))"
      "cn_shard n = ?k" "cn_origin n = i"
      using a by (auto simp: allocate_connection_def Let_def sm_add_def n_def slot_def p_def)
    have "map place (sm_update c' (\<lambda>n. n\<lparr>path := Some p\<rparr>) m) = map place m" for m by (rule place_update) simp
    then show ?thesis unfolding w(1) places_def using w(2,3) by (simp add: places_insert place_def [of "(_, n)"] del: mset_map)
  qed
  then have w: "places (s\<lparr>world := w\<rparr>) = add_mset (?k, i) (places s)" by (simp add: places_def)
  define s2 where "s2 = inc_shard_load ?k (s\<lparr>world := w\<rparr>)"
  define s3 where "s3 = s2\<lparr>origin_live_conns := sec_insert i (opt_default 0 (sec_get (origin_live_conns s2) i) + 1) (origin_live_conns s2)\<rparr>"
  obtain f x where t: "t = emit x (upd_conn c' f s3)" and f: "\<And>n. cn_shard (f n) = cn_shard n \<and> cn_origin (f n) = cn_origin n"
    using d a by (auto simp: dial_connection_def Let_def s3_def s2_def)
  have "places t = places s3" using places_update [of f c' s3] f by (simp add: t emit_def places_def)
  also have "\<dots> = add_mset (?k, i) (places s)" using w by (simp add: s3_def s2_def places_def)
  finally have p: "places t = add_mset (?k, i) (places s)" .
  have b: "shard_load t = (shard_load s)[?k := shard_load s ! ?k + 1]"
    "origin_live_conns t = sec_insert i (opt_default 0 (sec_get (origin_live_conns s) i) + 1) (origin_live_conns s)"
    "active_assignment_count t = active_assignment_count s" "engine_max_active_assignments t = engine_max_active_assignments s"
    using k by (simp_all add: t emit_def upd_conn_def s3_def s2_def inc_shard_load_def)
  show ?thesis using ok k by (auto simp: books_ok_def p b nth_list_update sec_get_insert)
qed

lemma books_drop:
  assumes ok: "books_ok s" and w: "ctl_ok s"
  shows "books_ok (drop_connection c s)"
proof (cases "conn_of s c")
  case None
  then have "sm_remove c (connections (world s)) = connections (world s)"
    by (auto simp: conn_of_def sm_remove_def sm_get_def map_of_eq_None_iff filter_id_conv)
  then show ?thesis using None
    by (intro books_same [OF ok]) (use ok in \<open>auto simp: drop_connection_def conn_of_def places_def remove_connection_def books_ok_def\<close>)
next
  case (Some n)
  let ?t = "drop_connection c s" and ?k = "cn_shard n" and ?i = "cn_origin n"
  have "keys_ok (connections (world s))" using w by (simp add: ctl_ok_def world_ok_def maps_ok_def)
  then have "places s = add_mset (?k, ?i) (mset (map place (sm_remove c (connections (world s)))))"
    using places_removed [of "connections (world s)" c n place] Some by (simp add: places_def conn_of_def place_def [of "(c, n)"])
  moreover have "connections (world ?t) = sm_remove c (connections (world s))"
    using Some by (auto simp: drop_connection_def Let_def conn_of_def remove_connection_def split: option.splits)
  ultimately have p: "places s = add_mset (?k, ?i) (places ?t)" by (simp add: places_def)
  have k: "?k < length (shard_load s)" "shard_load s ! ?k = Suc (count (image_mset fst (places ?t)) ?k)"
    using ok by (auto simp: books_ok_def p)
  obtain l where l: "sec_get (origin_live_conns s) ?i = Some l" "l = Suc (count (image_mset snd (places ?t)) ?i)"
    using ok by (cases "sec_get (origin_live_conns s) ?i") (auto simp: books_ok_def p dest: spec [of _ ?i])
  have b: "shard_load ?t = (shard_load s)[?k := shard_load s ! ?k - 1]"
    "origin_live_conns ?t = sec_insert ?i (l - 1) (origin_live_conns s)"
    "active_assignment_count ?t = active_assignment_count s" "engine_max_active_assignments ?t = engine_max_active_assignments s"
    using Some k(1) l(1) by (simp_all add: drop_connection_def Let_def forget_live_def dec_shard_load_def)
  show ?thesis using ok k l by (auto simp: books_ok_def p b nth_list_update sec_get_insert)
qed

text \<open>The jobs whose end the actions report.\<close>

fun ended_job :: "action \<Rightarrow> job_id option" where
  "ended_job (FailJob j _) = Some j"
| "ended_job (CompleteJob j _ _ _) = Some j"
| "ended_job _ = None"

definition ended :: "action list \<Rightarrow> job_id list" where
  "ended as = List.map_filter ended_job as"

lemma ended_append [simp]: "ended (as @ bs) = ended as @ ended bs" "ended [] = []"
  "ended (a # as) = (case ended_job a of None \<Rightarrow> ended as | Some j \<Rightarrow> j # ended as)"
  by (simp_all add: ended_def List.map_filter_def split: option.splits)

text \<open>The actions of a claim.\<close>

fun claim_action :: "connection_id \<Rightarrow> action \<Rightarrow> bool" where
  "claim_action c (TruncateAssignment _ _ _ _) \<longleftrightarrow> True"
| "claim_action c (StartAssignment job r d _ _ _) \<longleftrightarrow> d = c \<and> ar_job r = job"
| "claim_action c (StartFullBody job r d _) \<longleftrightarrow> d = c \<and> ar_job r = job"
| "claim_action c _ \<longleftrightarrow> False"

lemma claim_not_ended: "list_all (claim_action c) bs \<Longrightarrow> ended bs = []"
proof (induction bs)
  case (Cons a bs)
  then show ?case by (cases a) simp_all
qed simp

lemma claim_on_plan_shape:
  "claim_on_plan E job c now s = Some (r, u) \<Longrightarrow> u = s \<or> (\<exists>q. u = set_plan job q s)"
  by (auto simp: claim_on_plan_def Let_def split: option.splits prod.splits claim.splits)

lemma claim_one_shape:
  assumes "claim_one E c now s = Some (b, t)"
  obtains "t = s" | job r u where "claim_on_plan E job c now s = Some (r, u)" "world t = world u" "shard_load t = shard_load u"
      "origin_live_conns t = origin_live_conns u" "\<exists>bs. acts t = acts u @ bs \<and> list_all (claim_action c) bs"
proof -
  show ?thesis
  proof (cases "\<exists>n job r u. conn_of s c = Some n \<and> status n = Ready \<and> pick_wfq_job E s (cn_origin n) = Some job \<and>
      claim_on_plan E job c now s = Some (r, u)")
    case True
    then obtain n job r u where n: "conn_of s c = Some n" "status n = Ready" "pick_wfq_job E s (cn_origin n) = Some job"
      and u: "claim_on_plan E job c now s = Some (r, u)" by blast
    have "world t = world u \<and> shard_load t = shard_load u \<and> origin_live_conns t = origin_live_conns u \<and>
        (\<exists>bs. acts t = acts u @ bs \<and> list_all (claim_action c) bs)"
    proof (cases r)
      case None
      then show ?thesis using assms n u by (simp add: claim_one_def)
    next
      case (Some cl)
      then show ?thesis using assms n u
        by (cases "cp_tail_cut cl") (auto simp: claim_one_def Let_def emit_def count_claim_def start_action_def)
    qed
    then show ?thesis using that(2) [OF u] by blast
  next
    case False
    then have "t = s" using assms by (auto simp: claim_one_def Let_def split: option.splits if_splits)
    then show ?thesis by (rule that(1))
  qed
qed

lemma claim_one_books:
  assumes "claim_one E c now s = Some (b, t)"
  shows "places t = places s" "shard_load t = shard_load s" "origin_live_conns t = origin_live_conns s"
    "map fst (jobs (world t)) = map fst (jobs (world s))" "\<exists>bs. acts t = acts s @ bs \<and> list_all (claim_action c) bs"
proof -
  have plan: "places (set_plan job q s) = places s" "shard_load (set_plan job q s) = shard_load s"
    "origin_live_conns (set_plan job q s) = origin_live_conns s" "map fst (jobs (world (set_plan job q s))) = map fst (jobs (world s))"
    "acts (set_plan job q s) = acts s" for job q
    by (simp_all add: places_def set_plan_def upd_job_def)
  have cong: "places t = places u" if "world t = world u" for u using that by (simp add: places_def)
  from assms have "places t = places s \<and> shard_load t = shard_load s \<and> origin_live_conns t = origin_live_conns s \<and>
      map fst (jobs (world t)) = map fst (jobs (world s)) \<and> (\<exists>bs. acts t = acts s @ bs \<and> list_all (claim_action c) bs)"
  proof (rule claim_one_shape)
    fix job r u
    assume a: "claim_on_plan E job c now s = Some (r, u)" "world t = world u" "shard_load t = shard_load u"
      "origin_live_conns t = origin_live_conns u" "\<exists>bs. acts t = acts u @ bs \<and> list_all (claim_action c) bs"
    from claim_on_plan_shape [OF a(1)] show ?thesis
    proof
      assume "\<exists>q. u = set_plan job q s"
      then obtain q where "u = set_plan job q s" by blast
      then show ?thesis using cong [OF a(2)] plan [of job q] a(2-5) by simp
    qed (use cong [OF a(2)] a(2-5) in simp)
  qed simp
  then show "places t = places s" "shard_load t = shard_load s" "origin_live_conns t = origin_live_conns s"
    "map fst (jobs (world t)) = map fst (jobs (world s))" "\<exists>bs. acts t = acts s @ bs \<and> list_all (claim_action c) bs" by blast+
qed

lemma books_step: "ctl_step E s t \<Longrightarrow> ctl_ok s \<Longrightarrow> books_ok s \<Longrightarrow> books_ok t"
proof (induction rule: ctl_step.induct)
  case (c_dial s i ep h3 srv now c t)
  then show ?case by (blast intro: books_dial)
next
  case (c_drop s c)
  then show ?case by (blast intro: books_drop)
next
  case (c_claim s c now b t)
  note b = claim_one_books [OF c_claim(3)] and n = claim_one_counts [OF c_claim(3)]
  have "active_assignment_count t \<le> unat (engine_max_active_assignments s)" using n c_claim(1,5) by (auto simp: books_ok_def)
  then show ?case using books_same [OF c_claim(5) b(1-3)] n by blast
next
  case (c_release s c)
  have "places (release_assignment_slot c s) = places s \<and> shard_load (release_assignment_slot c s) = shard_load s \<and>
      origin_live_conns (release_assignment_slot c s) = origin_live_conns s \<and>
      engine_max_active_assignments (release_assignment_slot c s) = engine_max_active_assignments s \<and>
      active_assignment_count (release_assignment_slot c s) = active_assignment_count s - 1"
    by (simp add: release_assignment_slot_def Let_def places_def split: option.splits)
  then show ?case using books_same [OF c_release(2)] c_release(2) by (auto simp: books_ok_def)
next
  case (c_conn h s c)
  have "places (upd_conn c h s) = places s" by (rule places_update) (use c_conn in simp)
  then show ?case using c_conn(3) by (intro books_same [OF c_conn(3)]) (auto simp: upd_conn_def books_ok_def)
next
  case (c_kept s w)
  then show ?case by (intro books_same [OF c_kept(3)]) (auto simp: places_def kept_def books_ok_def)
next
  case (c_finish s job j out)
  have "connections (remove_job job (world s)) = connections (world s)" by (simp add: remove_job_def split: option.splits)
  then show ?case using c_finish(3) by (simp add: places_def emit_def upd_world_def books_ok_def)
qed (auto simp: books_ok_def places_def emit_def upd_job_def upd_source_def set_plan_def)

section \<open>Finished jobs\<close>

definition job_ledger :: "controller \<Rightarrow> job_id multiset" where
  "job_ledger s = mset (map fst (jobs (world s))) + mset (ended (acts s))"

lemma plain_not_ended: "plain_action a \<Longrightarrow> ended_job a = None"
  by (cases a) auto

lemma acts_drop: "acts (drop_connection c s) = acts s"
  by (auto simp: drop_connection_def Let_def forget_live_def dec_shard_load_def split: option.splits)

lemma ledger_step: "ctl_step E s t \<Longrightarrow> ctl_ok s \<Longrightarrow> job_ledger t = job_ledger s"
proof (induction rule: ctl_step.induct)
  case (c_emit a s)
  then show ?case by (simp add: job_ledger_def emit_def plain_not_ended)
next
  case (c_dial s i ep h3 srv now c t)
  have "jobs (world t) = jobs (world s) \<and> ended (acts t) = ended (acts s)"
    using c_dial(2) by (auto simp: dial_connection_def allocate_connection_def Let_def emit_def upd_conn_def inc_shard_load_def split: prod.splits)
  then show ?case by (simp add: job_ledger_def)
next
  case (c_drop s c)
  then show ?case by (simp add: job_ledger_def acts_drop jobs_drop comp_def case_prod_beta)
next
  case (c_finish s job j out)
  have "keys_ok (jobs (world s))" using c_finish(2) by (simp add: ctl_ok_def world_ok_def maps_ok_def)
  then have "mset (map fst (jobs (world s))) = add_mset job (mset (map fst (sm_remove job (jobs (world s)))))"
    using places_removed [of _ job j fst] c_finish(1) by (simp add: job_of_def)
  then show ?case
    by (simp add: job_ledger_def emit_def upd_world_def jobs_remove outcome_action_def split: sum.splits)
next
  case (c_claim s c now b t)
  then show ?case using claim_one_books(4,5) [OF c_claim(3)] by (auto simp: job_ledger_def claim_not_ended)
next
  case (c_release s c)
  then show ?case by (simp add: job_ledger_def release_assignment_slot_def Let_def split: option.splits)
next
  case (c_kept s w)
  then show ?case by (simp add: job_ledger_def kept_def)
qed (auto simp: job_ledger_def upd_job_def set_plan_def upd_conn_def upd_source_def emit_def)

end
