(* ===== verification/Controller_Props.thy ===== *)
theory Controller_Props
  imports Controller_Books Segment_Props
begin

text \<open>
  The controller as the control thread drives it: created with the engine's limits, told about
  admitted jobs, and handling one observation after the other. What the steps keep holds in every
  such state.
\<close>

section \<open>Reachable controllers\<close>

inductive ctl_reach :: "'u url_ops \<Rightarrow> controller \<Rightarrow> bool" for U :: "'u url_ops" where
  reach_start: "ctl_reach U (set_engine_limits l (with_shards now n))"
| reach_handle: "ctl_reach U s \<Longrightarrow> url_ops_of C = U \<Longrightarrow> fresh_alloc (wenv C) \<Longrightarrow> obs_ok obs s \<Longrightarrow>
     handle C obs now s = Some (as, t) \<Longrightarrow> ctl_reach U t"
| reach_admit: "ctl_reach U s \<Longrightarrow> fresh_alloc E \<Longrightarrow> admit_job E U blake3 spec key (world s) = Some (r, w) \<Longrightarrow>
     ctl_reach U (s\<lparr>world := w\<rparr>)"
| reach_sink: "ctl_reach U s \<Longrightarrow> set_sink_properties job caps hints (world s) = (r, w) \<Longrightarrow> ctl_reach U (s\<lparr>world := w\<rparr>)"
| reach_context: "ctl_reach U s \<Longrightarrow> set_network_context E ckey (world s) = (i, w) \<Longrightarrow> ctl_reach U (s\<lparr>world := w\<rparr>)"
| reach_profile: "ctl_reach U s \<Longrightarrow> ctl_reach U (s\<lparr>world := import_profiles E prof (world s)\<rparr>)"

definition ctl_inv :: "controller \<Rightarrow> bool" where
  "ctl_inv s \<longleftrightarrow> ctl_ok s \<and> books_ok s"

lemma ctl_inv_steps: "ctl_steps E s t \<Longrightarrow> fresh_alloc E \<Longrightarrow> ctl_inv s \<Longrightarrow> ctl_inv t"
  by (induction rule: rtranclp_induct) (auto simp: ctl_inv_def intro: ctl_step_ok books_step)

lemma ledger_steps: "ctl_steps E s t \<Longrightarrow> fresh_alloc E \<Longrightarrow> ctl_inv s \<Longrightarrow> job_ledger t = job_ledger s"
proof (induction rule: rtranclp_induct)
  case (step t u)
  then have "ctl_inv t" using ctl_inv_steps by blast
  then show ?case using step ledger_step by (auto simp: ctl_inv_def)
qed simp

lemma ctl_inv_acts [simp]: "ctl_inv (s\<lparr>acts := as\<rparr>) = ctl_inv s"
  by (simp add: ctl_inv_def ctl_ok_def job_of_def books_ok_def places_def)

lemma ctl_inv_world:
  assumes "ctl_inv s" "world_ok w" "connections w = connections (world s)"
    "\<And>k j. sm_get (jobs w) k = Some j \<Longrightarrow> job_safe j"
  shows "ctl_inv (s\<lparr>world := w\<rparr>)"
  using assms by (simp add: ctl_inv_def ctl_ok_def job_of_def books_ok_def places_def)

lemma kept_inv: "kept (world s) w \<Longrightarrow> ctl_inv s \<Longrightarrow> ctl_inv (s\<lparr>world := w\<rparr>)"
  by (rule ctl_inv_world) (auto simp: ctl_inv_def ctl_ok_def job_of_def kept_def intro: kept_ok)

lemma admit_sources_connections:
  "admit_sources E U blake3 art srcs w = (ids, v) \<Longrightarrow> fresh_alloc E \<Longrightarrow> connections v = connections w \<and> jobs v = jobs w"
proof (induction E U blake3 art srcs w arbitrary: ids v rule: admit_sources.induct)
  case (2 E U blake3 art src srcs w)
  obtain oid w1 where o: "get_or_create_origin E (origin_key U src) w = (oid, w1)" by fastforce
  have "connections w1 = connections w \<and> jobs w1 = jobs w" using kept_origin_created [OF 2(3) o] by (simp add: kept_def)
  then show ?case using 2(1) [OF o [symmetric] refl] 2(2,3) o by (auto simp: Let_def split: prod.splits)
qed simp

lemma admit_inv:
  assumes E: "fresh_alloc E" and ok: "ctl_inv s" and a: "admit_job E U blake3 spec key (world s) = Some (r, w)"
  shows "ctl_inv (s\<lparr>world := w\<rparr>)"
proof (rule ctl_inv_world [OF ok])
  have wok: "world_ok (world s)" using ok by (simp add: ctl_inv_def ctl_ok_def)
  then show "world_ok w" by (rule admit_job_ok [OF E _ a])
  obtain d w1 where c: "claim_destination E key (world s) = Some (d, w1)"
    using a by (auto simp: admit_job_def split: option.splits prod.splits)
  have c1: "connections w1 = connections (world s)" "jobs w1 = jobs (world s)"
    using c claim_destination_ok(2) [OF E wok c]
    by (auto simp: claim_destination_def Let_def split: option.splits prod.splits)
  have "connections w = connections w1 \<and> (\<forall>k j. sm_get (jobs w) k = Some j \<longrightarrow> sm_get (jobs w1) k = Some j \<or> job_safe j)"
  proof (cases "d = None \<or> js_sources spec = []")
    case True
    then have "w = w1" using a c by (auto simp: admit_job_def split: option.splits)
    then show ?thesis by simp
  next
    case False
    then obtain dest where dest: "d = Some dest" by auto
    obtain art as where ar: "sm_add E (\<lambda>_. None) (artifacts w1) = (art, as)" by fastforce
    obtain ids w2 where sr: "admit_sources E U blake3 art (js_sources spec) (w1\<lparr>artifacts := as\<rparr>) = (ids, w2)" by fastforce
    obtain job js where jb: "sm_add E (job_new U spec art (map fst ids) (snd (hd ids)) dest) (jobs w2) = (job, js)" by fastforce
    have w: "connections w = connections w2" "jobs w = js" using a False by (auto simp: admit_job_def c dest ar sr jb)
    note s2 = admit_sources_connections [OF sr E]
    have "keys_ok (jobs w2)" using wok c1 s2 by (simp add: world_ok_def maps_ok_def)
    note jl = sm_add_laws(3) [OF E this jb]
    show ?thesis using w s2 jl by (auto simp: job_safe_def job_new_def)
  qed
  then show "connections w = connections (world s)" "\<And>k j. sm_get (jobs w) k = Some j \<Longrightarrow> job_safe j"
    using c1 ok by (auto simp: ctl_inv_def ctl_ok_def job_of_def)
qed

lemma handle_steps:
  assumes "fresh_alloc (wenv C)" "obs_ok obs s" "handle C obs now s = Some (as, t)"
  obtains u where "ctl_steps (wenv C) (s\<lparr>acts := []\<rparr>) u" "as = acts u" "t = u\<lparr>acts := []\<rparr>"
proof -
  obtain u where u: "react C obs now (s\<lparr>acts := []\<rparr>) = Some u" "as = acts u" "t = u\<lparr>acts := []\<rparr>"
    using assms(3) by (auto simp: handle_def)
  have "obs_ok obs (s\<lparr>acts := []\<rparr>)" using assms(2)
    by (cases "(obs, s\<lparr>acts := []\<rparr>)" rule: obs_ok.cases) (auto simp: job_of_def split: option.splits)
  then show ?thesis using that react_refines [OF assms(1) _ u(1)] u(2,3) by blast
qed

lemma ctl_reach_inv: "ctl_reach U s \<Longrightarrow> ctl_inv s"
proof (induction rule: ctl_reach.induct)
  case (reach_start l now n)
  have "world_ok world_new" by (rule world_new_ok)
  then show ?case
    by (simp add: ctl_inv_def ctl_ok_def books_ok_def set_engine_limits_def with_shards_def job_of_def places_def sec_get_def
        world_new_def sm_get_def)
next
  case (reach_handle s C obs now as t)
  then show ?case using handle_steps [OF reach_handle(3-5)] ctl_inv_steps [OF _ reach_handle(3)] by (metis ctl_inv_acts)
next
  case (reach_admit s E blake3 spec key r w)
  then show ?case using admit_inv by blast
next
  case (reach_sink s job caps hints r w)
  show ?case
  proof (cases "job_of s job")
    case (Some x)
    have w: "s\<lparr>world := w\<rparr> = upd_job job (\<lambda>j. j\<lparr>sink_caps := caps, sink_hints := hints\<rparr>) s"
      using reach_sink(2) Some by (simp add: set_sink_properties_def upd_job_def job_of_def)
    have "ctl_step undefined s (s\<lparr>world := w\<rparr>)" unfolding w by (rule c_job) simp_all
    then have "books_ok (s\<lparr>world := w\<rparr>)" using reach_sink(3) by (auto simp: ctl_inv_def dest: books_step)
    moreover have "ctl_ok (s\<lparr>world := w\<rparr>)" unfolding w
      by (rule ctl_ok_upd_job) (use reach_sink(3) in \<open>auto simp: ctl_inv_def ctl_ok_def job_safe_def\<close>)
    ultimately show ?thesis by (simp add: ctl_inv_def)
  next
    case None
    then have "w = world s" using reach_sink(2) by (simp add: set_sink_properties_def job_of_def)
    then show ?thesis using reach_sink(3) by simp
  qed
qed (auto intro: kept_inv kept_set_context kept_import)

text \<open>A controller with two shards and one admitted job on \<open>http://h\<close>, for the examples.\<close>

definition demo_C :: "string ctl_env" where
  "demo_C = \<lparr>wenv = demo_env, url_ops_of = demo_url, url_parse = Some, is_sensitive = (\<lambda>_. False), blake3_of = take 32,
     exp_of = (\<lambda>_. Fin 1)\<rparr>"

definition demo_ctl :: controller where
  "demo_ctl = (set_engine_limits engine_limits_default (with_shards 0 2))\<lparr>world := demo_world\<rparr>"

lemma demo_ctl_reached: "ctl_reach demo_url demo_ctl"
proof -
  have w: "world (set_engine_limits engine_limits_default (with_shards 0 2)) = world_new"
    by (simp add: set_engine_limits_def with_shards_def)
  show ?thesis unfolding demo_ctl_def
    by (rule reach_admit [OF reach_start demo_env_fresh]) (simp only: w, rule demo_admitted)
qed

lemma demo_C_fresh: "fresh_alloc (wenv demo_C)"
  by (simp add: demo_C_def demo_env_fresh)

section \<open>Consistency\<close>

text \<open>C2: In every state the control thread can bring the controller to, by admitting jobs and letting it handle
  any observations, the controller's invariant and the assertions of the world model hold, the load of a shard is the number of the
  connections placed on it and every connection is on an existing shard, the counter of an origin is
  the number of its connections, and no more assignments run than the engine allows.\<close>

theorem controller_stays_consistent:
  assumes "ctl_reach U s"
  shows "ctl_inv s \<and> assert_invariants (world s) \<and>
    (\<forall>k<length (shard_load s). shard_load s ! k = length (filter (\<lambda>(_, c). cn_shard c = k) (connections (world s)))) \<and>
    (\<forall>(_, c)\<in>set (connections (world s)). cn_shard c < length (shard_load s)) \<and>
    (\<forall>i. opt_default 0 (sec_get (origin_live_conns s) i) = length (filter (\<lambda>(_, c). cn_origin c = i) (connections (world s)))) \<and>
    active_assignment_count s \<le> unat (engine_max_active_assignments s)"
proof -
  have inv: "ctl_ok s" "books_ok s" using ctl_reach_inv [OF assms] by (simp_all add: ctl_inv_def)
  have "count (image_mset g (mset (map place xs))) k = length (filter (\<lambda>x. g (place x) = k) xs)"
    for g :: "nat \<times> nat \<Rightarrow> nat" and k xs by (induction xs) auto
  then have cnt: "count (image_mset g (places s)) k = length (filter (\<lambda>x. g (place x) = k) (connections (world s)))"
    for g :: "nat \<times> nat \<Rightarrow> nat" and k by (simp only: places_def)
  have "filter (\<lambda>x. fst (place x) = k) xs = filter (\<lambda>(_, c). cn_shard c = k) xs"
    "filter (\<lambda>x. snd (place x) = k) xs = filter (\<lambda>(_, c). cn_origin c = k) xs" for xs k
    by (rule filter_cong; auto simp: place_def)+
  note cnts = cnt [of fst, unfolded this(1)] cnt [of snd, unfolded this(2)]
  have "\<forall>(_, c)\<in>set (connections (world s)). cn_shard c < length (shard_load s)"
    using inv(2) by (auto simp: books_ok_def places_def place_def)
  then show ?thesis using ctl_reach_inv [OF assms] inv assert_invariants_ok by (simp add: books_ok_def ctl_ok_def cnts)
qed

theorem controller_stays_consistent_witness:
  "jobs (world demo_ctl) \<noteq> [] \<and> shard_load demo_ctl = [0, 0] \<and> assert_invariants (world demo_ctl)"
proof -
  have "shard_load demo_ctl = [0, 0]" by (simp add: demo_ctl_def set_engine_limits_def with_shards_def numeral_2_eq_2)
  moreover have "jobs (world demo_ctl) \<noteq> []" using demo_world_parts(1) by (auto simp: demo_ctl_def)
  ultimately show ?thesis using controller_stays_consistent [OF demo_ctl_reached] by simp
qed

section \<open>Ends and commits\<close>

text \<open>C3: The jobs that end are the jobs that leave: whatever the controller handles, the jobs it had are
  those it still has and those for which the actions report a failure or a completion, each exactly
  once.\<close>

theorem every_job_ends_once:
  assumes "ctl_reach U s" "url_ops_of C = U" "fresh_alloc (wenv C)" "obs_ok obs s" "handle C obs now s = Some (as, t)"
  shows "mset (map fst (jobs (world s))) = mset (map fst (jobs (world t))) + mset (ended as) \<and> distinct (ended as) \<and>
    set (ended as) \<inter> set (map fst (jobs (world t))) = {}"
proof -
  obtain u where u: "ctl_steps (wenv C) (s\<lparr>acts := []\<rparr>) u" "as = acts u" "t = u\<lparr>acts := []\<rparr>"
    by (rule handle_steps [OF assms(3-5)])
  have inv: "ctl_inv s" by (rule ctl_reach_inv [OF assms(1)])
  have "job_ledger u = job_ledger (s\<lparr>acts := []\<rparr>)" by (rule ledger_steps [OF u(1) assms(3)]) (simp add: inv)
  then have eq: "mset (map fst (jobs (world s))) = mset (map fst (jobs (world t)) @ ended as)"
    by (simp add: job_ledger_def u(2,3))
  have "distinct (map fst (jobs (world s)))" using inv by (simp add: ctl_inv_def ctl_ok_def world_ok_def maps_ok_def keys_ok_def)
  then have "distinct (map fst (jobs (world t)) @ ended as)" using mset_eq_imp_distinct_iff [OF eq] by simp
  then show ?thesis using eq by auto
qed

text \<open>What holds while \<open>CommitDestination\<close> is emitted.\<close>

definition commit_ready :: "controller \<Rightarrow> job_id \<Rightarrow> u64 \<Rightarrow> bool" where
  "commit_ready s job len \<longleftrightarrow> (\<exists>j p. job_of s job = Some j \<and> plan j = Some p \<and> plan_total p = Some len \<and>
     normalized (completed p) \<and> rs_set (completed p) = {0..<len})"

lemma commit_step:
  assumes "ctl_step E s t" "ctl_ok s" "CommitDestination job len chk \<in> set (acts t)"
  shows "CommitDestination job len chk \<in> set (acts s) \<or> commit_ready s job len"
  using assms
proof (induction rule: ctl_step.induct)
  case (c_commit s job' j p len')
  then have safe: "plan_safe p" by (auto simp: ctl_ok_def job_safe_def plan_good_def)
  show ?case
  proof (cases "CommitDestination job len chk \<in> set (acts s)")
    case False
    then have "job' = job" "len' = len" using c_commit(6) by (auto simp: emit_def upd_job_def)
    moreover have "rs_is_complete (completed p) len'" using c_commit(3,4) by (simp add: plan_is_complete_def)
    moreover have "plan_total p = Some len'" by (rule c_commit(4))
    note b = plan_safeD(3,5) [OF safe this]
    ultimately show ?thesis using c_commit(1,2,4) b rs_is_complete_correct [OF b] by (simp add: commit_ready_def)
  qed simp
next
  case (c_emit a s)
  then show ?case by (cases a) (auto simp: emit_def)
next
  case (c_claim s c now b t)
  obtain bs where "acts t = acts s @ bs" "list_all (claim_action c) bs" using claim_one_books(5) [OF c_claim(3)] by blast
  then show ?case using c_claim(5) by (auto simp: list_all_iff)
next
  case (c_dial s i ep h3 srv now c t)
  then show ?case by (auto simp: dial_connection_def allocate_connection_def Let_def emit_def upd_conn_def inc_shard_load_def split: prod.splits if_splits)
next
  case (c_drop s c)
  then show ?case by (simp add: acts_drop)
next
  case (c_finish s job j out)
  then show ?case by (auto simp: emit_def upd_world_def outcome_action_def split: sum.splits)
qed (auto simp: upd_job_def set_plan_def upd_conn_def upd_source_def release_assignment_slot_def Let_def split: option.splits)

lemma commit_steps:
  assumes "ctl_steps E s t" "fresh_alloc E" "ctl_inv s" "CommitDestination job len chk \<in> set (acts t)"
  shows "CommitDestination job len chk \<in> set (acts s) \<or> (\<exists>u. ctl_steps E s u \<and> ctl_steps E u t \<and> commit_ready u job len)"
  using assms
proof (induction rule: rtranclp_induct)
  case (step t u)
  have "ctl_ok t" using ctl_inv_steps [OF step(1)] step(4,5) by (simp add: ctl_inv_def)
  from commit_step [OF step(2) this step(6)] show ?case
    using step(1-5) by (metis rtranclp.rtrancl_into_rtrancl converse_rtranclp_into_rtranclp rtranclp.rtrancl_refl)
qed simp


lemma demo_job: "jobs (world demo_ctl) = [(1, job_new demo_url (job_spec_new ''h'') 1 [1] 1 1 1)]"
  by (simp add: demo_ctl_def demo_world_simps)

lemma demo_origin: "origins (world demo_ctl) = [(1, origin_new 0 \<lparr>scheme = ''http'', host = ''h'', port = 80\<rparr>)]"
  by (simp add: demo_ctl_def demo_world_origin)

theorem every_job_ends_once_witness:
  "\<exists>as t. handle demo_C (DestinationFailed 1 NoSpace) 5 demo_ctl = Some (as, t) \<and> ended as = [1] \<and> jobs (world t) = []"
proof -
  have "handle demo_C (DestinationFailed 1 NoSpace) 5 demo_ctl = Some ([FailJob 1 ''destination has no space left''],
      demo_ctl\<lparr>world := remove_job 1 (world demo_ctl), acts := []\<rparr>)" (is "_ = Some (?as, ?t)")
    by (simp add: handle_def react_def finish_job_def job_of_def demo_job sm_get_def destination_message_def emit_def upd_world_def
        ensure_probes_def origin_of_def job_new_def remove_job_def demo_origin origin_new_def sm_remove_def)
  from every_job_ends_once [OF demo_ctl_reached _ demo_C_fresh _ this]
  have "mset (map fst (jobs (world demo_ctl))) = mset (map fst (jobs (world ?t))) + mset (ended ?as)"
    by (simp add: demo_C_def)
  then show ?thesis using \<open>handle _ _ _ _ = _\<close> by (simp add: demo_job)
qed

lemma scale_no_endpoint: "any_endpoint s i now = None \<Longrightarrow> scale_connections E i now s = s"
  by (auto simp: scale_connections_def Let_def scale_loop.simps split: option.splits)

lemma sm_get_update: "sm_get (sm_update k f m) i = (if i = k then map_option f (sm_get m i) else sm_get m i)"
  by (induction m) (auto simp: sm_get_def sm_update_def)

lemma probed_without_endpoints:
  assumes j: "job_of s job = Some j" "src \<notin> set (probing_sources j)" "resume j = None"
    and n: "origin_of s (jn_origin j) = Some n" "endpoints_of n = []"
    and p: "plan_is_complete (the (plan (probed_node b len et lm j)))"
  shows "\<exists>t m. on_probed E job c src b len et lm True None now s = Some t \<and>
    CommitDestination job m (integrity_check (jn_integrity j)) \<in> set (acts t) \<and>
    m = opt_default 0 (opt_or (Option.bind (plan (probed_node b len et lm j)) plan_total) (jn_total_length (probed_node b len et lm j)))"
proof -
  define s3 where "s3 = upd_job job (probed_node b len et lm) s"
  define s4 where "s4 = upd_origin (jn_origin j) (raise_targets j)
    (s3\<lparr>origin_admission := sec_insert (jn_origin j) now (origin_admission s3)\<rparr>)"
  have j3: "job_of s3 job = Some (probed_node b len et lm j)" by (simp add: s3_def j)
  have n4: "origin_of s4 (jn_origin j) = Some (raise_targets j n)"
    using n(1) by (simp add: s4_def s3_def origin_of_def upd_origin_def upd_job_def sm_get_update)
  have none: "any_endpoint s4 (jn_origin j) now = None"
    using n4 n(2) by (simp add: any_endpoint_def select_endpoint_def origin_of_def raise_targets_def)
  have "ensure_probes E (jn_origin j) now s4 = Some s4" using n4 n(2) by (simp add: ensure_probes_def raise_targets_def)
  moreover have "evidence_rejected j len et lm = False" by (simp add: evidence_rejected_def j)
  ultimately have r: "on_probed E job c src b len et lm True None now s = Some (commit_complete job (start_adaptive (jn_origin j) now s4))"
    using p j(2) by (simp add: on_probed_def j(1) note_alt_svc_def dial_h3_def scale_no_endpoint [OF none] s3_def [symmetric]
        s4_def [symmetric])
  have "job_of (start_adaptive (jn_origin j) now s4) job = Some (probed_node b len et lm j)"
    using j3 by (simp add: start_adaptive_def Let_def job_of_def emit_def upd_origin_def s4_def split: option.splits)
  then have "acts (commit_complete job (start_adaptive (jn_origin j) now s4)) = acts (start_adaptive (jn_origin j) now s4) @
      [CommitDestination job (opt_default 0 (opt_or (Option.bind (plan (probed_node b len et lm j)) plan_total)
        (jn_total_length (probed_node b len et lm j)))) (integrity_check (jn_integrity (probed_node b len et lm j)))]"
    by (simp add: commit_complete_def emit_def upd_job_def)
  moreover have "jn_integrity (probed_node b len et lm j) = jn_integrity j" by (simp add: probed_node_def Let_def)
  ultimately show ?thesis using r by simp
qed


lemma jobs_dial: "jobs (world (dial E i ep h3 srv now s)) = jobs (world s)"
  by (simp add: dial_def dial_connection_def allocate_connection_def Let_def upd_conn_def emit_def inc_shard_load_def
      split: prod.splits)

section \<open>Work\<close>

text \<open>Actions of a handler are emitted by steps; \<open>emitted_ok\<close> is what the state is like at that moment.\<close>

fun emitted_ok :: "controller \<Rightarrow> action \<Rightarrow> bool" where
  "emitted_ok s (OpenConnection c i ep k h3 alt) \<longleftrightarrow> k < length (shard_load s) \<and> origin_of s i \<noteq> None"
| "emitted_ok s (StartAssignment job r c rg ov fr) \<longleftrightarrow> ar_job r = job \<and> in_flight_on s c < stream_capacity s c \<and>
     active_assignment_count s < unat (engine_max_active_assignments s)"
| "emitted_ok s (StartFullBody job r c fr) \<longleftrightarrow> ar_job r = job \<and> in_flight_on s c < stream_capacity s c \<and>
     active_assignment_count s < unat (engine_max_active_assignments s)"
| "emitted_ok s _ \<longleftrightarrow> True"

lemma emitted_step:
  assumes "ctl_step E s t" "books_ok s" "a \<in> set (acts t)"
  shows "a \<in> set (acts s) \<or> emitted_ok s a"
  using assms
proof (induction rule: ctl_step.induct)
  case (c_emit b s)
  then show ?case by (cases b) (auto simp: emit_def)
next
  case (c_dial s i ep h3 srv now c t)
  have "place_shard s < length (shard_load s)" using c_dial(3) place_shard_in_range by (simp add: books_ok_def)
  then show ?case using c_dial
    by (auto simp: dial_connection_def allocate_connection_def Let_def emit_def upd_conn_def inc_shard_load_def split: prod.splits if_splits)
next
  case (c_drop s c)
  then show ?case by (simp add: acts_drop)
next
  case (c_finish s job j out)
  then show ?case by (auto simp: emit_def upd_world_def outcome_action_def split: sum.splits)
next
  case (c_claim s c now b t)
  obtain bs where bs: "acts t = acts s @ bs" "list_all (claim_action c) bs" using claim_one_books(5) [OF c_claim(3)] by blast
  then have "a \<in> set (acts s) \<or> claim_action c a" using c_claim(5) by (auto simp: list_all_iff)
  then show ?case using c_claim(1,2) by (cases a) auto
qed (auto simp: upd_job_def set_plan_def upd_conn_def upd_source_def release_assignment_slot_def Let_def emit_def split: option.splits)

lemma emitted_steps:
  assumes "ctl_steps E s t" "fresh_alloc E" "ctl_inv s" "a \<in> set (acts t)"
  shows "a \<in> set (acts s) \<or> (\<exists>u. ctl_steps E s u \<and> ctl_steps E u t \<and> emitted_ok u a)"
  using assms
proof (induction rule: rtranclp_induct)
  case (step t u)
  have "books_ok t" using ctl_inv_steps [OF step(1)] step(4,5) by (simp add: ctl_inv_def)
  from emitted_step [OF step(2) this step(6)] show ?case
    using step(1-5) by (metis rtranclp.rtrancl_into_rtrancl converse_rtranclp_into_rtranclp rtranclp.rtrancl_refl)
qed simp

lemma shard_count_steps: "ctl_steps E s t \<Longrightarrow> length (shard_load t) = length (shard_load s)"
proof (induction rule: rtranclp_induct)
  case (step t u)
  from step(2) have "length (shard_load u) = length (shard_load t)"
  proof (induction rule: ctl_step.induct)
    case (c_claim s c now b t)
    then show ?case using claim_one_books(2) [OF c_claim(3)] by simp
  qed (auto simp: emit_def dial_connection_def allocate_connection_def Let_def upd_conn_def inc_shard_load_def drop_connection_def
      forget_live_def dec_shard_load_def upd_world_def upd_job_def set_plan_def upd_source_def release_assignment_slot_def
      split: option.splits prod.splits if_splits)
  then show ?case using step by simp
qed simp


lemma demo_endpoints_kept: "kept demo_world demo_endpoints"
proof -
  have "note_endpoints demo_env 1 [\<lparr>sa_ip = 7, sa_port = 443\<rparr>, \<lparr>sa_ip = 8, sa_port = 80\<rparr>] demo_world \<noteq> None"
    by (simp add: note_endpoints_def demo_world_origin sm_get_def split: prod.splits)
  then obtain es v where "note_endpoints demo_env 1 [\<lparr>sa_ip = 7, sa_port = 443\<rparr>, \<lparr>sa_ip = 8, sa_port = 80\<rparr>] demo_world = Some (es, v)"
    by fastforce
  then show ?thesis using kept_note_endpoints [OF demo_env_fresh] by (simp add: demo_endpoints_def)
qed


text \<open>C8: No two workers of a job write the same byte. The controller's invariant is kept by every handler,
  and under it the running assignments of a job with a known length and several workers are disjoint
  and within the object.\<close>

theorem workers_of_a_job_never_overlap:
  assumes "ctl_inv s" "fresh_alloc (wenv C)" "obs_ok obs s" "handle C obs now s = Some (as, t)"
    and "job_of t job = Some j" "plan j = Some p" "plan_total p = Some len" "len \<noteq> u64_MAX" "\<not> single_stream p"
    and "sm_get (assignments p) x = Some a" "sm_get (assignments p) y = Some b" "x \<noteq> y"
  shows "ctl_inv t \<and> br_set (a_range a) \<inter> br_set (a_range b) = {} \<and> br_set (a_range a) \<subseteq> {0..<len}"
proof -
  obtain v where v: "ctl_steps (wenv C) (s\<lparr>acts := []\<rparr>) v" "as = acts v" "t = v\<lparr>acts := []\<rparr>"
    by (rule handle_steps [OF assms(2-4)])
  have inv: "ctl_inv t" using ctl_inv_steps [OF v(1) assms(2)] assms(1) v(3) by simp
  then have seg: "seg_inv len p" using assms(5-9) by (auto simp: ctl_inv_def ctl_ok_def job_safe_def plan_good_def)
  have "br_set (a_range a) \<subseteq> {0..<len}"
    using seg_invD(8) [OF seg, of x a] assms(10) range_ok_within [of len "a_range a"] by (simp add: work_ok_def sm_get_def map_of_SomeD)
  moreover have "br_set (a_range a) \<inter> br_set (a_range b) = {}"
    using assignments_disjoint [OF seg _ _ assms(12)] assms(10,11) by (simp add: sm_get_def map_of_SomeD)
  ultimately show ?thesis using inv by blast
qed

lemma plan_good_reach: "controller_step\<^sup>*\<^sup>* p q \<Longrightarrow> plan_good p \<Longrightarrow> plan_good q"
  by (induction rule: rtranclp_induct) (auto intro: plan_good_step)

definition demo_two :: controller where
  "demo_two = upd_job 1 (\<lambda>j. j\<lparr>plan := Some demo2, jn_total_length := Some 10, phase := Transferring\<rparr>) demo_ctl"

lemma demo_two_inv: "ctl_inv demo_two"
proof -
  have good: "plan_good demo2" "plan_total demo2 = Some 10"
    using plan_good_reach [OF demo_reach plan_good_new] demo_done_ok demo_start by (simp_all add: demo2_def demo0_def plan_new_def)
  have inv: "ctl_inv demo_ctl" by (rule ctl_reach_inv [OF demo_ctl_reached])
  then have "ctl_ok demo_two" unfolding demo_two_def
    by (intro ctl_ok_upd_job) (use good in \<open>auto simp: ctl_inv_def ctl_ok_def job_safe_def job_of_def demo_job sm_get_def job_new_def\<close>)
  moreover have "books_ok demo_two" using inv by (simp add: ctl_inv_def books_ok_def demo_two_def upd_job_def places_def)
  ultimately show ?thesis by (simp add: ctl_inv_def)
qed

theorem workers_of_a_job_never_overlap_witness:
  "br_set (a_range (new_assignment (ByteRange_new 2 6) 5 0)) \<inter> br_set (a_range (new_assignment (ByteRange_new 6 10) 6 0)) = {} \<and>
   ctl_inv demo_two"
proof -
  have h: "handle demo_C (TimerExpired (CheckpointDue 1)) 7 demo_two = Some ([], demo_two\<lparr>acts := []\<rparr>)"
    by (simp add: handle_def react_def on_timer_def)
  have "job_of (demo_two\<lparr>acts := []\<rparr>) 1 = Some ((job_new demo_url (job_spec_new ''h'') 1 [1] 1 1 1)\<lparr>plan := Some demo2,
      jn_total_length := Some 10, phase := Transferring\<rparr>)"
    by (simp add: job_of_def demo_two_def upd_job_def demo_job sm_get_def sm_update_def)
  from workers_of_a_job_never_overlap [OF demo_two_inv demo_C_fresh _ h this, of demo2 10 1 _ 2]
  show ?thesis by (simp add: demo2_def demo0_def plan_new_def sm_get_def demo_two_inv)
qed

end
