(* ===== verification/Controller_Choice.thy ===== *)
theory Controller_Choice
  imports Controller_Props
begin

text \<open>
  What the controller decides: which job gets the next piece, which redirects are followed and with
  what, which bytes of an earlier run are trusted, and what a cancellation does.
\<close>

section \<open>The next job\<close>

lemma f64_lt_trans: "f64_lt a b \<Longrightarrow> f64_lt b c \<Longrightarrow> f64_lt a c"
  by (cases a; cases b; cases c) auto

lemma f64_lt_irrefl [simp]: "\<not> f64_lt a a"
  by (cases a) auto

definition wfq_scan :: "(job_id \<Rightarrow> bool) \<Rightarrow> (job_id \<times> job_node) list \<Rightarrow> (job_id \<times> f64) option" where
  "wfq_scan run js = foldl (\<lambda>best (k, j). if run k \<and> wfq_better k (virt_service j) best then Some (k, virt_service j) else best) None js"

lemma wfq_scan_spec:
  "case wfq_scan run js of
     None \<Rightarrow> \<forall>(k, _)\<in>set js. \<not> run k
   | Some (b, sc) \<Rightarrow> run b \<and> (\<exists>j. (b, j) \<in> set js \<and> sc = virt_service j) \<and>
       (\<forall>(k, j)\<in>set js. run k \<longrightarrow> \<not> f64_lt (virt_service j) sc \<and> (f64_eq (virt_service j) sc \<longrightarrow> b \<le> k))"
proof (induction js rule: rev_induct)
  case (snoc x js)
  obtain k j where x: "x = (k, j)" by fastforce
  have scan: "wfq_scan run (js @ [(k, j)]) = (if run k \<and> wfq_better k (virt_service j) (wfq_scan run js) then Some (k, virt_service j)
      else wfq_scan run js)" by (simp add: wfq_scan_def x)
  show ?case
  proof (cases "wfq_scan run js")
    case None
    then show ?thesis unfolding x scan using snoc by (auto simp: wfq_better_def f64_eq_def)
  next
    case (Some bs)
    obtain b sc where bs: "bs = (b, sc)" by fastforce
    note ih = snoc [unfolded Some bs option.case prod.case]
    show ?thesis
    proof (cases "run k \<and> wfq_better k (virt_service j) (Some (b, sc))")
      case True
      then have better: "f64_lt (virt_service j) sc \<or> f64_eq (virt_service j) sc \<and> k < b" by (simp add: wfq_better_def)
      have "\<not> f64_lt (virt_service j') (virt_service j) \<and> (f64_eq (virt_service j') (virt_service j) \<longrightarrow> k \<le> k')"
        if "(k', j') \<in> set js" "run k'" for k' j'
      proof -
        have old: "\<not> f64_lt (virt_service j') sc" "f64_eq (virt_service j') sc \<Longrightarrow> b \<le> k'" using ih that by auto
        show ?thesis using better old f64_lt_trans [of "virt_service j'" "virt_service j" sc] by (auto simp: f64_eq_def)
      qed
      then show ?thesis unfolding x scan using True by (auto simp: Some bs)
    next
      case False
      then show ?thesis unfolding x scan using ih by (auto simp: Some bs wfq_better_def not_less)
    qed
  qed
qed (simp add: wfq_scan_def)


definition demo_idle :: controller where
  "demo_idle = upd_job 1 (\<lambda>j. j\<lparr>plan := Some demo0, jn_total_length := Some 10, phase := Transferring\<rparr>) demo_ctl"


section \<open>Redirects\<close>

lemma step_jobs: "ctl_step E s t \<Longrightarrow> fst ` set (jobs (world t)) \<subseteq> fst ` set (jobs (world s))"
proof (induction rule: ctl_step.induct)
  case (c_claim s c now b t)
  then show ?case using claim_one_books(4) [OF c_claim(3)] by (metis list.set_map order_refl)
next
  case (c_dial s i ep h3 srv now c t)
  then show ?case
    by (auto simp: dial_connection_def allocate_connection_def Let_def emit_def upd_conn_def inc_shard_load_def split: prod.splits if_splits)
next
  case (c_drop s c)
  then show ?case by (force simp: jobs_drop)
next
  case (c_finish s job j out)
  then show ?case by (auto simp: emit_def upd_world_def jobs_remove sm_remove_def)
qed (auto simp: emit_def release_assignment_slot_def Let_def upd_job_def set_plan_def upd_conn_def upd_source_def kept_def
    split: option.splits)

lemma steps_no_job: "ctl_steps E s t \<Longrightarrow> job_of s k = None \<Longrightarrow> job_of t k = None"
proof (induction rule: rtranclp_induct)
  case (step t u)
  then show ?case using step_jobs [OF step(2)] by (auto simp: job_of_def sm_get_def map_of_eq_None_iff)
qed simp

lemma finished_job_is_gone: "finish_job E job out s = Some t \<Longrightarrow> job_of t job = None"
proof -
  assume f: "finish_job E job out s = Some t"
  show ?thesis
  proof (cases "job_of s job")
    case (Some j)
    let ?u = "emit (outcome_action job j out) (upd_world (remove_job job) s)"
    have "ensure_probes E (jn_origin j) (inst_now E) ?u = Some t"
      using f Some by (simp add: finish_job_def outcome_action_def)
    then have "ctl_steps E ?u t" by (rule steps_ensure) simp
    moreover have "job_of ?u job = None" by (simp add: job_of_def emit_def upd_world_def jobs_remove sm_get_remove)
    ultimately show ?thesis by (rule steps_no_job)
  qed (use f in \<open>simp add: finish_job_def\<close>)
qed

lemma not_loop: "\<not> is_loop chain u \<Longrightarrow> u \<notin> set chain"
proof
  assume "\<not> is_loop chain u" "u \<in> set chain"
  then have "length (remdups (chain @ [u])) = length chain + 1" "card (set (chain @ [u])) = card (set chain)"
    by (simp_all add: is_loop_def insert_absorb)
  then show False using card_length [of chain] by (simp add: length_remdups_card_conv)
qed

lemma drain_named_subset: "set (drain_named seen hs) \<subseteq> set hs"
  by (induction seen hs rule: drain_named.induct) auto

lemma strip_credentials_safe:
  "(h, v) \<in> set (strip_credentials sens hs) \<Longrightarrow> h \<notin> {''authorization'', ''proxy-authorization'', ''cookie''} \<and> \<not> sens (h, v)"
  using drain_named_subset by (fastforce simp: strip_credentials_def)

lemma sources_drop: "sources (world (drop_connection c s)) = sources (world s)"
  by (auto simp: drop_connection_def Let_def remove_connection_def split: option.splits)

lemma cross_shape:
  assumes "fresh_alloc (wenv C)"
  obtains i w s1 where "s1 = (if fwd then s else upd_source sid (\<lambda>n. let hs = strip_credentials (is_sensitive C) (sn_headers n)
      in n\<lparr>sn_headers := hs, sn_header_identity := fingerprint_of (url_ops_of C) (blake3_of C) u hs\<rparr>) s)" "kept (world s1) w"
    "follow_cross_origin C job c sid u key fwd s = emit (Act_Resolve i (host key) (port key)) (close_connection c
      (upd_source sid (\<lambda>n. n\<lparr>sn_url := as_str (url_ops_of C) u, sn_origin := i\<rparr>)
        (upd_job job (\<lambda>j. j\<lparr>jn_origin := i, jn_rep_lock := lock_new None None None, phase := Created, resolve_attempts := 0,
           jn_redirect_chain := jn_redirect_chain j @ [as_str (url_ops_of C) u]\<rparr>) (s1\<lparr>world := w\<rparr>))))"
proof -
  define s1 where "s1 = (if fwd then s else upd_source sid (\<lambda>n. let hs = strip_credentials (is_sensitive C) (sn_headers n)
      in n\<lparr>sn_headers := hs, sn_header_identity := fingerprint_of (url_ops_of C) (blake3_of C) u hs\<rparr>) s)"
  obtain i w where w: "get_or_create_origin (wenv C) key (world s1) = (i, w)" by fastforce
  show ?thesis
  proof (rule that [OF s1_def kept_origin_created [OF assms w]])
    show "follow_cross_origin C job c sid u key fwd s = emit (Act_Resolve i (host key) (port key)) (close_connection c
      (upd_source sid (\<lambda>n. n\<lparr>sn_url := as_str (url_ops_of C) u, sn_origin := i\<rparr>)
        (upd_job job (\<lambda>j. j\<lparr>jn_origin := i, jn_rep_lock := lock_new None None None, phase := Created, resolve_attempts := 0,
           jn_redirect_chain := jn_redirect_chain j @ [as_str (url_ops_of C) u]\<rparr>) (s1\<lparr>world := w\<rparr>))))"
      unfolding follow_cross_origin_def Let_def s1_def [unfolded Let_def, symmetric] w prod.case ..
  qed
qed

lemma close_frame:
  "job_of (emit a s) k = job_of s k" "source_of (emit a s) x = source_of s x"
  "job_of (close_connection c s) k = map_option (forget_connection c) (job_of s k)"
  "source_of (close_connection c s) x = source_of s x" "job_of (upd_source x g s) k = job_of s k"
  "source_of (upd_source x g s) y = (if y = x then map_option g (source_of s y) else source_of s y)"
  "source_of (upd_job k f s) x = source_of s x"
  by (simp_all add: emit_def job_of_def source_of_def close_connection_def job_of_drop [unfolded job_of_def] sources_drop
      upd_source_def upd_job_def sm_get_update)

lemma cross_job:
  assumes "fresh_alloc (wenv C)" "job_of s job = Some j"
  shows "\<exists>j'. job_of (follow_cross_origin C job c sid u key fwd s) job = Some j' \<and>
    jn_redirect_chain j' = jn_redirect_chain j @ [as_str (url_ops_of C) u]"
proof -
  obtain i w s1 where s1: "s1 = (if fwd then s else upd_source sid (\<lambda>n. let hs = strip_credentials (is_sensitive C) (sn_headers n)
      in n\<lparr>sn_headers := hs, sn_header_identity := fingerprint_of (url_ops_of C) (blake3_of C) u hs\<rparr>) s)" and k: "kept (world s1) w"
    and eq: "follow_cross_origin C job c sid u key fwd s = emit (Act_Resolve i (host key) (port key)) (close_connection c
      (upd_source sid (\<lambda>n. n\<lparr>sn_url := as_str (url_ops_of C) u, sn_origin := i\<rparr>)
        (upd_job job (\<lambda>j. j\<lparr>jn_origin := i, jn_rep_lock := lock_new None None None, phase := Created, resolve_attempts := 0,
           jn_redirect_chain := jn_redirect_chain j @ [as_str (url_ops_of C) u]\<rparr>) (s1\<lparr>world := w\<rparr>))))"
    by (rule cross_shape [OF assms(1)])
  have "job_of (s1\<lparr>world := w\<rparr>) job = job_of s1 job" using k by (simp add: job_of_def kept_def)
  moreover have "job_of s1 job = Some j" using assms(2) by (simp add: s1 close_frame)
  ultimately show ?thesis by (simp add: eq close_frame forget_connection_def)
qed

lemma cross_source:
  assumes "fresh_alloc (wenv C)" "source_of s sid = Some n"
  shows "\<exists>m. source_of (follow_cross_origin C job c sid u key False s) sid = Some m \<and>
    sn_headers m = strip_credentials (is_sensitive C) (sn_headers n)"
proof -
  obtain i w s1 where s1: "s1 = (if False then s else upd_source sid (\<lambda>n. let hs = strip_credentials (is_sensitive C) (sn_headers n)
      in n\<lparr>sn_headers := hs, sn_header_identity := fingerprint_of (url_ops_of C) (blake3_of C) u hs\<rparr>) s)" and k: "kept (world s1) w"
    and eq: "follow_cross_origin C job c sid u key False s = emit (Act_Resolve i (host key) (port key)) (close_connection c
      (upd_source sid (\<lambda>n. n\<lparr>sn_url := as_str (url_ops_of C) u, sn_origin := i\<rparr>)
        (upd_job job (\<lambda>j. j\<lparr>jn_origin := i, jn_rep_lock := lock_new None None None, phase := Created, resolve_attempts := 0,
           jn_redirect_chain := jn_redirect_chain j @ [as_str (url_ops_of C) u]\<rparr>) (s1\<lparr>world := w\<rparr>))))"
    by (rule cross_shape [OF assms(1)])
  have "source_of (s1\<lparr>world := w\<rparr>) sid = source_of s1 sid" using k by (simp add: source_of_def kept_def)
  then show ?thesis using assms(2) by (simp add: eq s1 close_frame Let_def)
qed

text \<open>C10: Redirects are followed safely. If a job is still there after a probe was redirected, the location
  was a valid URL that is not in the chain yet, the chain was shorter than the limit, an https origin
  is left for http only if the policy allows it, and unless credentials may be forwarded a hop to
  another origin carries no authorization or cookie header and no header marked sensitive.\<close>

theorem redirects_are_safe:
  assumes "fresh_alloc (wenv C)" and "job_of s job = Some j" "active_source j = Some sid" "source_of s sid = Some n"
    and "origin_of s (jn_origin j) = Some old"
    and "handle_probe_redirect C job c loc s = Some t" "job_of t job = Some j'"
  shows "\<exists>u key. url_parse C loc = Some u \<and> from_url (url_ops_of C) u = Some key \<and>
    jn_redirect_chain j' = jn_redirect_chain j @ [as_str (url_ops_of C) u] \<and>
    as_str (url_ops_of C) u \<notin> set (jn_redirect_chain j) \<and>
    length (jn_redirect_chain j) < unat (max (max_redirects (jn_policy j)) 1) \<and>
    (scheme (on_key old) = ''https'' \<and> scheme key = ''http'' \<longrightarrow> allow_https_to_http (redirects (jn_policy j))) \<and>
    (same_origin (on_key old) key \<or> forward_credentials_cross_origin (redirects (jn_policy j)) \<or>
     (\<exists>m. source_of t sid = Some m \<and> (\<forall>(h, v)\<in>set (sn_headers m).
        h \<notin> {''authorization'', ''proxy-authorization'', ''cookie''} \<and> \<not> is_sensitive C (h, v))))"
proof -
  have nofin: "finish_job (wenv C) job (Inl msg) s \<noteq> Some t" for msg using finished_job_is_gone assms(7) by fastforce
  note h = assms(6) [unfolded handle_probe_redirect_def Let_def assms(2) option.case]
  have lim: "\<not> unat (max (max_redirects (jn_policy j)) 1) \<le> length (jn_redirect_chain j)" using h nofin by (simp split: if_splits)
  note h = h [unfolded if_not_P [OF lim]]
  obtain u where u: "url_parse C loc = Some u" using h nofin by (cases "url_parse C loc") simp_all
  note h = h [unfolded u option.case]
  obtain key where key: "from_url (url_ops_of C) u = Some key" using h nofin by (cases "from_url (url_ops_of C) u") simp_all
  note h = h [unfolded key option.case]
  have loop: "\<not> is_loop (jn_redirect_chain j) (as_str (url_ops_of C) u)" using h nofin by (simp split: if_splits)
  note h = h [unfolded if_not_P [OF loop] assms(3,5) option.case option.map]
  have down: "\<not> (scheme (on_key old) = ''https'' \<and> scheme key = ''http'' \<and> \<not> allow_https_to_http (redirects (jn_policy j)))"
    using h nofin [of "''insecure redirect downgrade from https to http rejected''"] by (auto split: if_splits)
  have t: "t = (if same_origin (on_key old) key then follow_same_origin job c sid (as_str (url_ops_of C) u) s
       else follow_cross_origin C job c sid u key (forward_credentials_cross_origin (redirects (jn_policy j))) s)"
    using h [unfolded if_not_P [OF down]] by (simp split: if_splits)
  have fresh: "as_str (url_ops_of C) u \<notin> set (jn_redirect_chain j)" using loop by (rule not_loop)
  have chain: "jn_redirect_chain j' = jn_redirect_chain j @ [as_str (url_ops_of C) u]"
  proof (cases "same_origin (on_key old) key")
    case True
    then have "job_of t job = Some (j\<lparr>jn_redirect_chain := jn_redirect_chain j @ [as_str (url_ops_of C) u]\<rparr>)"
      using assms(2) by (simp add: t follow_same_origin_def job_of_def emit_def upd_job_def upd_source_def sm_get_update)
    then show ?thesis using assms(7) by simp
  next
    case False
    obtain k where "job_of t job = Some k" "jn_redirect_chain k = jn_redirect_chain j @ [as_str (url_ops_of C) u]"
      using cross_job [OF assms(1,2), of c sid u key "forward_credentials_cross_origin (redirects (jn_policy j))"] False
      by (auto simp: t)
    then show ?thesis using assms(7) by simp
  qed
  have safe: "\<exists>m. source_of t sid = Some m \<and> (\<forall>(h, v)\<in>set (sn_headers m).
        h \<notin> {''authorization'', ''proxy-authorization'', ''cookie''} \<and> \<not> is_sensitive C (h, v))"
    if x: "\<not> same_origin (on_key old) key" "\<not> forward_credentials_cross_origin (redirects (jn_policy j))"
  proof -
    obtain m where m: "source_of t sid = Some m" "sn_headers m = strip_credentials (is_sensitive C) (sn_headers n)"
      using cross_source [OF assms(1,4), of job c u key] x by (auto simp: t)
    then show ?thesis using strip_credentials_safe by (intro exI [of _ m]) (auto simp del: insert_iff)
  qed
  show ?thesis using u key chain fresh lim down safe by (intro exI [of _ u] exI [of _ key]) (simp add: not_le; blast)
qed

theorem redirects_are_safe_witness:
  "\<exists>t j'. handle_probe_redirect demo_C 1 7 ''http://h/b'' demo_ctl = Some t \<and> job_of t 1 = Some j' \<and>
     jn_redirect_chain j' = [''h'', ''http://h/b'']"
proof -
  let ?j = "job_new demo_url (job_spec_new ''h'') 1 [1] 1 1 1"
  have j: "job_of demo_ctl 1 = Some ?j" by (simp add: job_of_def demo_job sm_get_def)
  have src: "\<exists>n. source_of demo_ctl 1 = Some n" by (simp add: source_of_def demo_ctl_def demo_world_simps)
  have org: "origin_of demo_ctl (jn_origin ?j) = Some (origin_new 0 \<lparr>scheme = ''http'', host = ''h'', port = 80\<rparr>)"
    by (simp add: origin_of_def demo_origin sm_get_def job_new_def)
  have chain: "jn_redirect_chain ?j = [''h'']" by (simp add: job_new_def job_spec_new_def source_request_new_def demo_url_def)
  obtain t j' where t: "handle_probe_redirect demo_C 1 7 ''http://h/b'' demo_ctl = Some t" "job_of t 1 = Some j'"
  proof -
    obtain key where key: "from_url demo_url ''http://h/b'' = Some key" "scheme key = ''http''" "host key = ''http://h/b''"
      by (simp add: from_url_def demo_url_def)
    have "handle_probe_redirect demo_C 1 7 ''http://h/b'' demo_ctl = Some (follow_cross_origin demo_C 1 7 1 ''http://h/b'' key
        (forward_credentials_cross_origin (redirects (jn_policy ?j))) demo_ctl)"
      using j org chain key
      by (auto simp: handle_probe_redirect_def Let_def demo_C_def demo_url_def is_loop_def active_source_def job_new_def origin_new_def
          same_origin_def job_spec_new_def transfer_policy_default_def)
    then show ?thesis using that cross_job [OF demo_C_fresh j] by blast
  qed
  from redirects_are_safe [OF demo_C_fresh j _ _ org t] src chain show ?thesis using t
    by (auto simp: demo_C_def demo_url_def active_source_def job_new_def)
qed

section \<open>Resuming\<close>

text \<open>C11: Bytes of an earlier run count as verified only on trusted evidence. After a probe the plan starts
  with exactly the durable ranges that fit the announced length when the evidence is trusted, and with
  nothing otherwise; trust needs the same final URL, a length that agrees, the same entity tag (for a
  weak tag also the same date), and no verification on resume unless the tag is strong.\<close>

theorem only_trusted_bytes_are_resumed:
  "\<exists>p. plan (probed_node b len et lm j) = Some p \<and>
    (\<forall>x. x \<in> rs_set (completed p) \<longleftrightarrow> (\<exists>r q. resume j = Some r \<and> judge_resume j len et lm r = Trust \<and> q \<in> set (ranges (re_durable r)) \<and>
       x \<in> br_set q \<and> (\<forall>n. len = Some n \<longrightarrow> r_end q \<le> n))) \<and>
    (\<forall>r. judge_resume j len et lm r = Trust \<longrightarrow> re_urls r \<noteq> [] \<and> jn_redirect_chain j \<noteq> [] \<and>
       last (re_urls r) = last (jn_redirect_chain j) \<and> re_etag r = et \<and>
       (re_total r = None \<or> re_total r = len) \<and> (strong_etag et \<or> re_last_modified r = lm) \<and>
       (strong_etag et \<or> \<not> verify_on_resume (jn_integrity j)))"
proof -
  define seeds where "seeds = (case resume j of None \<Rightarrow> []
      | Some r \<Rightarrow> (case judge_resume j len et lm r of Trust \<Rightarrow> seed_ranges len (re_durable r) | _ \<Rightarrow> []))"
  have flags: "completed (set_single_stream b p) = completed p" "completed (clamp_max_piece m p) = completed p" for b m p
    by (simp_all add: set_single_stream_def clamp_max_piece_def)
  obtain p where p: "plan (probed_node b len et lm j) = Some p" "completed p = foldl rs_insert rs_new seeds"
  proof -
    have "completed (fresh_plan j1 b sd) = sd" for j1 sd
      by (simp add: fresh_plan_def Let_def flags) (simp add: plan_new_def)
    then show ?thesis using that by (simp add: probed_node_def Let_def seeds_def [symmetric])
  qed
  have "rs_set (completed p) = (\<Union>q\<in>set seeds. br_set q)" using foldl_insert_set [of rs_new seeds] by (simp add: p(2))
  moreover have "q \<in> set seeds \<longleftrightarrow> (\<exists>r. resume j = Some r \<and> judge_resume j len et lm r = Trust \<and> q \<in> set (ranges (re_durable r)) \<and>
      (\<forall>n. len = Some n \<longrightarrow> r_end q \<le> n))" for q
    by (cases "resume j"; cases len) (auto simp: seeds_def seed_ranges_def split: resume_verdict.splits)
  ultimately have mem: "x \<in> rs_set (completed p) \<longleftrightarrow> (\<exists>r q. resume j = Some r \<and> judge_resume j len et lm r = Trust \<and>
      q \<in> set (ranges (re_durable r)) \<and> x \<in> br_set q \<and> (\<forall>n. len = Some n \<longrightarrow> r_end q \<le> n))" for x by (simp only: UN_iff) blast
  have "re_urls r \<noteq> [] \<and> jn_redirect_chain j \<noteq> [] \<and>
       last (re_urls r) = last (jn_redirect_chain j) \<and> re_etag r = et \<and>
       (re_total r = None \<or> re_total r = len) \<and> (strong_etag et \<or> re_last_modified r = lm) \<and>
       (strong_etag et \<or> \<not> verify_on_resume (jn_integrity j))" if "judge_resume j len et lm r = Trust" for r
    using that by (auto simp: judge_resume_def Let_def opt_agrees_def split: if_splits option.splits)
  then show ?thesis using p(1) mem by (intro exI [of _ p]) simp
qed

definition demo_evidence :: resume_evidence where
  "demo_evidence = \<lparr>re_durable = \<lparr>ranges = [\<lparr>r_start = 0, r_end = 5\<rparr>, \<lparr>r_start = 8, r_end = 12\<rparr>], covered = 9\<rparr>, re_total = Some 10,
     re_etag = Some [CHR 0x22, CHR 0x61, CHR 0x22], re_last_modified = None, re_urls = [''h'']\<rparr>"

theorem only_trusted_bytes_are_resumed_witness:
  "\<exists>p. plan (probed_node True (Some 10) (re_etag demo_evidence) None ((job_new demo_url (job_spec_new ''h'') 1 [1] 1 1 1)
     \<lparr>resume := Some demo_evidence\<rparr>)) = Some p \<and> 4 \<in> rs_set (completed p) \<and> 9 \<notin> rs_set (completed p)"
proof -
  let ?j = "(job_new demo_url (job_spec_new ''h'') 1 [1] 1 1 1)\<lparr>resume := Some demo_evidence\<rparr>"
  have chain: "jn_redirect_chain ?j = [''h'']" by (simp add: job_new_def job_spec_new_def source_request_new_def demo_url_def)
  have trust: "judge_resume ?j (Some 10) (re_etag demo_evidence) None demo_evidence = Trust"
    using chain by (simp add: judge_resume_def demo_evidence_def strong_etag_def starts_with_def opt_agrees_def)
  have res: "resume ?j = Some demo_evidence" by simp
  obtain p where p: "plan (probed_node True (Some 10) (re_etag demo_evidence) None ?j) = Some p"
    and mem: "\<forall>x. x \<in> rs_set (completed p) \<longleftrightarrow> (\<exists>r q. resume ?j = Some r \<and>
       judge_resume ?j (Some 10) (re_etag demo_evidence) None r = Trust \<and> q \<in> set (ranges (re_durable r)) \<and>
       x \<in> br_set q \<and> (\<forall>n. Some 10 = Some n \<longrightarrow> r_end q \<le> n))"
    using only_trusted_bytes_are_resumed [of True "Some 10" "re_etag demo_evidence" None ?j] by blast
  have rng: "set (ranges (re_durable demo_evidence)) = {\<lparr>r_start = 0, r_end = 5\<rparr>, \<lparr>r_start = 8, r_end = 12\<rparr>}"
    by (simp add: demo_evidence_def)
  have "x \<in> rs_set (completed p) \<longleftrightarrow> (\<exists>q\<in>set (ranges (re_durable demo_evidence)). x \<in> br_set q \<and> r_end q \<le> 10)" for x
    using mem trust unfolding res by blast
  then show ?thesis using p unfolding rng by (simp add: br_set_def)
qed

section \<open>Cancelling\<close>

lemma drain_ends_or_waits:
  assumes "job_of s job = Some j" "is_draining (phase j)" "try_complete_drain E job s = Some t"
  shows "if (case plan j of None \<Rightarrow> True | Some p \<Rightarrow> assignments p = []) then job_of t job = None else t = s"
  using assms finished_job_is_gone by (auto simp: try_complete_drain_def split: option.splits if_splits)

text \<open>C13: Cancelling a job that has not ended either ends it at once, when nothing of it is running, or
  leaves it waiting for its running assignments; meanwhile it gets no new work.\<close>

theorem cancelled_job_gets_no_work:
  assumes "handle C (JobCancelled job) now s = Some (as, t)" "job_of s job = Some j" "\<not> is_terminal (phase j)"
  shows "(if (case plan j of None \<Rightarrow> True | Some p \<Rightarrow> assignments p = []) then job_of t job = None
     else \<exists>j'. job_of t job = Some j' \<and> phase j' = Cancelling \<and> plan j' = plan j \<and> pending_terminal j' = Some (Inl ''cancelled'')) \<and>
    \<not> is_runnable E t job i"
proof -
  define s1 where "s1 = bump_generation (jn_origin j) now (upd_job job (\<lambda>j. j\<lparr>phase := Cancelling, pending_terminal := Some (Inl CANCELLED_SENTINEL)\<rparr>)
      (s\<lparr>acts := []\<rparr>))"
  have j0: "job_of (s\<lparr>acts := []\<rparr>) job = Some j" using assms(2) by (simp add: job_of_def)
  obtain u where u: "try_complete_drain (wenv C) job s1 = Some u" "t = u\<lparr>acts := []\<rparr>"
    using assms(1,3) j0 by (auto simp: handle_def react_def on_job_cancelled_def s1_def)
  have j1: "job_of s1 job = Some (j\<lparr>phase := Cancelling, pending_terminal := Some (Inl CANCELLED_SENTINEL)\<rparr>)"
  proof -
    have "job_of s1 job = job_of (upd_job job (\<lambda>j. j\<lparr>phase := Cancelling, pending_terminal := Some (Inl CANCELLED_SENTINEL)\<rparr>) (s\<lparr>acts := []\<rparr>)) job"
      by (simp add: s1_def bump_generation_def job_of_def)
    then show ?thesis using j0 by simp
  qed
  have "job_of t job = job_of u job" by (simp add: u(2) job_of_def)
  then show ?thesis using drain_ends_or_waits [OF j1 _ u(1)] j1
    by (auto simp: is_draining_def is_runnable_def CANCELLED_SENTINEL_def split: option.splits if_splits)
qed

text \<open>C15: A cancelled job can come back. When one of several running assignments of a cancelled job fails with
  an answer that makes its length doubtful, the job goes back to probing, so the cancellation is
  forgotten.\<close>

theorem recheck_revives_cancelled_job:
  assumes "job_of s job = Some j" "phase j = Cancelling" "plan j = Some p" "keys_ok (assignments p)"
    and "sm_get (assignments p) i = Some a" "sm_get (assignments p) k = Some b" "i \<noteq> k"
  shows "\<exists>t j'. handle_assignment_disposition E job (Some i) r RecheckLength att c now s = Some t \<and>
    job_of t job = Some j' \<and> phase j' = Probing"
proof -
  define q where "q = snd (abandon p i)"
  have gb: "give_back job (Some i) None m now s = set_plan job q s" for m using assms(1,3) by (simp add: give_back_def q_def)
  have jq: "job_of (set_plan job q s) job = Some (j\<lparr>plan := Some q\<rparr>)" using assms(1) by (simp add: set_plan_def)
  have "sm_get (assignments q) k = Some b" using assms(4-7) by (simp add: q_def abandon_def store(2))
  then have ne: "assignments q \<noteq> []" by (auto simp: sm_get_def)
  have tr: "try_complete_drain E job (set_plan job q s) = Some (set_plan job q s)"
    using jq ne by (simp add: try_complete_drain_def)
  define t where "t = on_recheck_length E job now (set_plan job q s)"
  have "handle_assignment_disposition E job (Some i) r RecheckLength att c now s = Some t"
    using gb tr by (simp add: handle_assignment_disposition_def retry_plan_of_def act_on_disposition_def t_def Let_def)
  moreover have "jobs (world (open_one_connection E x now h y)) = jobs (world y)" for x h y
    by (simp add: open_one_connection_def jobs_dial split: option.splits)
  then have "job_of t job = Some (j\<lparr>plan := Some q, phase := Probing\<rparr>)"
    using jq by (simp add: t_def on_recheck_length_def job_of_def upd_job_def sm_get_update)
  ultimately show ?thesis by simp
qed

lemma demo_two_job:
  "job_of demo_two 1 = Some ((job_new demo_url (job_spec_new ''h'') 1 [1] 1 1 1)\<lparr>plan := Some demo2,
      jn_total_length := Some 10, phase := Transferring\<rparr>)"
  by (simp add: job_of_def demo_two_def upd_job_def demo_job sm_get_def sm_update_def)

theorem cancelled_job_gets_no_work_witness:
  "\<exists>as t j. handle demo_C (JobCancelled 1) 5 demo_two = Some (as, t) \<and> job_of t 1 = Some j \<and> phase j = Cancelling"
proof -
  have a: "assignments demo2 \<noteq> []" by (simp add: demo2_def)
  have "\<exists>as t. handle demo_C (JobCancelled 1) 5 demo_two = Some (as, t)"
    using demo_two_job a
    by (simp add: handle_def react_def on_job_cancelled_def job_of_def is_terminal_def try_complete_drain_def bump_generation_def
        upd_job_def sm_get_update)
  then obtain as t where h: "handle demo_C (JobCancelled 1) 5 demo_two = Some (as, t)" by blast
  from cancelled_job_gets_no_work [OF h demo_two_job] a h show ?thesis by (auto simp: is_terminal_def)
qed

theorem recheck_revives_cancelled_job_witness:
  "\<exists>t j. handle_assignment_disposition demo_env 1 (Some 1) (ByteRange_new 0 0) RecheckLength 0 None 7
     (upd_job 1 (\<lambda>j. j\<lparr>phase := Cancelling\<rparr>) demo_two) = Some t \<and> job_of t 1 = Some j \<and> phase j = Probing"
proof -
  have j: "job_of (upd_job 1 (\<lambda>j. j\<lparr>phase := Cancelling\<rparr>) demo_two) 1 =
      Some ((job_new demo_url (job_spec_new ''h'') 1 [1] 1 1 1)\<lparr>plan := Some demo2, jn_total_length := Some 10, phase := Cancelling\<rparr>)"
    by (simp add: demo_two_job del: One_nat_def)
  have "keys_ok (assignments demo2)" by (simp add: demo2_def keys_ok_def)
  from recheck_revives_cancelled_job [OF j _ _ this, of 1 _ 2] show ?thesis by (simp add: demo2_def sm_get_def)
qed

end
