(* ===== verification/Controller_Probes.thy ===== *)
theory Controller_Probes
  imports Controller_Props
begin

text \<open>
  The loop of \<open>ensure_probes\<close>: it ends when no connection of the origin is idle, and it never ends when
  two jobs wait for a probe on one idle connection, because a probe does not count as a use of the
  connection and assigning it to one job takes it from the other.
\<close>

section \<open>Who waits\<close>

definition candidate :: "origin_id \<Rightarrow> job_node \<Rightarrow> bool" where
  "candidate i j \<longleftrightarrow> jn_origin j = i \<and> (phase j = Created \<or> phase j = Probing)"

definition waiters :: "controller \<Rightarrow> origin_id \<Rightarrow> (job_id \<times> job_node) list" where
  "waiters s i = filter (\<lambda>(k, j). candidate i j \<and> \<not> job_has_inflight_probe s k) (jobs (world s))"

lemma waiting_None_iff: "waiting_probe_job s i = None \<longleftrightarrow> waiters s i = []"
proof -
  have "waiting_probe_job s i = None \<longleftrightarrow> waiting_in Created s i = None \<and> waiting_in Probing s i = None"
    by (simp add: waiting_probe_job_def opt_or_def split: option.splits)
  then show ?thesis
    by (auto simp: waiting_in_def waiters_def candidate_def find_None_iff filter_empty_conv)
qed

lemma find_SomeD: "find P xs = Some x \<Longrightarrow> x \<in> set xs \<and> P x"
  by (auto simp: find_Some_iff)

lemma waiting_SomeD:
  assumes "waiting_probe_job s i = Some k"
  obtains j where "(k, j) \<in> set (jobs (world s))" "candidate i j" "\<not> job_has_inflight_probe s k"
proof -
  from assms have "\<exists>j. (k, j) \<in> set (jobs (world s)) \<and> candidate i j \<and> \<not> job_has_inflight_probe s k"
    by (fastforce simp: waiting_probe_job_def waiting_in_def opt_or_def candidate_def dest!: find_SomeD split: option.splits)
  then show ?thesis using that by blast
qed

lemma sm_get_mem: "(k, v) \<in> set m \<Longrightarrow> \<exists>u. sm_get m k = Some u"
  by (simp add: sm_get_def) (metis weak_map_of_SomeI)

section \<open>One dial\<close>

definition new_node :: "world_env \<Rightarrow> origin_id \<Rightarrow> nat \<Rightarrow> nat \<Rightarrow> controller \<Rightarrow> connection_id \<Rightarrow> connection_node" where
  "new_node E i ep shard s c =
     \<lparr>cn_id = c, cn_origin = i, cn_endpoint = ep, cn_shard = shard, cn_protocol = Http1_1, status = Connecting,
      opened_at = inst_now E, cn_network_context = current_context (world s), path = None, prefer_h3 = False,
      serving_source = None, intent = Intent_Pool i\<rparr>"

lemma sm_update_inserted:
  assumes "k \<notin> fst ` set A" "k \<notin> fst ` set B"
  shows "sm_update k f (A @ (k, v) # B) = A @ (k, f v) # B"
  using assms by (simp add: sm_append sm_update_notin)

lemma dial_connections:
  assumes E: "fresh_alloc E"
  obtains c n A B where "connections (world s) = A @ B" "connections (world (dial E i ep h3 None now s)) = A @ (c, n) # B"
    "cn_origin n = i" "status n = Connecting" "intent n = dial_intent s i None" "c \<notin> fst ` set A" "c \<notin> fst ` set B"
proof -
  let ?k = "place_shard s"
  define slot where "slot = alloc E (map fst (connections (world s)))"
  define c where "c = fst slot"
  obtain w where a: "allocate_connection E i ep ?k (world s) = (c, w)"
    by (simp add: allocate_connection_def Let_def sm_add_def slot_def c_def)
  obtain p where cw: "connections w = sm_update c (\<lambda>n. n\<lparr>path := Some p\<rparr>) (sm_insert slot (new_node E i ep ?k s c) (connections (world s)))"
    and jw: "jobs w = jobs (world s)"
    using a by (auto simp: allocate_connection_def Let_def sm_add_def slot_def c_def new_node_def)
  obtain A B where ab: "connections (world s) = A @ B" "sm_insert slot (new_node E i ep ?k s c) (connections (world s)) = A @ (c, new_node E i ep ?k s c) # B"
    unfolding c_def by (rule sm_insert_split)
  have fresh: "c \<notin> fst ` set A" "c \<notin> fst ` set B"
    using E [unfolded fresh_alloc_def, rule_format, of "map fst (connections (world s))"] ab(1) by (auto simp: c_def slot_def)
  define s2 where "s2 = (inc_shard_load ?k (s\<lparr>world := w\<rparr>))\<lparr>origin_live_conns :=
      sec_insert i (opt_default 0 (sec_get (origin_live_conns (inc_shard_load ?k (s\<lparr>world := w\<rparr>))) i) + 1)
        (origin_live_conns (inc_shard_load ?k (s\<lparr>world := w\<rparr>)))\<rparr>"
  have w2: "world s2 = w" by (simp add: s2_def)
  have cw2: "connections w = A @ (c, (new_node E i ep ?k s c)\<lparr>path := Some p\<rparr>) # B"
    using fresh by (simp add: cw ab(2) sm_update_inserted)
  have "job_has_inflight_probe s2 = job_has_inflight_probe s"
    by (simp add: fun_eq_iff job_has_inflight_probe_def w2 cw2 ab(1) new_node_def)
  then have intent: "dial_intent s2 i None = dial_intent s i None"
    by (simp add: dial_intent_def waiting_probe_job_def waiting_in_def w2 jw job_of_def)
  have d: "world (dial E i ep h3 None now s) = w\<lparr>connections := sm_update c (\<lambda>n. n\<lparr>prefer_h3 := h3 \<and> prefer_h3_for s i now,
      serving_source := None, intent := dial_intent s2 i None\<rparr>) (connections w)\<rparr>"
    unfolding dial_def dial_connection_def a Let_def prod.case s2_def [symmetric] by (simp add: upd_conn_def emit_def w2)
  show ?thesis
  proof (rule that)
    show "connections (world s) = A @ B" by (rule ab(1))
    show "connections (world (dial E i ep h3 None now s)) = A @ (c, (new_node E i ep ?k s c)\<lparr>path := Some p,
        prefer_h3 := h3 \<and> prefer_h3_for s i now, serving_source := None, intent := dial_intent s i None\<rparr>) # B"
      using fresh by (simp add: d cw2 sm_update_inserted intent)
  qed (use fresh in \<open>simp_all add: new_node_def\<close>)
qed

section \<open>Termination\<close>

lemma idle_None_iff:
  "idle_connection s i = None \<longleftrightarrow> (\<forall>(c, n)\<in>set (connections (world s)). \<not> (cn_origin n = i \<and> status n = Ready \<and>
     serving_source n = None \<and> in_flight_on s c = 0))"
  by (fastforce simp: idle_connection_def find_None_iff)

lemma connection_state_dial: "connection_state (dial E i ep h3 srv now s) = connection_state s"
  by (simp add: dial_def dial_connection_def allocate_connection_def Let_def upd_conn_def emit_def inc_shard_load_def
      split: prod.splits)

lemma filter_shrinks:
  assumes "x \<in> set xs" "\<And>x. x \<in> set xs \<Longrightarrow> P x \<Longrightarrow> Q x" "Q x" "\<not> P x"
  shows "length (filter P xs) < length (filter Q xs)"
proof -
  have "filter P xs = filter P (filter Q xs)" using assms(2) by (induction xs) auto
  then show ?thesis using length_filter_less [of x "filter Q xs" P] assms by simp
qed

lemma round_shrinks:
  assumes E: "fresh_alloc E" and idle: "idle_connection s i = None" and r: "ensure_round E i now s = (True, t)"
  shows "idle_connection t i = None" "length (waiters t i) < length (waiters s i)"
proof -
  obtain job where job: "waiting_probe_job s i = Some job" using r by (auto simp: ensure_round_def split: option.splits)
  obtain ep where ep: "any_endpoint s i now = Some ep" using r job idle by (auto simp: ensure_round_def split: option.splits)
  let ?d = "dial E i ep True None now s"
  have t: "t = upd_job job (\<lambda>j. j\<lparr>phase := Probing\<rparr>) ?d" and inflight: "job_has_inflight_probe t job"
    using r job ep idle by (auto simp: ensure_round_def Let_def)
  obtain c n A B where d: "connections (world s) = A @ B" "connections (world ?d) = A @ (c, n) # B"
    "cn_origin n = i" "status n = Connecting" by (rule dial_connections [OF E])
  have ct: "connections (world t) = A @ (c, n) # B" "connection_state t = connection_state s"
    by (simp_all add: t upd_job_def d(2) connection_state_dial)
  show "idle_connection t i = None"
    using idle d ct by (auto simp: idle_None_iff in_flight_on_def)
  have mono: "job_has_inflight_probe t k" if "job_has_inflight_probe s k" for k
    using that by (auto simp: job_has_inflight_probe_def ct(1) d(1))
  have jt: "jobs (world t) = map (\<lambda>(k, j). (k, if k = job then j\<lparr>phase := Probing\<rparr> else j)) (jobs (world s))"
    by (simp add: t upd_job_def jobs_dial sm_update_def)
  obtain j where j: "(job, j) \<in> set (jobs (world s))" "candidate i j" "\<not> job_has_inflight_probe s job"
    using job by (rule waiting_SomeD)
  have "length (waiters t i) = length (filter (\<lambda>(k, j). candidate i (if k = job then j\<lparr>phase := Probing\<rparr> else j) \<and>
      \<not> job_has_inflight_probe t k) (jobs (world s)))"
    unfolding waiters_def jt filter_map length_map by (rule arg_cong [where f = length], rule filter_cong) auto
  also have "\<dots> < length (filter (\<lambda>(k, j). candidate i j \<and> \<not> job_has_inflight_probe s k) (jobs (world s)))"
  proof (rule filter_shrinks)
    show "(job, j) \<in> set (jobs (world s))" by (rule j(1))
  qed (use j inflight mono in \<open>auto simp: candidate_def split: if_splits\<close>)
  finally show "length (waiters t i) < length (waiters s i)" by (simp add: waiters_def)
qed

lemma ensure_loop_ends:
  assumes E: "fresh_alloc E" and idle: "idle_connection s i = None"
  shows "ensure_loop E i now s \<noteq> None"
proof -
  let ?f = "\<lambda>(b, t). if b then Suc (length (waiters t i)) else 0"
  have "\<exists>x. while_option fst (\<lambda>(_, t). ensure_round E i now t) (True, s) = Some x"
  proof (rule measure_while_option_Some [where P = "\<lambda>(b, t). b \<longrightarrow> idle_connection t i = None" and f = ?f])
    fix x assume P: "case x of (b, t) \<Rightarrow> b \<longrightarrow> idle_connection t i = None" and b: "fst x"
    obtain t where x: "x = (True, t)" using b by (cases x) simp
    obtain b' u where r: "ensure_round E i now t = (b', u)" by fastforce
    show "(case (case x of (_, t) \<Rightarrow> ensure_round E i now t) of (b, t) \<Rightarrow> b \<longrightarrow> idle_connection t i = None) \<and>
        ?f (case x of (_, t) \<Rightarrow> ensure_round E i now t) < ?f x"
      using round_shrinks [OF E, of t i now u] P x r by (cases b') auto
  qed (simp add: idle)
  then show ?thesis by (auto simp: ensure_loop_def)
qed

section \<open>The loop that never ends\<close>

text \<open>Two jobs that may probe share the first idle connection of their origin, and no other connection
  is dialled or used for one of them.\<close>

definition contended :: "origin_id \<Rightarrow> job_id \<Rightarrow> job_id \<Rightarrow> connection_id \<Rightarrow> controller \<Rightarrow> bool" where
  "contended i a b c s \<longleftrightarrow> a \<noteq> b \<and> idle_connection s i = Some c \<and>
     (\<exists>j. (a, j) \<in> set (jobs (world s)) \<and> candidate i j) \<and> (\<exists>j. (b, j) \<in> set (jobs (world s)) \<and> candidate i j) \<and>
     (\<forall>(d, n)\<in>set (connections (world s)). d \<noteq> c \<longrightarrow> \<not> probes_for a (intent n) \<and> \<not> probes_for b (intent n)) \<and>
     keys_ok (connections (world s))"

lemma contended_waits:
  assumes "contended i a b c s"
  shows "waiting_probe_job s i \<noteq> None"
proof -
  have one: "\<not> job_has_inflight_probe s a \<or> \<not> job_has_inflight_probe s b"
  proof (rule ccontr)
    assume "\<not> ?thesis"
    then obtain m n where "(c, m) \<in> set (connections (world s))" "probes_for a (intent m)"
        "(c, n) \<in> set (connections (world s))" "probes_for b (intent n)"
      using assms by (fastforce simp: contended_def job_has_inflight_probe_def list_ex_iff)
    moreover have "keys_ok (connections (world s))" "a \<noteq> b" using assms by (simp_all add: contended_def)
    ultimately have "m = n" using mem_sm_get by (metis option.inject)
    then show False using \<open>probes_for a (intent m)\<close> \<open>probes_for b (intent n)\<close> \<open>a \<noteq> b\<close> by (cases "intent m") auto
  qed
  then have "waiters s i \<noteq> []" using assms by (auto simp: contended_def waiters_def filter_empty_conv)
  then show ?thesis by (simp add: waiting_None_iff)
qed

lemma find_map: "(\<And>x. P (f x) = P x) \<Longrightarrow> find P (map f xs) = map_option f (find P xs)"
  by (induction xs) auto

lemma contended_round:
  assumes "contended i a b c s"
  obtains t where "ensure_round E i now s = (True, t)" "contended i a b c t"
proof -
  obtain job where job: "waiting_probe_job s i = Some job" using contended_waits [OF assms] by blast
  have idle: "idle_connection s i = Some c" using assms by (simp add: contended_def)
  define s1 where "s1 = upd_job job (\<lambda>j. j\<lparr>phase := Probing\<rparr>) s"
  define s2 where "s2 = (case Option.bind (job_of s1 job) first_source of None \<Rightarrow> s1
      | Some src \<Rightarrow> upd_conn c (\<lambda>n. n\<lparr>intent := Intent_Probe job src\<rparr>) s1)"
  let ?t = "emit (Act_Probe job c None) s2"
  have r: "ensure_round E i now s = (True, ?t)" unfolding ensure_round_def job idle Let_def s2_def s1_def by simp
  obtain f where conns: "connections (world ?t) = sm_update c (\<lambda>n. n\<lparr>intent := f n\<rparr>) (connections (world s))"
  proof (cases "Option.bind (job_of s1 job) first_source")
    case None
    have "sm_update c (\<lambda>n. n\<lparr>intent := intent n\<rparr>) (connections (world s)) = connections (world s)" by (simp add: sm_update_def)
    then show ?thesis using None by (intro that [of intent]) (simp add: s2_def s1_def upd_job_def emit_def)
  next
    case (Some src)
    then show ?thesis by (intro that [of "\<lambda>_. Intent_Probe job src"]) (simp add: s2_def s1_def upd_job_def upd_conn_def emit_def)
  qed
  have cs: "connection_state ?t = connection_state s" by (simp add: s2_def s1_def upd_job_def upd_conn_def emit_def split: option.splits)
  have jt: "jobs (world ?t) = map (\<lambda>(k, j). (k, if k = job then j\<lparr>phase := Probing\<rparr> else j)) (jobs (world s))"
    by (simp add: s2_def s1_def upd_job_def upd_conn_def emit_def sm_update_def split: option.splits)
  have "idle_connection ?t i = idle_connection s i"
    unfolding idle_connection_def conns sm_update_def
    by (subst find_map) (auto simp: in_flight_on_def cs option.map_comp comp_def case_prod_beta split: if_splits)
  moreover have "\<exists>j. (k, j) \<in> set (jobs (world ?t)) \<and> candidate i j" if ex: "\<exists>j. (k, j) \<in> set (jobs (world s)) \<and> candidate i j" for k
  proof -
    obtain j where "(k, j) \<in> set (jobs (world s))" "candidate i j" using ex by blast
    then have "(k, if k = job then j\<lparr>phase := Probing\<rparr> else j) \<in> set (jobs (world ?t)) \<and>
        candidate i (if k = job then j\<lparr>phase := Probing\<rparr> else j)"
      unfolding jt by (force simp: candidate_def)
    then show ?thesis by blast
  qed
  moreover have "\<forall>(d, n)\<in>set (connections (world ?t)). d \<noteq> c \<longrightarrow> \<not> probes_for a (intent n) \<and> \<not> probes_for b (intent n)"
    using assms unfolding conns by (auto simp: contended_def dest!: set_sm_update split: if_splits)
  moreover have "keys_ok (connections (world ?t))" using assms unfolding conns by (simp add: contended_def store)
  ultimately have "contended i a b c ?t" using assms by (simp add: contended_def)
  then show ?thesis using that r by blast
qed

lemma while_option_never:
  assumes "P s" "\<And>s. P s \<Longrightarrow> b s \<and> P (f s)"
  shows "while_option b f s = None"
proof -
  have "P ((f ^^ k) s)" for k by (induction k) (use assms in auto)
  then have "b ((f ^^ k) s)" for k using assms(2) by blast
  then show ?thesis by (simp add: while_option_def)
qed

lemma contended_never_ends:
  assumes "contended i a b c s"
  shows "ensure_loop E i now s = None"
proof -
  have "while_option fst (\<lambda>(_, t). ensure_round E i now t) (True, s) = None"
  proof (rule while_option_never [where P = "\<lambda>x. fst x \<and> contended i a b c (snd x)"])
    fix x :: "bool \<times> controller" assume x: "fst x \<and> contended i a b c (snd x)"
    then obtain t where "ensure_round E i now (snd x) = (True, t)" "contended i a b c t" using contended_round by metis
    then show "fst x \<and> fst (case x of (_, t) \<Rightarrow> ensure_round E i now t) \<and> contended i a b c (snd (case x of (_, t) \<Rightarrow> ensure_round E i now t))"
      using x by (simp add: case_prod_beta)
  qed (simp add: assms)
  then show ?thesis by (simp add: ensure_loop_def)
qed

section \<open>Properties\<close>

text \<open>\<open>ensure_probes\<close> returns whenever no connection of the origin is ready and idle: every round dials
  a connection for one of the waiting jobs, and there are finitely many.\<close>

theorem ensure_probes_returns:
  assumes "fresh_alloc E" and "idle_connection s i = None"
  shows "\<exists>t. ensure_probes E i now s = Some t"
  using ensure_loop_ends [OF assms, of now] by (auto simp: ensure_probes_def split: option.splits)

theorem ensure_probes_returns_witness:
  "idle_connection (demo_ctl\<lparr>world := demo_endpoints\<rparr>) 1 = None \<and> (\<exists>t. ensure_probes demo_env 1 5 (demo_ctl\<lparr>world := demo_endpoints\<rparr>) = Some t)"
proof -
  have "connections demo_endpoints = []" using demo_endpoints_kept demo_world_parts(5) by (simp add: kept_def)
  then have "idle_connection (demo_ctl\<lparr>world := demo_endpoints\<rparr>) 1 = None" by (simp add: idle_connection_def)
  then show ?thesis using ensure_probes_returns [OF demo_env_fresh] by blast
qed

text \<open>C14: \<open>ensure_probes\<close> never returns when two jobs that still have to be probed share an idle
  connection of an origin that is not cooling down. A running probe does not make a connection busy,
  so the loop gives the connection to the job that waits, which makes the other one wait.\<close>

theorem two_probes_on_one_connection_hang:
  assumes "keys_ok (connections (world s))" and "a \<noteq> b"
    and "job_of s a = Some ja" "jn_origin ja = i" "phase ja \<in> {Created, Probing}"
    and "job_of s b = Some jb" "jn_origin jb = i" "phase jb \<in> {Created, Probing}"
    and "idle_connection s i = Some c"
    and "\<forall>(d, n)\<in>set (connections (world s)). d \<noteq> c \<longrightarrow> \<not> probes_for a (intent n) \<and> \<not> probes_for b (intent n)"
    and "origin_of s i = Some n" "\<not> is_cooled_down n now" "endpoints_of n \<noteq> []"
  shows "ensure_probes E i now s = None"
proof -
  have "contended i a b c s" using assms(1-10)
    by (auto simp: contended_def candidate_def job_of_def sm_get_def dest!: map_of_SomeD)
  then show ?thesis using contended_never_ends assms(11-13) by (simp add: ensure_probes_def)
qed

text \<open>Job 1 probes on the ready connection 1, and job 2 arrives on the same origin.\<close>

definition demo_contended :: controller where
  "demo_contended = (with_shards 0 1)\<lparr>world := world_new\<lparr>
     jobs := [(1, (job_new demo_url (job_spec_new ''h'') 1 [1] 1 1 1)\<lparr>phase := Probing\<rparr>),
              (2, job_new demo_url (job_spec_new ''h'') 2 [2] 1 2 2)],
     origins := [(1, (origin_new 0 \<lparr>scheme = ''http'', host = ''h'', port = 80\<rparr>)\<lparr>endpoints_of := [1], connections_of := [1]\<rparr>)],
     connections := [(1, \<lparr>cn_id = 1, cn_origin = 1, cn_endpoint = 1, cn_shard = 0, cn_protocol = Http1_1, status = Ready, opened_at = 0,
       cn_network_context = None, path = Some 1, prefer_h3 = False, serving_source = None, intent = Intent_Probe 1 1\<rparr>)]\<rparr>\<rparr>"

theorem two_probes_on_one_connection_hang_witness: "ensure_probes demo_env 1 5 demo_contended = None"
proof (rule two_probes_on_one_connection_hang [where a = 1 and b = 2 and c = 1])
  show "origin_of demo_contended 1 = Some ((origin_new 0 \<lparr>scheme = ''http'', host = ''h'', port = 80\<rparr>)\<lparr>endpoints_of := [1], connections_of := [1]\<rparr>)"
    by (simp add: demo_contended_def origin_of_def sm_get_def)
  show "job_of demo_contended 1 = Some ((job_new demo_url (job_spec_new ''h'') 1 [1] 1 1 1)\<lparr>phase := Probing\<rparr>)"
    "job_of demo_contended 2 = Some (job_new demo_url (job_spec_new ''h'') 2 [2] 1 2 2)"
    by (simp_all add: demo_contended_def job_of_def sm_get_def)
qed (simp_all add: demo_contended_def keys_ok_def idle_connection_def in_flight_on_def with_shards_def sec_get_def job_new_def
    is_cooled_down_def origin_new_def)

end
