(* ===== verification/Memory_Budget.thy ===== *)
theory Memory_Budget
  imports Errors
begin

text \<open>
  \<^verbatim>\<open>src/crates/xde/src/storage/transfer.rs\<close>: the global memory budget and the chunks that carry its
  permits. The budget is shared by all workers; an acquisition is a loop of an atomic load and a
  compare-and-swap, so it is modelled as the interleaved steps of any number of acquirers. A chunk
  is its offset and its bytes.
\<close>

section \<open>The memory budget\<close>

record memory_budget =
  mb_limit :: u64
  mb_used :: u64
  mb_reserve :: u64

datatype progress_class = Frontier | Speculative

definition with_reserve :: "u64 \<Rightarrow> u64 \<Rightarrow> memory_budget" where
  "with_reserve limit reserve =
     \<lparr>mb_limit = max limit 1, mb_used = 0, mb_reserve = min reserve limit\<rparr>"

definition budget_new :: "u64 \<Rightarrow> memory_budget" where
  "budget_new limit = with_reserve limit 0"

definition mb_available :: "memory_budget \<Rightarrow> u64" where
  "mb_available b = saturating_sub (mb_limit b) (mb_used b)"

text \<open>The part of \<open>acquire_classed\<close> before its loop: an error, or the limit this request works
  under.\<close>

definition acquire_start :: "memory_budget \<Rightarrow> u64 \<Rightarrow> progress_class \<Rightarrow> u64 res" where
  "acquire_start b bytes class =
     (if bytes > mb_limit b then Inl (Config ''payload exceeds the memory budget'')
      else
        Inr (case class of
               Frontier \<Rightarrow> mb_limit b
             | Speculative \<Rightarrow>
                 (let usable = mb_limit b - mb_reserve b in if bytes > usable then bytes else usable)))"

text \<open>The guard of the compare-and-swap, on the value of \<open>used\<close> that was loaded.\<close>

definition has_headroom :: "u64 \<Rightarrow> u64 \<Rightarrow> u64 \<Rightarrow> bool" where
  "has_headroom effective_limit bytes used \<longleftrightarrow> bytes \<le> saturating_sub effective_limit used"

datatype acq_phase = Loop | Loaded u64 | Granted | Released | Refused error | Aborted

record acquirer =
  aq_bytes :: u64
  aq_class :: progress_class
  aq_limit :: u64
  aq_phase :: acq_phase

record budget_state =
  budget :: memory_budget
  acqs :: "acquirer list"

abbreviation set_phase :: "budget_state \<Rightarrow> nat \<Rightarrow> acq_phase \<Rightarrow> budget_state" where
  "set_phase s i ph \<equiv> s\<lparr>acqs := (acqs s)[i := (acqs s ! i)\<lparr>aq_phase := ph\<rparr>]\<rparr>"

abbreviation set_used :: "budget_state \<Rightarrow> u64 \<Rightarrow> budget_state" where
  "set_used s u \<equiv> s\<lparr>budget := (budget s)\<lparr>mb_used := u\<rparr>\<rparr>"

text \<open>\<open>cas_failed\<close> covers a lost race, missing headroom (the acquirer sleeps until it is woken) and
  the spurious failure that \<open>compare_exchange_weak\<close> allows; \<open>aborted\<close> is the cancellation of the
  context around the loop; \<open>released\<close> is the drop of the permit.\<close>

inductive budget_step :: "budget_state \<Rightarrow> budget_state \<Rightarrow> bool" where
  arrive: "acquire_start (budget s) n c = Inr l \<Longrightarrow>
     budget_step s (s\<lparr>acqs := acqs s @ [\<lparr>aq_bytes = n, aq_class = c, aq_limit = l, aq_phase = Loop\<rparr>]\<rparr>)"
| refused: "acquire_start (budget s) n c = Inl e \<Longrightarrow>
     budget_step s (s\<lparr>acqs := acqs s @ [\<lparr>aq_bytes = n, aq_class = c, aq_limit = 0, aq_phase = Refused e\<rparr>]\<rparr>)"
| load: "i < length (acqs s) \<Longrightarrow> aq_phase (acqs s ! i) = Loop \<Longrightarrow>
     budget_step s (set_phase s i (Loaded (mb_used (budget s))))"
| cas: "i < length (acqs s) \<Longrightarrow> aq_phase (acqs s ! i) = Loaded u \<Longrightarrow>
     has_headroom (aq_limit (acqs s ! i)) (aq_bytes (acqs s ! i)) u \<Longrightarrow> mb_used (budget s) = u \<Longrightarrow>
     budget_step s (set_phase (set_used s (u + aq_bytes (acqs s ! i))) i Granted)"
| cas_failed: "i < length (acqs s) \<Longrightarrow> aq_phase (acqs s ! i) = Loaded u \<Longrightarrow> budget_step s (set_phase s i Loop)"
| aborted: "i < length (acqs s) \<Longrightarrow> aq_phase (acqs s ! i) = Loop \<or> aq_phase (acqs s ! i) = Loaded u \<Longrightarrow>
     budget_step s (set_phase s i Aborted)"
| released: "i < length (acqs s) \<Longrightarrow> aq_phase (acqs s ! i) = Granted \<Longrightarrow>
     budget_step s (set_phase (set_used s (mb_used (budget s) - aq_bytes (acqs s ! i))) i Released)"

section \<open>Chunks\<close>

record chunk =
  ck_offset :: u64
  ck_data :: "u8 list"

definition trim_prefix :: "chunk \<Rightarrow> nat \<Rightarrow> chunk" where
  "trim_prefix c n = \<lparr>ck_offset = ck_offset c + of_nat n, ck_data = drop n (ck_data c)\<rparr>"

text \<open>\<open>None\<close> is the assertion failure.\<close>

definition chunk_split_at :: "chunk \<Rightarrow> nat \<Rightarrow> (chunk \<times> chunk) option" where
  "chunk_split_at c n =
     (if n \<le> length (ck_data c)
      then Some (\<lparr>ck_offset = ck_offset c, ck_data = take n (ck_data c)\<rparr>,
                 \<lparr>ck_offset = ck_offset c + of_nat n, ck_data = drop n (ck_data c)\<rparr>)
      else None)"

section \<open>Accounting\<close>

definition held :: "(acquirer \<Rightarrow> bool) \<Rightarrow> acquirer list \<Rightarrow> nat" where
  "held P as = (\<Sum>a\<leftarrow>as. if aq_phase a = Granted \<and> P a then unat (aq_bytes a) else 0)"

text \<open>The speculative requests that fit outside the reserve; larger ones are upgraded.\<close>

definition ordinary :: "memory_budget \<Rightarrow> acquirer \<Rightarrow> bool" where
  "ordinary b a \<longleftrightarrow> aq_class a = Speculative \<and> aq_bytes a \<le> mb_limit b - mb_reserve b"

definition budget_ok :: "budget_state \<Rightarrow> bool" where
  "budget_ok s \<longleftrightarrow>
     mb_reserve (budget s) \<le> mb_limit (budget s) \<and>
     unat (mb_used (budget s)) = held (\<lambda>_. True) (acqs s) \<and>
     mb_used (budget s) \<le> mb_limit (budget s) \<and>
     held (ordinary (budget s)) (acqs s) \<le> unat (mb_limit (budget s) - mb_reserve (budget s)) \<and>
     (\<forall>a\<in>set (acqs s). (\<exists>e. aq_phase a = Refused e) \<or>
        acquire_start (budget s) (aq_bytes a) (aq_class a) = Inr (aq_limit a))"

lemma held_simps [simp]:
  "held P [] = 0" "held P (as @ [a]) = held P as + (if aq_phase a = Granted \<and> P a then unat (aq_bytes a) else 0)"
  by (simp_all add: held_def)

lemma held_update:
  assumes "i < length as"
  shows "held P (as[i := a]) + (if aq_phase (as ! i) = Granted \<and> P (as ! i) then unat (aq_bytes (as ! i)) else 0) =
    held P as + (if aq_phase a = Granted \<and> P a then unat (aq_bytes a) else 0)"
  unfolding held_def
  using sum_list_replace [OF assms, of "\<lambda>a. if aq_phase a = Granted \<and> P a then unat (aq_bytes a) else 0"] .

lemma held_le: "i < length as \<Longrightarrow> aq_phase (as ! i) = Granted \<Longrightarrow> P (as ! i) \<Longrightarrow> unat (aq_bytes (as ! i)) \<le> held P as"
  using held_update [of i as P "(as ! i)\<lparr>aq_phase := Released\<rparr>"] by simp

lemma held_mono: "held P as \<le> held (\<lambda>_. True) as"
  unfolding held_def by (induction as) auto

lemma acquire_start_used: "acquire_start (b\<lparr>mb_used := u\<rparr>) n c = acquire_start b n c"
  by (simp add: acquire_start_def split: progress_class.splits)

lemma ordinary_used [simp]: "ordinary (b\<lparr>mb_used := u\<rparr>) = ordinary b" "ordinary b (a\<lparr>aq_phase := ph\<rparr>) = ordinary b a"
  by (auto simp: ordinary_def)

text \<open>A phase change between phases that hold nothing.\<close>

lemma budget_ok_phase:
  assumes ok: "budget_ok s" and i: "i < length (acqs s)" "aq_phase (acqs s ! i) \<noteq> Granted" "ph \<noteq> Granted"
    and "\<not> (\<exists>e. aq_phase (acqs s ! i) = Refused e)"
  shows "budget_ok (set_phase s i ph)"
proof -
  have "held P ((acqs s)[i := (acqs s ! i)\<lparr>aq_phase := ph\<rparr>]) = held P (acqs s)" for P
    using held_update [OF i(1), of P "(acqs s ! i)\<lparr>aq_phase := ph\<rparr>"] i(2,3) by simp
  moreover have "acquire_start (budget s) (aq_bytes (acqs s ! i)) (aq_class (acqs s ! i)) = Inr (aq_limit (acqs s ! i))"
    using ok assms(5) nth_mem [OF i(1)] by (auto simp: budget_ok_def)
  ultimately show ?thesis
    using ok by (auto simp: budget_ok_def dest!: set_update_subset_insert [THEN subsetD])
qed

lemma acquire_start_bounds:
  assumes "acquire_start b n c = Inr l" and "mb_reserve b \<le> mb_limit b"
  shows "n \<le> l \<and> l \<le> mb_limit b" and "ordinary b a \<Longrightarrow> aq_bytes a = n \<Longrightarrow> aq_class a = c \<Longrightarrow> l = mb_limit b - mb_reserve b"
proof -
  have "mb_limit b - mb_reserve b \<le> mb_limit b"
    using assms(2) by (simp add: word_le_nat_alt unat_diff_word)
  then show "n \<le> l \<and> l \<le> mb_limit b"
    using assms by (auto simp: acquire_start_def Let_def not_less not_le split: progress_class.splits if_splits)
  show "ordinary b a \<Longrightarrow> aq_bytes a = n \<Longrightarrow> aq_class a = c \<Longrightarrow> l = mb_limit b - mb_reserve b"
    using assms(1) by (auto simp: acquire_start_def Let_def ordinary_def not_less split: if_splits)
qed

lemma has_headroom_add:
  "has_headroom l n u \<Longrightarrow> n = 0 \<or> unat (u + n) = unat u + unat n \<and> unat u + unat n \<le> unat l"
proof -
  assume "has_headroom l n u"
  then have "unat n \<le> unat l - unat u" by (simp add: has_headroom_def word_le_nat_alt unat_saturating_sub)
  moreover have "n = 0 \<or> 0 < unat n" by (simp add: unat_gt_0)
  ultimately show ?thesis using unat_u64_less [of l] by (auto simp: unat_word_ariths)
qed

lemma budget_ok_step: "budget_step s t \<Longrightarrow> budget_ok s \<Longrightarrow> budget_ok t"
proof (induction rule: budget_step.induct)
  case (cas i s u)
  let ?a = "acqs s ! i"
  let ?as = "(acqs s)[i := ?a\<lparr>aq_phase := Granted\<rparr>]"
  have st: "acquire_start (budget s) (aq_bytes ?a) (aq_class ?a) = Inr (aq_limit ?a)"
    using cas.prems cas.hyps(2) nth_mem [OF cas.hyps(1)] by (auto simp: budget_ok_def)
  have res: "mb_reserve (budget s) \<le> mb_limit (budget s)" using cas.prems by (simp add: budget_ok_def)
  note lim = acquire_start_bounds [OF st res]
  have sum: "unat (u + aq_bytes ?a) = unat u + unat (aq_bytes ?a)"
    and le: "aq_bytes ?a = 0 \<or> unat u + unat (aq_bytes ?a) \<le> unat (aq_limit ?a)"
    using has_headroom_add [OF cas.hyps(3)] by auto
  have h: "held P ?as = held P (acqs s) + (if P ?a then unat (aq_bytes ?a) else 0)"
    if "\<And>ph. P (?a\<lparr>aq_phase := ph\<rparr>) = P ?a" for P
    using held_update [OF cas.hyps(1), of P "?a\<lparr>aq_phase := Granted\<rparr>"] cas.hyps(2) that by simp
  have "unat u + unat (aq_bytes ?a) \<le> unat (mb_limit (budget s))"
    using le lim(1) cas.prems cas.hyps(4) by (auto simp: budget_ok_def word_le_nat_alt)
  moreover have "held (ordinary (budget s)) ?as \<le> unat (mb_limit (budget s) - mb_reserve (budget s))"
  proof (cases "ordinary (budget s) ?a \<and> aq_bytes ?a \<noteq> 0")
    case True
    have "held (ordinary (budget s)) (acqs s) \<le> unat u"
      using held_mono [of "ordinary (budget s)" "acqs s"] cas.prems cas.hyps(4) by (simp add: budget_ok_def)
    then show ?thesis using True le lim(2) [of ?a] by (simp add: h)
  next
    case False
    then show ?thesis using cas.prems by (auto simp: h budget_ok_def)
  qed
  ultimately show ?case
    using cas.prems cas.hyps(4) st
    by (auto simp: budget_ok_def h sum word_le_nat_alt acquire_start_used
        dest!: set_update_subset_insert [THEN subsetD])
next
  case (released i s)
  let ?a = "acqs s ! i"
  let ?as = "(acqs s)[i := ?a\<lparr>aq_phase := Released\<rparr>]"
  have st: "acquire_start (budget s) (aq_bytes ?a) (aq_class ?a) = Inr (aq_limit ?a)"
    using released.prems released.hyps(2) nth_mem [OF released.hyps(1)] by (auto simp: budget_ok_def)
  have h: "held P ?as + (if P ?a then unat (aq_bytes ?a) else 0) = held P (acqs s)" for P
    using held_update [OF released.hyps(1), of P "?a\<lparr>aq_phase := Released\<rparr>"] released.hyps(2) by simp
  have "unat (aq_bytes ?a) \<le> unat (mb_used (budget s))"
    using held_le [OF released.hyps, of "\<lambda>_. True"] released.prems by (simp add: budget_ok_def)
  then have "unat (mb_used (budget s) - aq_bytes ?a) = held (\<lambda>_. True) ?as"
    using h [of "\<lambda>_. True"] released.prems by (simp add: budget_ok_def unat_diff_word word_le_nat_alt)
  moreover have "held (ordinary (budget s)) ?as \<le> held (ordinary (budget s)) (acqs s)"
    using h [of "ordinary (budget s)"] by linarith
  moreover have "held (\<lambda>_. True) ?as \<le> held (\<lambda>_. True) (acqs s)" using h [of "\<lambda>_. True"] by linarith
  ultimately show ?case
    using released.prems st
    by (auto simp: budget_ok_def word_le_nat_alt acquire_start_used dest!: set_update_subset_insert [THEN subsetD])
next
  case (arrive s n c l)
  then show ?case by (auto simp: budget_ok_def)
next
  case (refused s n c e)
  then show ?case by (auto simp: budget_ok_def)
qed (auto intro: budget_ok_phase)

section \<open>Properties\<close>

definition budget_start :: "u64 \<Rightarrow> u64 \<Rightarrow> budget_state" where
  "budget_start limit reserve = \<lparr>budget = with_reserve limit reserve, acqs = []\<rparr>"

lemma budget_reach_ok: "budget_step\<^sup>*\<^sup>* (budget_start limit reserve) s \<Longrightarrow> budget_ok s"
proof (induction rule: rtranclp_induct)
  case base
  show ?case by (auto simp: budget_ok_def budget_start_def with_reserve_def min_def max_def)
qed (rule budget_ok_step)

lemma budget_step_limits:
  "budget_step s t \<Longrightarrow> mb_limit (budget t) = mb_limit (budget s) \<and> mb_reserve (budget t) = mb_reserve (budget s)"
  by (induction rule: budget_step.induct) auto

text \<open>C29: Whatever the interleaving of acquirers, lost races, cancellations and releases, the bytes in use
  are exactly the bytes of the permits held and never exceed the limit; and the speculative permits
  that fit outside the reserve never take more than what lies outside it.\<close>

theorem memory_budget_is_never_exceeded:
  assumes "budget_step\<^sup>*\<^sup>* (budget_start limit reserve) s"
  shows "unat (mb_used (budget s)) = held (\<lambda>_. True) (acqs s) \<and>
    mb_used (budget s) \<le> max limit 1 \<and>
    held (ordinary (budget s)) (acqs s) \<le> unat (max limit 1 - min reserve limit)"
proof -
  have "mb_limit (budget s) = max limit 1 \<and> mb_reserve (budget s) = min reserve limit"
    using assms by (induction rule: rtranclp_induct)
      (auto simp: budget_start_def with_reserve_def dest: budget_step_limits)
  then show ?thesis using budget_reach_ok [OF assms] by (simp add: budget_ok_def)
qed

theorem memory_budget_is_never_exceeded_witness:
  "budget_step\<^sup>*\<^sup>* (budget_start 8 2)
     ((budget_start 8 2)\<lparr>acqs := [\<lparr>aq_bytes = 3, aq_class = Speculative, aq_limit = 6, aq_phase = Loop\<rparr>]\<rparr>) \<and>
   mb_used (budget ((budget_start 8 2)\<lparr>acqs :=
     [\<lparr>aq_bytes = 3, aq_class = Speculative, aq_limit = 6, aq_phase = Loop\<rparr>]\<rparr>)) \<le> max 8 1"
proof -
  have "acquire_start (budget (budget_start 8 2)) 3 Speculative = Inr 6"
    by (simp add: budget_start_def with_reserve_def acquire_start_def)
  from arrive [OF this] have "budget_step\<^sup>*\<^sup>* (budget_start 8 2)
     ((budget_start 8 2)\<lparr>acqs := [\<lparr>aq_bytes = 3, aq_class = Speculative, aq_limit = 6, aq_phase = Loop\<rparr>]\<rparr>)"
    by (simp add: budget_start_def r_into_rtranclp)
  with memory_budget_is_never_exceeded [OF this] show ?thesis by blast
qed

text \<open>Speculation cannot starve the frontier: while every permit held is speculative and fits
  outside the reserve, a frontier request of at most the reserve that has just loaded the counter
  has headroom, so its compare-and-swap succeeds unless it loses a race.\<close>

theorem frontier_always_has_the_reserve:
  assumes "budget_step\<^sup>*\<^sup>* (budget_start limit reserve) s"
    and "\<forall>a\<in>set (acqs s). aq_phase a = Granted \<longrightarrow> ordinary (budget s) a"
    and "acquire_start (budget s) n Frontier = Inr l" and "n \<le> mb_reserve (budget s)"
  shows "has_headroom l n (mb_used (budget s))"
proof -
  have ok: "budget_ok s" by (rule budget_reach_ok [OF assms(1)])
  have "held (\<lambda>_. True) (acqs s) = held (ordinary (budget s)) (acqs s)"
    using assms(2) unfolding held_def by (intro arg_cong [where f = sum_list] map_cong) auto
  then have "unat (mb_used (budget s)) \<le> unat (mb_limit (budget s)) - unat (mb_reserve (budget s))"
    using ok unat_diff_word [of "mb_reserve (budget s)" "mb_limit (budget s)"] by (simp add: budget_ok_def)
  moreover have "l = mb_limit (budget s)" using assms(3) by (simp add: acquire_start_def split: if_splits)
  moreover have "unat n \<le> unat (mb_reserve (budget s))" "unat (mb_reserve (budget s)) \<le> unat (mb_limit (budget s))"
    using assms(4) ok by (simp_all add: budget_ok_def word_le_nat_alt)
  ultimately show ?thesis by (simp add: has_headroom_def word_le_nat_alt unat_saturating_sub)
qed

theorem frontier_always_has_the_reserve_witness:
  "has_headroom 8 2 (mb_used (budget (budget_start 8 2)))"
  by (rule frontier_always_has_the_reserve [of 8 2])
    (simp_all add: budget_start_def with_reserve_def acquire_start_def)

text \<open>Splitting a chunk loses and duplicates nothing: the parts lie end to end, the second starts
  where the first ends, and cutting off the prefix of a chunk is the second part of the split.\<close>

lemma chunk_split_is_lossless:
  "case chunk_split_at c n of
     None \<Rightarrow> length (ck_data c) < n
   | Some (a, b) \<Rightarrow> ck_data a @ ck_data b = ck_data c \<and> ck_offset a = ck_offset c \<and>
       ck_offset b = ck_offset a + of_nat (length (ck_data a)) \<and> b = trim_prefix c n"
  by (simp add: chunk_split_at_def trim_prefix_def)

end
