(* ===== verification/Fetch.thy ===== *)
theory Fetch
  imports Http_Range Representation Memory_Budget Job_Spec
begin

text \<open>
  \<^verbatim>\<open>src/crates/xde/src/http/mod.rs\<close>, \<^verbatim>\<open>http/fetch.rs\<close> and \<^verbatim>\<open>http/probe.rs\<close>: the requests the engine
  sends, what it accepts as an answer, and the delivery of the body to a sink.

  The network is a parameter: sending a request gives an error or a response whose body is the list
  of frames and errors that arrive, an error also standing for a deadline that passes. So are the
  \<open>url\<close> and \<open>http\<close> crates, and the memory budget's answer to a request for bytes. A sink is given by
  its methods on a state; another thread may move the end it wants, so the end is read anew, by the
  number of reads so far. Durations and counters of the sample other than the bytes are left out.
  \<open>None\<close> is a loop that never ends.
\<close>

section \<open>Headers and requests\<close>

record 'u http_env =
  request_target_of :: "'u \<Rightarrow> string"
  host_port_of :: "'u \<Rightarrow> string option"
  header_value :: "string \<Rightarrow> u8 list option"
  header_text :: "u8 list \<Rightarrow> string option"
  valid_target :: "string \<Rightarrow> bool"
  join_url :: "'u \<Rightarrow> string \<Rightarrow> 'u option"
  date_of :: "string \<Rightarrow> system_time option"
  retry_date_of :: "string \<Rightarrow> instant option"
  now_of :: instant
  user_agent :: string

definition hm_get :: "header_map \<Rightarrow> string \<Rightarrow> u8 list option" where
  "hm_get hs n = map_of hs n"

definition hm_get_all :: "header_map \<Rightarrow> string \<Rightarrow> u8 list list" where
  "hm_get_all hs n = map snd (filter (\<lambda>(m, _). m = n) hs)"

definition hm_insert :: "string \<Rightarrow> u8 list \<Rightarrow> header_map \<Rightarrow> header_map" where
  "hm_insert n v hs = filter (\<lambda>(m, _). m \<noteq> n) hs @ [(n, v)]"

definition hm_default :: "string \<Rightarrow> u8 list \<Rightarrow> header_map \<Rightarrow> header_map" where
  "hm_default n v hs = (if n \<in> fst ` set hs then hs else hm_insert n v hs)"

definition apply_request_defaults :: "'u http_env \<Rightarrow> header_map \<Rightarrow> header_map" where
  "apply_request_defaults H hs = hm_default ''accept'' (bytes_of ''*/*'') (hm_default ''user-agent'' (bytes_of (user_agent H)) hs)"

text \<open>The rendering of a range is ASCII, so its header value is its bytes.\<close>

definition range_request_headers :: "'u http_env \<Rightarrow> byte_range \<Rightarrow> string option \<Rightarrow> bool \<Rightarrow> header_map \<Rightarrow> header_map" where
  "range_request_headers H r if_range allow extra =
     (let h1 = hm_insert ''range'' (bytes_of (to_http_range r)) [];
          h2 = (if allow then h1 else hm_insert ''accept-encoding'' (bytes_of ''identity'') h1);
          h3 = (case if_range of
                  None \<Rightarrow> h2
                | Some v \<Rightarrow> (case header_value H v of None \<Rightarrow> h2 | Some val \<Rightarrow> hm_insert ''if-range'' val h2))
      in apply_request_defaults H (h3 @ extra))"

definition host_header :: "'u http_env \<Rightarrow> 'u \<Rightarrow> string res" where
  "host_header H u = (case host_port_of H u of None \<Rightarrow> Inl (error_protocol ''request URL has no host'') | Some h \<Rightarrow> Inr h)"

record http_request =
  rq_target :: string
  rq_headers :: header_map

record http_response =
  rs_status :: u16
  rs_headers :: header_map
  rs_body :: "(error + u8 list) list"

definition build_request :: "'u http_env \<Rightarrow> 'u \<Rightarrow> header_map \<Rightarrow> http_request res" where
  "build_request H u hs =
     (if valid_target H (request_target_of H u) then Inr \<lparr>rq_target = request_target_of H u, rq_headers = hs\<rparr>
      else Inl (error_protocol ''invalid uri''))"

definition add_host :: "'u http_env \<Rightarrow> 'u \<Rightarrow> header_map \<Rightarrow> header_map" where
  "add_host H u hs =
     (case host_header H u of
        Inl _ \<Rightarrow> hs
      | Inr h \<Rightarrow> (case header_value H h of None \<Rightarrow> hs | Some v \<Rightarrow> hm_insert ''host'' v hs))"

definition header_str :: "'u http_env \<Rightarrow> header_map \<Rightarrow> string \<Rightarrow> string option" where
  "header_str H hs n = Option.bind (hm_get hs n) (header_text H)"

text \<open>\<open>ready\<close> is whether the future finishes before the timer fires.\<close>

definition before_deadline :: "instant option \<Rightarrow> instant \<Rightarrow> bool \<Rightarrow> 'a res \<Rightarrow> 'a res" where
  "before_deadline deadline now ready r =
     (case deadline of
        None \<Rightarrow> r
      | Some d \<Rightarrow> if d - now = 0 then Inl DeadlineExceeded else if ready then r else Inl DeadlineExceeded)"

section \<open>Sinks\<close>

record 's chunk_sink =
  sink_accept :: "chunk \<Rightarrow> 's \<Rightarrow> unit res \<times> 's"
  sink_finish :: "'s \<Rightarrow> unit res \<times> 's"
  end_offset :: "nat \<Rightarrow> 's \<Rightarrow> u64 option"
  max_chunk_size :: nat

record fetch_memory =
  fm_limit :: u64
  fm_refuses :: "nat \<Rightarrow> u64 \<Rightarrow> error option"

datatype range_fetch_completion = FullyConsumed | IntentionallyTruncated

datatype session_kind = Session_H1 | Session_H2 bool | Session_H3

record 'u source_context =
  sc_url :: 'u
  sc_if_range :: "string option"
  sc_allow_compressed :: bool
  sc_extra_headers :: header_map
  sc_deadline :: "instant option"

record 'u range_fetch =
  rf_source :: "'u source_context"
  rf_range :: byte_range
  rf_overlap :: u32
  rf_is_resume :: bool

record range_fetch_outcome =
  fo_bytes :: u64
  fo_completion :: range_fetch_completion
  fo_truncated :: bool
  fo_reusable :: bool

record full_body_outcome =
  fb_bytes :: u64
  fb_reusable :: bool

record 's delivery =
  dl_offset :: u64
  dl_received :: u64
  dl_useful :: u64
  dl_truncated :: bool
  dl_sink :: 's
  dl_reads :: nat
  dl_accepts :: nat

definition observe_identity :: "'u http_env \<Rightarrow> rep_lock \<Rightarrow> header_map \<Rightarrow> u64 option \<Rightarrow> unit res \<times> rep_lock" where
  "observe_identity H lock hs len =
     lock_validate lock (header_str H hs ''etag'') (Option.bind (header_str H hs ''last-modified'') (date_of H)) len"

section \<open>Delivery\<close>

text \<open>One chunk of at most the wanted, allowed and possible size.\<close>

definition chunk_amount :: "'s chunk_sink \<Rightarrow> fetch_memory \<Rightarrow> nat \<Rightarrow> u64 \<Rightarrow> nat" where
  "chunk_amount S M n wanted = min (min (min n (unat wanted)) (unat (fm_limit M))) (max_chunk_size S)"

definition count_useful :: "byte_range \<Rightarrow> nat \<Rightarrow> 's delivery \<Rightarrow> u64" where
  "count_useful r amount st =
     (let off = dl_offset st + of_nat amount;
          owned_start = max (off - of_nat amount) (r_start r);
          owned_end = min off (r_end r)
      in saturating_add (dl_useful st) (saturating_sub owned_end owned_start))"

definition deliver_chunk ::
  "'s chunk_sink \<Rightarrow> fetch_memory \<Rightarrow> byte_range \<Rightarrow> u8 list \<Rightarrow> 's delivery \<Rightarrow> error option \<times> 's delivery" where
  "deliver_chunk S M r payload st =
     (case fm_refuses M (dl_accepts st) (of_nat (length payload)) of
        Some e \<Rightarrow> (Some e, st)
      | None \<Rightarrow>
          (case sink_accept S \<lparr>ck_offset = dl_offset st, ck_data = payload\<rparr> (dl_sink st) of
             (Inl e, s) \<Rightarrow> (Some e, st\<lparr>dl_sink := s\<rparr>)
           | (Inr _, s) \<Rightarrow>
               (None, st\<lparr>dl_sink := s, dl_accepts := dl_accepts st + 1, dl_offset := dl_offset st + of_nat (length payload),
                  dl_received := dl_received st + of_nat (length payload), dl_useful := count_useful r (length payload) st\<rparr>)))"

partial_function (option) deliver_range_bytes ::
  "'s chunk_sink \<Rightarrow> fetch_memory \<Rightarrow> byte_range \<Rightarrow> byte_range \<Rightarrow> u8 list \<Rightarrow> 's delivery \<Rightarrow> (error option \<times> 's delivery) option" where
  "deliver_range_bytes S M r wire data st =
     (if data = [] then Some (None, st)
      else
        let dynamic_end = min (case end_offset S (dl_reads st) (dl_sink st) of None \<Rightarrow> r_end wire | Some e \<Rightarrow> e) (r_end wire);
            st1 = st\<lparr>dl_reads := dl_reads st + 1\<rparr>
        in if dynamic_end \<le> dl_offset st then Some (None, st1\<lparr>dl_truncated := (dynamic_end < r_end wire)\<rparr>)
           else if unat (r_end wire - dl_offset st) < length data \<and> end_offset S (dl_reads st1) (dl_sink st) = None
           then Some (Some (Http (OversizedBody (dl_received st + of_nat (length data)) (br_len wire))), st1\<lparr>dl_reads := dl_reads st1 + 1\<rparr>)
           else
             let st2 = (if unat (r_end wire - dl_offset st) < length data then st1\<lparr>dl_reads := dl_reads st1 + 1\<rparr> else st1);
                 amount = chunk_amount S M (length data) (dynamic_end - dl_offset st)
             in case deliver_chunk S M r (take amount data) st2 of
                  (Some e, st3) \<Rightarrow> Some (Some e, st3)
                | (None, st3) \<Rightarrow> deliver_range_bytes S M r wire (drop amount data) st3)"

fun receive_range ::
  "'s chunk_sink \<Rightarrow> fetch_memory \<Rightarrow> byte_range \<Rightarrow> byte_range \<Rightarrow> (error + u8 list) list \<Rightarrow> 's delivery \<Rightarrow> (error option \<times> 's delivery) option" where
  "receive_range S M r wire [] st = Some (None, st)"
| "receive_range S M r wire (Inl e # fs) st = Some (Some e, st)"
| "receive_range S M r wire (Inr data # fs) st =
     (case deliver_range_bytes S M r wire data st of
        None \<Rightarrow> None
      | Some (Some e, st1) \<Rightarrow> Some (Some e, st1)
      | Some (None, st1) \<Rightarrow> if dl_truncated st1 then Some (None, st1) else receive_range S M r wire fs st1)"

section \<open>Range requests\<close>

definition lists_close :: "u8 list \<Rightarrow> bool" where
  "lists_close v = list_ex (\<lambda>t. eq_ignore_case (trim t) ''close'') (split_on (CHR '','') (map (\<lambda>b. char_of (unat b)) v))"

definition has_connection_close :: "header_map \<Rightarrow> bool" where
  "has_connection_close hs = list_ex lists_close (hm_get_all hs ''connection'' @ hm_get_all hs ''proxy-connection'')"

definition retry_after_of :: "'u http_env \<Rightarrow> header_map \<Rightarrow> duration option" where
  "retry_after_of H hs = Option.bind (header_str H hs ''retry-after'') (parse_retry_after (retry_date_of H) (now_of H))"

definition bad_encoding :: "bool \<Rightarrow> header_map \<Rightarrow> bool" where
  "bad_encoding allow hs \<longleftrightarrow> \<not> allow \<and> (case hm_get hs ''content-encoding'' of None \<Rightarrow> False | Some v \<Rightarrow> v \<noteq> bytes_of ''identity'')"

definition wire_range_of :: "'u range_fetch \<Rightarrow> byte_range" where
  "wire_range_of f = ByteRange_new (saturating_sub (r_start (rf_range f)) (ucast (rf_overlap f))) (r_end (rf_range f))"

text \<open>What the answer to a range request must look like before its body is read: the length of the
  object, if known.\<close>

definition check_range_response :: "'u http_env \<Rightarrow> 'u range_fetch \<Rightarrow> http_response \<Rightarrow> u64 option res" where
  "check_range_response H f rs =
     (let wire = wire_range_of f;
          disp = classify_status (rs_status rs) (Some wire) (retry_after_of H (rs_headers rs)) (rf_is_resume f)
      in if disp \<noteq> Accept then Inl (Http (Dispositioned disp (rs_status rs)))
         else if rs_status rs \<noteq> 206 then Inl (Http RangeCapabilityLost)
         else
           (case header_str H (rs_headers rs) ''content-range'' of
              None \<Rightarrow> Inl (error_protocol ''206 without Content-Range'')
            | Some v \<Rightarrow>
                (case parse_content_range v of
                   Inl e \<Rightarrow> Inl e
                 | Inr cr \<Rightarrow>
                     (case validate_against cr wire of
                        Inl e \<Rightarrow> Inl e
                      | Inr _ \<Rightarrow>
                          if bad_encoding (sc_allow_compressed (rf_source f)) (rs_headers rs) then Inl (Http CompressedPayload)
                          else Inr (complete_length cr)))))"

definition session_reusable :: "session_kind \<Rightarrow> bool \<Rightarrow> bool" where
  "session_reusable k consumed = (case k of Session_H1 \<Rightarrow> consumed | Session_H2 alive \<Rightarrow> alive | Session_H3 \<Rightarrow> True)"

definition range_request :: "'u http_env \<Rightarrow> 'u range_fetch \<Rightarrow> http_request res" where
  "range_request H f =
     (let src = rf_source f
      in build_request H (sc_url src)
           (add_host H (sc_url src)
             (range_request_headers H (wire_range_of f) (sc_if_range src) (sc_allow_compressed src) (sc_extra_headers src))))"

definition finish_range ::
  "'s chunk_sink \<Rightarrow> session_kind \<Rightarrow> bool \<Rightarrow> byte_range \<Rightarrow> 's delivery \<Rightarrow> range_fetch_outcome res \<times> 's" where
  "finish_range S k close wire st =
     (case sink_finish S (dl_sink st) of
        (Inl e, s) \<Rightarrow> (Inl e, s)
      | (Inr _, s) \<Rightarrow>
          if \<not> dl_truncated st \<and> dl_received st \<noteq> br_len wire
          then (Inl (Http (if br_len wire < dl_received st then OversizedBody (dl_received st) (br_len wire)
                            else PrematureEof (dl_received st) (br_len wire))), s)
          else
            (Inr \<lparr>fo_bytes = dl_useful st,
                  fo_completion = (if dl_truncated st then IntentionallyTruncated else FullyConsumed),
                  fo_truncated = dl_truncated st,
                  fo_reusable = (\<not> close \<and> session_reusable k (\<not> dl_truncated st))\<rparr>, s))"

definition fetch_range ::
  "'u http_env \<Rightarrow> (http_request \<Rightarrow> http_response res) \<Rightarrow> 's chunk_sink \<Rightarrow> fetch_memory \<Rightarrow> session_kind \<Rightarrow> 'u range_fetch
   \<Rightarrow> rep_lock \<Rightarrow> 's \<Rightarrow> (range_fetch_outcome res \<times> rep_lock \<times> 's) option" where
  "fetch_range H send S M k f lock s =
     (let wire = wire_range_of f
      in case (case range_request H f of Inl e \<Rightarrow> Inl e | Inr q \<Rightarrow> send q) of
           Inl e \<Rightarrow> Some (Inl e, lock, s)
         | Inr rs \<Rightarrow>
             (case check_range_response H f rs of
                Inl e \<Rightarrow> Some (Inl e, lock, s)
              | Inr len \<Rightarrow>
                  (case observe_identity H lock (rs_headers rs) len of
                     (Inl e, lock1) \<Rightarrow> Some (Inl e, lock1, s)
                   | (Inr _, lock1) \<Rightarrow>
                       (case receive_range S M (rf_range f) wire (rs_body rs)
                               \<lparr>dl_offset = r_start wire, dl_received = 0, dl_useful = 0, dl_truncated = False, dl_sink = s,
                                dl_reads = 0, dl_accepts = 0\<rparr> of
                          None \<Rightarrow> None
                        | Some (Some e, st) \<Rightarrow> Some (Inl e, lock1, dl_sink st)
                        | Some (None, st) \<Rightarrow>
                            (case finish_range S k (has_connection_close (rs_headers rs)) wire st of
                               (r, s1) \<Rightarrow> Some (r, lock1, s1))))))"

section \<open>Full bodies\<close>

definition body_chunk :: "'s chunk_sink \<Rightarrow> fetch_memory \<Rightarrow> u8 list \<Rightarrow> 's delivery \<Rightarrow> error option \<times> 's delivery" where
  "body_chunk S M payload st =
     (case fm_refuses M (dl_accepts st) (of_nat (length payload)) of
        Some e \<Rightarrow> (Some e, st)
      | None \<Rightarrow>
          (case sink_accept S \<lparr>ck_offset = dl_offset st, ck_data = payload\<rparr> (dl_sink st) of
             (Inl e, s) \<Rightarrow> (Some e, st\<lparr>dl_sink := s\<rparr>)
           | (Inr _, s) \<Rightarrow>
               (None, st\<lparr>dl_sink := s, dl_accepts := dl_accepts st + 1, dl_offset := dl_offset st + of_nat (length payload)\<rparr>)))"

partial_function (option) deliver_body ::
  "'s chunk_sink \<Rightarrow> fetch_memory \<Rightarrow> u8 list \<Rightarrow> 's delivery \<Rightarrow> (error option \<times> 's delivery) option" where
  "deliver_body S M data st =
     (if data = [] then Some (None, st)
      else
        let amount = min (min (length data) (unat (fm_limit M))) (max_chunk_size S)
        in case body_chunk S M (take amount data) st of
             (Some e, st1) \<Rightarrow> Some (Some e, st1)
           | (None, st1) \<Rightarrow> deliver_body S M (drop amount data) st1)"

fun receive_body ::
  "'s chunk_sink \<Rightarrow> fetch_memory \<Rightarrow> (error + u8 list) list \<Rightarrow> 's delivery \<Rightarrow> (error option \<times> 's delivery) option" where
  "receive_body S M [] st = Some (None, st)"
| "receive_body S M (Inl e # fs) st = Some (Some e, st)"
| "receive_body S M (Inr data # fs) st =
     (case deliver_body S M data st of
        None \<Rightarrow> None
      | Some (Some e, st1) \<Rightarrow> Some (Some e, st1)
      | Some (None, st1) \<Rightarrow> receive_body S M fs st1)"

definition full_body_request :: "'u http_env \<Rightarrow> 'u source_context \<Rightarrow> http_request res" where
  "full_body_request H src =
     (let h1 = apply_request_defaults H (sc_extra_headers src);
          h2 = (if sc_allow_compressed src then h1 else hm_insert ''accept-encoding'' (bytes_of ''identity'') h1)
      in build_request H (sc_url src) (add_host H (sc_url src) h2))"

definition check_full_response :: "'u http_env \<Rightarrow> 'u source_context \<Rightarrow> http_response \<Rightarrow> u64 option res" where
  "check_full_response H src rs =
     (if rs_status rs = 206 then Inl (Http UnexpectedPartialContent)
      else
        let disp = classify_status (rs_status rs) None (retry_after_of H (rs_headers rs)) False
        in if disp \<noteq> Accept then Inl (Http (Dispositioned disp (rs_status rs)))
           else if bad_encoding (sc_allow_compressed src) (rs_headers rs) then Inl (Http CompressedPayload)
           else Inr (Option.bind (header_str H (rs_headers rs) ''content-length'') parse_u64))"

definition finish_body :: "'s chunk_sink \<Rightarrow> session_kind \<Rightarrow> bool \<Rightarrow> u64 option \<Rightarrow> 's delivery \<Rightarrow> full_body_outcome res \<times> 's" where
  "finish_body S k close expected st =
     (case sink_finish S (dl_sink st) of
        (Inl e, s) \<Rightarrow> (Inl e, s)
      | (Inr _, s) \<Rightarrow>
          (case expected of
             Some n \<Rightarrow>
               if dl_offset st \<noteq> n
               then (Inl (Http (if n < dl_offset st then OversizedBody (dl_offset st) n else PrematureEof (dl_offset st) n)), s)
               else (Inr \<lparr>fb_bytes = dl_offset st, fb_reusable = (\<not> close \<and> session_reusable k True)\<rparr>, s)
           | None \<Rightarrow> (Inr \<lparr>fb_bytes = dl_offset st, fb_reusable = (\<not> close \<and> session_reusable k True)\<rparr>, s)))"

definition fetch_full_body ::
  "'u http_env \<Rightarrow> (http_request \<Rightarrow> http_response res) \<Rightarrow> 's chunk_sink \<Rightarrow> fetch_memory \<Rightarrow> session_kind \<Rightarrow> 'u source_context
   \<Rightarrow> rep_lock \<Rightarrow> 's \<Rightarrow> (full_body_outcome res \<times> rep_lock \<times> 's) option" where
  "fetch_full_body H send S M k src lock s =
     (case (case full_body_request H src of Inl e \<Rightarrow> Inl e | Inr q \<Rightarrow> send q) of
        Inl e \<Rightarrow> Some (Inl e, lock, s)
      | Inr rs \<Rightarrow>
          (case check_full_response H src rs of
             Inl e \<Rightarrow> Some (Inl e, lock, s)
           | Inr expected \<Rightarrow>
               (case observe_identity H lock (rs_headers rs) expected of
                  (Inl e, lock1) \<Rightarrow> Some (Inl e, lock1, s)
                | (Inr _, lock1) \<Rightarrow>
                    (case receive_body S M (rs_body rs)
                            \<lparr>dl_offset = 0, dl_received = 0, dl_useful = 0, dl_truncated = False, dl_sink = s, dl_reads = 0,
                             dl_accepts = 0\<rparr> of
                       None \<Rightarrow> None
                     | Some (Some e, st) \<Rightarrow> Some (Inl e, lock1, dl_sink st)
                     | Some (None, st) \<Rightarrow>
                         (case finish_body S k (has_connection_close (rs_headers rs)) expected st of
                            (r, s1) \<Rightarrow> Some (r, lock1, s1))))))"

section \<open>Probing\<close>

record 'u probe_result =
  pr_fingerprint :: "'u fingerprint"
  pr_supports_ranges :: bool
  pr_total_length :: "u64 option"
  pr_status :: u16
  pr_reusable :: bool
  pr_compressed :: bool
  pr_alt_svc_h3_port :: "u16 option"

datatype 'u probe_outcome = Probe_Ready "'u probe_result" | Probe_Redirect u16 'u bool

definition parse_u16 :: "string \<Rightarrow> u16 option" where
  "parse_u16 s = (case parse_u64 s of None \<Rightarrow> None | Some n \<Rightarrow> if n \<le> 65535 then Some (ucast n) else None)"

definition trim_quotes :: "string \<Rightarrow> string" where
  "trim_quotes s = rev (dropWhile (\<lambda>c. c = CHR 0x22) (rev (dropWhile (\<lambda>c. c = CHR 0x22) s)))"

definition alt_svc_entry :: "string \<Rightarrow> u16 option" where
  "alt_svc_entry e =
     (case split_once (CHR ''='') (trim e) of
        None \<Rightarrow> None
      | Some (proto, auth) \<Rightarrow>
          if \<not> eq_ignore_case (trim proto) ''h3'' then None
          else Option.bind (strip_prefix '':'' (trim_quotes (trim auth))) (\<lambda>p. parse_u16 (trim p)))"

definition parse_alt_svc_h3 :: "'u http_env \<Rightarrow> header_map \<Rightarrow> u16 option" where
  "parse_alt_svc_h3 H hs =
     (case header_str H hs ''alt-svc'' of
        None \<Rightarrow> None
      | Some raw \<Rightarrow>
          (case List.map_filter alt_svc_entry (split_on (CHR '','') raw) of [] \<Rightarrow> None | p # _ \<Rightarrow> Some p))"

definition probe_range :: byte_range where
  "probe_range = ByteRange_new 0 1"

definition probe_request :: "'u http_env \<Rightarrow> 'u \<Rightarrow> header_map \<Rightarrow> bool \<Rightarrow> http_request res" where
  "probe_request H u extra allow =
     (case host_header H u of
        Inl e \<Rightarrow> Inl e
      | Inr h \<Rightarrow>
          (case header_value H h of
             None \<Rightarrow> Inl (error_protocol ''invalid header value'')
           | Some v \<Rightarrow>
               let h1 = hm_insert ''range'' (bytes_of (to_http_range probe_range)) (hm_insert ''host'' v extra);
                   h2 = (if allow then h1 else hm_insert ''accept-encoding'' (bytes_of ''identity'') h1)
               in build_request H u (apply_request_defaults H h2)))"

text \<open>Whether ranges work, and the length.\<close>

definition probe_verdict :: "'u http_env \<Rightarrow> 'u fingerprint \<Rightarrow> http_response \<Rightarrow> (bool \<times> u64 option) res" where
  "probe_verdict H fp rs =
     (let status = rs_status rs; hs = rs_headers rs
      in if status = 206 then
           (case header_str H hs ''content-range'' of
              None \<Rightarrow> Inl (error_protocol ''206 without Content-Range'')
            | Some v \<Rightarrow>
                (case parse_content_range v of
                   Inl e \<Rightarrow> Inl e
                 | Inr cr \<Rightarrow> (case validate_against cr probe_range of Inl e \<Rightarrow> Inl e | Inr _ \<Rightarrow> Inr (True, complete_length cr))))
         else if status = 200 then Inr (False, content_length fp)
         else if status = 416 then
           Inr (True, Option.bind (header_str H hs ''content-range'') (\<lambda>v. parse_u64 (trim (last (split_on (CHR ''/'') v)))))
         else if 200 \<le> status \<and> status < 300 then Inr (False, content_length fp)
         else
           let disp = classify_status status (Some probe_range) (retry_after_of H hs) False
           in Inl (Http (if disp = Accept then RangeUnsupported status else Dispositioned disp status)))"

text \<open>\<open>drained\<close> is whether the body could be discarded before the deadline.\<close>

definition probe_source ::
  "'u http_env \<Rightarrow> (http_request \<Rightarrow> http_response res) \<Rightarrow> bool \<Rightarrow> 'u \<Rightarrow> header_map \<Rightarrow> bool \<Rightarrow> 'u probe_outcome res" where
  "probe_source H send drained u extra allow =
     (case (case probe_request H u extra allow of Inl e \<Rightarrow> Inl e | Inr q \<Rightarrow> send q) of
        Inl e \<Rightarrow> Inl e
      | Inr rs \<Rightarrow>
          let status = rs_status rs; hs = rs_headers rs; close = has_connection_close hs
          in if 300 \<le> status \<and> status < 400 then
               (case header_str H hs ''location'' of
                  None \<Rightarrow> Inl (error_protocol ''redirect response had no valid Location'')
                | Some loc \<Rightarrow>
                    (case join_url H u loc of
                       None \<Rightarrow> Inl (error_protocol ''invalid redirect Location'')
                     | Some target \<Rightarrow> if drained then Inr (Probe_Redirect status target close) else Inl DeadlineExceeded))
             else if status \<noteq> 200 \<and> \<not> drained then Inl DeadlineExceeded
             else
               let fp = from_headers (date_of H) (header_str H hs) u
               in case probe_verdict H fp rs of
                    Inl e \<Rightarrow> Inl e
                  | Inr (supports, len) \<Rightarrow>
                      let fp1 = (if supports \<or> content_length fp = None then fp\<lparr>content_length := len\<rparr> else fp)
                      in Inr (Probe_Ready
                           \<lparr>pr_fingerprint = fp1, pr_supports_ranges = supports, pr_total_length = len, pr_status = status,
                            pr_reusable = (status \<noteq> 200 \<and> \<not> close), pr_compressed = is_compressed fp1,
                            pr_alt_svc_h3_port = parse_alt_svc_h3 H hs\<rparr>))"

end
