(* ===== verification/Conn_Pool.thy ===== *)
theory Conn_Pool
  imports Fetch
begin

text \<open>
  The connection pool of a shard (\<^verbatim>\<open>shard.rs\<close>, \<open>ConnPool\<close>) over the physical connection of
  \<^verbatim>\<open>net/connector.rs\<close>. An HTTP/1 connection has one session, which a request takes and gives back; the
  others hand out copies. The requests of a shard run on one thread, so that the code between two
  awaits is one step. Waiting requests register with an event; \<open>notify(n)\<close> of the \<open>event_listener\<close>
  crate wakes listeners until \<open>n\<close> are notified, the longest waiting first.
\<close>

section \<open>Physical connections\<close>

datatype wire_protocol = Wire_Http1 | Wire_Http2 | Wire_Http3

text \<open>An HTTP/1 connection has its sender or not.\<close>

datatype physical_connection = Phys_Http1 bool | Phys_Http2 | Phys_Http3

fun phys_protocol :: "physical_connection \<Rightarrow> wire_protocol" where
  "phys_protocol (Phys_Http1 _) = Wire_Http1"
| "phys_protocol Phys_Http2 = Wire_Http2"
| "phys_protocol Phys_Http3 = Wire_Http3"

fun open_session :: "physical_connection \<Rightarrow> wire_protocol option \<times> physical_connection" where
  "open_session (Phys_Http1 sender) = (if sender then Some Wire_Http1 else None, Phys_Http1 False)"
| "open_session Phys_Http2 = (Some Wire_Http2, Phys_Http2)"
| "open_session Phys_Http3 = (Some Wire_Http3, Phys_Http3)"

fun return_session :: "physical_connection \<Rightarrow> wire_protocol \<Rightarrow> physical_connection" where
  "return_session (Phys_Http1 sender) Wire_Http1 = Phys_Http1 True"
| "return_session c _ = c"

fun session_protocol :: "session_kind \<Rightarrow> wire_protocol" where
  "session_protocol Session_H1 = Wire_Http1"
| "session_protocol (Session_H2 _) = Wire_Http2"
| "session_protocol Session_H3 = Wire_Http3"

section \<open>The pool\<close>

record conn_pool =
  cp_h1 :: bool
  cp_conn :: "physical_connection option"
  cp_dead :: bool

definition pool_new :: "physical_connection \<Rightarrow> conn_pool" where
  "pool_new c = \<lparr>cp_h1 = (phys_protocol c = Wire_Http1), cp_conn = Some c, cp_dead = False\<rparr>"

datatype acquired = Got_Session wire_protocol | No_Session | Must_Wait

text \<open>The attempt of both pools: take a session if the connection has one.\<close>

definition try_open :: "conn_pool \<Rightarrow> wire_protocol option \<times> conn_pool" where
  "try_open p =
     (case cp_conn p of
        None \<Rightarrow> (None, p)
      | Some c \<Rightarrow> (case open_session c of (s, c1) \<Rightarrow> (s, p\<lparr>cp_conn := Some c1\<rparr>)))"

text \<open>One poll of \<open>acquire\<close>, up to its await. The second look after registering the listener sees
  what the first one saw.\<close>

definition acquire_poll :: "conn_pool \<Rightarrow> acquired \<times> conn_pool" where
  "acquire_poll p =
     (if cp_dead p then (No_Session, p)
      else
        case try_open p of
          (Some s, p1) \<Rightarrow> (Got_Session s, p1)
        | (None, p1) \<Rightarrow>
            if \<not> cp_h1 p \<or> cp_conn p1 = None then (No_Session, p1)
            else
              (case try_open p1 of
                 (Some s, p2) \<Rightarrow> (Got_Session s, p2)
               | (None, p2) \<Rightarrow> if cp_dead p2 \<or> cp_conn p2 = None then (No_Session, p2) else (Must_Wait, p2)))"

datatype notification = Notify_None | Notify_One | Notify_All

definition pool_release :: "wire_protocol \<Rightarrow> conn_pool \<Rightarrow> conn_pool \<times> notification" where
  "pool_release s p =
     (if cp_h1 p then (p\<lparr>cp_conn := map_option (\<lambda>c. return_session c s) (cp_conn p)\<rparr>, Notify_One)
      else (p, Notify_None))"

definition pool_retire :: "conn_pool \<Rightarrow> conn_pool \<times> notification" where
  "pool_retire p =
     (if cp_dead p then (p, Notify_None)
      else (p\<lparr>cp_dead := True, cp_conn := None\<rparr>, if cp_h1 p then Notify_All else Notify_None))"

definition pool_close :: "conn_pool \<Rightarrow> conn_pool \<times> notification" where
  "pool_close p = (p\<lparr>cp_dead := True, cp_conn := None\<rparr>, if cp_h1 p then Notify_All else Notify_None)"

section \<open>Requests that share a pool\<close>

text \<open>A request asks, waits for a session, was woken, holds a session, or is over.\<close>

datatype request_phase = Asking | Waiting | Woken | Holding wire_protocol | Over

record pool_sys =
  ps_pool :: conn_pool
  ps_requests :: "request_phase list"

fun notify_one :: "request_phase list \<Rightarrow> request_phase list" where
  "notify_one [] = []"
| "notify_one (Waiting # rs) = Woken # rs"
| "notify_one (r # rs) = r # notify_one rs"

definition notify :: "notification \<Rightarrow> request_phase list \<Rightarrow> request_phase list" where
  "notify n rs =
     (case n of
        Notify_None \<Rightarrow> rs
      | Notify_One \<Rightarrow> if Woken \<in> set rs then rs else notify_one rs
      | Notify_All \<Rightarrow> map (\<lambda>r. if r = Waiting then Woken else r) rs)"

definition phase_after :: "acquired \<Rightarrow> request_phase" where
  "phase_after a = (case a of Got_Session s \<Rightarrow> Holding s | No_Session \<Rightarrow> Over | Must_Wait \<Rightarrow> Waiting)"

text \<open>A request that ends gives its session back, retires the pool, or only drops its session (a
  cancelled probe or sample).\<close>

datatype session_end = Give_Back | Retire_Pool | Drop_Session

definition end_session :: "session_end \<Rightarrow> wire_protocol \<Rightarrow> conn_pool \<Rightarrow> conn_pool \<times> notification" where
  "end_session e s p = (case e of Give_Back \<Rightarrow> pool_release s p | Retire_Pool \<Rightarrow> pool_retire p | Drop_Session \<Rightarrow> (p, Notify_None))"

inductive pool_step :: "pool_sys \<Rightarrow> pool_sys \<Rightarrow> bool" where
  start_request: "pool_step s (s\<lparr>ps_requests := ps_requests s @ [Asking]\<rparr>)"
| poll_request: "i < length (ps_requests s) \<Longrightarrow> ps_requests s ! i \<in> {Asking, Woken} \<Longrightarrow> acquire_poll (ps_pool s) = (a, p) \<Longrightarrow>
     pool_step s \<lparr>ps_pool = p, ps_requests = (ps_requests s)[i := phase_after a]\<rparr>"
| end_request: "i < length (ps_requests s) \<Longrightarrow> ps_requests s ! i = Holding w \<Longrightarrow> end_session e w (ps_pool s) = (p, n) \<Longrightarrow>
     pool_step s \<lparr>ps_pool = p, ps_requests = notify n ((ps_requests s)[i := Over])\<rparr>"
| close_pool: "pool_close (ps_pool s) = (p, n) \<Longrightarrow> pool_step s \<lparr>ps_pool = p, ps_requests = notify n (ps_requests s)\<rparr>"

inductive_cases pool_stepE: "pool_step s t"

definition pool_start :: "physical_connection \<Rightarrow> pool_sys" where
  "pool_start c = \<lparr>ps_pool = pool_new c, ps_requests = []\<rparr>"

section \<open>What the pool guarantees\<close>

fun holds_session :: "request_phase \<Rightarrow> bool" where
  "holds_session (Holding _) \<longleftrightarrow> True"
| "holds_session _ \<longleftrightarrow> False"

definition holders :: "request_phase list \<Rightarrow> nat" where
  "holders rs = length (filter holds_session rs)"

definition has_free_session :: "conn_pool \<Rightarrow> bool" where
  "has_free_session p \<longleftrightarrow> cp_conn p = Some (Phys_Http1 True)"

lemma holders_simps [simp]:
  "holders [] = 0" "holders (r # rs) = of_bool (holds_session r) + holders rs" "holders (rs @ qs) = holders rs + holders qs"
  by (simp_all add: holders_def)

lemma holders_update:
  assumes "i < length rs"
  shows "holders (rs[i := r]) + of_bool (holds_session (rs ! i)) = holders rs + of_bool (holds_session r)"
proof -
  have "holders rs = holders (take i rs @ rs ! i # drop (Suc i) rs)" using id_take_nth_drop [OF assms] by simp
  then show ?thesis by (simp add: upd_conv_take_nth_drop [OF assms])
qed

lemma notify_one_facts [simp]:
  "holders (notify_one rs) = holders rs" "Waiting \<in> set rs \<Longrightarrow> Woken \<in> set (notify_one rs)"
  "Holding w \<in> set (notify_one rs) \<longleftrightarrow> Holding w \<in> set rs" "Waiting \<in> set (notify_one rs) \<Longrightarrow> Waiting \<in> set rs"
  by (induction rs rule: notify_one.induct) auto

lemma wake_all_facts [simp]:
  "holders (map (\<lambda>r. if r = Waiting then Woken else r) rs) = holders rs"
  "Holding w \<in> set (map (\<lambda>r. if r = Waiting then Woken else r) rs) \<longleftrightarrow> Holding w \<in> set rs"
  "Waiting \<notin> set (map (\<lambda>r. if r = Waiting then Woken else r) rs)"
  by (induction rs) auto

lemma notify_facts:
  "holders (notify n rs) = holders rs" "Holding w \<in> set (notify n rs) \<longleftrightarrow> Holding w \<in> set rs"
  by (cases n, simp_all add: notify_def del: set_map)+

lemma notify_waiting: "Waiting \<in> set (notify n rs) \<Longrightarrow> Waiting \<in> set rs \<and> n \<noteq> Notify_All"
  by (cases n) (auto simp: notify_def simp del: set_map split: if_splits)

lemma notify_woken: "Waiting \<in> set (notify Notify_One rs) \<Longrightarrow> Woken \<in> set (notify Notify_One rs)"
  by (auto simp: notify_def split: if_splits)

text \<open>What a poll does.\<close>

lemma acquire_poll_eqs:
  "cp_dead p \<Longrightarrow> acquire_poll p = (No_Session, p)"
  "\<not> cp_dead p \<Longrightarrow> cp_conn p = Some (Phys_Http1 True) \<Longrightarrow> acquire_poll p = (Got_Session Wire_Http1, p\<lparr>cp_conn := Some (Phys_Http1 False)\<rparr>)"
  "\<not> cp_dead p \<Longrightarrow> cp_h1 p \<Longrightarrow> cp_conn p = Some (Phys_Http1 False) \<Longrightarrow> acquire_poll p = (Must_Wait, p)"
  "\<not> cp_dead p \<Longrightarrow> cp_conn p = Some Phys_Http2 \<Longrightarrow> acquire_poll p = (Got_Session Wire_Http2, p)"
  "\<not> cp_dead p \<Longrightarrow> cp_conn p = Some Phys_Http3 \<Longrightarrow> acquire_poll p = (Got_Session Wire_Http3, p)"
  by (cases p; simp add: acquire_poll_def try_open_def)+

lemma acquire_poll_cases:
  assumes "acquire_poll p = (a, q)" "\<forall>c. cp_conn p = Some c \<longrightarrow> (cp_h1 p \<longleftrightarrow> phys_protocol c = Wire_Http1)"
    "cp_dead p \<longleftrightarrow> cp_conn p = None"
  obtains (dead) "cp_dead p" "a = No_Session" "q = p"
  | (taken) "cp_h1 p" "cp_conn p = Some (Phys_Http1 True)" "a = Got_Session Wire_Http1" "q = p\<lparr>cp_conn := Some (Phys_Http1 False)\<rparr>"
  | (wait) "cp_h1 p" "cp_conn p = Some (Phys_Http1 False)" "a = Must_Wait" "q = p"
  | (copy) w where "\<not> cp_h1 p" "\<not> cp_dead p" "a = Got_Session w" "q = p"
proof (cases "cp_conn p")
  case None
  then have "cp_dead p" using assms(3) by simp
  then show ?thesis using acquire_poll_eqs(1) [of p] assms(1) dead by simp
next
  case (Some c)
  then have alive: "\<not> cp_dead p" and h1: "cp_h1 p \<longleftrightarrow> phys_protocol c = Wire_Http1" using assms(2,3) by simp_all
  show ?thesis
  proof (cases c)
    case (Phys_Http1 b)
    then show ?thesis using acquire_poll_eqs(2,3) [OF alive] assms(1) h1 Some taken wait by (cases b) simp_all
  next
    case Phys_Http2
    then show ?thesis using acquire_poll_eqs(4) [OF alive] assms(1) h1 Some copy alive by simp
  next
    case Phys_Http3
    then show ?thesis using acquire_poll_eqs(5) [OF alive] assms(1) h1 Some copy alive by simp
  qed
qed

text \<open>The invariant in two parts: of the pool, and of the pool with its requests.\<close>

definition shape_ok :: "conn_pool \<Rightarrow> bool" where
  "shape_ok p \<longleftrightarrow> (cp_dead p \<longleftrightarrow> cp_conn p = None) \<and>
     (\<forall>c. cp_conn p = Some c \<longrightarrow> (cp_h1 p \<longleftrightarrow> phys_protocol c = Wire_Http1))"

lemma shape_kept:
  assumes "shape_ok p"
  shows "acquire_poll p = (a, q) \<Longrightarrow> shape_ok q \<and> cp_h1 q = cp_h1 p"
    and "end_session e w p = (q, n) \<Longrightarrow> w = Wire_Http1 \<or> \<not> cp_h1 p \<Longrightarrow> shape_ok q \<and> cp_h1 q = cp_h1 p"
    and "pool_close p = (q, n) \<Longrightarrow> shape_ok q \<and> cp_h1 q = cp_h1 p"
proof -
  show "shape_ok q \<and> cp_h1 q = cp_h1 p" if "acquire_poll p = (a, q)"
    using that assms unfolding shape_ok_def by (elim acquire_poll_cases conjE) (simp_all add: shape_ok_def)
  have "phys_protocol (return_session c s) = phys_protocol c" for c s by (cases "(c, s)" rule: return_session.cases) simp_all
  then show "shape_ok q \<and> cp_h1 q = cp_h1 p" if "end_session e w p = (q, n)"
    using that assms by (cases e) (auto simp: shape_ok_def end_session_def pool_release_def pool_retire_def split: if_splits)
qed (use assms in \<open>auto simp: shape_ok_def pool_close_def\<close>)

definition pool_ok :: "pool_sys \<Rightarrow> bool" where
  "pool_ok s \<longleftrightarrow> shape_ok (ps_pool s) \<and>
     (cp_h1 (ps_pool s) \<longrightarrow> holders (ps_requests s) + of_bool (has_free_session (ps_pool s)) \<le> 1 \<and>
        (\<forall>w. Holding w \<in> set (ps_requests s) \<longrightarrow> w = Wire_Http1)) \<and>
     (Waiting \<in> set (ps_requests s) \<longrightarrow> cp_h1 (ps_pool s) \<and> \<not> cp_dead (ps_pool s) \<and>
        (\<not> has_free_session (ps_pool s) \<or> Woken \<in> set (ps_requests s)))"

lemma update_elim: "x \<in> set (xs[i := y]) \<Longrightarrow> x = y \<or> x \<in> set xs"
  using set_update_subset_insert by fast

lemma poll_ok:
  assumes "pool_ok s" "i < length (ps_requests s)" "ps_requests s ! i \<in> {Asking, Woken}" "acquire_poll (ps_pool s) = (a, p)"
  shows "pool_ok \<lparr>ps_pool = p, ps_requests = (ps_requests s)[i := phase_after a]\<rparr>"
proof -
  have h: "holders ((ps_requests s)[i := phase_after a]) = holders (ps_requests s) + of_bool (holds_session (phase_after a))"
    using holders_update [OF assms(2), of "phase_after a"] assms(3) by auto
  have sh: "shape_ok (ps_pool s)" "shape_ok p" "cp_h1 p = cp_h1 (ps_pool s)"
    using assms(1) shape_kept(1) [OF _ assms(4)] by (simp_all add: pool_ok_def)
  show ?thesis
    using assms(4) sh(1) unfolding shape_ok_def
  proof (elim acquire_poll_cases conjE)
    assume "cp_dead (ps_pool s)" "a = No_Session" "p = ps_pool s"
    then show ?thesis using assms(1) h by (auto simp: pool_ok_def phase_after_def dest!: update_elim)
  next
    assume "cp_conn (ps_pool s) = Some (Phys_Http1 True)" "a = Got_Session Wire_Http1" "p = ps_pool s\<lparr>cp_conn := Some (Phys_Http1 False)\<rparr>"
    then show ?thesis using assms(1) sh h by (auto simp: pool_ok_def phase_after_def has_free_session_def shape_ok_def dest!: update_elim)
  next
    assume "cp_conn (ps_pool s) = Some (Phys_Http1 False)" "cp_h1 (ps_pool s)" "a = Must_Wait" "p = ps_pool s"
    then show ?thesis using assms(1) sh h by (auto simp: pool_ok_def phase_after_def has_free_session_def shape_ok_def dest!: update_elim)
  next
    fix w assume "\<not> cp_h1 (ps_pool s)" "a = Got_Session w" "p = ps_pool s"
    then show ?thesis using assms(1) h by (auto simp: pool_ok_def phase_after_def dest!: update_elim)
  qed
qed

lemma end_ok:
  assumes "pool_ok s" "i < length (ps_requests s)" "ps_requests s ! i = Holding w" "end_session e w (ps_pool s) = (p, n)"
  shows "pool_ok \<lparr>ps_pool = p, ps_requests = notify n ((ps_requests s)[i := Over])\<rparr>"
proof -
  let ?rs = "(ps_requests s)[i := Over]"
  have h: "holders ?rs + 1 = holders (ps_requests s)" using holders_update [OF assms(2), of Over] assms(3) by simp
  have w: "Holding w \<in> set (ps_requests s)" using assms(2,3) by (metis nth_mem)
  have keep: "Woken \<in> set ?rs" if "Woken \<in> set (ps_requests s)"
    using that assms(2,3) unfolding in_set_conv_nth by (metis length_list_update nth_list_update_neq request_phase.distinct(15))
  have sh: "shape_ok (ps_pool s)" "shape_ok p" "cp_h1 p = cp_h1 (ps_pool s)"
    using assms(1) shape_kept(2) [OF _ assms(4)] w by (auto simp: pool_ok_def)
  have part: "(cp_h1 p \<longrightarrow> holders (notify n ?rs) + of_bool (has_free_session p) \<le> 1 \<and>
        (\<forall>w. Holding w \<in> set (notify n ?rs) \<longrightarrow> w = Wire_Http1))"
    using assms(1) h sh(3) unfolding notify_facts by (auto simp: pool_ok_def dest!: update_elim)
  have "cp_h1 p \<and> \<not> cp_dead p \<and> (\<not> has_free_session p \<or> Woken \<in> set (notify n ?rs))" if wt: "Waiting \<in> set (notify n ?rs)"
  proof -
    have "Waiting \<in> set (ps_requests s)" "n \<noteq> Notify_All" using notify_waiting [OF wt] by (auto dest: update_elim)
    then have old: "cp_h1 (ps_pool s)" "\<not> cp_dead (ps_pool s)" "\<not> has_free_session (ps_pool s) \<or> Woken \<in> set (ps_requests s)"
      using assms(1) by (simp_all add: pool_ok_def)
    show ?thesis
    proof (cases e)
      case Give_Back
      then have "n = Notify_One" "cp_dead p = cp_dead (ps_pool s)" using assms(4) old(1) by (auto simp: end_session_def pool_release_def)
      then show ?thesis using notify_woken wt old sh(3) by simp
    next
      case Retire_Pool
      then show ?thesis using assms(4) old \<open>n \<noteq> Notify_All\<close> by (simp add: end_session_def pool_retire_def)
    next
      case Drop_Session
      then have "p = ps_pool s" "n = Notify_None" using assms(4) by (simp_all add: end_session_def)
      then show ?thesis using old keep by (auto simp: notify_def)
    qed
  qed
  then show ?thesis using part sh(2) by (simp add: pool_ok_def)
qed

lemma close_ok:
  assumes "pool_ok s" "pool_close (ps_pool s) = (p, n)"
  shows "pool_ok \<lparr>ps_pool = p, ps_requests = notify n (ps_requests s)\<rparr>"
proof -
  have "Waiting \<notin> set (notify n (ps_requests s))"
    using assms notify_waiting [of n "ps_requests s"] by (auto simp: pool_ok_def pool_close_def split: if_splits)
  moreover have "\<not> has_free_session p" "cp_h1 p = cp_h1 (ps_pool s)" using assms(2) by (auto simp: pool_close_def has_free_session_def)
  ultimately show ?thesis using assms(1) shape_kept(3) [OF _ assms(2)] by (auto simp: pool_ok_def notify_facts)
qed

lemma pool_step_ok: "pool_step s t \<Longrightarrow> pool_ok s \<Longrightarrow> pool_ok t"
proof (induction rule: pool_step.induct)
  case (start_request s)
  then show ?case by (auto simp: pool_ok_def)
qed (blast intro: poll_ok end_ok close_ok)+

lemma pool_reach_ok: "pool_step\<^sup>*\<^sup>* (pool_start c) s \<Longrightarrow> pool_ok s"
proof (induction rule: rtranclp_induct)
  case base
  show ?case by (simp add: pool_ok_def shape_ok_def pool_start_def pool_new_def)
qed (blast intro: pool_step_ok)

lemma pool_step_protocol: "pool_step s t \<Longrightarrow> pool_ok s \<Longrightarrow> cp_h1 (ps_pool t) = cp_h1 (ps_pool s)"
proof (induction rule: pool_step.induct)
  case (end_request i s w e p n)
  then show ?case using shape_kept(2) [of "ps_pool s" e w p n] nth_mem [OF end_request.hyps(1)] by (auto simp: pool_ok_def)
qed (auto simp: pool_ok_def dest: shape_kept(1,3))

text \<open>C21: One request at a time on an HTTP/1 connection, and nobody waits for nothing. In every state the
  requests of a pool can reach, at most one holds the session of an HTTP/1 connection and none when the
  pool has it; while a request waits the pool is not retired, and when it waits although the session is
  free, a request has been woken to take it. On other protocols no request ever waits.\<close>

theorem waiting_requests_are_served:
  assumes "pool_step\<^sup>*\<^sup>* (pool_start c) s"
  shows "(phys_protocol c = Wire_Http1 \<longrightarrow> holders (ps_requests s) + of_bool (has_free_session (ps_pool s)) \<le> 1) \<and>
    (Waiting \<in> set (ps_requests s) \<longrightarrow> phys_protocol c = Wire_Http1 \<and> \<not> cp_dead (ps_pool s) \<and>
       (\<not> has_free_session (ps_pool s) \<or> Woken \<in> set (ps_requests s)))"
proof -
  have "cp_h1 (ps_pool s) \<longleftrightarrow> phys_protocol c = Wire_Http1" using assms
    by (induction rule: rtranclp_induct) (simp add: pool_start_def pool_new_def, use pool_reach_ok pool_step_protocol in blast)
  then show ?thesis using pool_reach_ok [OF assms] by (auto simp: pool_ok_def)
qed

theorem waiting_requests_are_served_witness:
  "\<exists>s. pool_step\<^sup>*\<^sup>* (pool_start (Phys_Http1 True)) s \<and> ps_requests s = [Over, Woken] \<and> has_free_session (ps_pool s) \<and>
     holders (ps_requests s) + 1 \<le> 1"
proof -
  let ?h = "Phys_Http1 True"
  let ?p = "\<lambda>b. \<lparr>cp_h1 = True, cp_conn = Some (Phys_Http1 b), cp_dead = False\<rparr>"
  have "pool_step (pool_start ?h) \<lparr>ps_pool = ?p True, ps_requests = [Asking]\<rparr>"
    using pool_step.start_request [of "pool_start ?h"] by (simp add: pool_start_def pool_new_def)
  moreover have "pool_step \<lparr>ps_pool = ?p True, ps_requests = [Asking]\<rparr> \<lparr>ps_pool = ?p False, ps_requests = [Holding Wire_Http1]\<rparr>"
    using pool_step.poll_request [of 0 "\<lparr>ps_pool = ?p True, ps_requests = [Asking]\<rparr>"]
    by (simp add: acquire_poll_def try_open_def phase_after_def)
  moreover have "pool_step \<lparr>ps_pool = ?p False, ps_requests = [Holding Wire_Http1]\<rparr> \<lparr>ps_pool = ?p False, ps_requests = [Holding Wire_Http1, Asking]\<rparr>"
    using pool_step.start_request [of "\<lparr>ps_pool = ?p False, ps_requests = [Holding Wire_Http1]\<rparr>"] by simp
  moreover have "pool_step \<lparr>ps_pool = ?p False, ps_requests = [Holding Wire_Http1, Asking]\<rparr> \<lparr>ps_pool = ?p False, ps_requests = [Holding Wire_Http1, Waiting]\<rparr>"
    using pool_step.poll_request [of 1 "\<lparr>ps_pool = ?p False, ps_requests = [Holding Wire_Http1, Asking]\<rparr>"]
    by (simp add: acquire_poll_def try_open_def phase_after_def)
  moreover have "pool_step \<lparr>ps_pool = ?p False, ps_requests = [Holding Wire_Http1, Waiting]\<rparr> \<lparr>ps_pool = ?p True, ps_requests = [Over, Woken]\<rparr>"
    using pool_step.end_request [of 0 "\<lparr>ps_pool = ?p False, ps_requests = [Holding Wire_Http1, Waiting]\<rparr>" Wire_Http1 Give_Back]
    by (simp add: end_session_def pool_release_def notify_def)
  ultimately have "pool_step\<^sup>*\<^sup>* (pool_start ?h) \<lparr>ps_pool = ?p True, ps_requests = [Over, Woken]\<rparr>"
    by (meson converse_rtranclp_into_rtranclp rtranclp.rtrancl_refl)
  from this waiting_requests_are_served [OF this] show ?thesis
    by (intro exI [of _ "\<lparr>ps_pool = ?p True, ps_requests = [Over, Woken]\<rparr>"]) (simp add: has_free_session_def)
qed

end
