(* ===== verification/File_Destination.thy ===== *)
theory File_Destination
  imports Memory_Budget Job_Spec
begin

text \<open>
  \<^verbatim>\<open>src/crates/xde/src/storage/file.rs\<close> and \<^verbatim>\<open>storage/lane.rs\<close>: destinations in the file system. A
  coordinator holds the lock of a destination and publishes the partial file; lanes write chunks into
  it at absolute offsets.

  The disk has names, file contents by file number, and the numbers of the locked files, so that a
  handle keeps its file when the name is moved. Which calls fail is a parameter, and so are the hash
  functions; an error of a call that finds no file is \<open>OtherKind\<close>. The Unix branches are modelled;
  advice to the kernel and the joining of blocking tasks are left out.
\<close>

section \<open>Files\<close>

definition write_at :: "nat \<Rightarrow> u8 list \<Rightarrow> u8 list \<Rightarrow> u8 list" where
  "write_at off data f = take off (f @ replicate (off - length f) 0) @ data @ drop (off + length data) f"

definition set_len :: "nat \<Rightarrow> u8 list \<Rightarrow> u8 list" where
  "set_len n f = take n f @ replicate (n - length f) 0"

record disk =
  entries :: "string \<Rightarrow> nat option"
  blobs :: "nat \<Rightarrow> u8 list"
  locks :: "nat set"
  next_ino :: nat

definition content_of :: "disk \<Rightarrow> string \<Rightarrow> u8 list option" where
  "content_of d p = map_option (blobs d) (entries d p)"

definition open_or_create :: "string \<Rightarrow> disk \<Rightarrow> nat \<times> disk" where
  "open_or_create p d =
     (case entries d p of
        Some i \<Rightarrow> (i, d)
      | None \<Rightarrow> (next_ino d, d\<lparr>entries := (entries d)(p \<mapsto> next_ino d), blobs := (blobs d)(next_ino d := []), next_ino := next_ino d + 1\<rparr>))"

definition upd_blob :: "nat \<Rightarrow> (u8 list \<Rightarrow> u8 list) \<Rightarrow> disk \<Rightarrow> disk" where
  "upd_blob i g d = d\<lparr>blobs := (blobs d)(i := g (blobs d i))\<rparr>"

datatype file_call =
    Create_Dirs | Open_Lock | Try_Lock | Open_Part | Stat_Part | Set_Len | Sync_File | Read_Part | Write_Part
  | Rename_Part | Open_Dir | Sync_Dir | Remove_Part | Remove_Lock

text \<open>What \<open>fallocate\<close> says: done, not supported, or an error.\<close>

datatype fallocate_result = Allocated | Unsupported | Fallocate_Failed io_error_kind

record file_env =
  fails :: "file_call \<Rightarrow> io_error_kind option"
  fallocate_of :: "u64 \<Rightarrow> fallocate_result"
  written_part :: nat
  hash_of :: "hash_kind \<Rightarrow> u8 list \<Rightarrow> u8 list"

abbreviation io_failed :: "io_error_kind \<Rightarrow> error" where
  "io_failed k \<equiv> Destination (Destination_Io k)"

section \<open>Options and paths\<close>

record file_destination_options =
  fo_final_path :: string
  fo_preallocate :: bool
  advise_sequential :: bool
  fo_max_parallel_writes :: u16
  fo_max_inflight_bytes :: u64

definition file_destination_options_new :: "string \<Rightarrow> file_destination_options" where
  "file_destination_options_new p =
     \<lparr>fo_final_path = p, fo_preallocate = True, advise_sequential = False, fo_max_parallel_writes = 16,
      fo_max_inflight_bytes = 256 * 1024 * 1024\<rparr>"

definition part_path_for :: "string \<Rightarrow> string" where
  "part_path_for p = p @ ''.part''"

definition journal_path_for :: "string \<Rightarrow> string" where
  "journal_path_for p = part_path_for p @ ''.state''"

definition lock_path_for :: "string \<Rightarrow> string" where
  "lock_path_for p = part_path_for p @ ''.lock''"

text \<open>The parent directory is created when the path has a non-empty one.\<close>

definition has_parent :: "string \<Rightarrow> bool" where
  "has_parent p \<longleftrightarrow> CHR ''/'' \<in> set p"

definition create_parent :: "file_env \<Rightarrow> string \<Rightarrow> io_error_kind option" where
  "create_parent F p = (if has_parent p then fails F Create_Dirs else None)"

definition sync_parent_dir :: "file_env \<Rightarrow> unit res" where
  "sync_parent_dir F =
     (case fails F Open_Dir of
        Some k \<Rightarrow> Inl (io_failed k)
      | None \<Rightarrow> (case fails F Sync_Dir of Some k \<Rightarrow> Inl (io_failed k) | None \<Rightarrow> Inr ()))"

section \<open>Coordinator\<close>

record coordinator =
  co_final_path :: string
  co_part_path :: string
  co_lock_path :: string
  co_opts :: file_destination_options
  co_lock_file :: "nat option"

definition file_try_lock :: "file_env \<Rightarrow> nat \<Rightarrow> disk \<Rightarrow> unit res \<times> disk" where
  "file_try_lock F i d =
     (case fails F Try_Lock of
        Some k \<Rightarrow> (Inl (io_failed k), d)
      | None \<Rightarrow>
          if i \<in> locks d then (Inl (Destination (LeaseConflict ''destination is locked by another process'')), d)
          else (Inr (), d\<lparr>locks := insert i (locks d)\<rparr>))"

definition open_blocking :: "file_env \<Rightarrow> file_destination_options \<Rightarrow> disk \<Rightarrow> coordinator res \<times> disk" where
  "open_blocking F opts d =
     (let p = fo_final_path opts
      in case create_parent F (part_path_for p) of
           Some k \<Rightarrow> (Inl (io_failed k), d)
         | None \<Rightarrow>
             case fails F Open_Lock of
               Some k \<Rightarrow> (Inl (io_failed k), d)
             | None \<Rightarrow>
                 let (i, d1) = open_or_create (lock_path_for p) d
                 in case file_try_lock F i d1 of
                      (Inl e, d2) \<Rightarrow> (Inl e, d2)
                    | (Inr _, d2) \<Rightarrow>
                        (Inr \<lparr>co_final_path = p, co_part_path = part_path_for p, co_lock_path = lock_path_for p, co_opts = opts,
                              co_lock_file = Some i\<rparr>, d2))"

text \<open>The asynchronous constructor has the same steps in blocking tasks.\<close>

definition coordinator_open :: "file_env \<Rightarrow> file_destination_options \<Rightarrow> disk \<Rightarrow> coordinator res \<times> disk" where
  "coordinator_open F opts d =
     (let final = fo_final_path opts; part = part_path_for final; lock = lock_path_for final
      in if has_parent part \<and> fails F Create_Dirs \<noteq> None then (Inl (io_failed (the (fails F Create_Dirs))), d)
         else
           case fails F Open_Lock of
             Some k \<Rightarrow> (Inl (io_failed k), d)
           | None \<Rightarrow>
               let (i, d1) = open_or_create lock d
               in case fails F Try_Lock of
                    Some k \<Rightarrow> (Inl (io_failed k), d1)
                  | None \<Rightarrow>
                      if i \<in> locks d1 then (Inl (Destination (LeaseConflict ''destination is locked by another process'')), d1)
                      else (Inr \<lparr>co_final_path = final, co_part_path = part, co_lock_path = lock, co_opts = opts, co_lock_file = Some i\<rparr>,
                            d1\<lparr>locks := insert i (locks d1)\<rparr>))"

definition journal_path :: "coordinator \<Rightarrow> string" where
  "journal_path c = journal_path_for (co_final_path c)"

definition drop_lock :: "coordinator \<Rightarrow> disk \<Rightarrow> disk" where
  "drop_lock c d = (case co_lock_file c of None \<Rightarrow> d | Some i \<Rightarrow> d\<lparr>locks := locks d - {i}\<rparr>)"

definition coordinator_preallocate :: "file_env \<Rightarrow> coordinator \<Rightarrow> u64 \<Rightarrow> disk \<Rightarrow> unit res \<times> disk" where
  "coordinator_preallocate F c sz d =
     (if \<not> fo_preallocate (co_opts c) then (Inr (), d)
      else
        case fails F Open_Part of
          Some k \<Rightarrow> (Inl (io_failed k), d)
        | None \<Rightarrow>
            (case entries d (co_part_path c) of
               None \<Rightarrow> (Inl (io_failed OtherKind), d)
             | Some i \<Rightarrow>
                 (case fallocate_of F sz of
                    Allocated \<Rightarrow> (Inr (), upd_blob i (\<lambda>b. set_len (max (unat sz) (length b)) b) d)
                  | Fallocate_Failed k \<Rightarrow> (Inl (io_failed k), d)
                  | Unsupported \<Rightarrow>
                      (Inr (), case fails F Set_Len of Some _ \<Rightarrow> d | None \<Rightarrow> upd_blob i (set_len (unat sz)) d))))"

definition truncate_part :: "file_env \<Rightarrow> coordinator \<Rightarrow> disk \<Rightarrow> unit res \<times> disk" where
  "truncate_part F c d =
     (case fails F Open_Part of
        Some k \<Rightarrow> (Inl (io_failed k), d)
      | None \<Rightarrow>
          let (i, d1) = open_or_create (co_part_path c) d; d2 = upd_blob i (\<lambda>_. []) d1
          in case fails F Set_Len of Some k \<Rightarrow> (Inl (io_failed k), d2) | None \<Rightarrow> (Inr (), d2))"

definition hash_read_back :: "file_env \<Rightarrow> u8 list \<Rightarrow> u64 \<Rightarrow> hash_kind \<Rightarrow> digest res" where
  "hash_read_back F b len kind =
     (case fails F Read_Part of
        Some k \<Rightarrow> Inl (io_failed k)
      | None \<Rightarrow> Inr \<lparr>d_kind = kind, d_value = hash_of F kind (take (unat len) b)\<rparr>)"

definition lane_hex :: "u8 list \<Rightarrow> string" where
  "lane_hex bs = concat (map hex_byte bs)"

definition verify_digest :: "file_env \<Rightarrow> digest_check option \<Rightarrow> u64 \<Rightarrow> u8 list \<Rightarrow> digest option res" where
  "verify_digest F check len b =
     (case check of
        None \<Rightarrow> Inr None
      | Some ck \<Rightarrow>
          (case hash_read_back F b len (dc_kind ck) of
             Inl e \<Rightarrow> Inl e
           | Inr computed \<Rightarrow>
               (case dc_expected ck of
                  Some e \<Rightarrow> if e \<noteq> d_value computed
                    then Inl (Integrity (''digest mismatch: expected '' @ lane_hex e @ '', got '' @ lane_hex (d_value computed)))
                    else Inr (Some computed)
                | None \<Rightarrow> Inr (Some computed))))"

text \<open>The rename that publishes the file; \<open>i\<close> is the file.\<close>

definition publish_part ::
  "file_env \<Rightarrow> coordinator \<Rightarrow> nat \<Rightarrow> durability \<Rightarrow> digest option \<Rightarrow> disk \<Rightarrow> digest option res \<times> disk" where
  "publish_part F c i durability dg d =
     (case fails F Rename_Part of
        Some k \<Rightarrow> (Inl (io_failed k), d)
      | None \<Rightarrow>
          let d2 = d\<lparr>entries := (entries d)(co_part_path c := None, co_final_path c \<mapsto> i)\<rparr>
          in case (if durability = CrashSafe then sync_parent_dir F else Inr ()) of
               Inl e \<Rightarrow> (Inl e, d2)
             | Inr _ \<Rightarrow>
                 (Inr dg, if fails F Remove_Lock = None then d2\<lparr>entries := (entries d2)(co_lock_path c := None)\<rparr> else d2))"

text \<open>The blocking task of \<open>finalize\<close>, which runs after the lock has been dropped.\<close>

definition finalize_task ::
  "file_env \<Rightarrow> coordinator \<Rightarrow> u64 \<Rightarrow> digest_check option \<Rightarrow> durability \<Rightarrow> disk \<Rightarrow> digest option res \<times> disk" where
  "finalize_task F c len check durability d =
     (case fails F Open_Part of
        Some k \<Rightarrow> (Inl (io_failed k), d)
      | None \<Rightarrow>
          (case entries d (co_part_path c) of
             None \<Rightarrow> (Inl (io_failed OtherKind), d)
           | Some i \<Rightarrow>
               (case fails F Set_Len of
                  Some k \<Rightarrow> (Inl (io_failed k), d)
                | None \<Rightarrow>
                    let d1 = upd_blob i (set_len (unat len)) d
                    in case (if durability = CrashSafe then fails F Sync_File else None) of
                         Some k \<Rightarrow> (Inl (io_failed k), d1)
                       | None \<Rightarrow>
                           (case verify_digest F check len (blobs d1 i) of
                              Inl e \<Rightarrow> (Inl e, d1)
                            | Inr dg \<Rightarrow>
                                publish_part F c i durability dg d1))))"

definition finalize ::
  "file_env \<Rightarrow> coordinator \<Rightarrow> u64 \<Rightarrow> digest_check option \<Rightarrow> durability \<Rightarrow> disk \<Rightarrow> digest option res \<times> disk" where
  "finalize F c len check durability d = finalize_task F c len check durability (drop_lock c d)"

definition remove_if_there :: "file_env \<Rightarrow> file_call \<Rightarrow> string \<Rightarrow> disk \<Rightarrow> unit res \<times> disk" where
  "remove_if_there F call p d =
     (if entries d p = None then (Inr (), d)
      else case fails F call of
             Some k \<Rightarrow> (Inl (io_failed k), d)
           | None \<Rightarrow> (Inr (), d\<lparr>entries := (entries d)(p := None)\<rparr>))"

text \<open>The lock is held until the discarded coordinator is dropped at the end.\<close>

definition discard :: "file_env \<Rightarrow> coordinator \<Rightarrow> disk \<Rightarrow> unit res \<times> disk" where
  "discard F c d =
     (case remove_if_there F Remove_Part (co_part_path c) d of
        (Inl e, d1) \<Rightarrow> (Inl e, drop_lock c d1)
      | (Inr _, d1) \<Rightarrow> (case remove_if_there F Remove_Lock (co_lock_path c) d1 of (r, d2) \<Rightarrow> (r, drop_lock c d2)))"

section \<open>Lanes\<close>

datatype flush_level = Buffered | Flush_Data | Flush_Full

record write_completion =
  wc_range :: byte_range
  wc_payload :: "u8 list"

record file_lane =
  ln_file :: nat
  ln_part_path :: string

definition lane_open :: "file_env \<Rightarrow> string \<Rightarrow> disk \<Rightarrow> file_lane res \<times> disk" where
  "lane_open F p d =
     (case fails F Open_Part of
        Some k \<Rightarrow> (Inl (io_failed k), d)
      | None \<Rightarrow> let (i, d1) = open_or_create p d in (Inr \<lparr>ln_file = i, ln_part_path = p\<rparr>, d1))"

definition lane_caps :: destination_caps where
  "lane_caps = or RANDOM_ACCESS (or PARALLEL_WRITES (or OUT_OF_ORDER (or IDEMPOTENT_REWRITE (or SPARSE (or DURABLE_COMMIT READ_BACK)))))"

definition lane_hints :: destination_hints where
  "lane_hints = \<lparr>dh_alignment = 1, max_operation_bytes = 256 * 1024 * 1024, dh_max_inflight_bytes = 256 * 1024 * 1024,
     max_parallel_writes = 8\<rparr>"

text \<open>A write that fails may have written the first bytes.\<close>

definition write_all_at :: "file_env \<Rightarrow> nat \<Rightarrow> u64 \<Rightarrow> u8 list \<Rightarrow> disk \<Rightarrow> unit res \<times> disk" where
  "write_all_at F i off data d =
     (case fails F Write_Part of
        None \<Rightarrow> (Inr (), upd_blob i (write_at (unat off) data) d)
      | Some k \<Rightarrow>
          (Inl (io_failed k), if written_part F = 0 then d else upd_blob i (write_at (unat off) (take (written_part F) data)) d))"

definition lane_write_chunk :: "file_env \<Rightarrow> file_lane \<Rightarrow> chunk \<Rightarrow> disk \<Rightarrow> write_completion res \<times> disk" where
  "lane_write_chunk F l c d =
     (let off = ck_offset c
      in if ck_data c = [] then (Inr \<lparr>wc_range = ByteRange_new off off, wc_payload = ck_data c\<rparr>, d)
         else case write_all_at F (ln_file l) off (ck_data c) d of
                (Inl e, d1) \<Rightarrow> (Inl e, d1)
              | (Inr _, d1) \<Rightarrow>
                  (Inr \<lparr>wc_range = ByteRange_new off (off + of_nat (length (ck_data c))), wc_payload = ck_data c\<rparr>, d1))"

definition read_exact_at :: "file_env \<Rightarrow> u8 list \<Rightarrow> u64 \<Rightarrow> nat \<Rightarrow> u8 list res" where
  "read_exact_at F b off len =
     (if len = 0 then Inr []
      else case fails F Read_Part of
             Some k \<Rightarrow> Inl (io_failed k)
           | None \<Rightarrow> if length b < unat off + len then Inl (io_failed UnexpectedEof) else Inr (take len (drop (unat off) b)))"

definition lane_read_back :: "file_env \<Rightarrow> file_lane \<Rightarrow> u64 \<Rightarrow> nat \<Rightarrow> disk \<Rightarrow> u8 list res" where
  "lane_read_back F l off len d = read_exact_at F (blobs d (ln_file l)) off len"

definition sync_file :: "file_env \<Rightarrow> unit res" where
  "sync_file F = (case fails F Sync_File of Some k \<Rightarrow> Inl (io_failed k) | None \<Rightarrow> Inr ())"

definition lane_flush :: "file_env \<Rightarrow> flush_level \<Rightarrow> unit res" where
  "lane_flush F level = (case level of Buffered \<Rightarrow> Inr () | _ \<Rightarrow> sync_file F)"

section \<open>The destination with its own handle\<close>

datatype artifact_mode = Fresh_Artifact | Resume_Artifact

record begin_artifact =
  ba_mode :: artifact_mode
  expected_length :: "u64 option"

datatype commit_outcome = Commit_Success u64 | Commit_Suspend | Commit_Discard

record file_destination =
  fd_file :: nat
  fd_part_path :: string
  fd_final_path :: string
  fd_opts :: file_destination_options
  high_water :: u64
  fd_preallocated :: bool

definition fd_open :: "file_env \<Rightarrow> file_destination_options \<Rightarrow> disk \<Rightarrow> file_destination res \<times> disk" where
  "fd_open F opts d =
     (let part = part_path_for (fo_final_path opts)
      in case create_parent F part of
           Some k \<Rightarrow> (Inl (io_failed k), d)
         | None \<Rightarrow>
             case fails F Open_Part of
               Some k \<Rightarrow> (Inl (io_failed k), d)
             | None \<Rightarrow>
                 let (i, d1) = open_or_create part d
                 in case fails F Stat_Part of
                      Some k \<Rightarrow> (Inl (io_failed k), d1)
                    | None \<Rightarrow>
                        (Inr \<lparr>fd_file = i, fd_part_path = part, fd_final_path = fo_final_path opts, fd_opts = opts,
                              high_water = of_nat (length (blobs d1 i)), fd_preallocated = False\<rparr>, d1))"

definition existing_len :: "file_env \<Rightarrow> file_destination \<Rightarrow> disk \<Rightarrow> u64 res" where
  "existing_len F f d = (case fails F Stat_Part of Some k \<Rightarrow> Inl (io_failed k) | None \<Rightarrow> Inr (of_nat (length (blobs d (fd_file f)))))"

definition fd_fallocate :: "file_env \<Rightarrow> file_destination \<Rightarrow> u64 \<Rightarrow> disk \<Rightarrow> bool res \<times> disk" where
  "fd_fallocate F f sz d =
     (case fallocate_of F sz of
        Allocated \<Rightarrow> (Inr True, upd_blob (fd_file f) (\<lambda>b. set_len (max (unat sz) (length b)) b) d)
      | Unsupported \<Rightarrow> (Inr False, d)
      | Fallocate_Failed k \<Rightarrow> (Inl (io_failed k), d))"

definition fd_set_len :: "file_env \<Rightarrow> file_destination \<Rightarrow> u64 \<Rightarrow> disk \<Rightarrow> unit res \<times> disk" where
  "fd_set_len F f len d =
     (case fails F Set_Len of Some k \<Rightarrow> (Inl (io_failed k), d) | None \<Rightarrow> (Inr (), upd_blob (fd_file f) (set_len (unat len)) d))"

definition fd_finalize :: "file_env \<Rightarrow> file_destination \<Rightarrow> u64 option \<Rightarrow> disk \<Rightarrow> unit res \<times> disk" where
  "fd_finalize F f expected d =
     (case fd_set_len F f (case expected of Some len \<Rightarrow> len | None \<Rightarrow> high_water f) d of
        (Inl e, d1) \<Rightarrow> (Inl e, d1)
      | (Inr _, d1) \<Rightarrow>
          (case sync_file F of
             Inl e \<Rightarrow> (Inl e, d1)
           | Inr _ \<Rightarrow>
               (case fails F Rename_Part of
                  Some k \<Rightarrow> (Inl (io_failed k), d1)
                | None \<Rightarrow>
                    (case entries d1 (fd_part_path f) of
                       None \<Rightarrow> (Inl (io_failed OtherKind), d1)
                     | Some i \<Rightarrow>
                         (sync_parent_dir F,
                          d1\<lparr>entries := (entries d1)(fd_part_path f := None, fd_final_path f \<mapsto> i)\<rparr>)))))"

definition fd_caps :: destination_caps where
  "fd_caps = or lane_caps PREALLOCATE"

definition fd_hints :: "file_destination \<Rightarrow> destination_hints" where
  "fd_hints f = \<lparr>dh_alignment = 1, max_operation_bytes = fo_max_inflight_bytes (fd_opts f),
     dh_max_inflight_bytes = fo_max_inflight_bytes (fd_opts f), max_parallel_writes = fo_max_parallel_writes (fd_opts f)\<rparr>"

definition fd_write_chunk ::
  "file_env \<Rightarrow> chunk \<Rightarrow> file_destination \<Rightarrow> disk \<Rightarrow> write_completion res \<times> file_destination \<times> disk" where
  "fd_write_chunk F c f d =
     (let off = ck_offset c; len = of_nat (length (ck_data c))
      in if ck_data c = [] then (Inr \<lparr>wc_range = ByteRange_new off off, wc_payload = ck_data c\<rparr>, f, d)
         else case write_all_at F (fd_file f) off (ck_data c) d of
                (Inl e, d1) \<Rightarrow> (Inl e, f, d1)
              | (Inr _, d1) \<Rightarrow>
                  (Inr \<lparr>wc_range = ByteRange_new off (off + len), wc_payload = ck_data c\<rparr>,
                   f\<lparr>high_water := max (high_water f) (off + len)\<rparr>, d1))"

definition fd_preallocate :: "file_env \<Rightarrow> u64 \<Rightarrow> file_destination \<Rightarrow> disk \<Rightarrow> unit res \<times> file_destination \<times> disk" where
  "fd_preallocate F sz f d =
     (if \<not> fo_preallocate (fd_opts f) \<or> fd_preallocated f then (Inr (), f, d)
      else
        case fd_fallocate F f sz d of
          (Inl e, d1) \<Rightarrow> (Inl e, f, d1)
        | (Inr True, d1) \<Rightarrow> (Inr (), f\<lparr>fd_preallocated := True\<rparr>, d1)
        | (Inr False, d1) \<Rightarrow>
            (case fd_set_len F f sz d1 of
               (Inl e, d2) \<Rightarrow> (Inl e, f, d2)
             | (Inr _, d2) \<Rightarrow> (Inr (), f\<lparr>fd_preallocated := True\<rparr>, d2)))"

definition fd_begin :: "file_env \<Rightarrow> begin_artifact \<Rightarrow> file_destination \<Rightarrow> disk \<Rightarrow> unit res \<times> file_destination \<times> disk" where
  "fd_begin F spec f d =
     (case (if ba_mode spec = Fresh_Artifact
            then (case fd_set_len F f 0 d of
                    (Inl e, d1) \<Rightarrow> (Inl e, f, d1)
                  | (Inr _, d1) \<Rightarrow> (Inr (), f\<lparr>high_water := 0, fd_preallocated := False\<rparr>, d1))
            else (Inr (), f, d)) of
        (Inl e, f1, d1) \<Rightarrow> (Inl e, f1, d1)
      | (Inr _, f1, d1) \<Rightarrow> (case expected_length spec of None \<Rightarrow> (Inr (), f1, d1) | Some sz \<Rightarrow> fd_preallocate F sz f1 d1))"

definition fd_flush :: "file_env \<Rightarrow> flush_level \<Rightarrow> unit res" where
  "fd_flush F level = (case level of Buffered \<Rightarrow> Inr () | Flush_Data \<Rightarrow> sync_file F | Flush_Full \<Rightarrow> sync_file F)"

definition fd_commit :: "file_env \<Rightarrow> commit_outcome \<Rightarrow> file_destination \<Rightarrow> disk \<Rightarrow> unit res \<times> disk" where
  "fd_commit F outcome f d =
     (case outcome of
        Commit_Success len \<Rightarrow> fd_finalize F f (Some len) d
      | Commit_Suspend \<Rightarrow> (sync_file F, d)
      | Commit_Discard \<Rightarrow> remove_if_there F Remove_Part (fd_part_path f) d)"

definition fd_read_back :: "file_env \<Rightarrow> file_destination \<Rightarrow> u64 \<Rightarrow> nat \<Rightarrow> disk \<Rightarrow> u8 list res" where
  "fd_read_back F f off len d = read_exact_at F (blobs d (fd_file f)) off len"

end
