(* ===== verification/Shard_Work.thy ===== *)
theory Shard_Work
  imports Conn_Pool File_Destination Provenance Controller Job_Context
begin

text \<open>
  The work of a shard (\<^verbatim>\<open>shard.rs\<close>): the sinks that take the chunks of a fetch, and the functions
  that run a probe, a range, a full body or a mirror sample on a session.

  Tasks of the engine share a partial file and its provenance, and every await lets others run: a
  sink's world is the store, the provenance and a count of the awaits, and \<open>others\<close> is what happens
  to it meanwhile. The end of an assignment is a function of the number of times it is read. A
  cancellation that drops a fetch at an await is that await returning the error of the context; a
  mutex is never poisoned, because nothing panics while it is held. Waiting for capacity is left out
  here, it is \<open>Capacity\<close>. A destination of the application is given by its methods.
\<close>

section \<open>Sinks\<close>

record 's sink_world =
  sw_store :: 's
  sw_prov :: provenance
  sw_turn :: nat

type_synonym 's interference = "nat \<Rightarrow> 's sink_world \<Rightarrow> 's sink_world"

definition meanwhile :: "'s interference \<Rightarrow> 's sink_world \<Rightarrow> 's sink_world" where
  "meanwhile others w = (others (sw_turn w) w)\<lparr>sw_turn := sw_turn w + 1\<rparr>"

record lane_sink =
  ls_lane :: file_lane
  ls_crash_safe :: bool
  ls_frontier :: bool
  ls_dynamic_end :: "(nat \<Rightarrow> u64) option"
  ls_source_id :: source_id

text \<open>The bytes of the chunk at a conflict.\<close>

definition bytes_at :: "u64 \<Rightarrow> u8 list \<Rightarrow> byte_range \<Rightarrow> u8 list" where
  "bytes_at off bytes c = take (unat (br_len c)) (drop (unat (r_start c - off)) bytes)"

fun compare_spans ::
  "(nat \<Rightarrow> u64 \<Rightarrow> nat \<Rightarrow> 's \<Rightarrow> u8 list res) \<Rightarrow> 's interference \<Rightarrow> u64 \<Rightarrow> u8 list \<Rightarrow> byte_range list \<Rightarrow> 's sink_world \<Rightarrow> unit res \<times> 's sink_world"
where
  "compare_spans rd others off bytes [] w = (Inr (), w)"
| "compare_spans rd others off bytes (c # cs) w =
     (let w1 = meanwhile others w
      in case rd (sw_turn w1) (r_start c) (unat (br_len c)) (sw_store w1) of
           Inl e \<Rightarrow> (Inl e, w1)
         | Inr existing \<Rightarrow>
             if existing \<noteq> bytes_at off bytes c then (Inl (OverlapMismatch (r_start c)), w1)
             else compare_spans rd others off bytes cs w1)"

definition check_cross_source ::
  "(nat \<Rightarrow> file_env) \<Rightarrow> disk interference \<Rightarrow> lane_sink \<Rightarrow> u64 \<Rightarrow> u8 list \<Rightarrow> disk sink_world \<Rightarrow> unit res \<times> disk sink_world" where
  "check_cross_source F others sk off bytes w =
     compare_spans (\<lambda>n. lane_read_back (F n) (ls_lane sk)) others off bytes
       (foreign_spans (sw_prov w) (ByteRange_new off (off + of_nat (length bytes))) (ls_source_id sk)) w"

definition record_written :: "lane_sink \<Rightarrow> u64 \<Rightarrow> nat \<Rightarrow> disk sink_world \<Rightarrow> disk sink_world" where
  "record_written sk off len w = w\<lparr>sw_prov := prov_record (sw_prov w) (ByteRange_new off (off + of_nat len)) (ls_source_id sk)\<rparr>"

definition lane_accept ::
  "(nat \<Rightarrow> file_env) \<Rightarrow> disk interference \<Rightarrow> lane_sink \<Rightarrow> chunk \<Rightarrow> disk sink_world \<Rightarrow> unit res \<times> disk sink_world" where
  "lane_accept F others sk c w =
     (case (if has_multiple_writers (sw_prov w) then check_cross_source F others sk (ck_offset c) (ck_data c) w else (Inr (), w)) of
        (Inl e, w1) \<Rightarrow> (Inl e, w1)
      | (Inr _, w1) \<Rightarrow>
          let w2 = meanwhile others w1
          in case lane_write_chunk (F (sw_turn w2)) (ls_lane sk) c (sw_store w2) of
               (Inl e, d) \<Rightarrow> (Inl e, w2\<lparr>sw_store := d\<rparr>)
             | (Inr _, d) \<Rightarrow>
                 (Inr (), record_written sk (ck_offset c) (length (ck_data c)) (meanwhile others (w2\<lparr>sw_store := d\<rparr>))))"

definition lane_finish :: "(nat \<Rightarrow> file_env) \<Rightarrow> disk interference \<Rightarrow> lane_sink \<Rightarrow> disk sink_world \<Rightarrow> unit res \<times> disk sink_world" where
  "lane_finish F others sk w =
     (if ls_crash_safe sk then let w1 = meanwhile others w in (lane_flush (F (sw_turn w1)) Flush_Data, w1) else (Inr (), w))"

definition lane_progress_class :: "lane_sink \<Rightarrow> progress_class" where
  "lane_progress_class sk = (if ls_frontier sk then Frontier else Speculative)"

abbreviation usize_max :: nat where
  "usize_max \<equiv> 2 ^ 64 - 1"

definition lane_chunk_sink :: "(nat \<Rightarrow> file_env) \<Rightarrow> disk interference \<Rightarrow> lane_sink \<Rightarrow> disk sink_world chunk_sink" where
  "lane_chunk_sink F others sk =
     \<lparr>sink_accept = lane_accept F others sk, sink_finish = lane_finish F others sk,
      end_offset = (\<lambda>n _. map_option (\<lambda>flag. flag n) (ls_dynamic_end sk)), max_chunk_size = usize_max\<rparr>"

text \<open>The sink of a mirror sample writes nothing.\<close>

definition sample_accept :: "(nat \<Rightarrow> file_env) \<Rightarrow> disk interference \<Rightarrow> file_lane \<Rightarrow> chunk \<Rightarrow> disk sink_world \<Rightarrow> unit res \<times> disk sink_world" where
  "sample_accept F others l c w =
     (let w1 = meanwhile others w
      in case lane_read_back (F (sw_turn w1)) l (ck_offset c) (length (ck_data c)) (sw_store w1) of
           Inl e \<Rightarrow> (Inl e, w1)
         | Inr existing \<Rightarrow> if existing \<noteq> ck_data c then (Inl (OverlapMismatch (ck_offset c)), w1) else (Inr (), w1))"

definition sample_sink :: "(nat \<Rightarrow> file_env) \<Rightarrow> disk interference \<Rightarrow> file_lane \<Rightarrow> disk sink_world chunk_sink" where
  "sample_sink F others l =
     \<lparr>sink_accept = sample_accept F others l, sink_finish = (\<lambda>w. (Inr (), w)), end_offset = (\<lambda>_ _. None), max_chunk_size = usize_max\<rparr>"

text \<open>A destination of the application.\<close>

record 's dyn_destination =
  write_chunk_dyn :: "nat \<Rightarrow> chunk \<Rightarrow> 's \<Rightarrow> write_completion res \<times> 's"
  read_back_dyn :: "nat \<Rightarrow> u64 \<Rightarrow> nat \<Rightarrow> 's \<Rightarrow> u8 list res"
  flush_dyn :: "'s \<Rightarrow> unit res \<times> 's"
  commit_dyn :: "commit_outcome \<Rightarrow> 's \<Rightarrow> unit res \<times> 's"

record shared_sink =
  ss_frontier :: bool
  ss_end_flag :: "nat \<Rightarrow> u64"
  ss_source_id :: source_id

definition shared_accept ::
  "'s dyn_destination \<Rightarrow> 's interference \<Rightarrow> shared_sink \<Rightarrow> chunk \<Rightarrow> 's sink_world \<Rightarrow> unit res \<times> 's sink_world" where
  "shared_accept D others sk c w =
     (case compare_spans (read_back_dyn D) others (ck_offset c) (ck_data c)
             (foreign_spans (sw_prov w) (ByteRange_new (ck_offset c) (ck_offset c + of_nat (length (ck_data c)))) (ss_source_id sk)) w of
        (Inl e, w1) \<Rightarrow> (Inl e, w1)
      | (Inr _, w1) \<Rightarrow>
          let w2 = meanwhile others w1
          in case write_chunk_dyn D (sw_turn w2) c (sw_store w2) of
               (Inl e, d) \<Rightarrow> (Inl e, w2\<lparr>sw_store := d\<rparr>)
             | (Inr completion, d) \<Rightarrow>
                 let w3 = meanwhile others (w2\<lparr>sw_store := d\<rparr>)
                 in (Inr (), w3\<lparr>sw_prov := prov_record (sw_prov w3) (wc_range completion) (ss_source_id sk)\<rparr>))"

definition shared_chunk_sink :: "'s dyn_destination \<Rightarrow> 's interference \<Rightarrow> shared_sink \<Rightarrow> 's sink_world chunk_sink" where
  "shared_chunk_sink D others sk =
     \<lparr>sink_accept = shared_accept D others sk, sink_finish = (\<lambda>w. (Inr (), w)), end_offset = (\<lambda>n _. Some (ss_end_flag sk n)),
      max_chunk_size = usize_max\<rparr>"

section \<open>Connections after a failure\<close>

definition failure_connection_state :: "wire_protocol \<Rightarrow> error \<Rightarrow> connection_health" where
  "failure_connection_state p e =
     (if p = Wire_Http1 then State_Poisoned
      else case e of
             Transport (ConnectionRetired _) \<Rightarrow> State_Gone
           | Transport (Transport_Io _) \<Rightarrow> State_Poisoned
           | Transport ConnectTimeout \<Rightarrow> State_Poisoned
           | Transport (Tls _) \<Rightarrow> State_Poisoned
           | Http (Protocol _) \<Rightarrow> State_Poisoned
           | _ \<Rightarrow> State_Reusable)"

definition connect_failure_kind :: "error \<Rightarrow> connect_failure" where
  "connect_failure_kind e =
     (case e of
        DeadlineExceeded \<Rightarrow> Connect_Timeout
      | Transport ConnectTimeout \<Rightarrow> Connect_Timeout
      | Transport (Tls _) \<Rightarrow> Connect_Tls
      | Transport (Transport_Io k) \<Rightarrow> if k = ConnectionRefused then Connect_Refused else Connect_Other
      | _ \<Rightarrow> Connect_Other)"

record range_run_error =
  re_error :: error
  re_state :: connection_health

definition pool_retired :: error where
  "pool_retired = Transport (ConnectionRetired ''pool retired'')"

definition outcome_state :: "session_kind \<Rightarrow> bool res \<Rightarrow> connection_health" where
  "outcome_state k r =
     (case r of Inr reusable \<Rightarrow> if reusable then State_Reusable else State_Poisoned
      | Inl e \<Rightarrow> failure_connection_state (session_protocol k) e)"

text \<open>\<open>retire_cancelled\<close> is whether the pool is retired also when the job was cancelled; \<open>cancelled\<close> is
  read at the end.\<close>

definition settle_session :: "bool \<Rightarrow> bool \<Rightarrow> connection_health \<Rightarrow> session_end" where
  "settle_session retire_cancelled cancelled st =
     (if st = State_Reusable then Give_Back else if retire_cancelled \<or> \<not> cancelled then Retire_Pool else Drop_Session)"

section \<open>Runs\<close>

text \<open>Each takes the session the pool gave, and returns what became of it; \<open>None\<close> is a run that never
  ends.\<close>

definition lane_sink_new :: "file_lane \<Rightarrow> job_context \<Rightarrow> bool \<Rightarrow> (nat \<Rightarrow> u64) \<Rightarrow> source_id \<Rightarrow> lane_sink" where
  "lane_sink_new l jc frontier flag source =
     \<lparr>ls_lane = l, ls_crash_safe = (jc_durability jc = CrashSafe), ls_frontier = frontier, ls_dynamic_end = Some flag,
      ls_source_id = source\<rparr>"

definition run_range ::
  "'u http_env \<Rightarrow> (http_request \<Rightarrow> http_response res) \<Rightarrow> (nat \<Rightarrow> file_env) \<Rightarrow> disk interference \<Rightarrow> fetch_memory \<Rightarrow> session_kind option
   \<Rightarrow> file_lane \<Rightarrow> 'u range_fetch \<Rightarrow> job_context \<Rightarrow> bool \<Rightarrow> (nat \<Rightarrow> u64) \<Rightarrow> source_id \<Rightarrow> rep_lock \<Rightarrow> disk sink_world
   \<Rightarrow> ((range_run_error + range_fetch_outcome) \<times> session_end option \<times> rep_lock \<times> disk sink_world) option" where
  "run_range H send F others M session l q jc frontier flag source lock w =
     (case session of
        None \<Rightarrow> Some (Inl \<lparr>re_error = pool_retired, re_state = State_Gone\<rparr>, None, lock, w)
      | Some k \<Rightarrow>
          (case (case ctx_check jc of
                   Inl e \<Rightarrow> Some (Inl e, lock, w)
                 | Inr _ \<Rightarrow> fetch_range H send (lane_chunk_sink F others (lane_sink_new l jc frontier flag source)) M k q lock w) of
             None \<Rightarrow> None
           | Some (outcome, lock1, w1) \<Rightarrow>
               let st = outcome_state k (map_sum id fo_reusable outcome)
               in Some (map_sum (\<lambda>e. \<lparr>re_error = e, re_state = st\<rparr>) id outcome, Some (settle_session True False st), lock1, w1)))"

definition run_full_body ::
  "'u http_env \<Rightarrow> (http_request \<Rightarrow> http_response res) \<Rightarrow> (nat \<Rightarrow> file_env) \<Rightarrow> disk interference \<Rightarrow> fetch_memory \<Rightarrow> session_kind option
   \<Rightarrow> file_lane \<Rightarrow> 'u source_context \<Rightarrow> job_context \<Rightarrow> bool \<Rightarrow> (nat \<Rightarrow> u64) \<Rightarrow> source_id \<Rightarrow> rep_lock \<Rightarrow> disk sink_world
   \<Rightarrow> ((range_run_error + full_body_outcome) \<times> session_end option \<times> rep_lock \<times> disk sink_world) option" where
  "run_full_body H send F others M session l src jc frontier flag source lock w =
     (case session of
        None \<Rightarrow> Some (Inl \<lparr>re_error = pool_retired, re_state = State_Gone\<rparr>, None, lock, w)
      | Some k \<Rightarrow>
          (case (case ctx_check jc of
                   Inl e \<Rightarrow> Some (Inl e, lock, w)
                 | Inr _ \<Rightarrow> fetch_full_body H send (lane_chunk_sink F others (lane_sink_new l jc frontier flag source)) M k src lock w) of
             None \<Rightarrow> None
           | Some (outcome, lock1, w1) \<Rightarrow>
               let st = outcome_state k (map_sum id fb_reusable outcome)
               in Some (map_sum (\<lambda>e. \<lparr>re_error = e, re_state = st\<rparr>) id outcome, Some (settle_session True False st), lock1, w1)))"

record shared_outcome =
  so_bytes :: u64
  so_reusable :: bool

definition run_shared ::
  "'u http_env \<Rightarrow> (http_request \<Rightarrow> http_response res) \<Rightarrow> 's dyn_destination \<Rightarrow> 's interference \<Rightarrow> fetch_memory \<Rightarrow> session_kind option
   \<Rightarrow> 'u range_fetch \<Rightarrow> job_context \<Rightarrow> bool \<Rightarrow> bool \<Rightarrow> (nat \<Rightarrow> u64) \<Rightarrow> source_id \<Rightarrow> rep_lock \<Rightarrow> 's sink_world
   \<Rightarrow> ((range_run_error + shared_outcome) \<times> session_end option \<times> rep_lock \<times> 's sink_world) option" where
  "run_shared H send D others M session q jc cancelled frontier flag source lock w =
     (case session of
        None \<Rightarrow> Some (Inl \<lparr>re_error = pool_retired, re_state = State_Gone\<rparr>, None, lock, w)
      | Some k \<Rightarrow>
          (case (case ctx_check jc of
                   Inl e \<Rightarrow> Some (Inl e, lock, w)
                 | Inr _ \<Rightarrow> fetch_range H send
                     (shared_chunk_sink D others \<lparr>ss_frontier = frontier, ss_end_flag = flag, ss_source_id = source\<rparr>) M k q lock w) of
             None \<Rightarrow> None
           | Some (outcome, lock1, w1) \<Rightarrow>
               let st = outcome_state k (map_sum id fo_reusable outcome)
               in Some (map_sum (\<lambda>e. \<lparr>re_error = e, re_state = st\<rparr>) (\<lambda>out. \<lparr>so_bytes = fo_bytes out, so_reusable = fo_reusable out\<rparr>) outcome,
                    Some (settle_session False cancelled st), lock1, w1)))"

definition run_shared_full_body ::
  "'u http_env \<Rightarrow> (http_request \<Rightarrow> http_response res) \<Rightarrow> 's dyn_destination \<Rightarrow> 's interference \<Rightarrow> fetch_memory \<Rightarrow> session_kind option
   \<Rightarrow> 'u source_context \<Rightarrow> job_context \<Rightarrow> bool \<Rightarrow> bool \<Rightarrow> (nat \<Rightarrow> u64) \<Rightarrow> source_id \<Rightarrow> rep_lock \<Rightarrow> 's sink_world
   \<Rightarrow> ((range_run_error + shared_outcome) \<times> session_end option \<times> rep_lock \<times> 's sink_world) option" where
  "run_shared_full_body H send D others M session src jc cancelled frontier flag source lock w =
     (case session of
        None \<Rightarrow> Some (Inl \<lparr>re_error = pool_retired, re_state = State_Gone\<rparr>, None, lock, w)
      | Some k \<Rightarrow>
          (case (case ctx_check jc of
                   Inl e \<Rightarrow> Some (Inl e, lock, w)
                 | Inr _ \<Rightarrow> fetch_full_body H send
                     (shared_chunk_sink D others \<lparr>ss_frontier = frontier, ss_end_flag = flag, ss_source_id = source\<rparr>) M k src lock w) of
             None \<Rightarrow> None
           | Some (outcome, lock1, w1) \<Rightarrow>
               let st = outcome_state k (map_sum id fb_reusable outcome)
               in Some (map_sum (\<lambda>e. \<lparr>re_error = e, re_state = st\<rparr>) (\<lambda>out. \<lparr>so_bytes = fb_bytes out, so_reusable = fb_reusable out\<rparr>) outcome,
                    Some (settle_session False cancelled st), lock1, w1)))"

datatype 'u probe_report = Report_Ready "'u probe_result" bool | Report_Redirected u16 'u

definition probe_reusable :: "'u probe_outcome res \<Rightarrow> bool" where
  "probe_reusable r =
     (case r of
        Inr (Probe_Ready p) \<Rightarrow> pr_reusable p \<and> \<not> pr_compressed p
      | Inr (Probe_Redirect _ _ close) \<Rightarrow> \<not> close
      | Inl _ \<Rightarrow> False)"

definition run_probe ::
  "'u http_env \<Rightarrow> (http_request \<Rightarrow> http_response res) \<Rightarrow> bool \<Rightarrow> session_kind option \<Rightarrow> 'u source_context \<Rightarrow> job_context \<Rightarrow> bool
   \<Rightarrow> 'u probe_report res \<times> session_end option" where
  "run_probe H send drained session src jc cancelled =
     (case session of
        None \<Rightarrow> (Inl pool_retired, None)
      | Some _ \<Rightarrow>
          let outcome = (case ctx_check jc of
                           Inl e \<Rightarrow> Inl e
                         | Inr _ \<Rightarrow> probe_source H send drained (sc_url src) (sc_extra_headers src) (sc_allow_compressed src));
              reusable = probe_reusable outcome
          in (case outcome of
                Inl e \<Rightarrow> Inl e
              | Inr (Probe_Ready p) \<Rightarrow> Inr (Report_Ready p reusable)
              | Inr (Probe_Redirect st loc _) \<Rightarrow> Inr (Report_Redirected st loc),
              Some (if reusable then Give_Back else if \<not> cancelled then Retire_Pool else Drop_Session)))"

record mirror_sample_outcome =
  ms_matches :: bool
  ms_reusable :: bool

definition run_mirror_sample ::
  "'u http_env \<Rightarrow> (http_request \<Rightarrow> http_response res) \<Rightarrow> (nat \<Rightarrow> file_env) \<Rightarrow> disk interference \<Rightarrow> (nat \<Rightarrow> u64 \<Rightarrow> error option) \<Rightarrow> session_kind option
   \<Rightarrow> file_lane \<Rightarrow> 'u source_context \<Rightarrow> byte_range \<Rightarrow> job_context \<Rightarrow> bool \<Rightarrow> rep_lock \<Rightarrow> disk sink_world
   \<Rightarrow> (mirror_sample_outcome res \<times> session_end option \<times> rep_lock \<times> disk sink_world) option" where
  "run_mirror_sample H send F others refuses session l src rg jc cancelled lock w =
     (case session of
        None \<Rightarrow> Some (Inl pool_retired, None, lock, w)
      | Some k \<Rightarrow>
          (case (case ctx_check jc of
                   Inl e \<Rightarrow> Some (Inl e, lock, w)
                 | Inr _ \<Rightarrow> fetch_range H send (sample_sink F others l) \<lparr>fm_limit = - 1, fm_refuses = refuses\<rparr> k
                     \<lparr>rf_source = src, rf_range = rg, rf_overlap = 0, rf_is_resume = False\<rparr> lock w) of
             None \<Rightarrow> None
           | Some (outcome, lock1, w1) \<Rightarrow>
               let reusable = (case outcome of Inr out \<Rightarrow> fo_reusable out | Inl _ \<Rightarrow> False)
               in Some (Inr \<lparr>ms_matches = (case outcome of Inr _ \<Rightarrow> True | Inl _ \<Rightarrow> False), ms_reusable = reusable\<rparr>,
                    Some (if reusable then Give_Back else if \<not> cancelled then Retire_Pool else Drop_Session), lock1, w1)))"

definition commit_shared ::
  "(hash_kind \<Rightarrow> u8 list \<Rightarrow> u8 list) \<Rightarrow> 's dyn_destination \<Rightarrow> u64 \<Rightarrow> digest_check option \<Rightarrow> 's \<Rightarrow> digest option res \<times> 's" where
  "commit_shared hash D final_length integrity s =
     (case flush_dyn D s of
        (Inl e, s1) \<Rightarrow> (Inl e, s1)
      | (Inr _, s1) \<Rightarrow>
          (case (case integrity of
                   None \<Rightarrow> Inr None
                 | Some ck \<Rightarrow>
                     (case read_back_dyn D 0 0 (unat final_length) s1 of
                        Inl e \<Rightarrow> Inl e
                      | Inr bytes \<Rightarrow>
                          let d = hash (dc_kind ck) bytes
                          in if dc_expected ck \<noteq> None \<and> dc_expected ck \<noteq> Some d then Inl (Integrity ''digest mismatch on shared destination'')
                             else Inr (Some \<lparr>d_kind = dc_kind ck, d_value = d\<rparr>))) of
             Inl e \<Rightarrow> (Inl e, s1)
           | Inr dg \<Rightarrow>
               (case commit_dyn D (Commit_Success final_length) s1 of (Inl e, s2) \<Rightarrow> (Inl e, s2) | (Inr _, s2) \<Rightarrow> (Inr dg, s2))))"

section \<open>Reports\<close>

text \<open>What the control loop is told; the timings of the sample are a parameter.\<close>

definition range_report ::
  "job_id \<Rightarrow> assignment_ref \<Rightarrow> u32 \<Rightarrow> byte_range \<Rightarrow> connection_id \<Rightarrow> transfer_sample \<Rightarrow> (range_run_error + u64 \<times> bool) \<Rightarrow> 'u observation" where
  "range_report job a attempt rg conn timing r =
     (case r of
        Inr (bytes, reusable) \<Rightarrow>
          AssignmentVerified job a (ByteRange_new (r_start rg) (r_start rg + bytes)) (timing\<lparr>ts_bytes := bytes\<rparr>) conn reusable
      | Inl e \<Rightarrow> AssignmentFailed job a attempt (classify_transport_error (re_error e)) (Some conn) (re_state e) Stream_Failed)"

definition body_report ::
  "job_id \<Rightarrow> assignment_ref \<Rightarrow> u32 \<Rightarrow> connection_id \<Rightarrow> transfer_sample \<Rightarrow> (range_run_error + u64 \<times> bool) \<Rightarrow> 'u observation" where
  "body_report job a attempt conn timing r = range_report job a attempt (ByteRange_new 0 0) conn timing r"

definition probe_report_of :: "('u \<Rightarrow> string) \<Rightarrow> job_id \<Rightarrow> connection_id \<Rightarrow> source_id \<Rightarrow> 'u probe_report res \<Rightarrow> 'u observation" where
  "probe_report_of url_str job conn source r =
     (case r of
        Inr (Report_Ready p alive) \<Rightarrow>
          Probed job conn source (pr_supports_ranges p) (pr_total_length p) (etag (pr_fingerprint p)) (last_modified (pr_fingerprint p))
            (alive \<and> \<not> pr_compressed p) (pr_alt_svc_h3_port p)
      | Inr (Report_Redirected st loc) \<Rightarrow> ProbeRedirected job conn st (url_str loc)
      | Inl e \<Rightarrow> ProbeFailed job conn source (probe_failure_from_error e) (if is_destination_error e then State_Reusable else State_Poisoned))"

definition connect_report :: "connection_id \<Rightarrow> (protocol \<times> duration) res \<Rightarrow> 'u observation" where
  "connect_report conn r =
     (case r of Inr (p, handshake) \<Rightarrow> ConnectionReady conn handshake p | Inl e \<Rightarrow> ConnectionFailed conn (connect_failure_kind e))"

definition sample_report :: "job_id \<Rightarrow> source_id \<Rightarrow> connection_id \<Rightarrow> mirror_sample_outcome res \<Rightarrow> 'u observation" where
  "sample_report job source conn r =
     (case r of Inr out \<Rightarrow> MirrorSampled job source conn (ms_matches out) (ms_reusable out) | Inl _ \<Rightarrow> MirrorSampled job source conn False False)"

end
