(* ===== verification/Reorder.thy ===== *)
theory Reorder
  imports Memory_Budget
begin

text \<open>
  \<^verbatim>\<open>src/crates/xde/src/storage/reorder.rs\<close>: the adapter between workers that deliver chunks in any
  order and a sink that takes them in order. The \<open>BTreeMap\<close> of waiting chunks is a list sorted by
  offset; the sink's \<open>push\<close> is the parameter \<open>dpush\<close>, with \<open>Inl\<close> its error.
\<close>

record 'd seq_adapter =
  inner :: 'd
  next_offset :: u64
  pending :: "(u64 \<times> chunk) list"
  buffered_bytes :: u64
  max_buffered :: u64

definition adapter_new :: "'d \<Rightarrow> u64 \<Rightarrow> u64 \<Rightarrow> 'd seq_adapter" where
  "adapter_new d start mx =
     \<lparr>inner = d, next_offset = start, pending = [], buffered_bytes = 0, max_buffered = mx\<rparr>"

definition ck_len :: "chunk \<Rightarrow> u64" where
  "ck_len c = of_nat (length (ck_data c))"

definition has_room :: "'d seq_adapter \<Rightarrow> u64 \<Rightarrow> bool" where
  "has_room a n \<longleftrightarrow> buffered_bytes a + n \<le> max_buffered a"

definition push_now :: "('d \<Rightarrow> chunk \<Rightarrow> 'd res) \<Rightarrow> 'd seq_adapter \<Rightarrow> chunk \<Rightarrow> unit res \<times> 'd seq_adapter" where
  "push_now dpush a c =
     (case dpush (inner a) c of
        Inl e \<Rightarrow> (Inl e, a)
      | Inr d \<Rightarrow> (Inr (), a\<lparr>inner := d, next_offset := next_offset a + ck_len c\<rparr>))"

function drain :: "('d \<Rightarrow> chunk \<Rightarrow> 'd res) \<Rightarrow> 'd seq_adapter \<Rightarrow> unit res \<times> 'd seq_adapter" where
  "drain dpush a =
     (case pending a of
        [] \<Rightarrow> (Inr (), a)
      | (off, c) # rest \<Rightarrow>
          if off \<noteq> next_offset a then (Inr (), a)
          else
            (case push_now dpush (a\<lparr>pending := rest, buffered_bytes := buffered_bytes a - ck_len c\<rparr>) c of
               (Inl e, a') \<Rightarrow> (Inl e, a')
             | (Inr _, a') \<Rightarrow> drain dpush a'))"
  by pat_completeness auto
termination
  by (relation "measure (\<lambda>(dpush, a). length (pending a))")
    (auto simp: push_now_def split: sum.splits)

declare drain.simps [simp del]

definition accept :: "('d \<Rightarrow> chunk \<Rightarrow> 'd res) \<Rightarrow> 'd seq_adapter \<Rightarrow> chunk \<Rightarrow> unit res \<times> 'd seq_adapter" where
  "accept dpush a c =
     (let off = ck_offset c
      in if off < next_offset a then
           (let skip = unat (next_offset a - off)
            in if skip \<ge> length (ck_data c) then (Inr (), a)
               else
                 (case push_now dpush a (trim_prefix c skip) of
                    (Inl e, a') \<Rightarrow> (Inl e, a')
                  | (Inr _, a') \<Rightarrow> drain dpush a'))
         else if off = next_offset a then
           (case push_now dpush a c of
              (Inl e, a') \<Rightarrow> (Inl e, a')
            | (Inr _, a') \<Rightarrow> drain dpush a')
         else if off \<in> fst ` set (pending a) then
           (Inl (error_destination ''duplicate sequential chunk at offset''), a)
         else
           drain dpush (a\<lparr>buffered_bytes := buffered_bytes a + ck_len c,
                           pending := insort_key fst (off, c) (pending a)\<rparr>))"

text \<open>\<open>ReorderingDestination::new\<close>, and one round of the loop of \<open>write_chunk\<close>: \<open>None\<close> is waiting for
  room.\<close>

definition reordering_new :: "'d \<Rightarrow> u64 \<Rightarrow> 'd seq_adapter" where
  "reordering_new d mx = adapter_new d 0 (max mx 1)"

definition write_chunk_try ::
  "('d \<Rightarrow> chunk \<Rightarrow> 'd res) \<Rightarrow> 'd seq_adapter \<Rightarrow> chunk \<Rightarrow> (unit res \<times> 'd seq_adapter) option" where
  "write_chunk_try dpush a c =
     (if ck_offset c \<le> next_offset a \<or> has_room a (ck_len c) then Some (accept dpush a c) else None)"

section \<open>A sink that keeps what it is given\<close>

definition sink_push :: "u8 list \<Rightarrow> chunk \<Rightarrow> u8 list res" where
  "sink_push d c = Inr (d @ ck_data c)"

text \<open>A chunk carries the bytes of the artifact \<open>f\<close> at its place.\<close>

definition genuine :: "(nat \<Rightarrow> u8) \<Rightarrow> chunk \<Rightarrow> bool" where
  "genuine f c \<longleftrightarrow> unat (ck_offset c) + length (ck_data c) < 2 ^ 64 \<and>
     ck_data c = map f [unat (ck_offset c)..<unat (ck_offset c) + length (ck_data c)]"

definition in_order :: "(nat \<Rightarrow> u8) \<Rightarrow> u64 \<Rightarrow> u8 list seq_adapter \<Rightarrow> bool" where
  "in_order f start a \<longleftrightarrow> start \<le> next_offset a \<and> inner a = map f [unat start..<unat (next_offset a)] \<and>
     (\<forall>p\<in>set (pending a). genuine f (snd p) \<and> ck_offset (snd p) = fst p)"

lemma ck_end:
  "genuine f c \<Longrightarrow> unat (ck_offset c + ck_len c) = unat (ck_offset c) + length (ck_data c)"
  by (simp add: genuine_def ck_len_def unat_word_ariths unat_of_nat)

lemma push_in_order:
  assumes "in_order f start a" and "genuine f c" and "ck_offset c = next_offset a"
  shows "in_order f start (snd (push_now sink_push a c))" and "fst (push_now sink_push a c) = Inr ()"
proof -
  show "fst (push_now sink_push a c) = Inr ()" by (simp add: push_now_def sink_push_def)
  have e: "unat (next_offset a + ck_len c) = unat (next_offset a) + length (ck_data c)"
    using ck_end [OF assms(2)] assms(3) by simp
  define n where "n = length (ck_data c)"
  have "ck_data c = map f [unat (next_offset a)..<unat (next_offset a) + n]"
    using assms(2,3) unfolding genuine_def n_def [symmetric] by simp
  moreover have "unat start \<le> unat (next_offset a)" using assms(1) by (simp add: in_order_def word_le_nat_alt)
  note upt = upt_add_eq_append [OF this, of n]
  ultimately have "map f [unat start..<unat (next_offset a)] @ ck_data c =
      map f [unat start..<unat (next_offset a) + n]"
    unfolding upt map_append by simp
  then show "in_order f start (snd (push_now sink_push a c))"
    using assms(1) e by (auto simp: push_now_def sink_push_def in_order_def word_le_nat_alt n_def)
qed

lemma drain_in_order:
  "in_order f start a \<Longrightarrow> in_order f start (snd (drain sink_push a)) \<and> fst (drain sink_push a) = Inr ()"
proof (induction "sink_push :: u8 list \<Rightarrow> chunk \<Rightarrow> u8 list res" a rule: drain.induct)
  case (1 a)
  show ?case
  proof (cases "pending a")
    case Nil
    then show ?thesis using 1(2) by (subst (1 2) drain.simps) simp
  next
    case (Cons p rest)
    obtain off c where p: "p = (off, c)" by fastforce
    show ?thesis
    proof (cases "off = next_offset a")
      case False
      then show ?thesis using 1(2) Cons p by (subst (1 2) drain.simps) simp
    next
      case True
      let ?a = "a\<lparr>pending := rest, buffered_bytes := buffered_bytes a - ck_len c\<rparr>"
      have ok: "in_order f start ?a" "genuine f c" "ck_offset c = next_offset ?a"
        using 1(2) Cons p True by (auto simp: in_order_def)
      note push = push_in_order [OF ok]
      have step: "drain sink_push a = drain sink_push (snd (push_now sink_push ?a c))"
        using push(2) Cons p True
        by (subst drain.simps) (simp add: case_prod_beta split: sum.splits)
      show ?thesis
        using 1(1) [OF Cons p [symmetric] _ prod.collapse push(2) push(1)] True unfolding step by simp
    qed
  qed
qed

lemma genuine_trim:
  assumes "genuine f c" and "n \<le> length (ck_data c)"
  shows "genuine f (trim_prefix c n)" and "unat (ck_offset (trim_prefix c n)) = unat (ck_offset c) + n"
proof -
  show o: "unat (ck_offset (trim_prefix c n)) = unat (ck_offset c) + n"
    using assms by (simp add: trim_prefix_def genuine_def unat_word_ariths unat_of_nat)
  have "drop n (ck_data c) = map f [unat (ck_offset c) + n..<unat (ck_offset c) + length (ck_data c)]"
    using assms(1) unfolding genuine_def by (metis drop_map drop_upt)
  then show "genuine f (trim_prefix c n)"
    using assms o by (simp add: genuine_def trim_prefix_def)
qed

lemma accept_in_order:
  assumes ok: "in_order f start a" and c: "genuine f c"
  shows "in_order f start (snd (accept sink_push a c))"
proof -
  consider (behind) "ck_offset c < next_offset a" | (here) "ck_offset c = next_offset a"
    | (ahead) "next_offset a < ck_offset c" by fastforce
  then show ?thesis
  proof cases
    case behind
    define skip where "skip = unat (next_offset a - ck_offset c)"
    have skip: "skip = unat (next_offset a) - unat (ck_offset c)"
      using behind by (simp add: skip_def unat_diff_word less_imp_le)
    show ?thesis
    proof (cases "skip \<ge> length (ck_data c)")
      case True
      then show ?thesis using ok behind by (simp add: accept_def skip_def)
    next
      case False
      then have g: "genuine f (trim_prefix c skip)" "unat (ck_offset (trim_prefix c skip)) = unat (ck_offset c) + skip"
        using genuine_trim [OF c, of skip] by auto
      then have o: "ck_offset (trim_prefix c skip) = next_offset a"
        using skip behind by (simp add: word_unat_eq_iff word_less_nat_alt)
      note push = push_in_order [OF ok g(1) o]
      show ?thesis
        using drain_in_order [OF push(1)] push(2) False behind
        by (simp add: accept_def skip_def [symmetric] case_prod_beta split: sum.splits)
    qed
  next
    case here
    note push = push_in_order [OF ok c here]
    show ?thesis
      using drain_in_order [OF push(1)] push(2) here
      by (simp add: accept_def case_prod_beta split: sum.splits)
  next
    case ahead
    let ?b = "a\<lparr>buffered_bytes := buffered_bytes a + ck_len c, pending := insort_key fst (ck_offset c, c) (pending a)\<rparr>"
    have "in_order f start ?b" using ok c by (auto simp: in_order_def set_insort_key)
    then show ?thesis
      using drain_in_order ok ahead by (auto simp: accept_def Let_def dest: less_not_sym)
  qed
qed

section \<open>Nothing stays behind when chunks do not overlap\<close>

definition ck_range :: "chunk \<Rightarrow> nat set" where
  "ck_range c = {unat (ck_offset c)..<unat (ck_offset c) + length (ck_data c)}"

definition ends_before :: "u64 \<times> chunk \<Rightarrow> u64 \<times> chunk \<Rightarrow> bool" where
  "ends_before x y \<longleftrightarrow> unat (fst x) + length (ck_data (snd x)) \<le> unat (fst y)"

definition pend_ok :: "'d seq_adapter \<Rightarrow> bool" where
  "pend_ok a \<longleftrightarrow> sorted_wrt ends_before (pending a) \<and> (\<forall>p\<in>set (pending a). ck_data (snd p) \<noteq> [])"

definition covers :: "u64 \<Rightarrow> 'd seq_adapter \<Rightarrow> nat set" where
  "covers start a = {unat start..<unat (next_offset a)} \<union> (\<Union>p\<in>set (pending a). ck_range (snd p))"

lemma drain_covers:
  "in_order f start a \<Longrightarrow> pend_ok a \<Longrightarrow> \<forall>p\<in>set (pending a). next_offset a \<le> fst p \<Longrightarrow>
     pend_ok (snd (drain sink_push a)) \<and> (\<forall>p\<in>set (pending (snd (drain sink_push a))). next_offset (snd (drain sink_push a)) < fst p) \<and>
     covers start (snd (drain sink_push a)) = covers start a"
proof (induction "sink_push :: u8 list \<Rightarrow> chunk \<Rightarrow> u8 list res" a rule: drain.induct)
  case (1 a)
  show ?case
  proof (cases "pending a")
    case Nil
    then show ?thesis using 1(3) by (subst (1 2 3 4) drain.simps) simp
  next
    case (Cons p rest)
    obtain off c where p: "p = (off, c)" by fastforce
    show ?thesis
    proof (cases "off = next_offset a")
      case False
      then have "drain sink_push a = (Inr (), a)" using Cons p by (subst drain.simps) simp
      moreover have "next_offset a < fst q" if "q \<in> set (pending a)" for q
      proof -
        have "next_offset a < off" using 1(4) False Cons p by (simp add: order.not_eq_order_implies_strict)
        moreover have "q = p \<or> unat off \<le> unat (fst q)"
          using 1(3) that by (auto simp: pend_ok_def Cons p ends_before_def)
        ultimately show ?thesis using p by (auto simp: word_less_nat_alt)
      qed
      ultimately show ?thesis using 1(3) by simp
    next
      case True
      let ?a = "a\<lparr>pending := rest, buffered_bytes := buffered_bytes a - ck_len c\<rparr>"
      have ok: "in_order f start ?a" "genuine f c" "ck_offset c = next_offset ?a"
        using 1(2) Cons p True by (auto simp: in_order_def)
      note push = push_in_order [OF ok]
      let ?b = "snd (push_now sink_push ?a c)"
      have b: "next_offset ?b = next_offset a + ck_len c" "pending ?b = rest"
        by (simp_all add: push_now_def sink_push_def)
      have e: "unat (next_offset ?b) = unat (next_offset a) + length (ck_data c)"
        using ck_end [OF ok(2)] ok(3) by (simp add: b)
      have step: "drain sink_push a = drain sink_push ?b"
        using push(2) Cons p True by (subst drain.simps) (simp add: case_prod_beta split: sum.splits)
      have "pend_ok ?b" "\<forall>p\<in>set (pending ?b). next_offset ?b \<le> fst p"
        using 1(3) e by (auto simp: pend_ok_def b Cons p True ends_before_def word_le_nat_alt)
      moreover have "{unat start..<unat (next_offset ?b)} = {unat start..<unat (next_offset a)} \<union> ck_range c"
        using e ok(1,3) by (auto simp: ck_range_def in_order_def word_le_nat_alt)
      then have "covers start ?b = covers start a"
        unfolding covers_def b(2) Cons p by auto
      ultimately show ?thesis
        using 1(1) [OF Cons p [symmetric] _ prod.collapse push(2) push(1)] True unfolding step by simp
    qed
  qed
qed

lemma insort_pending:
  assumes "sorted_wrt ends_before ps" and "\<forall>p\<in>set ps. ck_offset (snd p) = fst p \<and> ck_data (snd p) \<noteq> []"
    and "\<forall>p\<in>set ps. ck_range (snd p) \<inter> ck_range c = {}" and "ck_data c \<noteq> []"
  shows "sorted_wrt ends_before (insort_key fst (ck_offset c, c) ps)"
  using assms(1-3)
proof (induction ps)
  case (Cons p ps)
  have apart: "unat (ck_offset c) + length (ck_data c) \<le> unat (fst q) \<or> unat (fst q) + length (ck_data (snd q)) \<le> unat (ck_offset c)"
    if "q \<in> set (p # ps)" for q
  proof (rule ccontr)
    assume "\<not> ?thesis"
    then have "max (unat (ck_offset c)) (unat (fst q)) \<in> ck_range (snd q) \<inter> ck_range c"
      using that Cons.prems(2) assms(4) by (auto simp: ck_range_def)
    then show False using that Cons.prems(3) by auto
  qed
  show ?case
  proof (cases "ck_offset c \<le> fst p")
    case True
    have "unat (ck_offset c) + length (ck_data c) \<le> unat (fst p)"
      using apart [of p] True Cons.prems(2) length_greater_0_conv [of "ck_data (snd p)"]
      by (auto simp: word_le_nat_alt simp del: length_greater_0_conv)
    then show ?thesis
      using True Cons.prems(1) by (auto simp: ends_before_def)
  next
    case False
    have "0 < length (ck_data c)" using assms(4) by simp
    then have "ends_before p (ck_offset c, c)"
      using apart [of p] False by (auto simp: ends_before_def word_le_nat_alt)
    then show ?thesis
      using False Cons by (auto simp: set_insort_key)
  qed
qed simp

lemma accept_covers:
  assumes ok: "in_order f start a" "pend_ok a" "\<forall>p\<in>set (pending a). next_offset a < fst p"
    and c: "genuine f c" "ck_data c \<noteq> []" "unat start \<le> unat (ck_offset c)" "ck_range c \<inter> covers start a = {}"
  shows "fst (accept sink_push a c) = Inr ()" and "pend_ok (snd (accept sink_push a c))"
    and "\<forall>p\<in>set (pending (snd (accept sink_push a c))). next_offset (snd (accept sink_push a c)) < fst p"
    and "covers start (snd (accept sink_push a c)) = covers start a \<union> ck_range c"
proof -
  have first: "unat (ck_offset c) \<in> ck_range c" using c(2) by (simp add: ck_range_def)
  then have "unat (next_offset a) \<le> unat (ck_offset c)"
    using c(3,4) by (auto simp: covers_def)
  then consider (here) "ck_offset c = next_offset a" | (ahead) "next_offset a < ck_offset c"
    by (fastforce simp: word_le_nat_alt [symmetric])
  then have "fst (accept sink_push a c) = Inr () \<and> pend_ok (snd (accept sink_push a c)) \<and>
    (\<forall>p\<in>set (pending (snd (accept sink_push a c))). next_offset (snd (accept sink_push a c)) < fst p) \<and>
    covers start (snd (accept sink_push a c)) = covers start a \<union> ck_range c"
  proof cases
    case here
    note push = push_in_order [OF ok(1) c(1) here]
    let ?b = "snd (push_now sink_push a c)"
    have b: "next_offset ?b = next_offset a + ck_len c" "pending ?b = pending a"
      by (simp_all add: push_now_def sink_push_def)
    have e: "unat (next_offset ?b) = unat (next_offset a) + length (ck_data c)"
      using ck_end [OF c(1)] here by (simp add: b)
    have "next_offset ?b \<le> fst p" if p: "p \<in> set (pending ?b)" for p
    proof -
      have "unat (fst p) \<in> ck_range (snd p)" "next_offset a < fst p"
        using p ok by (auto simp: b ck_range_def in_order_def pend_ok_def)
      moreover from this have "unat (fst p) \<notin> ck_range c" using p c(4) unfolding covers_def b(2) by blast
      ultimately show ?thesis using here e by (simp add: ck_range_def word_le_nat_alt word_less_nat_alt)
    qed
    moreover have "pend_ok ?b" using ok(2) by (simp add: pend_ok_def b)
    moreover have "{unat start..<unat (next_offset ?b)} = {unat start..<unat (next_offset a)} \<union> ck_range c"
      using e here c(3) by (auto simp: ck_range_def)
    then have "covers start ?b = covers start a \<union> ck_range c" unfolding covers_def b(2) by auto
    moreover have "accept sink_push a c = drain sink_push ?b"
      using here push(2) by (simp add: accept_def case_prod_beta split: sum.splits)
    ultimately show ?thesis
      using drain_covers [OF push(1)] drain_in_order [OF push(1)] by simp
  next
    case ahead
    let ?b = "a\<lparr>buffered_bytes := buffered_bytes a + ck_len c, pending := insort_key fst (ck_offset c, c) (pending a)\<rparr>"
    have "ck_offset c \<notin> fst ` set (pending a)"
    proof
      assume "ck_offset c \<in> fst ` set (pending a)"
      then obtain p where p: "p \<in> set (pending a)" "fst p = ck_offset c" by auto
      then have "unat (ck_offset c) \<in> ck_range (snd p)" using ok by (auto simp: ck_range_def in_order_def pend_ok_def)
      then show False using p(1) first c(4) by (auto simp: covers_def)
    qed
    then have acc: "accept sink_push a c = drain sink_push ?b"
      using ahead by (auto simp: accept_def Let_def)
    have "\<forall>p\<in>set (pending a). ck_range (snd p) \<inter> ck_range c = {}" using c(4) by (auto simp: covers_def)
    then have "pend_ok ?b"
      using insort_pending [of "pending a" c] ok(1,2) c(2) by (auto simp: pend_ok_def in_order_def set_insort_key)
    moreover have io: "in_order f start ?b" using ok(1) c(1) by (auto simp: in_order_def set_insort_key)
    moreover have "\<forall>p\<in>set (pending ?b). next_offset ?b \<le> fst p"
      using ok(3) ahead by (auto simp: set_insort_key)
    moreover have "covers start ?b = covers start a \<union> ck_range c" by (auto simp: covers_def set_insort_key)
    ultimately show ?thesis using drain_covers [OF io] drain_in_order [OF io] unfolding acc by simp
  qed
  then show "fst (accept sink_push a c) = Inr ()" "pend_ok (snd (accept sink_push a c))"
    "\<forall>p\<in>set (pending (snd (accept sink_push a c))). next_offset (snd (accept sink_push a c)) < fst p"
    "covers start (snd (accept sink_push a c)) = covers start a \<union> ck_range c" by blast+
qed

section \<open>Properties\<close>

definition accept_all :: "u64 \<Rightarrow> u64 \<Rightarrow> chunk list \<Rightarrow> u8 list seq_adapter" where
  "accept_all start mx cs = foldl (\<lambda>a c. snd (accept sink_push a c)) (adapter_new [] start mx) cs"

lemma accept_all_in_order: "\<forall>c\<in>set cs. genuine f c \<Longrightarrow> in_order f start (accept_all start mx cs)"
proof (induction cs rule: rev_induct)
  case Nil
  show ?case by (simp add: accept_all_def adapter_new_def in_order_def)
next
  case (snoc c cs)
  then show ?case by (simp add: accept_all_def accept_in_order)
qed

lemma accept_all_covers:
  assumes "\<forall>c\<in>set cs. genuine f c \<and> ck_data c \<noteq> [] \<and> unat start \<le> unat (ck_offset c)"
    and "sorted_wrt (\<lambda>c d. ck_range c \<inter> ck_range d = {}) cs"
  shows "pend_ok (accept_all start mx cs) \<and>
    (\<forall>p\<in>set (pending (accept_all start mx cs)). next_offset (accept_all start mx cs) < fst p) \<and>
    covers start (accept_all start mx cs) = (\<Union>c\<in>set cs. ck_range c)"
  using assms
proof (induction cs rule: rev_induct)
  case Nil
  show ?case by (simp add: accept_all_def adapter_new_def pend_ok_def covers_def)
next
  case (snoc c cs)
  let ?a = "accept_all start mx cs"
  have ih: "pend_ok ?a" "\<forall>p\<in>set (pending ?a). next_offset ?a < fst p" "covers start ?a = (\<Union>c\<in>set cs. ck_range c)"
    and io: "in_order f start ?a"
    using snoc.IH snoc.prems accept_all_in_order [of cs f start mx] by (auto simp: sorted_wrt_append)
  have "ck_range c \<inter> covers start ?a = {}" using snoc.prems(2) unfolding ih(3) by (auto simp: sorted_wrt_append)
  moreover have "accept_all start mx (cs @ [c]) = snd (accept sink_push ?a c)" by (simp add: accept_all_def)
  ultimately show ?case
    using accept_covers [OF io ih(1,2), of c] snoc.prems(1) ih(3) by (simp add: Un_commute)
qed

text \<open>C28: The ordered sink receives a prefix of the artifact, in order and every byte once, whatever the
  order in which genuine chunks arrive, however they overlap or repeat, and whether or not some
  of them are refused as duplicates.\<close>

theorem sink_receives_a_prefix:
  assumes "\<forall>c\<in>set cs. genuine f c"
  shows "inner (accept_all start mx cs) = map f [unat start..<unat (next_offset (accept_all start mx cs))]"
  using accept_all_in_order [OF assms] by (simp add: in_order_def)

theorem sink_receives_a_prefix_witness:
  "inner (accept_all 0 8 [\<lparr>ck_offset = 1, ck_data = [0, 0]\<rparr>, \<lparr>ck_offset = 0, ck_data = [0]\<rparr>]) =
   map (\<lambda>_. 0) [unat (0 :: u64)..<unat (next_offset
     (accept_all 0 8 [\<lparr>ck_offset = 1, ck_data = [0, 0]\<rparr>, \<lparr>ck_offset = 0, ck_data = [0]\<rparr>]))]"
  by (rule sink_receives_a_prefix) (simp add: genuine_def)

text \<open>C35: When the chunks do not overlap and together make up a span of the artifact, then in whatever
  order they arrive the sink has received the whole span in the end, and nothing is left waiting.\<close>

theorem disjoint_chunks_are_all_delivered:
  assumes "\<forall>c\<in>set cs. genuine f c \<and> ck_data c \<noteq> []"
    and "sorted_wrt (\<lambda>c d. ck_range c \<inter> ck_range d = {}) cs"
    and "(\<Union>c\<in>set cs. ck_range c) = {unat start..<n}" and "unat start \<le> n"
  shows "inner (accept_all start mx cs) = map f [unat start..<n] \<and> pending (accept_all start mx cs) = []"
proof -
  let ?a = "accept_all start mx cs"
  have "unat (ck_offset c) \<in> {unat start..<n}" if "c \<in> set cs" for c
    using that assms(1) unfolding assms(3) [symmetric] by (auto simp: ck_range_def)
  then have fin: "\<forall>p\<in>set (pending ?a). next_offset ?a < fst p" "covers start ?a = {unat start..<n}" "pend_ok ?a"
    using accept_all_covers [of cs f start mx] assms by auto
  have io: "in_order f start ?a" using accept_all_in_order assms(1) by blast
  have none: "pending ?a = []"
  proof (rule ccontr)
    assume "pending ?a \<noteq> []"
    then obtain p where p: "p \<in> set (pending ?a)" by (cases "pending ?a") auto
    then have "unat (fst p) \<in> covers start ?a"
      using io fin(3) by (auto simp: covers_def ck_range_def in_order_def pend_ok_def intro!: bexI [of _ p])
    then have "unat (next_offset ?a) \<in> covers start ?a"
      using fin(1) p io unfolding fin(2) by (auto simp: word_less_nat_alt word_le_nat_alt in_order_def)
    then obtain q where "q \<in> set (pending ?a)" "unat (next_offset ?a) \<in> ck_range (snd q)"
      by (auto simp: covers_def)
    moreover from this have "unat (fst q) \<le> unat (next_offset ?a)" using io by (auto simp: ck_range_def in_order_def)
    ultimately show False using fin(1) by (auto simp: word_less_nat_alt)
  qed
  then have "card {unat start..<unat (next_offset ?a)} = card {unat start..<n}" using fin(2) by (simp add: covers_def)
  moreover have "unat start \<le> unat (next_offset ?a)" using io by (simp add: in_order_def word_le_nat_alt)
  ultimately have "unat (next_offset ?a) = n" using assms(4) by simp
  then show ?thesis using io none by (simp add: in_order_def)
qed

theorem disjoint_chunks_are_all_delivered_witness:
  "inner (accept_all 0 8 [\<lparr>ck_offset = 1, ck_data = [0, 0]\<rparr>, \<lparr>ck_offset = 0, ck_data = [0]\<rparr>]) =
     map (\<lambda>_. 0) [unat (0 :: u64)..<3] \<and>
   pending (accept_all 0 8 [\<lparr>ck_offset = 1, ck_data = [0, 0]\<rparr>, \<lparr>ck_offset = 0, ck_data = [0]\<rparr>]) = []"
  by (rule disjoint_chunks_are_all_delivered) (auto simp: genuine_def ck_range_def)

lemma drain_cases:
  "pending a = [] \<Longrightarrow> drain dpush a = (Inr (), a)"
  "pending a = p # rest \<Longrightarrow> fst p \<noteq> next_offset a \<Longrightarrow> drain dpush a = (Inr (), a)"
  by (subst drain.simps, simp add: case_prod_beta)+

text \<open>Overlapping chunks can block the sink for good: after chunks for bytes 2 to 5, 0 to 2, 6 to 7
  and 3 to 5 every byte from 0 to 7 has been delivered, but the chunk at offset 2 has fallen behind
  the next offset and is never removed, so the sink stops at byte 6 with two chunks waiting.\<close>

theorem overlapping_chunks_block_the_sink:
  "(\<lambda>a. (inner a, next_offset a, map fst (pending a), buffered_bytes a))
     (accept_all 0 100 [\<lparr>ck_offset = 2, ck_data = [2, 3, 4, 5]\<rparr>, \<lparr>ck_offset = 0, ck_data = [0, 1, 2]\<rparr>,
       \<lparr>ck_offset = 6, ck_data = [6, 7]\<rparr>, \<lparr>ck_offset = 3, ck_data = [3, 4, 5]\<rparr>]) =
   ([0, 1, 2, 3, 4, 5], 6, [2, 6], 6)"
  by (simp add: accept_all_def adapter_new_def accept_def drain_cases push_now_def sink_push_def ck_len_def
      trim_prefix_def Let_def)

end
