(* ===== verification/File_Props.thy ===== *)
theory File_Props
  imports File_Destination Reorder
begin

text \<open>
  What the file destination guarantees: chunks written in any order add up to the artifact, only
  verified bytes are published, and the lock keeps a second coordinator out, until a commit removes
  the lock file.
\<close>

section \<open>Random access\<close>

text \<open>A write is seen where it went and changes nothing that was there elsewhere.\<close>

locale random_access =
  fixes put :: "nat \<Rightarrow> 'b list \<Rightarrow> 'f \<Rightarrow> 'f" and get :: "'f \<Rightarrow> nat \<Rightarrow> 'b option"
  assumes get_written: "off \<le> x \<Longrightarrow> x < off + length data \<Longrightarrow> get (put off data b) x = Some (data ! (x - off))"
    and get_kept: "x < off \<or> off + length data \<le> x \<Longrightarrow> get b x = Some v \<Longrightarrow> get (put off data b) x = Some v"
begin

definition holds :: "(nat \<Rightarrow> 'b) \<Rightarrow> nat set \<Rightarrow> 'f \<Rightarrow> bool" where
  "holds f V b \<longleftrightarrow> (\<forall>x\<in>V. get b x = Some (f x))"

lemma holds_put:
  assumes "holds f V b" "data = map f [off..<off + length data]"
  shows "holds f (V \<union> {off..<off + length data}) (put off data b)"
  unfolding holds_def
proof
  fix x assume x: "x \<in> V \<union> {off..<off + length data}"
  show "get (put off data b) x = Some (f x)"
  proof (cases "off \<le> x \<and> x < off + length data")
    case True
    then have "data ! (x - off) = f x" using arg_cong [OF assms(2), of "\<lambda>xs. xs ! (x - off)"]
      by (simp add: nth_map_upt less_diff_conv2)
    then show ?thesis using True by (simp add: get_written)
  next
    case False
    then show ?thesis using x assms(1) by (intro get_kept) (auto simp: holds_def)
  qed
qed

lemma holds_mono: "holds f V b \<Longrightarrow> W \<subseteq> V \<Longrightarrow> holds f W b"
  by (auto simp: holds_def)

end

lemma nth_opt_write_at:
  "nth_opt (write_at off data b) x =
     (if x < off then (if x < length b then Some (b ! x) else if x < max off (length b) then Some 0 else None)
      else if x < off + length data then Some (data ! (x - off)) else nth_opt b x)"
  by (auto simp: nth_opt_def write_at_def nth_append min_def)

interpretation fa: random_access write_at nth_opt
proof
  fix off x and data b :: "u8 list" and v
  show "off \<le> x \<Longrightarrow> x < off + length data \<Longrightarrow> nth_opt (write_at off data b) x = Some (data ! (x - off))"
    by (simp add: nth_opt_write_at)
  show "x < off \<or> off + length data \<le> x \<Longrightarrow> nth_opt b x = Some v \<Longrightarrow> nth_opt (write_at off data b) x = Some v"
    by (auto simp: nth_opt_write_at) (auto simp: nth_opt_def split: if_splits)
qed

lemma held_set_len: "fa.holds f {0..<n} b \<Longrightarrow> set_len n b = map f [0..<n]"
proof -
  assume h: "fa.holds f {0..<n} b"
  have x: "x < length b \<and> b ! x = f x" if "x < n" for x
    using h that by (auto simp: fa.holds_def nth_opt_def split: if_splits)
  have "n \<le> length b"
  proof (rule ccontr)
    assume "\<not> n \<le> length b"
    then show False using x [of "length b"] by simp
  qed
  then show ?thesis using x by (auto simp: set_len_def intro: nth_equalityI)
qed

section \<open>Lanes\<close>

text \<open>Writes of several lanes, each with its own outcome: the completed ranges and the disk.\<close>

fun lane_run :: "(file_env \<times> file_lane \<times> chunk) list \<Rightarrow> disk \<Rightarrow> byte_range list \<times> disk" where
  "lane_run [] d = ([], d)"
| "lane_run ((F, l, c) # ws) d =
     (case lane_write_chunk F l c d of
        (r, d1) \<Rightarrow> (case lane_run ws d1 of (rs, d2) \<Rightarrow> ((case r of Inl _ \<Rightarrow> rs | Inr w \<Rightarrow> wc_range w # rs), d2)))"

abbreviation held_bytes :: "(nat \<Rightarrow> u8) \<Rightarrow> u64 set \<Rightarrow> nat \<Rightarrow> disk \<Rightarrow> bool" where
  "held_bytes f V i d \<equiv> fa.holds f (unat ` V) (blobs d i)"

lemma genuine_range:
  assumes "genuine f c"
  shows "unat ` br_set (ByteRange_new (ck_offset c) (ck_offset c + of_nat (length (ck_data c)))) =
    {unat (ck_offset c)..<unat (ck_offset c) + length (ck_data c)}"
proof -
  have e: "unat (ck_offset c + of_nat (length (ck_data c))) = unat (ck_offset c) + length (ck_data c)"
    using assms by (simp add: genuine_def unat_word_ariths take_bit_eq_mod unat_of_nat)
  have "{ck_offset c..<ck_offset c + of_nat (length (ck_data c))} = {x. unat (ck_offset c) \<le> unat x \<and> unat x < unat (ck_offset c) + length (ck_data c)}"
    by (auto simp: word_le_nat_alt word_less_nat_alt e)
  moreover have "\<exists>x::u64. y = unat x" if "y < unat (ck_offset c) + length (ck_data c)" for y
    using that assms by (intro exI [of _ "of_nat y"]) (simp add: genuine_def unat_of_nat)
  ultimately show ?thesis by (auto simp: br_set_def image_iff) metis
qed

lemma genuine_take: "genuine f c \<Longrightarrow> take n (ck_data c) = map f [unat (ck_offset c)..<unat (ck_offset c) + length (take n (ck_data c))]"
proof -
  assume "genuine f c"
  then have "ck_data c = map f [unat (ck_offset c)..<unat (ck_offset c) + length (ck_data c)]" by (simp add: genuine_def)
  from arg_cong [OF this, of "take n"] show ?thesis by (simp add: take_map min_def)
qed

lemma lane_write_holds:
  assumes "fa.holds f B (blobs d i)" "ln_file l = i" "genuine f c" "lane_write_chunk F l c d = (r, d1)"
  shows "fa.holds f (B \<union> (case r of Inl _ \<Rightarrow> {} | Inr _ \<Rightarrow> {unat (ck_offset c)..<unat (ck_offset c) + length (ck_data c)})) (blobs d1 i)"
    and "entries d1 = entries d \<and> locks d1 = locks d"
    and "r = Inr w \<Longrightarrow> wc_range w = ByteRange_new (ck_offset c) (ck_offset c + of_nat (length (ck_data c)))"
proof -
  let ?off = "unat (ck_offset c)"
  have put: "fa.holds f (B \<union> {?off..<?off + length (take n (ck_data c))}) (write_at ?off (take n (ck_data c)) (blobs d i))" for n
    by (rule fa.holds_put) (use assms(1) genuine_take [OF assms(3)] in auto)
  note all = put [of "length (ck_data c)", simplified] and part = put [of "written_part F"]
  show "fa.holds f (B \<union> (case r of Inl _ \<Rightarrow> {} | Inr _ \<Rightarrow> {?off..<?off + length (ck_data c)})) (blobs d1 i)"
    using assms(1,2,4) all fa.holds_mono [OF part, of B]
    by (auto simp: lane_write_chunk_def Let_def write_all_at_def upd_blob_def split: if_splits option.splits)
qed (use assms(4) in \<open>auto simp: lane_write_chunk_def Let_def write_all_at_def upd_blob_def split: if_splits option.splits\<close>)

lemma lane_write_held:
  assumes "held_bytes f V i d" "ln_file l = i" "genuine f c" "lane_write_chunk F l c d = (r, d1)"
  shows "held_bytes f (V \<union> (case r of Inl _ \<Rightarrow> {} | Inr w \<Rightarrow> br_set (wc_range w))) i d1 \<and> entries d1 = entries d \<and> locks d1 = locks d"
  using lane_write_holds [OF assms] genuine_range [OF assms(3)] by (cases r) (simp_all add: image_Un)

lemma lane_run_held:
  assumes "held_bytes f V i d" "\<And>F l c. (F, l, c) \<in> set ws \<Longrightarrow> ln_file l = i \<and> genuine f c" "lane_run ws d = (rs, d1)"
  shows "held_bytes f (V \<union> list_set rs) i d1 \<and> entries d1 = entries d \<and> locks d1 = locks d"
  using assms
proof (induction ws arbitrary: V d rs)
  case (Cons w ws)
  obtain F l c where w: "w = (F, l, c)" by (cases w)
  obtain r d2 where one: "lane_write_chunk F l c d = (r, d2)" by fastforce
  obtain qs d3 where rest: "lane_run ws d2 = (qs, d3)" by fastforce
  have eq: "rs = (case r of Inl _ \<Rightarrow> qs | Inr w \<Rightarrow> wc_range w # qs)" "d3 = d1" using Cons.prems(3) by (simp_all add: w one rest)
  have h: "held_bytes f (V \<union> (case r of Inl _ \<Rightarrow> {} | Inr w \<Rightarrow> br_set (wc_range w))) i d2" "entries d2 = entries d" "locks d2 = locks d"
    using lane_write_held [OF Cons.prems(1) _ _ one] Cons.prems(2) by (auto simp: w)
  from Cons.IH [OF h(1) _ rest [unfolded eq(2)]] Cons.prems(2) h(2,3) show ?case
    by (cases r) (auto simp: eq(1) Un_assoc)
qed simp

section \<open>Publishing\<close>

definition coordinator_ok :: "coordinator \<Rightarrow> bool" where
  "coordinator_ok c \<longleftrightarrow> co_part_path c = part_path_for (co_final_path c) \<and> co_lock_path c = lock_path_for (co_final_path c)"

lemma paths_distinct [simp]:
  "part_path_for p \<noteq> p" "lock_path_for p \<noteq> p" "lock_path_for p \<noteq> part_path_for p"
  "p \<noteq> part_path_for p" "p \<noteq> lock_path_for p" "part_path_for p \<noteq> lock_path_for p"
  by (auto simp: part_path_for_def lock_path_for_def)

text \<open>The published file, with its digest checked.\<close>

definition published :: "file_env \<Rightarrow> coordinator \<Rightarrow> u8 list \<Rightarrow> digest_check option \<Rightarrow> digest option \<Rightarrow> disk \<Rightarrow> bool" where
  "published F c b check dg d \<longleftrightarrow> content_of d (co_final_path c) = Some b \<and> content_of d (co_part_path c) = None \<and>
     (case check of
        None \<Rightarrow> dg = None
      | Some ck \<Rightarrow> dg = Some \<lparr>d_kind = dc_kind ck, d_value = hash_of F (dc_kind ck) b\<rparr> \<and>
          (dc_expected ck = None \<or> dc_expected ck = Some (hash_of F (dc_kind ck) b)))"

lemma verify_digest_ok:
  assumes "verify_digest F check len b = Inr dg" "length b = unat len"
  shows "case check of None \<Rightarrow> dg = None
    | Some ck \<Rightarrow> dg = Some \<lparr>d_kind = dc_kind ck, d_value = hash_of F (dc_kind ck) b\<rparr> \<and>
        (dc_expected ck = None \<or> dc_expected ck = Some (hash_of F (dc_kind ck) b))"
  using assms by (auto simp: verify_digest_def hash_read_back_def split: option.splits sum.splits if_splits)

lemma length_set_len [simp]: "length (set_len n b) = n"
  by (simp add: set_len_def)

lemma finalize_publishes:
  assumes "coordinator_ok c" "entries d (co_part_path c) = Some i" "entries d (co_final_path c) \<noteq> Some i"
    and "finalize F c len check durability d = (r, d')"
  shows "case r of
      Inr dg \<Rightarrow> published F c (set_len (unat len) (blobs d i)) check dg d'
    | Inl e \<Rightarrow> content_of d' (co_final_path c) = content_of d (co_final_path c) \<or>
        (durability = CrashSafe \<and> sync_parent_dir F = Inl e \<and> (\<exists>dg. published F c (set_len (unat len) (blobs d i)) check dg d'))"
proof -
  define d0 where "d0 = drop_lock c d"
  have d0: "entries d0 = entries d" "blobs d0 = blobs d" by (simp_all add: d0_def drop_lock_def split: option.splits)
  define d1 where "d1 = upd_blob i (set_len (unat len)) d0"
  have final: "content_of d1 (co_final_path c) = content_of d (co_final_path c)"
    "content_of d0 (co_final_path c) = content_of d (co_final_path c)"
    using assms(3) by (auto simp: content_of_def d1_def upd_blob_def d0 map_option_case split: option.splits)
  have b: "blobs d1 i = set_len (unat len) (blobs d i)" by (simp add: d1_def upd_blob_def d0)
  have pub: "published F c (set_len (unat len) (blobs d i)) check dg d2"
    if v: "verify_digest F check len (blobs d1 i) = Inr dg" and e: "entries d2 (co_final_path c) = Some i"
      "entries d2 (co_part_path c) = None" "blobs d2 = blobs d1" for dg d2
    using verify_digest_ok [OF v] e unfolding b by (simp add: published_def content_of_def b)
  note fin = assms(4) [unfolded finalize_def d0_def [symmetric] finalize_task_def publish_part_def d0 assms(2) option.case Let_def d1_def [symmetric]]
  note neq = assms(1) [unfolded coordinator_ok_def]
  show ?thesis
  proof (cases r)
    case (Inr dg)
    then show ?thesis using fin neq
      by (auto split: option.splits sum.splits if_splits intro!: pub)
  next
    case (Inl e)
    then show ?thesis using fin neq final
      by (auto split: option.splits sum.splits if_splits intro!: pub exI)
  qed
qed


text \<open>C23: The file is the artifact. Several lanes write genuine chunks into the partial file in any order,
  overlapping or not, some writes failing half way; when the completed writes and the bytes that
  were already right cover the artifact, a successful commit publishes the artifact, byte for byte.\<close>

theorem lanes_assemble_the_artifact:
  assumes "coordinator_ok c" "entries d (co_part_path c) = Some i" "entries d (co_final_path c) \<noteq> Some i"
    and "\<forall>x\<in>V. nth_opt (blobs d i) (unat x) = Some (f (unat x))"
    and "\<forall>(F, l, k)\<in>set ws. ln_file l = i \<and> genuine f k" "lane_run ws d = (rs, d1)"
    and "{0..<len} \<subseteq> V \<union> list_set rs" "finalize G c len check durability d1 = (Inr dg, d2)"
  shows "content_of d2 (co_final_path c) = Some (map f [0..<unat len])"
proof -
  have "held_bytes f V i d" using assms(4) by (simp add: fa.holds_def)
  moreover have "ln_file l = i \<and> genuine f k" if "(F, l, k) \<in> set ws" for F l k using assms(5) that by auto
  ultimately have run: "held_bytes f (V \<union> list_set rs) i d1" "entries d1 = entries d" using lane_run_held [OF _ _ assms(6)] by blast+
  have "{0..<unat len} \<subseteq> unat ` {0..<len}"
  proof
    fix x assume "x \<in> {0..<unat len}"
    then have "x < unat len" by simp
    then have "unat (of_nat x :: u64) = x" using unat_u64_less [of len] by (simp add: unat_of_nat)
    then show "x \<in> unat ` {0..<len}" using \<open>x < unat len\<close>
      by (intro image_eqI [of _ _ "of_nat x"]) (simp_all add: word_less_nat_alt)
  qed
  also have "\<dots> \<subseteq> unat ` (V \<union> list_set rs)" using assms(7) by (rule image_mono)
  finally have "fa.holds f {0..<unat len} (blobs d1 i)" by (rule fa.holds_mono [OF run(1)])
  then have "set_len (unat len) (blobs d1 i) = map f [0..<unat len]" by (rule held_set_len)
  moreover have "published G c (set_len (unat len) (blobs d1 i)) check dg d2"
    using finalize_publishes [OF assms(1) _ _ assms(8)] assms(2,3) run(2) by simp
  ultimately show ?thesis by (simp add: published_def)
qed

section \<open>The lock\<close>

text \<open>File numbers in use are below the next one.\<close>

definition disk_ok :: "disk \<Rightarrow> bool" where
  "disk_ok d \<longleftrightarrow> (\<forall>p i. entries d p = Some i \<longrightarrow> i < next_ino d) \<and> (\<forall>i\<in>locks d. i < next_ino d)"

lemma open_blocking_cases:
  assumes "open_or_create (lock_path_for (fo_final_path opts)) d = (i, d1)"
  shows "open_blocking F opts d =
    (case create_parent F (part_path_for (fo_final_path opts)) of
       Some k \<Rightarrow> (Inl (io_failed k), d)
     | None \<Rightarrow>
         (case fails F Open_Lock of
            Some k \<Rightarrow> (Inl (io_failed k), d)
          | None \<Rightarrow>
              (case fails F Try_Lock of
                 Some k \<Rightarrow> (Inl (io_failed k), d1)
               | None \<Rightarrow>
                   if i \<in> locks d1 then (Inl (Destination (LeaseConflict ''destination is locked by another process'')), d1)
                   else (Inr \<lparr>co_final_path = fo_final_path opts, co_part_path = part_path_for (fo_final_path opts),
                      co_lock_path = lock_path_for (fo_final_path opts), co_opts = opts, co_lock_file = Some i\<rparr>,
                      d1\<lparr>locks := insert i (locks d1)\<rparr>))))"
  by (simp add: open_blocking_def Let_def assms file_try_lock_def split: option.splits)

lemma open_or_create_frame:
  assumes "open_or_create p d = (i, d1)"
  shows "locks d1 = locks d" "entries d1 p = Some i" "q \<noteq> p \<Longrightarrow> entries d1 q = entries d q"
  using assms by (auto simp: open_or_create_def split: option.splits)

lemma open_lock:
  assumes "open_blocking F opts d = (Inr c, d2)"
  obtains i d1 where "open_or_create (lock_path_for (fo_final_path opts)) d = (i, d1)" "i \<notin> locks d"
    "d2 = d1\<lparr>locks := insert i (locks d)\<rparr>" "co_lock_file c = Some i" "coordinator_ok c" "co_final_path c = fo_final_path opts"
proof -
  obtain i d1 where o: "open_or_create (lock_path_for (fo_final_path opts)) d = (i, d1)" by fastforce
  have "i \<notin> locks d1 \<and> d2 = d1\<lparr>locks := insert i (locks d1)\<rparr> \<and> c = \<lparr>co_final_path = fo_final_path opts,
      co_part_path = part_path_for (fo_final_path opts), co_lock_path = lock_path_for (fo_final_path opts), co_opts = opts, co_lock_file = Some i\<rparr>"
    using assms by (simp add: open_blocking_cases [OF o] split: option.splits if_splits)
  then show ?thesis using that [OF o] open_or_create_frame(1) [OF o] by (simp add: coordinator_ok_def)
qed

lemma open_free:
  assumes "\<And>call. fails F call = None" "open_or_create (lock_path_for (fo_final_path opts)) d = (i, d1)" "i \<notin> locks d"
  shows "\<exists>c d2. open_blocking F opts d = (Inr c, d2)"
  using assms(1,3) open_or_create_frame(1) [OF assms(2)] by (simp add: open_blocking_cases [OF assms(2)] create_parent_def)


text \<open>C38: A commit can let two coordinators in. It drops the lock before it starts and removes the lock file
  at the end: a process that takes the lock in between holds the lock of a removed file, so a third one
  creates a new lock file and gets the destination too.\<close>

theorem commit_lets_two_coordinators_in:
  assumes "disk_ok d" "\<forall>call. fails F call = None" "open_blocking F opts d = (Inr a, d1)"
    and "entries d (part_path_for (fo_final_path opts)) = Some i"
  shows "\<exists>b d2 d3 c d4. open_blocking F opts (drop_lock a d1) = (Inr b, d2) \<and>
    finalize_task F a len None durability d2 = (Inr None, d3) \<and> open_blocking F opts d3 = (Inr c, d4) \<and>
    co_part_path b = co_part_path c \<and> co_lock_file b \<noteq> co_lock_file c \<and>
    the (co_lock_file b) \<in> locks d4 \<and> the (co_lock_file c) \<in> locks d4"
proof -
  let ?p = "fo_final_path opts" let ?l = "lock_path_for ?p"
  obtain j d0 where o: "open_or_create ?l d = (j, d0)" "j \<notin> locks d" "d1 = d0\<lparr>locks := insert j (locks d)\<rparr>"
    "co_lock_file a = Some j" "coordinator_ok a" "co_final_path a = ?p" by (rule open_lock [OF assms(3)])
  note fr = open_or_create_frame [OF o(1)]
  have F: "fails F call = None" for call using assms(2) by blast
  have cp: "create_parent F p = None" for p by (simp add: create_parent_def F)
  define e where "e = drop_lock a d1"
  have e: "e = d0" using o(2-4) fr(1) by (simp add: e_def drop_lock_def insert_Diff_if)
  have ok: "j < next_ino e" "\<forall>x\<in>locks e. x < next_ino e"
    using assms(1) o(1) fr(1) by (auto simp: e disk_ok_def open_or_create_def split: option.splits)
  have part: "entries e (part_path_for ?p) = Some i" using assms(4) fr(3) by (simp add: e)
  have lk: "open_or_create ?l e = (j, e)" "j \<notin> locks e" using fr(1,2) o(2) by (simp_all add: open_or_create_def e)
  obtain b d2 where b: "open_blocking F opts e = (Inr b, d2)" using open_free [OF _ lk] assms(2) by blast
  have b2: "co_lock_file b = Some j" "co_part_path b = part_path_for ?p" "d2 = e\<lparr>locks := insert j (locks e)\<rparr>"
    using b lk(2) by (auto simp: open_blocking_cases [OF lk(1)] F cp)
  define d3 where "d3 = (upd_blob i (set_len (unat len)) d2)\<lparr>entries := ((entries d2)(part_path_for ?p := None, ?p \<mapsto> i))(?l := None)\<rparr>"
  have fin: "finalize_task F a len None durability d2 = (Inr None, d3)"
    using assms(2) o(5,6) part
    by (simp add: finalize_task_def publish_part_def b2(3) coordinator_ok_def verify_digest_def sync_parent_dir_def Let_def d3_def upd_blob_def)
  obtain d4 where new: "open_or_create ?l d3 = (next_ino e, d4)"
    by (simp add: open_or_create_def d3_def upd_blob_def b2(3))
  have lk3: "locks d3 = insert j (locks e)" by (simp add: d3_def upd_blob_def b2(3))
  then have free: "next_ino e \<notin> locks d3" using ok by auto
  then obtain c d5 where c: "open_blocking F opts d3 = (Inr c, d5)" using open_free [OF _ new] assms(2) by blast
  have c2: "co_lock_file c = Some (next_ino e)" "co_part_path c = part_path_for ?p" "locks d5 = insert (next_ino e) (insert j (locks e))"
  proof -
    have l4: "locks d4 = insert j (locks e)" using open_or_create_frame(1) [OF new] lk3 by simp
    have "open_blocking F opts d3 = (Inr \<lparr>co_final_path = ?p, co_part_path = part_path_for ?p, co_lock_path = ?l, co_opts = opts,
        co_lock_file = Some (next_ino e)\<rparr>, d4\<lparr>locks := insert (next_ino e) (locks d4)\<rparr>)"
      using free by (simp add: open_blocking_cases [OF new] F cp l4 lk3)
    then have "c = \<lparr>co_final_path = ?p, co_part_path = part_path_for ?p, co_lock_path = ?l, co_opts = opts, co_lock_file = Some (next_ino e)\<rparr>"
      "d5 = d4\<lparr>locks := insert (next_ino e) (locks d4)\<rparr>" using c by simp_all
    then show "co_lock_file c = Some (next_ino e)" "co_part_path c = part_path_for ?p"
      "locks d5 = insert (next_ino e) (insert j (locks e))" by (simp_all add: l4)
  qed
  show ?thesis
    using b fin c b2(1,2) c2 ok(1) unfolding e_def [symmetric]
    by (intro exI [of _ b] exI [of _ d2] exI [of _ d3] exI [of _ c] exI [of _ d5]) simp
qed

section \<open>Examples\<close>

definition demo_F :: file_env where
  "demo_F = \<lparr>fails = (\<lambda>_. None), fallocate_of = (\<lambda>_. Allocated), written_part = 0, hash_of = (\<lambda>_ b. b)\<rparr>"

definition demo_disk :: disk where
  "demo_disk = \<lparr>entries = [''f.part'' \<mapsto> 0], blobs = (\<lambda>_. [9, 9, 9, 9, 9]), locks = {}, next_ino = 1\<rparr>"

definition demo_co :: coordinator where
  "demo_co = \<lparr>co_final_path = ''f'', co_part_path = ''f.part'', co_lock_path = ''f.part.lock'',
     co_opts = file_destination_options_new ''f'', co_lock_file = None\<rparr>"

lemma demo_co_ok: "coordinator_ok demo_co"
  by (simp add: coordinator_ok_def demo_co_def part_path_for_def lock_path_for_def)

lemma demo_sels: "co_final_path demo_co = ''f''" "co_part_path demo_co = ''f.part''" "blobs demo_disk = (\<lambda>_. [9, 9, 9, 9, 9])"
  "entries demo_disk = [''f.part'' \<mapsto> 0]" "co_lock_file demo_co = None" "fails demo_F = (\<lambda>_. None)"
  by (simp_all add: demo_co_def demo_disk_def demo_F_def)

lemma demo_finalize:
  "fst (finalize demo_F demo_co 4 (Some \<lparr>dc_kind = Blake3, dc_expected = Some [9, 9, 9, 9]\<rparr>) Relaxed demo_disk) =
     Inr (Some \<lparr>d_kind = Blake3, d_value = [9, 9, 9, 9]\<rparr>)"
  by (simp add: finalize_def finalize_task_def publish_part_def demo_F_def demo_co_def demo_disk_def drop_lock_def upd_blob_def set_len_def
      verify_digest_def hash_read_back_def Let_def)


definition demo_writes :: "(file_env \<times> file_lane \<times> chunk) list" where
  "demo_writes =
     [(demo_F, \<lparr>ln_file = 0, ln_part_path = ''f.part''\<rparr>, \<lparr>ck_offset = 2, ck_data = [2, 3]\<rparr>),
      (demo_F\<lparr>fails := (\<lambda>_. Some OtherKind), written_part := 1\<rparr>, \<lparr>ln_file = 0, ln_part_path = ''f.part''\<rparr>, \<lparr>ck_offset = 0, ck_data = [0, 1]\<rparr>),
      (demo_F, \<lparr>ln_file = 0, ln_part_path = ''f.part''\<rparr>, \<lparr>ck_offset = 0, ck_data = [0, 1, 2]\<rparr>)]"

theorem lanes_assemble_the_artifact_witness:
  "content_of (snd (finalize demo_F demo_co 4 None Relaxed (snd (lane_run demo_writes demo_disk)))) ''f'' = Some [0, 1, 2, 3]"
proof -
  have run: "lane_run demo_writes demo_disk = ([ByteRange_new 2 4, ByteRange_new 0 3], snd (lane_run demo_writes demo_disk))"
    by (simp add: demo_writes_def lane_write_chunk_def write_all_at_def demo_F_def Let_def)
  have gen: "\<forall>(F, l, k)\<in>set demo_writes. ln_file l = 0 \<and> genuine of_nat k"
    by (simp add: demo_writes_def genuine_def upt_conv_Cons)
  have ent: "entries (snd (lane_run demo_writes demo_disk)) = entries demo_disk"
    by (simp add: demo_writes_def lane_write_chunk_def write_all_at_def demo_F_def Let_def upd_blob_def)
  have fin: "finalize demo_F demo_co 4 None Relaxed (snd (lane_run demo_writes demo_disk)) =
      (Inr None, snd (finalize demo_F demo_co 4 None Relaxed (snd (lane_run demo_writes demo_disk))))"
    by (simp add: finalize_def finalize_task_def publish_part_def drop_lock_def ent demo_sels verify_digest_def Let_def)
  have cov: "{0..<(4::u64)} \<subseteq> {} \<union> list_set [ByteRange_new 2 4, ByteRange_new 0 3]"
  proof
    fix x :: u64 assume x: "x \<in> {0..<4}"
    have "2 \<le> x" if "\<not> x < 3" using that by (intro order_trans [of 2 3 x]) (simp_all add: not_less)
    then show "x \<in> {} \<union> list_set [ByteRange_new 2 4, ByteRange_new 0 3]" using x by (cases "x < 3") (simp_all add: br_set_def)
  qed
  from lanes_assemble_the_artifact [OF demo_co_ok _ _ _ gen run cov fin]
  show ?thesis by (simp add: demo_sels upt_conv_Cons)
qed


theorem commit_lets_two_coordinators_in_witness:
  "\<exists>a d1 b d2. open_blocking demo_F (file_destination_options_new ''f'') demo_disk = (Inr a, d1) \<and>
     open_blocking demo_F (file_destination_options_new ''f'') (drop_lock a d1) = (Inr b, d2)"
proof -
  have "\<exists>c d. open_blocking demo_F (file_destination_options_new ''f'') demo_disk = (Inr c, d)"
    by (rule open_free) (simp_all add: demo_F_def open_or_create_def demo_disk_def lock_path_for_def part_path_for_def
        file_destination_options_new_def)
  then obtain a d1 where o: "open_blocking demo_F (file_destination_options_new ''f'') demo_disk = (Inr a, d1)" by blast
  have "disk_ok demo_disk" by (simp add: disk_ok_def demo_disk_def)
  from commit_lets_two_coordinators_in [OF this _ o, of 0 4 Relaxed] o show ?thesis
    by (auto simp: demo_F_def demo_disk_def part_path_for_def file_destination_options_new_def)
qed

end
