(* ===== verification/Fetch_Props.thy ===== *)
theory Fetch_Props
  imports Fetch Reorder
begin

text \<open>
  What a fetch guarantees. The locale \<open>artifact_sink\<close> is what a sink promises: a genuine chunk at the
  next offset extends what it has. Its lemmas follow the delivery through the loops and give, for any
  such sink, what a successful fetch has delivered.
\<close>

section \<open>Genuine bodies\<close>

fun genuine_body :: "(nat \<Rightarrow> u8) \<Rightarrow> nat \<Rightarrow> (error + u8 list) list \<Rightarrow> bool" where
  "genuine_body f n [] \<longleftrightarrow> True"
| "genuine_body f n (Inl e # fs) \<longleftrightarrow> True"
| "genuine_body f n (Inr d # fs) \<longleftrightarrow> d = map f [n..<n + length d] \<and> genuine_body f (n + length d) fs"

lemma map_upt_take: "d = map f [n..<n + length d] \<Longrightarrow> take m d = map f [n..<n + min m (length d)]"
  by (drule arg_cong [where f = "take m"]) (simp add: take_map min_def)

lemma map_upt_drop: "d = map f [n..<n + length d] \<Longrightarrow> m \<le> length d \<Longrightarrow> drop m d = map f [n + m..<n + length d]"
  by (drule arg_cong [where f = "drop m"]) (simp add: drop_map)

section \<open>The loop over a frame\<close>

lemma deliver_induct [consumes 1, case_names empty stop oversized failed chunk]:
  assumes "deliver_range_bytes S M r wire data st = Some y"
    and "\<And>st. Q [] st (None, st)"
    and "\<And>data st e n. data \<noteq> [] \<Longrightarrow> e \<le> dl_offset st \<Longrightarrow> e \<le> r_end wire \<Longrightarrow>
          end_offset S (dl_reads st) (dl_sink st) = None \<longrightarrow> e = r_end wire \<Longrightarrow> Q data st (None, st\<lparr>dl_reads := n, dl_truncated := (e < r_end wire)\<rparr>)"
    and "\<And>data st e n. Q data st (Some e, st\<lparr>dl_reads := n\<rparr>)"
    and "\<And>data st n e m x st1. data \<noteq> [] \<Longrightarrow> dl_offset st < e \<Longrightarrow> e \<le> r_end wire \<Longrightarrow>
          m = chunk_amount S M (length data) (e - dl_offset st) \<Longrightarrow>
          deliver_chunk S M r (take m data) (st\<lparr>dl_reads := n\<rparr>) = (Some x, st1) \<Longrightarrow> Q data st (Some x, st1)"
    and "\<And>data st n e m st1 y. data \<noteq> [] \<Longrightarrow> dl_offset st < e \<Longrightarrow> e \<le> r_end wire \<Longrightarrow>
          m = chunk_amount S M (length data) (e - dl_offset st) \<Longrightarrow>
          deliver_chunk S M r (take m data) (st\<lparr>dl_reads := n\<rparr>) = (None, st1) \<Longrightarrow> Q (drop m data) st1 y \<Longrightarrow> Q data st y"
  shows "Q data st y"
proof -
  have "S' = S \<longrightarrow> M' = M \<longrightarrow> r' = r \<longrightarrow> w' = wire \<longrightarrow> Q data' st' y'"
    if "deliver_range_bytes S' M' r' w' data' st' = Some y'" for S' M' r' w' data' st' y'
    using that
  proof (rule deliver_range_bytes.raw_induct [rotated], intro impI)
    fix rec :: "'a chunk_sink \<Rightarrow> fetch_memory \<Rightarrow> byte_range \<Rightarrow> byte_range \<Rightarrow> u8 list \<Rightarrow> 'a delivery \<Rightarrow> (error option \<times> 'a delivery) option"
      and S1 M1 r1 w1 data st y
    assume ih: "\<And>S' M' r' w' data' st' y'. rec S' M' r' w' data' st' = Some y' \<Longrightarrow>
        S' = S \<longrightarrow> M' = M \<longrightarrow> r' = r \<longrightarrow> w' = wire \<longrightarrow> Q data' st' y'"
      and eq: "S1 = S" "M1 = M" "r1 = r" "w1 = wire"
      and body: "(if data = [] then Some (None, st)
        else let dynamic_end = min (case end_offset S1 (dl_reads st) (dl_sink st) of None \<Rightarrow> r_end w1 | Some e \<Rightarrow> e) (r_end w1);
               st1 = st\<lparr>dl_reads := dl_reads st + 1\<rparr>
             in if dynamic_end \<le> dl_offset st then Some (None, st1\<lparr>dl_truncated := dynamic_end < r_end w1\<rparr>)
                else if unat (r_end w1 - dl_offset st) < length data \<and> end_offset S1 (dl_reads st1) (dl_sink st) = None
                then Some (Some (Http (OversizedBody (dl_received st + of_nat (length data)) (br_len w1))), st1\<lparr>dl_reads := dl_reads st1 + 1\<rparr>)
                else let st2 = if unat (r_end w1 - dl_offset st) < length data then st1\<lparr>dl_reads := dl_reads st1 + 1\<rparr> else st1;
                       amount = chunk_amount S1 M1 (length data) (dynamic_end - dl_offset st)
                     in case deliver_chunk S1 M1 r1 (take amount data) st2 of
                          (None, st3) \<Rightarrow> rec S1 M1 r1 w1 (drop amount data) st3
                        | (Some e, st3) \<Rightarrow> Some (Some e, st3)) = Some y"
    define e where "e = min (case end_offset S (dl_reads st) (dl_sink st) of None \<Rightarrow> r_end wire | Some e \<Rightarrow> e) (r_end wire)"
    have le: "e \<le> r_end wire" "end_offset S (dl_reads st) (dl_sink st) = None \<longrightarrow> e = r_end wire" by (simp_all add: e_def)
    note b = body [unfolded eq Let_def e_def [symmetric]]
    show "Q data st y"
    proof (cases "data = []")
      case True
      then show ?thesis using b assms(2) by auto
    next
      case False
      note ne = this
      show ?thesis
      proof (cases "e \<le> dl_offset st")
        case True
        then show ?thesis using b ne assms(3) [OF ne True le, of "dl_reads st + 1"] by simp
      next
        case False
        then have lt: "dl_offset st < e" by simp
        define m where "m = chunk_amount S M (length data) (e - dl_offset st)"
        show ?thesis
        proof (cases "unat (r_end wire - dl_offset st) < length data \<and> end_offset S (dl_reads st + 1) (dl_sink st) = None")
          case True
          then show ?thesis using b ne False assms(4) [of data st _ "dl_reads st + 1 + 1"] by auto
        next
          case nover: False
          define n where "n = (if unat (r_end wire - dl_offset st) < length data then dl_reads st + 1 + 1 else dl_reads st + 1)"
          obtain eo st1 where c: "deliver_chunk S M r (take m data) (st\<lparr>dl_reads := n\<rparr>) = (eo, st1)" by fastforce
          have "(case (eo, st1) of (None, st3) \<Rightarrow> rec S M r wire (drop m data) st3 | (Some e, st3) \<Rightarrow> Some (Some e, st3)) = Some y"
            using b ne False nover unfolding c [symmetric] m_def n_def by (auto split: if_splits)
          then show ?thesis
            using assms(5) [OF ne lt le(1) m_def, of n] assms(6) [OF ne lt le(1) m_def, of n] c ih by (cases eo) (auto simp: m_def)
        qed
      qed
    qed
  qed
  then show ?thesis using assms(1) by blast
qed

lemma deliver_returns:
  assumes "fm_limit M \<noteq> 0" "max_chunk_size S \<noteq> 0"
  shows "\<exists>y. deliver_range_bytes S M r wire data st = Some y"
proof (induction "length data" arbitrary: data st rule: less_induct)
  case less
  have pos: "0 < unat (fm_limit M)" using assms(1) by (simp add: unat_gt_0)
  have shrink: "length (drop (chunk_amount S M (length data) (e - dl_offset st)) data) < length data"
    if "data \<noteq> []" "dl_offset st < e" for e
    using that pos assms(2) by (auto simp: chunk_amount_def unat_gt_0)
  show ?case
    by (subst deliver_range_bytes.simps)
      (use less shrink in \<open>auto simp: Let_def not_le split: prod.splits option.splits\<close>)
qed

lemma useful_step:
  assumes "x \<le> p"
  shows "saturating_add (saturating_sub x a) (saturating_sub p (max x a)) = saturating_sub p (a :: u64)"
proof -
  have "unat (saturating_add (saturating_sub x a) (saturating_sub p (max x a))) = unat (saturating_sub p a)"
    using assms unat_u64_less [of p] by (auto simp: unat_saturating_add unat_saturating_sub word_le_nat_alt max_def)
  then show ?thesis by (simp only: word_unat_eq_iff)
qed

section \<open>The two halves of a fetch\<close>

text \<open>Either the answer is rejected before its body is read, or the body is received.\<close>

definition fetch_begin :: "'u range_fetch \<Rightarrow> 's \<Rightarrow> 's delivery" where
  "fetch_begin q s = \<lparr>dl_offset = r_start (wire_range_of q), dl_received = 0, dl_useful = 0, dl_truncated = False, dl_sink = s,
     dl_reads = 0, dl_accepts = 0\<rparr>"

lemma fetch_range_cases:
  obtains (rejected) e lock1 where "fetch_range H send S M k q lock s = Some (Inl e, lock1, s)"
  | (answered) rq rs len lock1 where "range_request H q = Inr rq" "send rq = Inr rs" "check_range_response H q rs = Inr len"
      "observe_identity H lock (rs_headers rs) len = (Inr (), lock1)"
      "fetch_range H send S M k q lock s =
         (case receive_range S M (rf_range q) (wire_range_of q) (rs_body rs) (fetch_begin q s) of
            None \<Rightarrow> None
          | Some (Some e, st) \<Rightarrow> Some (Inl e, lock1, dl_sink st)
          | Some (None, st) \<Rightarrow>
              (case finish_range S k (has_connection_close (rs_headers rs)) (wire_range_of q) st of (r, s1) \<Rightarrow> Some (r, lock1, s1)))"
proof (cases "case range_request H q of Inl e \<Rightarrow> Inl e | Inr rq \<Rightarrow> send rq")
  case (Inr rs)
  then obtain rq where rq: "range_request H q = Inr rq" "send rq = Inr rs" by (auto split: sum.splits)
  show thesis
  proof (cases "check_range_response H q rs")
    case len: (Inr len)
    obtain ok lock1 where obs: "observe_identity H lock (rs_headers rs) len = (ok, lock1)" by fastforce
    show thesis
    proof (cases ok)
      case (Inl e)
      then show thesis using rejected rq len obs by (simp add: fetch_range_def Let_def)
    next
      case (Inr u)
      show thesis using answered [OF rq len] rq len obs Inr by (simp add: fetch_range_def Let_def fetch_begin_def)
    qed
  qed (use rejected rq in \<open>simp add: fetch_range_def Let_def\<close>)
qed (use rejected in \<open>simp add: fetch_range_def Let_def\<close>)

section \<open>Sinks that never cut a fetch short\<close>

lemma deliver_not_truncated:
  assumes "deliver_range_bytes S M r wire data st = Some y" "\<forall>n s. end_offset S n s = None" "\<not> dl_truncated st"
  shows "\<not> dl_truncated (snd y)"
  using assms(1,3)
proof (induction rule: deliver_induct)
  case (failed data st n e m x st1)
  then show ?case by (auto simp: deliver_chunk_def split: option.splits prod.splits sum.splits)
next
  case (chunk data st n e m st1 y)
  then show ?case by (auto simp: deliver_chunk_def split: option.splits prod.splits sum.splits)
qed (use assms(2) in auto)

lemma receive_not_truncated:
  assumes "receive_range S M r wire fs st = Some (eo, st')" "\<forall>n s. end_offset S n s = None" "\<not> dl_truncated st"
  shows "\<not> dl_truncated st'"
  using assms(1,3)
proof (induction fs arbitrary: st)
  case (Cons x fs)
  show ?case
  proof (cases x)
    case (Inl e)
    then show ?thesis using Cons.prems by simp
  next
    case (Inr data)
    obtain e1 st1 where d: "deliver_range_bytes S M r wire data st = Some (e1, st1)"
      using Cons.prems(1) by (auto simp: Inr split: option.splits)
    have "\<not> dl_truncated st1" using deliver_not_truncated [OF d assms(2) Cons.prems(2)] by simp
    then show ?thesis using Cons.IH Cons.prems(1) by (cases e1) (auto simp: Inr d)
  qed
qed simp

lemma fetch_not_truncated:
  assumes "fetch_range H send S M k q lock s = Some (Inr out, lock', s')" "\<forall>n s. end_offset S n s = None"
  shows "fo_completion out = FullyConsumed"
proof (cases rule: fetch_range_cases [of H send S M k q lock s])
  case (answered rq rs len lock1)
  then obtain st where st: "receive_range S M (rf_range q) (wire_range_of q) (rs_body rs) (fetch_begin q s) = Some (None, st)"
    "finish_range S k (has_connection_close (rs_headers rs)) (wire_range_of q) st = (Inr out, s')"
    using assms(1) by (auto split: option.splits prod.splits)
  have "\<not> dl_truncated st" using receive_not_truncated [OF st(1) assms(2)] by (simp add: fetch_begin_def)
  then show ?thesis using st(2) by (auto simp: finish_range_def split: prod.splits sum.splits if_splits)
qed (use assms(1) in simp)

section \<open>Sinks that take the artifact in order\<close>

locale artifact_sink =
  fixes S :: "'s chunk_sink" and f :: "nat \<Rightarrow> u8" and got :: "nat \<Rightarrow> 's \<Rightarrow> bool" and safe :: "'s \<Rightarrow> bool"
  assumes got_safe: "got n s \<Longrightarrow> safe s"
    and accepted: "got (unat (ck_offset c)) s \<Longrightarrow> genuine f c \<Longrightarrow> sink_accept S c s = (Inr (), s') \<Longrightarrow>
        got (unat (ck_offset c) + length (ck_data c)) s'"
    and refused: "got (unat (ck_offset c)) s \<Longrightarrow> genuine f c \<Longrightarrow> sink_accept S c s = (Inl e, s') \<Longrightarrow> safe s'"
begin

text \<open>The state of a range delivery: everything up to the offset has been taken, and the counters agree.\<close>

definition on_track :: "byte_range \<Rightarrow> byte_range \<Rightarrow> 's delivery \<Rightarrow> bool" where
  "on_track r wire st \<longleftrightarrow> r_start wire \<le> dl_offset st \<and> dl_offset st \<le> r_end wire \<and> dl_received st = dl_offset st - r_start wire \<and>
     dl_useful st = saturating_sub (dl_offset st) (r_start r) \<and> got (unat (dl_offset st)) (dl_sink st)"

lemma on_track_reads [simp]: "on_track r wire (st\<lparr>dl_reads := n\<rparr>) = on_track r wire st"
  "on_track r wire (st\<lparr>dl_truncated := b\<rparr>) = on_track r wire st"
  by (simp_all add: on_track_def)

lemma chunk_on_track:
  assumes t: "on_track r wire st" and w: "r_end wire = r_end r"
    and d: "data = map f [unat (dl_offset st)..<unat (dl_offset st) + length data]"
    and m: "m \<le> length data" "unat (dl_offset st) + m \<le> unat (r_end wire)"
    and c: "deliver_chunk S M r (take m data) st = (eo, st1)"
  shows "if eo = None then on_track r wire st1 \<and> unat (dl_offset st1) = unat (dl_offset st) + m \<and> dl_truncated st1 = dl_truncated st
    else safe (dl_sink st1)"
proof -
  let ?c = "\<lparr>ck_offset = dl_offset st, ck_data = take m data\<rparr>"
  have g: "genuine f ?c" using map_upt_take [OF d, of m] m unat_u64_less [of "r_end wire"] by (simp add: genuine_def min_def)
  have got: "got (unat (ck_offset ?c)) (dl_sink st)" using t by (simp add: on_track_def)
  have off: "unat (dl_offset st + of_nat m) = unat (dl_offset st) + m"
    using m(2) unat_u64_less [of "r_end wire"] by (simp add: unat_word_ariths unat_of_nat)
  show ?thesis
  proof (cases eo)
    case None
    then obtain s where s: "sink_accept S ?c (dl_sink st) = (Inr (), s)"
      "st1 = st\<lparr>dl_sink := s, dl_accepts := dl_accepts st + 1, dl_offset := dl_offset st + of_nat m,
                  dl_received := dl_received st + of_nat m, dl_useful := count_useful r m st\<rparr>"
      using c m(1) by (auto simp: deliver_chunk_def min_def split: option.splits prod.splits sum.splits)
    have le: "dl_offset st \<le> dl_offset st + of_nat m" "dl_offset st + of_nat m \<le> r_end wire"
      using off m(2) by (simp_all add: word_le_nat_alt)
    have "got (unat (dl_offset st + of_nat m)) s" using accepted [OF got g s(1)] m(1) by (simp add: off)
    moreover have "count_useful r m st = saturating_sub (dl_offset st + of_nat m) (r_start r)"
      using t le w off by (simp add: count_useful_def Let_def on_track_def min_absorb1 useful_step)
    ultimately show ?thesis using None t le by (auto simp: s(2) on_track_def off intro: order_trans)
  next
    case (Some e)
    then show ?thesis using c refused [OF got g] got_safe [OF got]
      by (auto simp: deliver_chunk_def split: option.splits prod.splits sum.splits)
  qed
qed

lemma amount_bounds:
  assumes "off < e" "e \<le> r_end wire" "m = chunk_amount S M n (e - off)"
  shows "m \<le> n" "unat off + m \<le> unat (r_end wire)"
  using assms by (auto simp: chunk_amount_def word_le_nat_alt word_less_nat_alt unat_diff_word min_def split: if_splits)

lemma frame_on_track:
  assumes "deliver_range_bytes S M r wire data st = Some (eo, st')" "r_end wire = r_end r" "on_track r wire st" "\<not> dl_truncated st"
    and "dl_offset st = r_end wire \<or> data = map f [unat (dl_offset st)..<unat (dl_offset st) + length data]"
  shows "if eo = None
    then on_track r wire st' \<and> (dl_truncated st' \<or> dl_offset st' = r_end wire \<or>
      unat (dl_offset st') = unat (dl_offset st) + length data)
    else safe (dl_sink st')"
proof -
  have "if fst y = None
    then on_track r wire (snd y) \<and> (dl_truncated (snd y) \<or> dl_offset (snd y) = r_end wire \<or>
      unat (dl_offset (snd y)) = unat (dl_offset st) + length data)
    else safe (dl_sink (snd y))" if "deliver_range_bytes S M r wire data st = Some y" for y
    using that assms(3-5)
  proof (induction rule: deliver_induct)
    case (stop data st e n)
    then show ?case by (auto simp: on_track_def)
  next
    case (oversized data st e n)
    then show ?case by (auto simp: on_track_def intro: got_safe)
  next
    case (failed data st n e m x st1)
    have lt: "dl_offset st \<noteq> r_end wire" using failed(2,3) by auto
    have m: "m \<le> length data" "unat (dl_offset st) + m \<le> unat (r_end wire)" by (rule amount_bounds [OF failed(2-4)])+
    have d: "data = map f [unat (dl_offset st)..<unat (dl_offset st) + length data]" using failed.prems(3) lt by blast
    from chunk_on_track [of r wire "st\<lparr>dl_reads := n\<rparr>", OF _ assms(2) _ m(1) _ failed(5)] show ?case
      using failed.prems(1) d m(2) by simp
  next
    case (chunk data st n e m st1 y)
    have lt: "dl_offset st \<noteq> r_end wire" using chunk(2,3) by auto
    have m: "m \<le> length data" "unat (dl_offset st) + m \<le> unat (r_end wire)" by (rule amount_bounds [OF chunk(2-4)])+
    have d: "data = map f [unat (dl_offset st)..<unat (dl_offset st) + length data]" using chunk.prems(3) lt by blast
    have t1: "on_track r wire st1" "unat (dl_offset st1) = unat (dl_offset st) + m" "\<not> dl_truncated st1"
      using chunk_on_track [of r wire "st\<lparr>dl_reads := n\<rparr>", OF _ assms(2) _ m(1) _ chunk(5)] chunk.prems(1,2) d m(2) by simp_all
    have "drop m data = map f [unat (dl_offset st1)..<unat (dl_offset st1) + length (drop m data)]"
      using map_upt_drop [OF d m(1)] m(1) by (simp add: t1(2))
    from chunk.IH [OF t1(1,3) disjI2 [OF this]] show ?case using t1(2) m(1) by (auto split: if_splits)
  qed auto
  then show ?thesis using assms(1) by (metis fst_conv snd_conv)
qed

lemma receive_on_track:
  assumes "receive_range S M r wire fs st = Some (eo, st')" "r_end wire = r_end r" "on_track r wire st" "\<not> dl_truncated st"
    and "dl_offset st = r_end wire \<or> genuine_body f (unat (dl_offset st)) fs"
  shows "if eo = None then on_track r wire st' else safe (dl_sink st')"
  using assms
proof (induction fs arbitrary: st)
  case (Cons x fs)
  show ?case
  proof (cases x)
    case (Inl e)
    then show ?thesis using Cons.prems by (auto simp: on_track_def intro: got_safe)
  next
    case (Inr data)
    obtain e1 st1 where d: "deliver_range_bytes S M r wire data st = Some (e1, st1)"
      using Cons.prems(1) by (auto simp: Inr split: option.splits)
    have g: "dl_offset st = r_end wire \<or> data = map f [unat (dl_offset st)..<unat (dl_offset st) + length data]"
      using Cons.prems(5) by (auto simp: Inr)
    note f1 = frame_on_track [OF d Cons.prems(2-4) g]
    show ?thesis
    proof (cases "e1 = None \<and> \<not> dl_truncated st1")
      case True
      then have "dl_offset st1 = r_end wire \<or> genuine_body f (unat (dl_offset st1)) fs"
        using f1 Cons.prems(5) by (auto simp: Inr on_track_def word_le_nat_alt word_unat_eq_iff)
      then show ?thesis using Cons.IH [OF _ Cons.prems(2), of st1] f1 Cons.prems(1) True by (simp add: Inr d)
    next
      case False
      then show ?thesis using f1 Cons.prems(1) by (cases e1) (auto simp: Inr d split: if_splits)
    qed
  qed
qed auto

lemma fetch_range_delivers:
  assumes "fetch_range H send S M k q lock s = Some (res, lock', s')" "r_start (rf_range q) \<le> r_end (rf_range q)"
    and "got (unat (r_start (wire_range_of q))) s"
    and "\<forall>rq rs. send rq = Inr rs \<longrightarrow> genuine_body f (unat (r_start (wire_range_of q))) (rs_body rs)"
  shows "case res of
      Inl e \<Rightarrow> safe s' \<or> (\<exists>s1. safe s1 \<and> s' = snd (sink_finish S s1))
    | Inr out \<Rightarrow> \<exists>n s1. sink_finish S s1 = (Inr (), s') \<and> got (unat n) s1 \<and> r_start (wire_range_of q) \<le> n \<and> n \<le> r_end (rf_range q) \<and>
        fo_bytes out = saturating_sub n (r_start (rf_range q)) \<and> fo_truncated out = (fo_completion out = IntentionallyTruncated) \<and>
        (fo_completion out = FullyConsumed \<longrightarrow> n = r_end (rf_range q))"
proof (cases rule: fetch_range_cases [of H send S M k q lock s])
  case (rejected e lock1)
  then show ?thesis using assms(1) got_safe [OF assms(3)] by auto
next
  case (answered rq rs len lock1)
  let ?r = "rf_range q" let ?w = "wire_range_of q"
  have w: "r_end ?w = r_end ?r" "r_start ?w \<le> r_start ?r"
    by (simp_all add: wire_range_of_def saturating_sub_le)
  have t0: "on_track ?r ?w (fetch_begin q s)"
    using assms(2,3) w by (auto simp: on_track_def fetch_begin_def saturating_sub_def not_less_iff_gr_or_eq)
  obtain eo st where rc: "receive_range S M ?r ?w (rs_body rs) (fetch_begin q s) = Some (eo, st)"
    using assms(1) answered(5) by (auto split: option.splits)
  have t: "if eo = None then on_track ?r ?w st else safe (dl_sink st)"
    using receive_on_track [OF rc w(1) t0] assms(4) answered(2) by (simp add: fetch_begin_def)
  show ?thesis
  proof (cases eo)
    case (Some e)
    then show ?thesis using t assms(1) answered(5) rc by auto
  next
    case None
    have fin: "finish_range S k (has_connection_close (rs_headers rs)) ?w st = (res, s')"
      using assms(1) answered(5) rc None by (auto split: prod.splits)
    have tr: "on_track ?r ?w st" using t None by simp
    then have recv: "dl_received st = br_len ?w \<longleftrightarrow> dl_offset st = r_end ?w"
      by (auto simp: on_track_def br_len_def saturating_sub_def not_less word_unat_eq_iff unat_sub_if' word_le_nat_alt)
    show ?thesis
    proof (cases res)
      case (Inl e)
      have "s' = snd (sink_finish S (dl_sink st))" using fin by (auto simp: finish_range_def split: prod.splits sum.splits if_splits)
      moreover have "safe (dl_sink st)" using tr by (auto simp: on_track_def intro: got_safe)
      ultimately show ?thesis using Inl by auto
    next
      case (Inr out)
      have "sink_finish S (dl_sink st) = (Inr (), s') \<and> fo_bytes out = dl_useful st \<and> fo_truncated out = dl_truncated st \<and>
          fo_completion out = (if dl_truncated st then IntentionallyTruncated else FullyConsumed) \<and>
          (\<not> dl_truncated st \<longrightarrow> dl_received st = br_len ?w)"
        using fin by (auto simp: finish_range_def Inr split: prod.splits sum.splits if_splits)
      then show ?thesis using tr recv w(1) unfolding Inr sum.case on_track_def
        by (intro exI [of _ "dl_offset st"] exI [of _ "dl_sink st"]) auto
    qed
  qed
qed

text \<open>Full bodies: the offset must not pass the end of the address space.\<close>

lemma body_frame_taken:
  assumes "deliver_body S M data st = Some y" "got (unat (dl_offset st)) (dl_sink st)"
    and "data = map f [unat (dl_offset st)..<unat (dl_offset st) + length data]" "unat (dl_offset st) + length data < 2 ^ 64"
  shows "if fst y = None then got (unat (dl_offset (snd y))) (dl_sink (snd y)) \<and> unat (dl_offset (snd y)) = unat (dl_offset st) + length data
    else safe (dl_sink (snd y))"
proof -
  have "S' = S \<longrightarrow> got (unat (dl_offset st')) (dl_sink st') \<longrightarrow>
      data' = map f [unat (dl_offset st')..<unat (dl_offset st') + length data'] \<longrightarrow> unat (dl_offset st') + length data' < 2 ^ 64 \<longrightarrow>
      (if fst y' = None then got (unat (dl_offset (snd y'))) (dl_sink (snd y')) \<and> unat (dl_offset (snd y')) = unat (dl_offset st') + length data'
       else safe (dl_sink (snd y')))" if "deliver_body S' M' data' st' = Some y'" for S' M' data' st' y'
    using that
  proof (rule deliver_body.raw_induct [rotated], intro impI)
    fix rec S1 M1 data st y
    assume ih: "\<And>S' M' data' st' y'. rec S' M' data' st' = Some y' \<Longrightarrow> S' = S \<longrightarrow> got (unat (dl_offset st')) (dl_sink st') \<longrightarrow>
      data' = map f [unat (dl_offset st')..<unat (dl_offset st') + length data'] \<longrightarrow> unat (dl_offset st') + length data' < 2 ^ 64 \<longrightarrow>
      (if fst y' = None then got (unat (dl_offset (snd y'))) (dl_sink (snd y')) \<and> unat (dl_offset (snd y')) = unat (dl_offset st') + length data'
       else safe (dl_sink (snd y')))"
      and S1: "S1 = S" and g: "got (unat (dl_offset st)) (dl_sink st)"
      and d: "data = map f [unat (dl_offset st)..<unat (dl_offset st) + length data]" and room: "unat (dl_offset st) + length data < 2 ^ 64"
      and body: "(if data = [] then Some (None, st)
        else let amount = min (min (length data) (unat (fm_limit M1))) (max_chunk_size S1)
             in case body_chunk S1 M1 (take amount data) st of
                  (None, st1) \<Rightarrow> rec S1 M1 (drop amount data) st1
                | (Some e, st1) \<Rightarrow> Some (Some e, st1)) = Some y"
    define m where "m = min (min (length data) (unat (fm_limit M1))) (max_chunk_size S)"
    have m: "m \<le> length data" by (simp add: m_def)
    let ?c = "\<lparr>ck_offset = dl_offset st, ck_data = take m data\<rparr>"
    have gen: "genuine f ?c" using map_upt_take [OF d, of m] m room by (simp add: genuine_def min_def)
    have off: "unat (dl_offset st + of_nat m) = unat (dl_offset st) + m" using m room by (simp add: unat_word_ariths unat_of_nat)
    obtain eo st1 where c: "body_chunk S M1 (take m data) st = (eo, st1)" by fastforce
    show "if fst y = None then got (unat (dl_offset (snd y))) (dl_sink (snd y)) \<and> unat (dl_offset (snd y)) = unat (dl_offset st) + length data
       else safe (dl_sink (snd y))"
    proof (cases "data = []")
      case True
      then show ?thesis using body g by auto
    next
      case ne: False
      have b: "(case (eo, st1) of (None, st1) \<Rightarrow> rec S M1 (drop m data) st1 | (Some e, st1) \<Rightarrow> Some (Some e, st1)) = Some y"
        using body ne unfolding S1 Let_def m_def [symmetric] c by simp
      show ?thesis
      proof (cases eo)
        case None
        then obtain s where s: "sink_accept S ?c (dl_sink st) = (Inr (), s)"
          "st1 = st\<lparr>dl_sink := s, dl_accepts := dl_accepts st + 1, dl_offset := dl_offset st + of_nat m\<rparr>"
          using c m by (auto simp: body_chunk_def min_def split: option.splits prod.splits sum.splits)
        have g1: "got (unat (dl_offset st1)) (dl_sink st1)" using accepted [OF _ gen s(1)] g m by (simp add: s(2) off)
        have d1: "drop m data = map f [unat (dl_offset st1)..<unat (dl_offset st1) + length (drop m data)]"
          using map_upt_drop [OF d m] m by (simp add: s(2) off)
        have "rec S M1 (drop m data) st1 = Some y" using b None by simp
        from ih [OF this] g1 d1 have "if fst y = None then got (unat (dl_offset (snd y))) (dl_sink (snd y)) \<and>
            unat (dl_offset (snd y)) = unat (dl_offset st1) + length (drop m data) else safe (dl_sink (snd y))"
          using room m by (simp add: s(2) off)
        moreover have "unat (dl_offset st1) + length (drop m data) = unat (dl_offset st) + length data" using m by (simp add: s(2) off)
        ultimately show ?thesis by (simp only:)
      next
        case (Some e)
        then have "y = (Some e, st1)" using b by simp
        then show ?thesis using c Some g gen refused [of ?c "dl_sink st"] got_safe [OF g]
          by (auto simp: body_chunk_def split: option.splits prod.splits sum.splits)
      qed
    qed
  qed
  then show ?thesis using assms by blast
qed

lemma body_taken:
  assumes "receive_body S M fs st = Some (None, st')" "got (unat (dl_offset st)) (dl_sink st)" "genuine_body f (unat (dl_offset st)) fs"
    and "unat (dl_offset st) + sum_list (map (\<lambda>x. case x of Inl _ \<Rightarrow> 0 | Inr d \<Rightarrow> length d) fs) < 2 ^ 64"
  shows "got (unat (dl_offset st')) (dl_sink st')"
  using assms
proof (induction fs arbitrary: st)
  case (Cons x fs)
  obtain data where x: "x = Inr data" using Cons.prems(1) by (cases x) auto
  obtain st1 where d: "deliver_body S M data st = Some (None, st1)" "receive_body S M fs st1 = Some (None, st')"
    using Cons.prems(1) by (auto simp: x split: option.splits)
  have "got (unat (dl_offset st1)) (dl_sink st1) \<and> unat (dl_offset st1) = unat (dl_offset st) + length data"
  proof -
    have "data = map f [unat (dl_offset st)..<unat (dl_offset st) + length data]" "unat (dl_offset st) + length data < 2 ^ 64"
      using Cons.prems(3,4) by (simp_all add: x)
    from body_frame_taken [OF d(1) Cons.prems(2) this] show ?thesis unfolding fst_conv snd_conv if_P [OF refl] .
  qed
  then have st1: "got (unat (dl_offset st1)) (dl_sink st1)" "unat (dl_offset st1) = unat (dl_offset st) + length data" by blast+
  show ?case by (rule Cons.IH [OF d(2) st1(1)]) (use Cons.prems(3,4) in \<open>simp_all add: x st1(2) add.assoc\<close>)
qed auto

end

section \<open>A sink that keeps a log\<close>

text \<open>Its answers, and the end it wants, are arbitrary.\<close>

definition log_sink :: "(nat \<Rightarrow> unit res) \<Rightarrow> unit res \<Rightarrow> (nat \<Rightarrow> u64 option) \<Rightarrow> nat \<Rightarrow> chunk list chunk_sink" where
  "log_sink ans fin ends mx =
     \<lparr>sink_accept = (\<lambda>c s. case ans (length s) of Inl e \<Rightarrow> (Inl e, s) | Inr _ \<Rightarrow> (Inr (), s @ [c])),
      sink_finish = (\<lambda>s. (fin, s)), end_offset = (\<lambda>n _. ends n), max_chunk_size = mx\<rparr>"

fun back_to_back :: "nat \<Rightarrow> chunk list \<Rightarrow> nat \<Rightarrow> bool" where
  "back_to_back a [] b \<longleftrightarrow> a = b"
| "back_to_back a (c # cs) b \<longleftrightarrow> unat (ck_offset c) = a \<and> back_to_back (a + length (ck_data c)) cs b"

lemma back_to_back_snoc: "back_to_back a cs b \<Longrightarrow> unat (ck_offset c) = b \<Longrightarrow> back_to_back a (cs @ [c]) (b + length (ck_data c))"
  by (induction cs arbitrary: a) auto

definition logged :: "(nat \<Rightarrow> u8) \<Rightarrow> nat \<Rightarrow> nat \<Rightarrow> chunk list \<Rightarrow> bool" where
  "logged f a n cs \<longleftrightarrow> back_to_back a cs n \<and> (\<forall>c\<in>set cs. genuine f c)"

interpretation lg: artifact_sink "log_sink ans fin ends mx" f "logged f a" "\<lambda>cs. \<forall>c\<in>set cs. genuine f c"
  for ans fin ends mx f a
  by unfold_locales (auto simp: logged_def log_sink_def back_to_back_snoc split: sum.splits)

section \<open>Properties\<close>

text \<open>C22: A range that was fetched has been delivered once and in order. When the server sends the artifact's
  bytes, a successful fetch has handed the sink chunks that lie back to back from the start of the
  requested range, with the artifact's bytes in them; a fetch that was not cut short reached the end of
  the range, and the bytes it reports are the bytes behind the overlap that were delivered.\<close>

theorem fetched_range_is_delivered:
  assumes "fetch_range H send (log_sink ans fin ends mx) M k q lock [] = Some (Inr out, lock', cs)"
    and "r_start (rf_range q) \<le> r_end (rf_range q)"
    and "\<forall>rq rs. send rq = Inr rs \<longrightarrow> genuine_body f (unat (r_start (wire_range_of q))) (rs_body rs)"
  shows "\<exists>n. back_to_back (unat (r_start (wire_range_of q))) cs (unat n) \<and> (\<forall>c\<in>set cs. genuine f c) \<and> n \<le> r_end (rf_range q) \<and>
    fo_bytes out = saturating_sub n (r_start (rf_range q)) \<and>
    (fo_completion out = FullyConsumed \<longrightarrow> n = r_end (rf_range q) \<and> fo_bytes out = br_len (rf_range q))"
proof -
  have "logged f (unat (r_start (wire_range_of q))) (unat (r_start (wire_range_of q))) []" by (simp add: logged_def)
  note lg.fetch_range_delivers [OF assms(1,2) this assms(3), unfolded sum.case]
  then obtain n s1 where n: "sink_finish (log_sink ans fin ends mx) s1 = (Inr (), cs)"
    "logged f (unat (r_start (wire_range_of q))) (unat n) s1" "n \<le> r_end (rf_range q)"
    "fo_bytes out = saturating_sub n (r_start (rf_range q))" "fo_completion out = FullyConsumed \<longrightarrow> n = r_end (rf_range q)" by blast
  have "cs = s1" using n(1) by (simp add: log_sink_def)
  moreover have "saturating_sub (r_end (rf_range q)) (r_start (rf_range q)) = br_len (rf_range q)"
    using assms(2) by (auto simp: br_len_def saturating_sub_def not_less)
  ultimately show ?thesis using n(2-5) by (auto simp: logged_def)
qed

lemma hm_keeps:
  "(n, v) \<in> set hs \<Longrightarrow> m \<noteq> n \<Longrightarrow> (n, v) \<in> set (hm_insert m w hs)"
  "(n, v) \<in> set hs \<Longrightarrow> (n, v) \<in> set (hm_default m w hs)"
  by (auto simp: hm_insert_def hm_default_def image_iff)

lemma range_header_sent: "(''range'', bytes_of (to_http_range r)) \<in> set (range_request_headers H r ir allow extra)"
proof -
  have "(''range'', bytes_of (to_http_range r)) \<in> set (hm_insert ''range'' (bytes_of (to_http_range r)) [])" by (simp add: hm_insert_def)
  then show ?thesis
    by (simp add: range_request_headers_def Let_def apply_request_defaults_def hm_keeps split: option.splits)
qed

lemma host_keeps: "(''range'', v) \<in> set hs \<Longrightarrow> (''range'', v) \<in> set (add_host H u hs)"
  by (simp add: add_host_def hm_keeps split: sum.splits option.splits)


text \<open>C26: A fetch comes to an end. Once a response has arrived with finitely many frames, the delivery
  loops return, for any sink and however its end moves: the budget has a positive limit, and no sink
  asks for chunks of no bytes.\<close>

theorem fetch_returns:
  assumes "fm_limit M \<noteq> 0" "max_chunk_size S \<noteq> 0"
  shows "\<exists>y. fetch_range H send S M k q lock s = Some y"
proof -
  have "\<exists>y. receive_range S M r wire fs st = Some y" for r wire fs st
  proof (induction fs arbitrary: st)
    case (Cons x fs)
    show ?case
    proof (cases x)
      case (Inr data)
      obtain e st1 where "deliver_range_bytes S M r wire data st = Some (e, st1)" using deliver_returns [OF assms, of r wire data st] by auto
      then show ?thesis using Cons.IH [of st1] by (cases e) (auto simp: Inr)
    qed simp
  qed simp
  note returns = this
  show ?thesis
  proof (cases rule: fetch_range_cases [of H send S M k q lock s])
    case (answered rq rs len lock1)
    obtain e st where "receive_range S M (rf_range q) (wire_range_of q) (rs_body rs) (fetch_begin q s) = Some (e, st)"
      using returns by (metis surj_pair)
    then show ?thesis using answered(5) by (cases e) (auto split: prod.splits)
  qed blast
qed

text \<open>An Alt-Svc entry with a parameter is not understood. The port of \<open>h3=":443"\<close> is found, but the same
  entry followed by a lifetime, as servers send it, is skipped.\<close>

theorem alt_svc_parameters_hide_the_port:
  "alt_svc_entry (''h3='' @ [CHR 0x22] @ '':443'' @ [CHR 0x22]) = Some 443 \<and>
   alt_svc_entry (''h3='' @ [CHR 0x22] @ '':443'' @ [CHR 0x22] @ ''; ma=86400'') = None"
  by (simp add: alt_svc_entry_def trim_def is_ws_def eq_ignore_case_def lower_def trim_quotes_def parse_u16_def parse_u64_def
      is_digit_def digits_value_def digit_value_def)

section \<open>Examples\<close>

definition demo_H :: "string http_env" where
  "demo_H = \<lparr>request_target_of = (\<lambda>u. u), host_port_of = (\<lambda>_. None), header_value = (\<lambda>_. None),
     header_text = (\<lambda>_. Some (render_content_range \<lparr>cr_first = 2, cr_last = 3, complete_length = Some 4\<rparr>)), valid_target = (\<lambda>_. True),
     join_url = (\<lambda>_ _. None), date_of = (\<lambda>_. None), retry_date_of = (\<lambda>_. None), now_of = 0, user_agent = ''xde''\<rparr>"

definition demo_answer :: http_response where
  "demo_answer = \<lparr>rs_status = 206, rs_headers = [(''content-range'', [])], rs_body = [Inr [2], Inr [3]]\<rparr>"

definition demo_fetch :: "string range_fetch" where
  "demo_fetch = \<lparr>rf_source = \<lparr>sc_url = ''/'', sc_if_range = None, sc_allow_compressed = False, sc_extra_headers = [], sc_deadline = None\<rparr>,
     rf_range = \<lparr>r_start = 3, r_end = 4\<rparr>, rf_overlap = 1, rf_is_resume = False\<rparr>"

definition demo_memory :: fetch_memory where
  "demo_memory = \<lparr>fm_limit = 8, fm_refuses = (\<lambda>_ _. None)\<rparr>"

abbreviation demo_sink :: "chunk list chunk_sink" where
  "demo_sink \<equiv> log_sink (\<lambda>_. Inr ()) (Inr ()) (\<lambda>_. None) 8"

lemma demo_wire: "wire_range_of demo_fetch = ByteRange_new 2 4"
  by (simp add: wire_range_of_def demo_fetch_def saturating_sub_def)

lemma demo_range: "rf_range demo_fetch = ByteRange_new 3 4"
  by (simp add: demo_fetch_def)

text \<open>A sink that accepts both chunks receives the demonstration body.\<close>

lemma one_byte_frame:
  assumes "sink_accept S \<lparr>ck_offset = dl_offset st, ck_data = [b]\<rparr> (dl_sink st) = (Inr (), s1)" "dl_offset st < r_end wire"
    and "max_chunk_size S \<noteq> 0" "fm_limit M \<noteq> 0" "\<forall>n b. fm_refuses M n b = None" "\<forall>n s. end_offset S n s \<in> {None, Some (r_end wire)}"
  shows "deliver_range_bytes S M r wire [b] st =
    Some (None, st\<lparr>dl_sink := s1, dl_accepts := dl_accepts st + 1, dl_offset := dl_offset st + 1, dl_received := dl_received st + 1,
      dl_useful := count_useful r 1 st, dl_reads := dl_reads st + 1\<rparr>)"
proof -
  have ends: "end_offset S n s = None \<or> end_offset S n s = Some (r_end wire)" for n s using assms(6) by blast
  have en: "min (case end_offset S (dl_reads st) (dl_sink st) of None \<Rightarrow> r_end wire | Some e \<Rightarrow> e) (r_end wire) = r_end wire"
    using ends [of "dl_reads st" "dl_sink st"] by auto
  have room: "0 < unat (r_end wire - dl_offset st)" using assms(2) by (simp add: unat_gt_0)
  then have am: "chunk_amount S M (length [b]) (r_end wire - dl_offset st) = 1"
    using assms(3,4) by (simp add: chunk_amount_def min_def Suc_le_eq unat_gt_0)
  define st1 where "st1 = st\<lparr>dl_reads := dl_reads st + 1\<rparr>"
  have ck: "deliver_chunk S M r (take 1 [b]) st1 = (None, st1\<lparr>dl_sink := s1, dl_accepts := dl_accepts st + 1, dl_offset := dl_offset st + 1,
      dl_received := dl_received st + 1, dl_useful := count_useful r 1 st1\<rparr>)"
    using assms(1,5) by (simp add: deliver_chunk_def st1_def)
  have "\<not> r_end wire \<le> dl_offset st" "\<not> unat (r_end wire - dl_offset st) < length [b]" using assms(2) room by simp_all
  then have "deliver_range_bytes S M r wire [b] st = (case deliver_chunk S M r (take 1 [b]) st1 of
      (Some e, st3) \<Rightarrow> Some (Some e, st3) | (None, st3) \<Rightarrow> deliver_range_bytes S M r wire (drop 1 [b]) st3)"
    by (subst deliver_range_bytes.simps) (simp only: en am Let_def st1_def [symmetric] if_False list.distinct simp_thms)
  then show ?thesis unfolding ck by (simp add: deliver_range_bytes.simps st1_def count_useful_def)
qed

lemma demo_received:
  assumes "sink_accept S \<lparr>ck_offset = 2, ck_data = [2]\<rparr> s0 = (Inr (), s1)" "sink_accept S \<lparr>ck_offset = 3, ck_data = [3]\<rparr> s1 = (Inr (), s2)"
    and "max_chunk_size S \<noteq> 0" "fm_limit M \<noteq> 0" "\<forall>n b. fm_refuses M n b = None" "\<forall>n s. end_offset S n s \<in> {None, Some 4}"
    and "rf_range q = ByteRange_new a 4" "a = 2 \<or> a = 3" "wire_range_of q = ByteRange_new 2 4"
  shows "receive_range S M (rf_range q) (ByteRange_new 2 4) (rs_body demo_answer) (fetch_begin q s0) =
     Some (None, \<lparr>dl_offset = 4, dl_received = 2, dl_useful = 4 - a, dl_truncated = False, dl_sink = s2, dl_reads = 2, dl_accepts = 2\<rparr>)"
proof -
  note frame = one_byte_frame [where S = S and M = M and wire = "ByteRange_new 2 4", OF _ _ assms(3-5)]
  have st0: "fetch_begin q s0 = \<lparr>dl_offset = 2, dl_received = 0, dl_useful = 0, dl_truncated = False, dl_sink = s0, dl_reads = 0, dl_accepts = 0\<rparr>"
    by (simp add: fetch_begin_def assms(9))
  have f1: "deliver_range_bytes S M r (ByteRange_new 2 4) [2]
      \<lparr>dl_offset = 2, dl_received = 0, dl_useful = 0, dl_truncated = False, dl_sink = s0, dl_reads = 0, dl_accepts = 0\<rparr> =
    Some (None, \<lparr>dl_offset = 3, dl_received = 1, dl_useful = u, dl_truncated = False, dl_sink = s1, dl_reads = Suc 0, dl_accepts = Suc 0\<rparr>)"
    if "u = count_useful r 1 \<lparr>dl_offset = 2, dl_received = 0, dl_useful = 0, dl_truncated = False, dl_sink = s0, dl_reads = 0, dl_accepts = 0\<rparr>" for r u
    by (subst frame) (use assms(1,6) in \<open>simp_all add: that\<close>)
  have f2: "deliver_range_bytes S M r (ByteRange_new 2 4) [3]
      \<lparr>dl_offset = 3, dl_received = 1, dl_useful = v, dl_truncated = False, dl_sink = s1, dl_reads = Suc 0, dl_accepts = Suc 0\<rparr> =
    Some (None, \<lparr>dl_offset = 4, dl_received = 2, dl_useful = u, dl_truncated = False, dl_sink = s2, dl_reads = 2, dl_accepts = 2\<rparr>)"
    if "u = count_useful r 1 \<lparr>dl_offset = 3, dl_received = 1, dl_useful = v, dl_truncated = False, dl_sink = s1, dl_reads = Suc 0, dl_accepts = Suc 0\<rparr>" for r u v
    by (subst frame) (use assms(2,6) in \<open>simp_all add: that\<close>)
  show ?thesis using assms(8)
    by (auto simp: demo_answer_def st0 f1 f2 assms(7) count_useful_def saturating_sub_def saturating_add_def Let_def)
qed

lemma demo_answered:
  assumes "wire_range_of q = ByteRange_new 2 4"
  shows "fetch_range demo_H (\<lambda>_. Inr demo_answer) S M k q (lock_new None None None) s =
    (case receive_range S M (rf_range q) (ByteRange_new 2 4) (rs_body demo_answer) (fetch_begin q s) of
       None \<Rightarrow> None
     | Some (Some e, st) \<Rightarrow> Some (Inl e, lock_new None None (Some 4), dl_sink st)
     | Some (None, st) \<Rightarrow>
         (case finish_range S k (has_connection_close (rs_headers demo_answer)) (ByteRange_new 2 4) st of
            (r, s1) \<Rightarrow> Some (r, lock_new None None (Some 4), s1)))"
proof -
  have rq: "\<exists>rq. range_request demo_H q = Inr rq" by (simp add: range_request_def build_request_def demo_H_def Let_def)
  have ck: "check_range_response demo_H q demo_answer = Inr (Some 4)"
    by (simp add: check_range_response_def demo_answer_def classify_status_def header_str_def hm_get_def demo_H_def parse_render cr_valid_def
        validate_against_def assms checked_add_def bad_encoding_def Let_def)
  have ob: "observe_identity demo_H (lock_new None None None) (rs_headers demo_answer) (Some 4) = (Inr (), lock_new None None (Some 4))"
    by (simp add: observe_identity_def lock_validate_def lock_etag_def lock_last_modified_def lock_length_def lock_new_def header_str_def
        hm_get_def demo_answer_def)
  obtain rq where "range_request demo_H q = Inr rq" using rq by blast
  then show ?thesis using ck ob by (simp add: fetch_range_def fetch_begin_def assms Let_def)
qed

lemma demo_open: "\<not> has_connection_close (rs_headers demo_answer)"
  by (simp add: has_connection_close_def hm_get_all_def demo_answer_def)

lemma demo_fetched:
  "fetch_range demo_H (\<lambda>_. Inr demo_answer) demo_sink demo_memory Session_H1 demo_fetch (lock_new None None None) [] =
     Some (Inr \<lparr>fo_bytes = 1, fo_completion = FullyConsumed, fo_truncated = False, fo_reusable = True\<rparr>, lock_new None None (Some 4),
       [\<lparr>ck_offset = 2, ck_data = [2]\<rparr>, \<lparr>ck_offset = 3, ck_data = [3]\<rparr>])"
proof -
  have "receive_range demo_sink demo_memory (rf_range demo_fetch) (ByteRange_new 2 4) (rs_body demo_answer) (fetch_begin demo_fetch []) =
     Some (None, \<lparr>dl_offset = 4, dl_received = 2, dl_useful = 4 - 3, dl_truncated = False,
       dl_sink = [\<lparr>ck_offset = 2, ck_data = [2]\<rparr>, \<lparr>ck_offset = 3, ck_data = [3]\<rparr>], dl_reads = 2, dl_accepts = 2\<rparr>)"
    by (rule demo_received) (simp_all add: log_sink_def demo_memory_def demo_range demo_wire)
  then show ?thesis unfolding demo_answered [OF demo_wire]
    by (simp add: finish_range_def log_sink_def br_len_def saturating_sub_def demo_open session_reusable_def)
qed

theorem fetched_range_is_delivered_witness:
  "\<exists>out lock' cs. fetch_range demo_H (\<lambda>_. Inr demo_answer) demo_sink demo_memory Session_H1 demo_fetch (lock_new None None None) [] =
     Some (Inr out, lock', cs) \<and> fo_completion out = FullyConsumed \<and> fo_bytes out = 1 \<and> back_to_back 2 cs 4"
proof -
  have "\<forall>rq rs. (\<lambda>_. Inr demo_answer) rq = Inr rs \<longrightarrow> genuine_body of_nat (unat (r_start (wire_range_of demo_fetch))) (rs_body rs)"
    by (simp add: demo_answer_def demo_wire)
  from fetched_range_is_delivered [OF demo_fetched _ this] show ?thesis
    by (auto simp: demo_fetched demo_wire demo_range)
qed


theorem fetch_returns_witness:
  "\<exists>y. fetch_range demo_H (\<lambda>_. Inr demo_answer) (log_sink (\<lambda>_. Inr ()) (Inr ()) (\<lambda>_. Some 3) 8) demo_memory Session_H1 demo_fetch
     (lock_new None None None) [] = Some y"
  by (rule fetch_returns) (simp_all add: demo_memory_def log_sink_def)

end
