(* ===== verification/Shard_Props.thy ===== *)
theory Shard_Props
  imports Shard_Work File_Props Fetch_Props
begin

text \<open>
  What the work of a shard achieves. The locale \<open>shared_part\<close> is what the tasks that share a partial
  file owe each other: none destroys bytes of the artifact that are there. Under it the lane sink is
  an \<open>artifact_sink\<close>, so that the facts about fetches apply, and a range that is reported as verified
  is in the file. The lanes themselves satisfy it.
\<close>

lemma delivered_bytes:
  "unat ` br_set (ByteRange_new (r_start (rf_range q)) (r_start (rf_range q) + saturating_sub n (r_start (rf_range q)))) \<subseteq>
     {unat (r_start (wire_range_of q))..<unat n}"
proof -
  have "r_start (wire_range_of q) \<le> r_start (rf_range q)" by (simp add: wire_range_of_def saturating_sub_le)
  then show ?thesis by (auto simp: br_set_def saturating_sub_def word_le_nat_alt word_less_nat_alt split: if_splits)
qed

section \<open>Tasks that share a partial file\<close>

locale shared_part =
  fixes f :: "nat \<Rightarrow> u8" and i :: nat and others :: "disk interference"
  assumes rely: "fa.holds f B (blobs (sw_store w) i) \<Longrightarrow> fa.holds f B (blobs (sw_store (others n w)) i)"
begin

lemma meanwhile_holds: "fa.holds f B (blobs (sw_store w) i) \<Longrightarrow> fa.holds f B (blobs (sw_store (meanwhile others w)) i)"
  by (simp add: meanwhile_def rely)

lemma compare_holds:
  "fa.holds f B (blobs (sw_store w) i) \<Longrightarrow> compare_spans rd others off bytes cs w = (r, w') \<Longrightarrow> fa.holds f B (blobs (sw_store w') i)"
proof (induction cs arbitrary: w)
  case (Cons c cs)
  then show ?case using meanwhile_holds by (auto simp: Let_def split: sum.splits if_splits)
qed simp

lemma accept_holds:
  assumes "fa.holds f B (blobs (sw_store w) i)" "ln_file (ls_lane sk) = i" "genuine f c" "lane_accept F others sk c w = (r, w')"
  shows "fa.holds f (B \<union> (case r of Inl _ \<Rightarrow> {} | Inr _ \<Rightarrow> {unat (ck_offset c)..<unat (ck_offset c) + length (ck_data c)})) (blobs (sw_store w') i)"
proof -
  obtain r1 w1 where chk: "(if has_multiple_writers (sw_prov w) then check_cross_source F others sk (ck_offset c) (ck_data c) w else (Inr (), w)) = (r1, w1)"
    by fastforce
  have w1: "fa.holds f B (blobs (sw_store w1) i)"
    using chk assms(1) compare_holds by (auto simp: check_cross_source_def split: if_splits)
  show ?thesis
  proof (cases r1)
    case (Inl e)
    then show ?thesis using assms(4) w1 by (auto simp: lane_accept_def chk)
  next
    case (Inr u)
    define w2 where "w2 = meanwhile others w1"
    obtain r2 d where wr: "lane_write_chunk (F (sw_turn w2)) (ls_lane sk) c (sw_store w2) = (r2, d)" by fastforce
    note put = lane_write_holds(1) [OF meanwhile_holds [OF w1, folded w2_def] assms(2,3) wr]
    show ?thesis
    proof (cases r2)
      case (Inl e)
      then show ?thesis using assms(4) put Inr by (auto simp: lane_accept_def chk w2_def [symmetric] wr)
    next
      case (Inr x)
      then have "r = Inr () \<and> w' = record_written sk (ck_offset c) (length (ck_data c)) (meanwhile others (w2\<lparr>sw_store := d\<rparr>))"
        using assms(4) \<open>r1 = Inr u\<close> by (simp add: lane_accept_def chk w2_def [symmetric] wr)
      then show ?thesis using meanwhile_holds [of _ "w2\<lparr>sw_store := d\<rparr>"] put Inr by (simp add: record_written_def)
    qed
  qed
qed

text \<open>The lane sink takes the artifact from \<open>a\<close> on and keeps the bytes \<open>B\<close>.\<close>

definition taken :: "nat set \<Rightarrow> nat \<Rightarrow> nat \<Rightarrow> disk sink_world \<Rightarrow> bool" where
  "taken B a n w \<longleftrightarrow> a \<le> n \<and> fa.holds f (B \<union> {a..<n}) (blobs (sw_store w) i)"

lemma lane_sink_takes:
  assumes "ln_file (ls_lane sk) = i"
  shows "artifact_sink (lane_chunk_sink F others sk) f (taken B a) (\<lambda>w. fa.holds f B (blobs (sw_store w) i))"
proof
  fix n w c and w' :: "disk sink_world" and e
  show "taken B a n w \<Longrightarrow> fa.holds f B (blobs (sw_store w) i)" by (auto simp: taken_def intro: fa.holds_mono)
  assume t: "taken B a (unat (ck_offset c)) w" and g: "genuine f c"
  note acc = accept_holds [OF t [unfolded taken_def, THEN conjunct2] assms g]
  have "B \<union> {a..<unat (ck_offset c)} \<union> {unat (ck_offset c)..<unat (ck_offset c) + length (ck_data c)} =
      B \<union> {a..<unat (ck_offset c) + length (ck_data c)}"
    using t by (auto simp: taken_def)
  then show "sink_accept (lane_chunk_sink F others sk) c w = (Inr (), w') \<Longrightarrow> taken B a (unat (ck_offset c) + length (ck_data c)) w'"
    using acc [of F "Inr ()" w'] t by (simp add: lane_chunk_sink_def taken_def)
  show "sink_accept (lane_chunk_sink F others sk) c w = (Inl e, w') \<Longrightarrow> fa.holds f B (blobs (sw_store w') i)"
    using acc [of F "Inl e" w'] by (auto simp: lane_chunk_sink_def intro: fa.holds_mono)
qed

lemma finish_holds: "fa.holds f B (blobs (sw_store w) i) \<Longrightarrow> lane_finish F others sk w = (r, w') \<Longrightarrow> fa.holds f B (blobs (sw_store w') i)"
  by (auto simp: lane_finish_def Let_def meanwhile_holds split: if_splits)

lemma run_range_holds:
  assumes "run_range H send F others M session l q jc frontier flag source lock w = Some (r, e, lock', w')" "ln_file l = i"
    and "r_start (rf_range q) \<le> r_end (rf_range q)" "fa.holds f B (blobs (sw_store w) i)"
    and "\<forall>rq rs. send rq = Inr rs \<longrightarrow> genuine_body f (unat (r_start (wire_range_of q))) (rs_body rs)"
  shows "fa.holds f (B \<union> (case r of Inl _ \<Rightarrow> {} | Inr out \<Rightarrow> unat ` br_set (ByteRange_new (r_start (rf_range q)) (r_start (rf_range q) + fo_bytes out))))
    (blobs (sw_store w') i)"
proof -
  let ?S = "lane_chunk_sink F others (lane_sink_new l jc frontier flag source)"
  consider "r = Inl \<lparr>re_error = pool_retired, re_state = State_Gone\<rparr>" "w' = w"
    | e1 st where "r = Inl \<lparr>re_error = e1, re_state = st\<rparr>" "w' = w"
    | k r1 where "fetch_range H send ?S M k q lock w = Some (r1, lock', w')" "case r1 of Inl _ \<Rightarrow> (\<exists>x. r = Inl x) | Inr out \<Rightarrow> r = Inr out"
    using assms(1) by (auto simp: run_range_def Let_def split: option.splits sum.splits prod.splits)
  then show ?thesis
  proof cases
    case (3 k r1)
    let ?a = "unat (r_start (wire_range_of q))"
    have sk: "artifact_sink ?S f (taken B ?a) (\<lambda>w. fa.holds f B (blobs (sw_store w) i))"
      by (rule lane_sink_takes) (simp add: lane_sink_new_def assms(2))
    have "taken B ?a ?a w" using assms(4) by (simp add: taken_def)
    note del = artifact_sink.fetch_range_delivers [OF sk 3(1) assms(3) this assms(5)]
    have fin: "sink_finish ?S = lane_finish F others (lane_sink_new l jc frontier flag source)" by (simp add: lane_chunk_sink_def)
    show ?thesis
    proof (cases r1)
      case (Inl x)
      then show ?thesis using del 3(2) finish_holds [OF _ prod.collapse [symmetric]] by (auto simp: fin)
    next
      case (Inr out)
      with del obtain n s1 where n: "lane_finish F others (lane_sink_new l jc frontier flag source) s1 = (Inr (), w')" "taken B ?a (unat n) s1"
        "fo_bytes out = saturating_sub n (r_start (rf_range q))" by (auto simp: fin)
      have "fa.holds f (B \<union> {?a..<unat n}) (blobs (sw_store w') i)" using n(2) by (intro finish_holds [OF _ n(1)]) (simp add: taken_def)
      moreover have "unat ` br_set (ByteRange_new (r_start (rf_range q)) (r_start (rf_range q) + fo_bytes out)) \<subseteq> {?a..<unat n}"
        using delivered_bytes [of q n] by (simp add: n(3))
      ultimately show ?thesis using 3(2) Inr by (auto intro: fa.holds_mono)
    qed
  qed (use assms(4) in auto)
qed

end

section \<open>Lanes satisfy the contract\<close>

text \<open>The others are lanes that write genuine chunks into the file, and tasks that touch other files.\<close>

definition writes_of :: "(nat \<Rightarrow> u8) \<Rightarrow> nat \<Rightarrow> (file_env \<times> file_lane \<times> chunk) list \<Rightarrow> (file_env \<times> file_lane \<times> chunk) list" where
  "writes_of f i ws = filter (\<lambda>(_, l, c). ln_file l = i \<longrightarrow> genuine f c) ws"

definition other_lanes :: "(nat \<Rightarrow> u8) \<Rightarrow> nat \<Rightarrow> (nat \<Rightarrow> (file_env \<times> file_lane \<times> chunk) list) \<Rightarrow> disk interference" where
  "other_lanes f i ws n w = w\<lparr>sw_store := snd (lane_run (writes_of f i (ws n)) (sw_store w))\<rparr>"

lemma lane_run_holds:
  assumes "fa.holds f B (blobs d i)" "\<forall>(F, l, c)\<in>set ws. ln_file l = i \<longrightarrow> genuine f c"
  shows "fa.holds f B (blobs (snd (lane_run ws d)) i)"
  using assms
proof (induction ws arbitrary: d)
  case (Cons w ws)
  obtain F l c where w: "w = (F, l, c)" by (cases w)
  obtain r d1 where one: "lane_write_chunk F l c d = (r, d1)" by fastforce
  have "fa.holds f B (blobs d1 i)"
  proof (cases "ln_file l = i")
    case True
    then show ?thesis using lane_write_holds(1) [OF Cons.prems(1) True _ one] Cons.prems(2) by (auto simp: w intro: fa.holds_mono)
  next
    case False
    then have "blobs d1 i = blobs d i" using one
      by (auto simp: lane_write_chunk_def Let_def write_all_at_def upd_blob_def split: if_splits option.splits)
    then show ?thesis using Cons.prems(1) by simp
  qed
  then show ?case using Cons.IH Cons.prems(2) by (simp add: w one split: prod.splits) (metis snd_conv)
qed simp

interpretation ol: shared_part f i "other_lanes f i ws" for f i ws
proof
  fix B n and w :: "disk sink_world" assume "fa.holds f B (blobs (sw_store w) i)"
  then show "fa.holds f B (blobs (sw_store (other_lanes f i ws n w)) i)"
    by (simp add: other_lanes_def) (rule lane_run_holds, auto simp: writes_of_def)
qed

section \<open>Mirror samples\<close>

text \<open>A sample sink has compared the bytes \<open>f\<close> of the mirror with the file, which is not changed
  meanwhile.\<close>

definition quiet :: "nat \<Rightarrow> disk interference \<Rightarrow> bool" where
  "quiet i others \<longleftrightarrow> (\<forall>n w. blobs (sw_store (others n w)) i = blobs (sw_store w) i)"

definition compared :: "(nat \<Rightarrow> u8) \<Rightarrow> nat \<Rightarrow> u8 list \<Rightarrow> nat \<Rightarrow> nat \<Rightarrow> disk sink_world \<Rightarrow> bool" where
  "compared f i b a n w \<longleftrightarrow> a \<le> n \<and> blobs (sw_store w) i = b \<and> fa.holds f {a..<n} b"

lemma read_back_exact:
  assumes "lane_read_back F l off len d = Inr data"
  shows "fa.holds (\<lambda>x. data ! (x - unat off)) {unat off..<unat off + len} (blobs d (ln_file l))" "length data = len"
  using assms by (auto simp: lane_read_back_def read_exact_at_def fa.holds_def nth_opt_def split: if_splits option.splits)

lemma sample_sink_compares:
  assumes "quiet i others" "ln_file l = i"
  shows "artifact_sink (sample_sink F others l) f (compared f i b a) (\<lambda>w. blobs (sw_store w) i = b)"
proof
  fix n w c and w' :: "disk sink_world" and e
  show "compared f i b a n w \<Longrightarrow> blobs (sw_store w) i = b" by (simp add: compared_def)
  assume t: "compared f i b a (unat (ck_offset c)) w" and g: "genuine f c"
  have q: "blobs (sw_store (meanwhile others w)) i = b" using assms(1) t by (simp add: quiet_def meanwhile_def compared_def)
  let ?o = "unat (ck_offset c)" and ?n = "length (ck_data c)"
  show "compared f i b a (?o + ?n) w'" if "sink_accept (sample_sink F others l) c w = (Inr (), w')"
  proof -
    have w': "w' = meanwhile others w"
      and "lane_read_back (F (sw_turn w')) l (ck_offset c) ?n (sw_store w') = Inr (ck_data c)"
      using that by (auto simp: sample_sink_def sample_accept_def Let_def split: sum.splits if_splits)
    note rb = read_back_exact(1) [OF this(2), unfolded assms(2) w' q]
    have "ck_data c ! (x - ?o) = f x" if "x \<in> {?o..<?o + ?n}" for x
      using g that unfolding genuine_def by (metis (no_types, lifting) add_diff_cancel_left' atLeastLessThan_iff diff_less_mono le_add_diff_inverse length_upt nth_map nth_upt)
    then have "fa.holds f ({a..<?o} \<union> {?o..<?o + ?n}) b" using rb t by (auto simp: fa.holds_def compared_def)
    moreover have "{a..<?o} \<union> {?o..<?o + ?n} = {a..<?o + ?n}" using t by (auto simp: compared_def)
    ultimately show ?thesis using t q by (simp add: compared_def w')
  qed
  show "blobs (sw_store w') i = b" if "sink_accept (sample_sink F others l) c w = (Inl e, w')"
    using that q by (auto simp: sample_sink_def sample_accept_def Let_def split: sum.splits if_splits)
qed

section \<open>Foreign bytes\<close>

text \<open>A byte of the file that another source wrote first, once two sources are known.\<close>

definition foreign_byte :: "nat \<Rightarrow> u64 \<Rightarrow> u8 \<Rightarrow> source_id \<Rightarrow> disk sink_world \<Rightarrow> bool" where
  "foreign_byte i x v t w \<longleftrightarrow> nth_opt (blobs (sw_store w) i) (unat x) = Some v \<and> spans_ok (spans (sw_prov w)) \<and>
     multi_writer (sw_prov w) \<and> (x, t) \<in> written (spans (sw_prov w))"

lemma foreign_byte_meanwhile:
  "\<forall>n w. foreign_byte i x v t w \<longrightarrow> foreign_byte i x v t (others n w) \<Longrightarrow> foreign_byte i x v t w \<Longrightarrow> foreign_byte i x v t (meanwhile others w)"
  by (simp add: foreign_byte_def meanwhile_def)

lemma compare_foreign:
  assumes "\<forall>n w. foreign_byte i x v t w \<longrightarrow> foreign_byte i x v t (others n w)" "foreign_byte i x v t w" "ln_file l = i"
    and "compare_spans (\<lambda>n. lane_read_back (F n) l) others off bytes cs w = (r, w')"
  shows "foreign_byte i x v t w'"
    and "r = Inr () \<Longrightarrow> c \<in> set cs \<Longrightarrow> x \<in> br_set c \<Longrightarrow> nth_opt (bytes_at off bytes c) (unat x - unat (r_start c)) = Some v"
proof -
  show "foreign_byte i x v t w'" using assms(2,4)
  proof (induction cs arbitrary: w)
    case (Cons c cs)
    then show ?case using foreign_byte_meanwhile [OF assms(1) Cons.prems(1)] by (auto simp: Let_def split: sum.splits if_splits)
  qed simp
  show "nth_opt (bytes_at off bytes c) (unat x - unat (r_start c)) = Some v" if "r = Inr ()" "c \<in> set cs" "x \<in> br_set c"
    using assms(2,4) that(1,2)
  proof (induction cs arbitrary: w)
    case (Cons c1 cs)
    let ?w = "meanwhile others w"
    have fw: "foreign_byte i x v t ?w" by (rule foreign_byte_meanwhile [OF assms(1) Cons.prems(1)])
    have rd: "lane_read_back (F (sw_turn ?w)) l (r_start c1) (unat (br_len c1)) (sw_store ?w) = Inr (bytes_at off bytes c1)"
      and rest: "compare_spans (\<lambda>n. lane_read_back (F n) l) others off bytes cs ?w = (r, w')"
      using Cons.prems(2,3) by (auto simp: Let_def split: sum.splits if_splits)
    show ?case
    proof (cases "c = c1")
      case True
      note rb = read_back_exact [OF rd]
      have "unat (r_start c) \<le> unat x \<and> unat x < unat (r_start c) + unat (br_len c)"
        using that(3) by (auto simp: br_set_def br_len_def saturating_sub_def word_le_nat_alt word_less_nat_alt unat_sub_if')
      then show ?thesis using rb fw assms(3) True by (auto simp: fa.holds_def foreign_byte_def nth_opt_def)
    next
      case False
      then show ?thesis using Cons.IH [OF fw rest Cons.prems(3)] Cons.prems(4) by simp
    qed
  qed simp
qed

lemma write_keeps_byte:
  assumes "nth_opt b x = Some v" "off \<le> x \<Longrightarrow> x < off + length data \<Longrightarrow> data ! (x - off) = v"
  shows "nth_opt (write_at off (take n data) b) x = Some v"
proof (cases "off \<le> x \<and> x < off + length (take n data)")
  case True
  then show ?thesis using fa.get_written [of off x "take n data" b] assms(2) by (simp add: less_diff_conv2 min_def split: if_splits)
next
  case False
  then show ?thesis using fa.get_kept [OF _ assms(1), of off "take n data"] by (simp add: not_le not_less)
qed

lemma lane_write_keeps_byte:
  assumes "lane_write_chunk F l c d = (r, d1)" "nth_opt (blobs d i) x = Some v"
    and "unat (ck_offset c) \<le> x \<Longrightarrow> x < unat (ck_offset c) + length (ck_data c) \<Longrightarrow> ck_data c ! (x - unat (ck_offset c)) = v"
  shows "nth_opt (blobs d1 i) x = Some v"
  using assms(1,2) write_keeps_byte [OF assms(2,3)] write_keeps_byte [OF assms(2,3), of "length (ck_data c)"]
  by (auto simp: lane_write_chunk_def Let_def write_all_at_def upd_blob_def split: if_splits option.splits)

lemma conflict_byte:
  assumes "spans_ok sps" "(x, t) \<in> written sps" "t \<noteq> s" "unat off \<le> unat x" "unat x < unat off + length bytes" "unat off + length bytes < 2 ^ 64"
    and "\<And>c. c \<in> set (foreign_loop sps (ByteRange_new off (off + of_nat (length bytes))) s) \<Longrightarrow> x \<in> br_set c \<Longrightarrow>
      nth_opt (bytes_at off bytes c) (unat x - unat (r_start c)) = Some v"
  shows "bytes ! (unat x - unat off) = v"
proof -
  let ?rg = "ByteRange_new off (off + of_nat (length bytes))"
  have e: "unat (off + of_nat (length bytes)) = unat off + length bytes" using assms(6) by (simp add: unat_word_ariths unat_of_nat)
  have "x \<in> br_set ?rg" using assms(4,5) by (simp add: br_set_def word_le_nat_alt word_less_nat_alt e)
  then have "x \<in> list_set (foreign_loop sps ?rg s)" using foreign_loop_correct [OF assms(1)] assms(2,3) by blast
  then obtain c where c: "c \<in> set (foreign_loop sps ?rg s)" "x \<in> br_set c" by (auto simp: list_set_def)
  then have "r_start c \<in> br_set c" by (auto simp: br_set_def)
  then have "r_start c \<in> br_set ?rg" using c(1) foreign_loop_correct [OF assms(1), of ?rg s] by (auto simp: list_set_def)
  then have o: "unat off \<le> unat (r_start c)" "unat (r_start c - off) = unat (r_start c) - unat off" "unat (r_start c) \<le> unat x"
    using c(2) by (auto simp: br_set_def word_le_nat_alt unat_sub_if')
  from assms(7) [OF c] show ?thesis using o assms(5) by (auto simp: bytes_at_def nth_opt_def nth_append split: if_splits)
qed

section \<open>Properties\<close>

text \<open>C20: Another mirror's bytes survive. Once two sources are known to write a file, a sink never changes a
  byte that another source wrote first, whatever chunk it is given and whatever call fails, as long
  as the other tasks do not.\<close>

theorem foreign_bytes_survive:
  assumes "foreign_byte i x v t w" "t \<noteq> ls_source_id sk" "ln_file (ls_lane sk) = i"
    and "\<forall>n w. foreign_byte i x v t w \<longrightarrow> foreign_byte i x v t (others n w)"
    and "unat (ck_offset c) + length (ck_data c) < 2 ^ 64" "lane_accept F others sk c w = (r, w')"
  shows "foreign_byte i x v t w'"
proof -
  let ?cs = "foreign_loop (spans (sw_prov w)) (ByteRange_new (ck_offset c) (ck_offset c + of_nat (length (ck_data c)))) (ls_source_id sk)"
  have m: "multi_writer (sw_prov w)" "spans_ok (spans (sw_prov w))" "(x, t) \<in> written (spans (sw_prov w))"
    using assms(1) by (simp_all add: foreign_byte_def)
  obtain r1 w1 where chk: "compare_spans (\<lambda>n. lane_read_back (F n) (ls_lane sk)) others (ck_offset c) (ck_data c) ?cs w = (r1, w1)" by fastforce
  note cmp = compare_foreign [OF assms(4,1,3) chk]
  have step: "lane_accept F others sk c w =
     (case r1 of Inl e \<Rightarrow> (Inl e, w1)
      | Inr _ \<Rightarrow> let w2 = meanwhile others w1
          in case lane_write_chunk (F (sw_turn w2)) (ls_lane sk) c (sw_store w2) of
               (Inl e, d) \<Rightarrow> (Inl e, w2\<lparr>sw_store := d\<rparr>)
             | (Inr _, d) \<Rightarrow> (Inr (), record_written sk (ck_offset c) (length (ck_data c)) (meanwhile others (w2\<lparr>sw_store := d\<rparr>))))"
    using m(1) by (simp add: lane_accept_def check_cross_source_def has_multiple_writers_def foreign_spans_def chk)
  show ?thesis
  proof (cases r1)
    case (Inl e)
    then show ?thesis using step assms(6) cmp(1) by auto
  next
    case (Inr u)
    define w2 where "w2 = meanwhile others w1"
    have w2: "foreign_byte i x v t w2" unfolding w2_def by (rule foreign_byte_meanwhile [OF assms(4) cmp(1)])
    obtain r2 d where wr: "lane_write_chunk (F (sw_turn w2)) (ls_lane sk) c (sw_store w2) = (r2, d)" by fastforce
    have "nth_opt (blobs d i) (unat x) = Some v"
      by (rule lane_write_keeps_byte [OF wr]) (use w2 conflict_byte [OF m(2,3) assms(2) _ _ assms(5)] cmp(2) Inr in \<open>auto simp: foreign_byte_def\<close>)
    then have wd: "foreign_byte i x v t (w2\<lparr>sw_store := d\<rparr>)" using w2 by (simp add: foreign_byte_def)
    have rec: "foreign_byte i x v t y \<Longrightarrow> foreign_byte i x v t (record_written sk off len y)" for y off len
      by (auto simp: foreign_byte_def record_written_def prov_record_spans prov_record_flags)
    show ?thesis using step assms(6) wd rec [OF foreign_byte_meanwhile [OF assms(4) wd]]
      by (auto simp: Inr w2_def [symmetric] wr split: sum.splits)
  qed
qed

text \<open>C18: What is reported as verified is in the file. When the source serves the artifact, a range run
  that ends with a verified range has put the artifact's bytes of that range into the partial file;
  however the run ends, the bytes of the artifact that were there are still there, while other lanes
  write into the same file.\<close>

theorem verified_range_is_on_disk:
  assumes "run_range H send F (other_lanes f i ws) M session l q jc frontier flag source lock w = Some (r, fate, lock', w')"
    and "ln_file l = i" "r_start (rf_range q) \<le> r_end (rf_range q)"
    and "\<forall>x\<in>V. nth_opt (blobs (sw_store w) i) (unat x) = Some (f (unat x))"
    and "\<forall>rq rs. send rq = Inr rs \<longrightarrow> genuine_body f (unat (r_start (wire_range_of q))) (rs_body rs)"
  shows "\<forall>x\<in>V \<union> (case range_report job a attempt (rf_range q) conn timing (map_sum id (\<lambda>out. (fo_bytes out, fo_reusable out)) r) of
                     AssignmentVerified _ _ rg _ _ _ \<Rightarrow> br_set rg | _ \<Rightarrow> {}).
    nth_opt (blobs (sw_store w') i) (unat x) = Some (f (unat x))"
proof -
  have "fa.holds f (unat ` V) (blobs (sw_store w) i)" using assms(4) by (auto simp: fa.holds_def)
  from ol.run_range_holds [OF assms(1-3) this assms(5)] show ?thesis
    by (cases r) (auto simp: fa.holds_def range_report_def)
qed

text \<open>C27: A mirror that matches serves the same bytes. When a sample ends with a match, the part of the file
  that was sampled is byte for byte what the mirror sent, and the sample wrote nothing.\<close>

theorem matching_mirrors_agree:
  assumes "run_mirror_sample H send F others refuses session l src rg jc cancelled lock w = Some (Inr out, fate, lock', w')"
    and "ms_matches out" "quiet (ln_file l) others" "r_start rg \<le> r_end rg"
    and "\<forall>rq rs. send rq = Inr rs \<longrightarrow> genuine_body g (unat (r_start rg)) (rs_body rs)"
  shows "\<forall>x\<in>br_set rg. nth_opt (blobs (sw_store w) (ln_file l)) (unat x) = Some (g (unat x))"
proof -
  let ?q = "\<lparr>rf_source = src, rf_range = rg, rf_overlap = 0, rf_is_resume = False\<rparr>"
  let ?i = "ln_file l" let ?a = "unat (r_start rg)" let ?b = "blobs (sw_store w) ?i"
  have wire: "r_start (wire_range_of ?q) = r_start rg" by (simp add: wire_range_of_def saturating_sub_def)
  obtain k o1 where fr: "fetch_range H send (sample_sink F others l) \<lparr>fm_limit = - 1, fm_refuses = refuses\<rparr> k ?q lock w = Some (Inr o1, lock', w')"
    using assms(1,2) by (auto simp: run_mirror_sample_def Let_def split: option.splits sum.splits prod.splits)
  note sk = sample_sink_compares [OF assms(3) refl, of F g ?b ?a]
  have "compared g ?i ?b ?a ?a w" by (simp add: compared_def fa.holds_def)
  with artifact_sink.fetch_range_delivers [OF sk fr] assms(4,5) wire obtain n s1 where
    n: "compared g ?i ?b ?a (unat n) s1" "fo_completion o1 = FullyConsumed \<longrightarrow> n = r_end rg" by auto
  have "fo_completion o1 = FullyConsumed" by (rule fetch_not_truncated [OF fr]) (simp add: sample_sink_def)
  then show ?thesis using n by (auto simp: compared_def fa.holds_def br_set_def word_le_nat_alt word_less_nat_alt)
qed

section \<open>Witnesses\<close>

definition demo_lane :: file_lane where
  "demo_lane = \<lparr>ln_file = 0, ln_part_path = ''f.part''\<rparr>"

definition demo_world :: "disk sink_world" where
  "demo_world = \<lparr>sw_store = demo_disk,
     sw_prov = \<lparr>spans = [(ByteRange_new 0 2, 0), (ByteRange_new 4 5, 1)], first_writer = Some 0, multi_writer = True\<rparr>, sw_turn = 0\<rparr>"

text \<open>A chunk of source 1 that disagrees with a byte of source 0 is refused.\<close>

theorem foreign_bytes_survive_witness:
  "nth_opt (blobs (sw_store (snd (lane_accept (\<lambda>_. demo_F) (\<lambda>_ w. w)
       \<lparr>ls_lane = demo_lane, ls_crash_safe = False, ls_frontier = False, ls_dynamic_end = None, ls_source_id = 1\<rparr>
       \<lparr>ck_offset = 1, ck_data = [7, 7]\<rparr> demo_world))) 0) 1 = Some 9"
proof -
  let ?sk = "\<lparr>ls_lane = demo_lane, ls_crash_safe = False, ls_frontier = False, ls_dynamic_end = None, ls_source_id = 1\<rparr>"
  have "foreign_byte 0 1 9 0 demo_world"
    by (simp add: foreign_byte_def demo_world_def demo_disk_def nth_opt_def spans_ok_simps br_set_def)
  from foreign_bytes_survive [OF this, of ?sk "\<lambda>_ w. w" "\<lparr>ck_offset = 1, ck_data = [7, 7]\<rparr>" "\<lambda>_. demo_F"] show ?thesis
    by (simp add: demo_lane_def prod_eq_iff) (simp add: foreign_byte_def)
qed

definition demo_jc :: job_context where
  "demo_jc = context_new None"

lemma demo_jc_ok: "ctx_check demo_jc = Inr ()" "jc_durability demo_jc \<noteq> CrashSafe"
  by (simp_all add: demo_jc_def context_new_def with_durability_def ctx_check_def durability_default_def)

lemma demo_alone: "other_lanes f i (\<lambda>_. []) = (\<lambda>_ w. w)"
  by (simp add: fun_eq_iff other_lanes_def writes_of_def)

abbreviation demo_lane_sink :: lane_sink where
  "demo_lane_sink \<equiv> lane_sink_new demo_lane demo_jc False (\<lambda>_. 4) 0"

lemma demo_lane_accepts:
  assumes "sw_prov w = \<lparr>spans = sps, first_writer = fw, multi_writer = False\<rparr>"
  shows "\<exists>w'. lane_accept (\<lambda>_. demo_F) (\<lambda>_ w. w) demo_lane_sink c w = (Inr (), w')"
  by (auto simp: lane_accept_def assms has_multiple_writers_def Let_def lane_write_chunk_def write_all_at_def demo_F_def)

lemma demo_ran:
  "\<exists>w'. run_range demo_H (\<lambda>_. Inr demo_answer) (\<lambda>_. demo_F) (other_lanes of_nat 0 (\<lambda>_. [])) demo_memory (Some Session_H1) demo_lane demo_fetch
     demo_jc False (\<lambda>_. 4) 0 (lock_new None None None) \<lparr>sw_store = demo_disk, sw_prov = prov_new, sw_turn = 0\<rparr> =
   Some (Inr \<lparr>fo_bytes = 1, fo_completion = FullyConsumed, fo_truncated = False, fo_reusable = True\<rparr>, Some Give_Back, lock_new None None (Some 4), w')"
proof -
  let ?S = "lane_chunk_sink (\<lambda>_. demo_F) (\<lambda>_ w. w) demo_lane_sink"
  let ?w = "\<lparr>sw_store = demo_disk, sw_prov = prov_new, sw_turn = 0\<rparr>"
  obtain w1 where w1: "sink_accept ?S \<lparr>ck_offset = 2, ck_data = [2]\<rparr> ?w = (Inr (), w1)"
    using demo_lane_accepts [of ?w "[]" None] by (auto simp: lane_chunk_sink_def prov_new_def)
  have "\<not> multi_writer (sw_prov w1)"
    using w1 by (auto simp: lane_chunk_sink_def lane_accept_def has_multiple_writers_def prov_new_def Let_def lane_write_chunk_def write_all_at_def demo_F_def
        record_written_def meanwhile_def prov_record_flags)
  then obtain w2 where w2: "sink_accept ?S \<lparr>ck_offset = 3, ck_data = [3]\<rparr> w1 = (Inr (), w2)"
    using demo_lane_accepts [of w1 "spans (sw_prov w1)" "first_writer (sw_prov w1)"] by (auto simp: lane_chunk_sink_def)
  have "receive_range ?S demo_memory (rf_range demo_fetch) (ByteRange_new 2 4) (rs_body demo_answer) (fetch_begin demo_fetch ?w) =
     Some (None, \<lparr>dl_offset = 4, dl_received = 2, dl_useful = 4 - 3, dl_truncated = False, dl_sink = w2, dl_reads = 2, dl_accepts = 2\<rparr>)"
    by (rule demo_received [OF w1 w2]) (simp_all add: demo_memory_def demo_range demo_wire, simp_all add: lane_chunk_sink_def lane_sink_new_def)
  moreover have "sink_finish ?S w2 = (Inr (), w2)" by (simp add: lane_chunk_sink_def lane_finish_def lane_sink_new_def demo_jc_ok)
  ultimately have "fetch_range demo_H (\<lambda>_. Inr demo_answer) ?S demo_memory Session_H1 demo_fetch (lock_new None None None) ?w =
      Some (Inr \<lparr>fo_bytes = 1, fo_completion = FullyConsumed, fo_truncated = False, fo_reusable = True\<rparr>, lock_new None None (Some 4), w2)"
    unfolding demo_answered [OF demo_wire] by (simp add: finish_range_def br_len_def saturating_sub_def demo_open session_reusable_def)
  then show ?thesis by (simp add: run_range_def demo_alone demo_jc_ok outcome_state_def settle_session_def)
qed

theorem verified_range_is_on_disk_witness:
  "\<exists>r fate lock' w'. run_range demo_H (\<lambda>_. Inr demo_answer) (\<lambda>_. demo_F) (other_lanes of_nat 0 (\<lambda>_. [])) demo_memory (Some Session_H1) demo_lane
       demo_fetch demo_jc False (\<lambda>_. 4) 0 (lock_new None None None) \<lparr>sw_store = demo_disk, sw_prov = prov_new, sw_turn = 0\<rparr> = Some (Inr r, fate, lock', w') \<and>
     nth_opt (blobs (sw_store w') 0) 3 = Some 3"
proof -
  obtain w' where ran: "run_range demo_H (\<lambda>_. Inr demo_answer) (\<lambda>_. demo_F) (other_lanes of_nat 0 (\<lambda>_. [])) demo_memory (Some Session_H1) demo_lane demo_fetch
     demo_jc False (\<lambda>_. 4) 0 (lock_new None None None) \<lparr>sw_store = demo_disk, sw_prov = prov_new, sw_turn = 0\<rparr> =
   Some (Inr \<lparr>fo_bytes = 1, fo_completion = FullyConsumed, fo_truncated = False, fo_reusable = True\<rparr>, Some Give_Back, lock_new None None (Some 4), w')"
    using demo_ran by blast
  have "\<forall>rq rs. (\<lambda>_. Inr demo_answer) rq = Inr rs \<longrightarrow> genuine_body of_nat (unat (r_start (wire_range_of demo_fetch))) (rs_body rs)"
    by (simp add: demo_answer_def demo_wire)
  from verified_range_is_on_disk [OF ran _ _ _ this, of "{}"] have "nth_opt (blobs (sw_store w') 0) 3 = Some 3"
    by (simp add: demo_lane_def demo_range range_report_def br_set_def) (drule bspec [of _ _ 3], simp_all)
  then show ?thesis using ran by blast
qed

theorem matching_mirrors_agree_witness:
  "\<exists>out fate lock' w'. run_mirror_sample demo_H (\<lambda>_. Inr demo_answer) (\<lambda>_. demo_F) (\<lambda>_ w. w) (\<lambda>_ _. None) (Some Session_H1) demo_lane
       (rf_source demo_fetch) (ByteRange_new 2 4) demo_jc False (lock_new None None None)
       \<lparr>sw_store = demo_disk\<lparr>blobs := (\<lambda>_. [0, 1, 2, 3])\<rparr>, sw_prov = prov_new, sw_turn = 0\<rparr> = Some (Inr out, fate, lock', w') \<and>
     ms_matches out \<and> nth_opt [0, 1, 2, 3 :: u8] 3 = Some 3"
proof -
  let ?d = "demo_disk\<lparr>blobs := (\<lambda>_. [0, 1, 2, 3])\<rparr>"
  let ?w = "\<lparr>sw_store = ?d, sw_prov = prov_new, sw_turn = 0\<rparr>" let ?src = "rf_source demo_fetch"
  let ?S = "sample_sink (\<lambda>_. demo_F) (\<lambda>_ w. w) demo_lane"
  let ?q = "\<lparr>rf_source = ?src, rf_range = ByteRange_new 2 4, rf_overlap = 0, rf_is_resume = False\<rparr>"
  let ?M = "\<lparr>fm_limit = - 1, fm_refuses = (\<lambda>_ _. None)\<rparr>"
  have wire: "wire_range_of ?q = ByteRange_new 2 4" by (simp add: wire_range_of_def saturating_sub_def)
  have acc: "sink_accept ?S \<lparr>ck_offset = 2, ck_data = [2]\<rparr> ?w = (Inr (), ?w\<lparr>sw_turn := 1\<rparr>)"
    "sink_accept ?S \<lparr>ck_offset = 3, ck_data = [3]\<rparr> (?w\<lparr>sw_turn := 1\<rparr>) = (Inr (), ?w\<lparr>sw_turn := 2\<rparr>)"
    by (simp_all add: sample_sink_def sample_accept_def meanwhile_def Let_def lane_read_back_def read_exact_at_def demo_F_def)
  have "receive_range ?S ?M (rf_range ?q) (ByteRange_new 2 4) (rs_body demo_answer) (fetch_begin ?q ?w) =
     Some (None, \<lparr>dl_offset = 4, dl_received = 2, dl_useful = 4 - 2, dl_truncated = False, dl_sink = ?w\<lparr>sw_turn := 2\<rparr>, dl_reads = 2, dl_accepts = 2\<rparr>)"
    by (rule demo_received [OF acc]) (simp_all add: wire, simp_all add: sample_sink_def)
  moreover have "sink_finish ?S x = (Inr (), x)" for x by (simp add: sample_sink_def)
  ultimately have "fetch_range demo_H (\<lambda>_. Inr demo_answer) ?S ?M Session_H1 ?q (lock_new None None None) ?w =
      Some (Inr \<lparr>fo_bytes = 2, fo_completion = FullyConsumed, fo_truncated = False, fo_reusable = True\<rparr>, lock_new None None (Some 4), ?w\<lparr>sw_turn := 2\<rparr>)"
    unfolding demo_answered [OF wire] by (simp add: finish_range_def br_len_def saturating_sub_def demo_open session_reusable_def)
  then have ran: "run_mirror_sample demo_H (\<lambda>_. Inr demo_answer) (\<lambda>_. demo_F) (\<lambda>_ w. w) (\<lambda>_ _. None) (Some Session_H1) demo_lane ?src (ByteRange_new 2 4)
      demo_jc False (lock_new None None None) ?w =
    Some (Inr \<lparr>ms_matches = True, ms_reusable = True\<rparr>, Some Give_Back, lock_new None None (Some 4), ?w\<lparr>sw_turn := 2\<rparr>)"
    by (simp add: run_mirror_sample_def demo_jc_ok)
  from matching_mirrors_agree [OF ran, of of_nat]
  have "\<forall>x\<in>br_set (ByteRange_new 2 4). nth_opt [0, 1, 2, 3 :: u8] (unat x) = Some (of_nat (unat x))"
    by (simp add: quiet_def demo_lane_def demo_answer_def)
  then have "nth_opt [0, 1, 2, 3 :: u8] (unat (3 :: u64)) = Some (of_nat (unat (3 :: u64)))" by (rule bspec) (simp add: br_set_def)
  then have "nth_opt [0, 1, 2, 3 :: u8] 3 = Some 3" by simp
  with ran show ?thesis by (metis mirror_sample_outcome.select_convs(1))
qed

end
