(* ===== verification/Shard.thy ===== *)
theory Shard
  imports Shard_Work
begin

text \<open>
  The resident service of a shard (\<^verbatim>\<open>shard.rs\<close>, \<open>ShardService\<close>). It handles commands one after the
  other; long work becomes a task, which ends later with an observation. A task keeps the lane and the
  pool it was started with. The commands are steps, and so are the ends of tasks, with any outcome the
  functions of \<open>Shard_Work\<close> can have. Files opened by the loop itself are on the disk of the state; the
  connector, the endpoint of QUIC and the scheduling of futures are left out. Acknowledgements are the
  list \<open>sh_acks\<close>.
\<close>

section \<open>Commands, tasks, state\<close>

record connect_target =
  ct_key :: transport_origin_key
  ct_addr :: socket_addr
  ct_sni :: string
  ct_tls :: bool

record 'u work =
  wk_source :: "'u source_context"
  wk_source_id :: source_id
  wk_context :: job_context
  wk_frontier :: bool

datatype 'u shard_command =
    Cmd_OpenConnection connection_id connect_target bool
  | Cmd_Probe job_id connection_id source_id "'u source_context" job_context
  | Cmd_StartRange job_id assignment_ref u32 byte_range u32 bool connection_id string "'u work"
  | Cmd_StartFullBody job_id u32 assignment_ref connection_id string "'u work"
  | Cmd_CloseConnection connection_id
  | Cmd_AttachDestination job_id
  | Cmd_CommitSharedDestination job_id u64 "digest_check option"
  | Cmd_CloseLane string
  | Cmd_TruncateAssignment assignment_ref u64
  | Cmd_SampleMirror job_id source_id connection_id byte_range "'u source_context" string job_context
  | Cmd_CommitDestination job_id string coordinator u64 "digest_check option" durability

text \<open>The lane of a task, or \<open>None\<close> for the destination of the application.\<close>

datatype 'u shard_task =
    Task_Connect connection_id bool
  | Task_Probe job_id connection_id source_id "'u source_context" job_context
  | Task_Range job_id assignment_ref u32 byte_range u32 bool connection_id "file_lane option" "'u work"
  | Task_FullBody job_id assignment_ref u32 connection_id "file_lane option" "'u work"
  | Task_Sample job_id source_id connection_id byte_range file_lane "'u source_context" job_context

datatype shard_ack = Ack_LaneClosed string | Ack_SharedCommit job_id "digest option res"

record 'u shard =
  sh_pools :: "connection_id \<Rightarrow> conn_pool option"
  sh_lanes :: "string \<Rightarrow> file_lane option"
  shared_dests :: "job_id set"
  end_flags :: "assignment_ref \<Rightarrow> u64 option"
  sh_tasks :: "'u shard_task list"
  sh_sent :: "'u observation list"
  sh_acks :: "shard_ack list"
  sh_disk :: disk

definition shard_new :: "disk \<Rightarrow> 'u shard" where
  "shard_new d =
     \<lparr>sh_pools = Map.empty, sh_lanes = Map.empty, shared_dests = {}, end_flags = Map.empty, sh_tasks = [], sh_sent = [], sh_acks = [],
      sh_disk = d\<rparr>"

definition send_obs :: "'u observation \<Rightarrow> 'u shard \<Rightarrow> 'u shard" where
  "send_obs ob s = s\<lparr>sh_sent := sh_sent s @ [ob]\<rparr>"

definition start_task :: "'u shard_task \<Rightarrow> 'u shard \<Rightarrow> 'u shard" where
  "start_task t s = s\<lparr>sh_tasks := sh_tasks s @ [t]\<rparr>"

section \<open>Handlers\<close>

definition unknown_connection :: "job_id \<Rightarrow> assignment_ref \<Rightarrow> u32 \<Rightarrow> 'u observation" where
  "unknown_connection job a attempt =
     AssignmentFailed job a attempt (RetrySameRange None ''unknown connection'') None State_Gone Stream_Failed"

definition destination_unavailable :: "job_id \<Rightarrow> assignment_ref \<Rightarrow> connection_id \<Rightarrow> 'u observation" where
  "destination_unavailable job a conn =
     AssignmentFailed job a 0 (Fatal 0 ''destination unavailable'') (Some conn) State_Poisoned Stream_Failed"

text \<open>The lane of a path: the one the shard has, or a new one.\<close>

definition get_lane :: "file_env \<Rightarrow> string \<Rightarrow> 'u shard \<Rightarrow> file_lane res \<times> 'u shard" where
  "get_lane F p s =
     (case sh_lanes s p of
        Some l \<Rightarrow> (Inr l, s)
      | None \<Rightarrow>
          (case lane_open F p (sh_disk s) of
             (Inl e, d) \<Rightarrow> (Inl e, s\<lparr>sh_disk := d\<rparr>)
           | (Inr l, d) \<Rightarrow> (Inr l, s\<lparr>sh_disk := d, sh_lanes := (sh_lanes s)(p \<mapsto> l)\<rparr>)))"

definition start_range :: "file_env \<Rightarrow> job_id \<Rightarrow> assignment_ref \<Rightarrow> u32 \<Rightarrow> byte_range \<Rightarrow> u32 \<Rightarrow> bool \<Rightarrow> connection_id \<Rightarrow> string \<Rightarrow> 'u work \<Rightarrow> 'u shard \<Rightarrow> 'u shard" where
  "start_range F job a attempt rg overlap is_resume conn part wk s =
     (if job \<in> shared_dests s then
        (case sh_pools s conn of
           None \<Rightarrow> send_obs (unknown_connection job a attempt) s
         | Some _ \<Rightarrow>
             start_task (Task_Range job a attempt rg overlap is_resume conn None wk) (s\<lparr>end_flags := (end_flags s)(a \<mapsto> r_end rg)\<rparr>))
      else
        case sh_pools s conn of
          None \<Rightarrow> send_obs (unknown_connection job a 0) s
        | Some _ \<Rightarrow>
            (case get_lane F part s of
               (Inl _, s1) \<Rightarrow> send_obs (destination_unavailable job a conn) s1
             | (Inr l, s1) \<Rightarrow>
                 start_task (Task_Range job a attempt rg overlap is_resume conn (Some l) wk)
                   (s1\<lparr>end_flags := (end_flags s1)(a \<mapsto> r_end rg)\<rparr>)))"

definition start_full_body :: "file_env \<Rightarrow> job_id \<Rightarrow> u32 \<Rightarrow> assignment_ref \<Rightarrow> connection_id \<Rightarrow> string \<Rightarrow> 'u work \<Rightarrow> 'u shard \<Rightarrow> 'u shard" where
  "start_full_body F job attempt a conn part wk s =
     (if job \<in> shared_dests s then
        (case sh_pools s conn of
           None \<Rightarrow> send_obs (unknown_connection job a attempt) s
         | Some _ \<Rightarrow> start_task (Task_FullBody job a attempt conn None wk) (s\<lparr>end_flags := (end_flags s)(a \<mapsto> - 1)\<rparr>))
      else
        case sh_pools s conn of
          None \<Rightarrow> send_obs (unknown_connection job a 0) s
        | Some _ \<Rightarrow>
            (case get_lane F part s of
               (Inl _, s1) \<Rightarrow> send_obs (destination_unavailable job a conn) s1
             | (Inr l, s1) \<Rightarrow> start_task (Task_FullBody job a attempt conn (Some l) wk) (s1\<lparr>end_flags := (end_flags s1)(a \<mapsto> - 1)\<rparr>)))"

definition sample_mirror :: "file_env \<Rightarrow> job_id \<Rightarrow> source_id \<Rightarrow> connection_id \<Rightarrow> byte_range \<Rightarrow> 'u source_context \<Rightarrow> string \<Rightarrow> job_context \<Rightarrow> 'u shard \<Rightarrow> 'u shard" where
  "sample_mirror F job source conn rg src part jc s =
     (case sh_pools s conn of
        None \<Rightarrow> send_obs (MirrorSampled job source conn False False) s
      | Some _ \<Rightarrow>
          (case get_lane F part s of
             (Inl _, s1) \<Rightarrow> send_obs (MirrorSampled job source conn False False) s1
           | (Inr l, s1) \<Rightarrow> start_task (Task_Sample job source conn rg l src jc) s1))"

definition probe_command :: "job_id \<Rightarrow> connection_id \<Rightarrow> source_id \<Rightarrow> 'u source_context \<Rightarrow> job_context \<Rightarrow> 'u shard \<Rightarrow> 'u shard" where
  "probe_command job conn source src jc s =
     (case sh_pools s conn of
        None \<Rightarrow> send_obs (ProbeFailed job conn source \<lparr>pf_kind = Kind_Transport, pf_status = 0\<rparr> State_Gone) s
      | Some _ \<Rightarrow> start_task (Task_Probe job conn source src jc) s)"

definition commit_destination :: "file_env \<Rightarrow> job_id \<Rightarrow> string \<Rightarrow> coordinator \<Rightarrow> u64 \<Rightarrow> digest_check option \<Rightarrow> durability \<Rightarrow> 'u shard \<Rightarrow> 'u shard" where
  "commit_destination F job part co len integrity dur s =
     (let s1 = s\<lparr>sh_lanes := (sh_lanes s)(part := None)\<rparr>
      in case finalize F co len integrity dur (sh_disk s1) of
           (Inr dg, d) \<Rightarrow> send_obs (DestinationCommitted job len dg) (s1\<lparr>sh_disk := d\<rparr>)
         | (Inl e, d) \<Rightarrow> send_obs (DestinationFailed job (destination_failure_from_error e)) (s1\<lparr>sh_disk := d\<rparr>))"

text \<open>\<open>shared\<close> is what \<open>commit_shared\<close> answers.\<close>

fun shard_handle :: "file_env \<Rightarrow> digest option res \<Rightarrow> 'u shard_command \<Rightarrow> 'u shard \<Rightarrow> 'u shard" where
  "shard_handle F shared (Cmd_OpenConnection conn target h3) s = start_task (Task_Connect conn h3) s"
| "shard_handle F shared (Cmd_Probe job conn source src jc) s = probe_command job conn source src jc s"
| "shard_handle F shared (Cmd_StartRange job a attempt rg overlap is_resume conn part wk) s =
     start_range F job a attempt rg overlap is_resume conn part wk s"
| "shard_handle F shared (Cmd_StartFullBody job attempt a conn part wk) s = start_full_body F job attempt a conn part wk s"
| "shard_handle F shared (Cmd_CloseConnection conn) s = s\<lparr>sh_pools := (sh_pools s)(conn := None)\<rparr>"
| "shard_handle F shared (Cmd_AttachDestination job) s = s\<lparr>shared_dests := insert job (shared_dests s)\<rparr>"
| "shard_handle F shared (Cmd_CommitSharedDestination job len integrity) s =
     s\<lparr>shared_dests := shared_dests s - {job},
       sh_acks := sh_acks s @ [Ack_SharedCommit job (if job \<in> shared_dests s then shared
                                                      else Inl (error_destination ''shared destination missing at commit''))]\<rparr>"
| "shard_handle F shared (Cmd_CloseLane part) s = s\<lparr>sh_lanes := (sh_lanes s)(part := None), sh_acks := sh_acks s @ [Ack_LaneClosed part]\<rparr>"
| "shard_handle F shared (Cmd_TruncateAssignment a new_end) s =
     (if end_flags s a = None then s else s\<lparr>end_flags := (end_flags s)(a \<mapsto> new_end)\<rparr>)"
| "shard_handle F shared (Cmd_SampleMirror job source conn rg src part jc) s = sample_mirror F job source conn rg src part jc s"
| "shard_handle F shared (Cmd_CommitDestination job part co len integrity dur) s = commit_destination F job part co len integrity dur s"

section \<open>Ends of tasks\<close>

datatype 'u task_outcome =
    Out_Connect "(physical_connection \<times> protocol \<times> duration) res"
  | Out_Probe "'u probe_report res" "session_end option"
  | Out_Work "range_run_error + u64 \<times> bool" transfer_sample "session_end option"
  | Out_Sample "mirror_sample_outcome res" "session_end option"

text \<open>The session goes back to the pool the task was started with. Connection numbers are not reused, so
  that is the pool of the number, unless the connection was closed.\<close>

definition settle_pool :: "connection_id \<Rightarrow> session_end option \<Rightarrow> wire_protocol \<Rightarrow> 'u shard \<Rightarrow> 'u shard" where
  "settle_pool conn fate w s =
     (case (sh_pools s conn, fate) of
        (Some p, Some e) \<Rightarrow> s\<lparr>sh_pools := (sh_pools s)(conn \<mapsto> fst (end_session e w p))\<rparr>
      | _ \<Rightarrow> s)"

fun task_end :: "('u \<Rightarrow> string) \<Rightarrow> wire_protocol \<Rightarrow> 'u shard_task \<Rightarrow> 'u task_outcome \<Rightarrow> 'u shard \<Rightarrow> 'u shard option" where
  "task_end url_str w (Task_Connect conn h3) (Out_Connect r) s =
     Some (send_obs (connect_report conn (map_sum id snd r))
       (case r of Inr (c, _) \<Rightarrow> s\<lparr>sh_pools := (sh_pools s)(conn \<mapsto> pool_new c)\<rparr> | Inl _ \<Rightarrow> s))"
| "task_end url_str w (Task_Probe job conn source src jc) (Out_Probe r fate) s =
     Some (send_obs (probe_report_of url_str job conn source r) (settle_pool conn fate w s))"
| "task_end url_str w (Task_Range job a attempt rg overlap is_resume conn l wk) (Out_Work r timing fate) s =
     Some (send_obs (range_report job a attempt rg conn timing r) ((settle_pool conn fate w s)\<lparr>end_flags := (end_flags s)(a := None)\<rparr>))"
| "task_end url_str w (Task_FullBody job a attempt conn l wk) (Out_Work r timing fate) s =
     Some (send_obs (body_report job a attempt conn timing r) ((settle_pool conn fate w s)\<lparr>end_flags := (end_flags s)(a := None)\<rparr>))"
| "task_end url_str w (Task_Sample job source conn rg l src jc) (Out_Sample r fate) s =
     Some (send_obs (sample_report job source conn r) (settle_pool conn fate w s))"
| "task_end url_str w _ _ s = None"

text \<open>The commands received so far, newest first, and the state.\<close>

inductive shard_run :: "('u \<Rightarrow> string) \<Rightarrow> disk \<Rightarrow> 'u shard_command list \<Rightarrow> 'u shard \<Rightarrow> bool" for url_str d where
  shard_idle: "shard_run url_str d [] (shard_new d)"
| shard_command: "shard_run url_str d cmds s \<Longrightarrow> shard_run url_str d (cmd # cmds) (shard_handle F shared cmd s)"
| shard_task_ends: "shard_run url_str d cmds s \<Longrightarrow> i < length (sh_tasks s) \<Longrightarrow>
     task_end url_str w (sh_tasks s ! i) out (s\<lparr>sh_tasks := take i (sh_tasks s) @ drop (Suc i) (sh_tasks s)\<rparr>) = Some s' \<Longrightarrow>
     shard_run url_str d cmds s'"
| shard_disk_changes: "shard_run url_str d cmds s \<Longrightarrow> shard_run url_str d cmds (s\<lparr>sh_disk := d'\<rparr>)"

section \<open>Every assignment is answered once\<close>

fun starts :: "assignment_ref \<Rightarrow> 'u shard_command \<Rightarrow> bool" where
  "starts a (Cmd_StartRange _ b _ _ _ _ _ _ _) \<longleftrightarrow> b = a"
| "starts a (Cmd_StartFullBody _ _ b _ _ _) \<longleftrightarrow> b = a"
| "starts a _ \<longleftrightarrow> False"

fun runs :: "assignment_ref \<Rightarrow> 'u shard_task \<Rightarrow> bool" where
  "runs a (Task_Range _ b _ _ _ _ _ _ _) \<longleftrightarrow> b = a"
| "runs a (Task_FullBody _ b _ _ _ _) \<longleftrightarrow> b = a"
| "runs a _ \<longleftrightarrow> False"

fun answers :: "assignment_ref \<Rightarrow> 'u observation \<Rightarrow> bool" where
  "answers a (AssignmentVerified _ b _ _ _ _) \<longleftrightarrow> b = a"
| "answers a (AssignmentFailed _ b _ _ _ _ _) \<longleftrightarrow> b = a"
| "answers a _ \<longleftrightarrow> False"

definition count :: "('b \<Rightarrow> bool) \<Rightarrow> 'b list \<Rightarrow> nat" where
  "count P xs = length (filter P xs)"

lemma count_simps [simp]:
  "count P [] = 0" "count P (x # xs) = of_bool (P x) + count P xs" "count P (xs @ ys) = count P xs + count P ys"
  by (simp_all add: count_def)

lemma count_split: "i < length xs \<Longrightarrow> count P xs = of_bool (P (xs ! i)) + count P (take i xs @ drop (Suc i) xs)"
  by (subst id_take_nth_drop [of i xs]) simp_all

lemma get_lane_keeps: "get_lane F p s = (r, s1) \<Longrightarrow> sh_tasks s1 = sh_tasks s \<and> sh_sent s1 = sh_sent s"
  by (auto simp: get_lane_def split: option.splits prod.splits sum.splits)

lemma send_start_simps [simp]:
  "sh_tasks (send_obs ob s) = sh_tasks s" "sh_sent (send_obs ob s) = sh_sent s @ [ob]"
  "sh_tasks (start_task t s) = sh_tasks s @ [t]" "sh_sent (start_task t s) = sh_sent s"
  "sh_tasks (settle_pool conn fate w s) = sh_tasks s" "sh_sent (settle_pool conn fate w s) = sh_sent s"
  by (simp_all add: send_obs_def start_task_def settle_pool_def split: option.splits)

lemma answers_reports [simp]:
  "answers a (unknown_connection job b n) \<longleftrightarrow> b = a" "answers a (destination_unavailable job b conn) \<longleftrightarrow> b = a"
  "answers a (range_report job b n rg conn timing r) \<longleftrightarrow> b = a" "answers a (body_report job b n conn timing r) \<longleftrightarrow> b = a"
  "\<not> answers a (connect_report conn r1)" "\<not> answers a (probe_report_of url_str job conn source r2)" "\<not> answers a (sample_report job source conn r3)"
  by (auto simp: unknown_connection_def destination_unavailable_def range_report_def body_report_def connect_report_def probe_report_of_def
      sample_report_def split: sum.splits prod.splits probe_report.splits)

lemma handle_counts:
  "count (answers a) (sh_sent (shard_handle F shared cmd s)) + count (runs a) (sh_tasks (shard_handle F shared cmd s)) =
     of_bool (starts a cmd) + count (answers a) (sh_sent s) + count (runs a) (sh_tasks s)"
proof (cases cmd)
  case (Cmd_StartRange job b attempt rg overlap is_resume conn part wk)
  then show ?thesis using get_lane_keeps [of F part s] by (auto simp: start_range_def split: option.splits prod.splits sum.splits)
next
  case (Cmd_StartFullBody job attempt b conn part wk)
  then show ?thesis using get_lane_keeps [of F part s] by (auto simp: start_full_body_def split: option.splits prod.splits sum.splits)
next
  case (Cmd_SampleMirror job source conn rg src part jc)
  then show ?thesis using get_lane_keeps [of F part s] by (auto simp: sample_mirror_def split: option.splits prod.splits sum.splits)
next
  case (Cmd_CommitDestination job part co len integrity dur)
  then show ?thesis by (auto simp: commit_destination_def Let_def split: prod.splits sum.splits)
qed (auto simp: probe_command_def split: option.splits)

lemma task_end_counts:
  assumes "task_end url_str w t out s = Some s'"
  shows "sh_tasks s' = sh_tasks s \<and> count (answers a) (sh_sent s') = of_bool (runs a t) + count (answers a) (sh_sent s)"
  using assms by (cases "(url_str, w, t, out, s)" rule: task_end.cases) (auto split: sum.splits prod.splits)

lemma shard_run_counts:
  "shard_run url_str d cmds s \<Longrightarrow> count (starts a) cmds = count (answers a) (sh_sent s) + count (runs a) (sh_tasks s)"
proof (induction rule: shard_run.induct)
  case shard_idle
  show ?case by (simp add: shard_new_def)
next
  case (shard_command cmds s cmd F shared)
  then show ?case using handle_counts [of a F shared cmd s] by simp
next
  case (shard_task_ends cmds s i w out s')
  then show ?case using task_end_counts [OF shard_task_ends.hyps(3), of a] count_split [OF shard_task_ends.hyps(2), of "runs a"] by simp
qed simp

text \<open>C19: Every assignment is answered exactly once. Whatever commands a shard receives and however its
  tasks end, an assignment that was started once has been answered once, verified or failed, or has
  one task still running; when no task runs, each start has had its answer.\<close>

theorem every_assignment_is_answered_once:
  assumes "shard_run url_str d cmds s"
  shows "count (starts a) cmds = count (answers a) (sh_sent s) + count (runs a) (sh_tasks s) \<and>
    (sh_tasks s = [] \<longrightarrow> count (answers a) (sh_sent s) = count (starts a) cmds)"
  using shard_run_counts [OF assms, of a] by simp

definition demo_start :: "unit shard_command" where
  "demo_start = Cmd_StartFullBody 0 0 \<lparr>ar_job = 0, ar_assignment = 7\<rparr> 3 ''f''
     \<lparr>wk_source = \<lparr>sc_url = (), sc_if_range = None, sc_allow_compressed = True, sc_extra_headers = [], sc_deadline = None\<rparr>, wk_source_id = 0,
      wk_context = context_new None, wk_frontier = True\<rparr>"

text \<open>The shard knows no connection 3, so it answers at once.\<close>

theorem every_assignment_is_answered_once_witness:
  "\<exists>s. shard_run (\<lambda>_. []) \<lparr>entries = Map.empty, blobs = (\<lambda>_. []), locks = {}, next_ino = 0\<rparr> [demo_start] s \<and>
     count (answers \<lparr>ar_job = 0, ar_assignment = 7\<rparr>) (sh_sent s) = 1"
proof -
  let ?d = "\<lparr>entries = Map.empty, blobs = (\<lambda>_. []), locks = {}, next_ino = 0\<rparr>"
  let ?F = "\<lparr>fails = (\<lambda>_. None), fallocate_of = (\<lambda>_. Allocated), written_part = 0, hash_of = (\<lambda>_ b. b)\<rparr>"
  define s where "s = shard_handle ?F (Inr None) demo_start (shard_new ?d)"
  have run: "shard_run (\<lambda>_. []) ?d [demo_start] s" unfolding s_def by (rule shard_run.shard_command [OF shard_run.shard_idle])
  have "sh_tasks s = []" by (simp add: s_def demo_start_def start_full_body_def shard_new_def)
  then have "count (answers \<lparr>ar_job = 0, ar_assignment = 7\<rparr>) (sh_sent s) = count (starts \<lparr>ar_job = 0, ar_assignment = 7\<rparr>) [demo_start]"
    using every_assignment_is_answered_once [OF run] by blast
  also have "\<dots> = 1" by (simp add: demo_start_def)
  finally show ?thesis using run by blast
qed

end
