(* ===== verification/Control.thy ===== *)
theory Control
  imports Controller_Observe Journal Progress Shard
begin

text \<open>
  \<^verbatim>\<open>src/crates/xde/src/control.rs\<close> and \<^verbatim>\<open>snapshot.rs\<close>: the loop of the control thread around the
  controller. It admits jobs, keeps their journals, routes the controller's actions to the shards, the
  resolver and the timers, and answers the waiters.

  The state is the \<open>Loop\<close> of the code with logs of what it sends: commands to the shards, observations
  to itself, requests to the resolver, answers to the waiters, closed progress publishers. Whether a
  shard's mailbox takes a command, whether the acknowledgement of a commit arrives, what the
  application's refresher returns and which file operations fail are parameters of a step, as are the
  serializer and the checksum. A shared handle inside a command is its value when the command is sent;
  the shared contexts of the jobs are the field \<open>lp_contexts\<close>. Telemetry events are left out. \<open>None\<close>
  is a panic or a loop that never ends.
\<close>

section \<open>The loop\<close>

record job_outcome =
  jo_bytes :: u64
  jo_digest :: "digest option"
  jo_resumed_bytes :: u64

datatype send_result = Sent | Mailbox_Full | Mailbox_Gone

definition submit :: "send_result \<Rightarrow> unit res" where
  "submit r = (case r of Sent \<Rightarrow> Inr () | Mailbox_Full \<Rightarrow> Inl (Runtime EngineBusy) | Mailbox_Gone \<Rightarrow> Inl (Runtime Runtime_EngineGone))"

text \<open>A request to shut down waits up to ten seconds for room.\<close>

definition shutdown_request :: "send_result \<Rightarrow> unit res" where
  "shutdown_request r = (case r of Sent \<Rightarrow> Inr () | Mailbox_Full \<Rightarrow> Inl (Runtime EngineBusy) | Mailbox_Gone \<Rightarrow> Inl (Runtime Runtime_EngineGone))"

definition cancel_handle :: "send_result \<Rightarrow> unit res" where
  "cancel_handle r = (case r of Sent \<Rightarrow> Inr () | _ \<Rightarrow> Inl (Runtime Runtime_EngineGone))"

record 'u control_command =
  cc_spec :: "'u job_spec"
  cc_destination_key :: string
  cc_final_path :: "string option"
  cc_shared :: "(destination_caps \<times> destination_hints) option"
  cc_refresher :: bool
  cc_progress :: "download_progress pub_state option"

record job_state =
  st_coordinator :: "coordinator option"
  st_part_path :: string
  st_journal :: "journal option"
  st_shared :: bool
  st_refresher :: bool
  st_progress :: "download_progress pub_state option"

record 'u loop =
  lp_ctl :: controller
  lp_timers :: "timer_event timer_queue"
  lp_jobs :: "(job_id \<times> job_state) list"
  lp_contexts :: "job_id \<Rightarrow> job_context option"
  lp_files :: fs
  lp_disk :: disk
  lp_shards :: nat
  lp_sends :: nat
  sent_commands :: "(nat \<times> 'u shard_command) list"
  sent_observations :: "'u observation list"
  sent_resolves :: "(origin_id \<times> string \<times> u16) list"
  admissions :: "(error + job_id) list"
  replies :: "(job_id option \<times> (error + job_outcome)) list"
  closed_progress :: "(job_id \<times> download_progress pub_state) list"

datatype ack_result = Acked "error + digest option" | Ack_Lost

record 'u loop_env =
  ctl_env_of :: "'u ctl_env"
  mailbox :: "nat \<Rightarrow> nat \<Rightarrow> send_result"
  commit_ack :: "job_id \<Rightarrow> ack_result"
  refresh_source :: "job_id \<Rightarrow> string \<Rightarrow> u16 \<Rightarrow> u32 \<Rightarrow> (string option \<times> header_map option) option"
  file_env_of :: file_env
  show_error :: "error \<Rightarrow> string"
  invalid_url :: 'u
  to_bytes_of :: "journal_payload \<Rightarrow> u8 list option"
  from_bytes_of :: "u8 list \<Rightarrow> journal_payload option"
  crc_of :: "u8 list \<Rightarrow> u32"
  io_of :: "io_call \<Rightarrow> io_error_kind option"
  io_part :: nat
  read_error :: "string \<Rightarrow> io_error_kind option"

abbreviation loop_now :: "'u loop_env \<Rightarrow> instant" where
  "loop_now E \<equiv> inst_now (wenv (ctl_env_of E))"

text \<open>The state before the first round: the network context and the stored profile are set up.\<close>

definition loop_start :: "'u loop_env \<Rightarrow> nat \<Rightarrow> engine_limits \<Rightarrow> network_context_key option \<Rightarrow> persisted_profile option \<Rightarrow> fs \<Rightarrow> disk \<Rightarrow> 'u loop" where
  "loop_start E shards limits ctxt prof files d =
     (let c = set_engine_limits limits (with_shards (loop_now E) shards);
          c1 = (case ctxt of None \<Rightarrow> c | Some k \<Rightarrow> c\<lparr>world := snd (set_network_context (wenv (ctl_env_of E)) k (world c))\<rparr>);
          c2 = (case prof of None \<Rightarrow> c1 | Some p \<Rightarrow> c1\<lparr>world := import_profiles (wenv (ctl_env_of E)) p (world c1)\<rparr>)
      in \<lparr>lp_ctl = c2, lp_timers = tq_new, lp_jobs = [], lp_contexts = Map.empty, lp_files = files, lp_disk = d, lp_shards = shards,
          lp_sends = 0, sent_commands = [], sent_observations = [], sent_resolves = [], admissions = [], replies = [], closed_progress = []\<rparr>)"

definition job_state_of :: "'u loop \<Rightarrow> job_id \<Rightarrow> job_state option" where
  "job_state_of l job = sm_get (lp_jobs l) job"

definition upd_state :: "job_id \<Rightarrow> (job_state \<Rightarrow> job_state) \<Rightarrow> 'u loop \<Rightarrow> 'u loop" where
  "upd_state job f l = l\<lparr>lp_jobs := sm_update job f (lp_jobs l)\<rparr>"

definition set_context :: "job_id \<Rightarrow> u8 \<Rightarrow> 'u loop \<Rightarrow> 'u loop" where
  "set_context job v l = l\<lparr>lp_contexts := (lp_contexts l)(job := map_option (\<lambda>c. fst (set_state_cas c v)) (lp_contexts l job))\<rparr>"

definition drop_coordinator :: "coordinator option \<Rightarrow> 'u loop \<Rightarrow> 'u loop" where
  "drop_coordinator co l = (case co of None \<Rightarrow> l | Some c \<Rightarrow> l\<lparr>lp_disk := drop_lock c (lp_disk l)\<rparr>)"

definition observe :: "'u observation \<Rightarrow> 'u loop \<Rightarrow> 'u loop" where
  "observe ob l = l\<lparr>sent_observations := sent_observations l @ [ob]\<rparr>"

section \<open>Journals\<close>

text \<open>A journal for a run that starts from nothing; \<open>None\<close> is the panic without a source.\<close>

definition fresh_journal :: "'u loop_env \<Rightarrow> 'u job_spec \<Rightarrow> string \<Rightarrow> journal option" where
  "fresh_journal E spec p =
     (case js_sources spec of
        [] \<Rightarrow> None
      | src # _ \<Rightarrow>
          let U = url_ops_of (ctl_env_of E);
              fp = \<lparr>jf_content_length = None, jf_etag = None, last_modified_unix = None, jf_final_url = as_str U (sr_url src),
                    jf_redirect_chain = [], header_identity = representation_fingerprint U (blake3_of (ctl_env_of E)) src,
                    jf_content_coding = None\<rparr>;
              pl = payload_new (unix_secs (wenv (ctl_env_of E))) fp None (is_overlap_bytes (js_integrity spec))
          in Some (journal_create p (pl\<lparr>source_urls := source_urls pl @ [as_str U (sr_url src)]\<rparr>)))"

definition read_journal :: "'u loop_env \<Rightarrow> fs \<Rightarrow> string \<Rightarrow> journal option res" where
  "read_journal E files p =
     load_blocking (crc_of E) (from_bytes_of E) p (case read_error E p of Some k \<Rightarrow> Read_Err k | None \<Rightarrow> read_fs files p)"

definition surviving_ranges :: "u64 \<Rightarrow> range_set \<Rightarrow> range_set" where
  "surviving_ranges part_len d = foldl rs_insert rs_new (filter (\<lambda>r. r_end r \<le> part_len) (ranges d))"

text \<open>The length of the partial file, 0 when it cannot be told.\<close>

definition part_length :: "'u loop_env \<Rightarrow> disk \<Rightarrow> coordinator \<Rightarrow> u64" where
  "part_length E d co =
     (case fails (file_env_of E) Stat_Part of
        Some _ \<Rightarrow> 0
      | None \<Rightarrow> (case content_of d (co_part_path co) of None \<Rightarrow> 0 | Some b \<Rightarrow> of_nat (length b)))"

definition resumed_payload :: "'u loop_env \<Rightarrow> 'u job_spec \<Rightarrow> u64 \<Rightarrow> journal_payload \<Rightarrow> journal_payload" where
  "resumed_payload E spec part_len pl =
     (let U = url_ops_of (ctl_env_of E);
          d = surviving_ranges part_len (durable pl);
          pl1 = pl\<lparr>durable := d, jp_completed := d, bytes_written := covered d\<rparr>
      in case js_sources spec of
           [] \<Rightarrow> pl1
         | src # _ \<Rightarrow>
             pl1\<lparr>jp_fingerprint := (jp_fingerprint pl1)\<lparr>header_identity := representation_fingerprint U (blake3_of (ctl_env_of E)) src\<rparr>,
                 source_urls := (if as_str U (sr_url src) \<in> set (source_urls pl1) then source_urls pl1
                                 else source_urls pl1 @ [as_str U (sr_url src)])\<rparr>)"

definition discover_resume :: "'u loop_env \<Rightarrow> fs \<Rightarrow> disk \<Rightarrow> coordinator \<Rightarrow> 'u job_spec \<Rightarrow> journal option" where
  "discover_resume E files d co spec =
     (case read_journal E files (journal_path co) of
        Inr (Some j) \<Rightarrow>
          if content_of d (co_part_path co) = None \<or> part_length E d co = 0 then fresh_journal E spec (journal_path co)
          else Some (mark_dirty (j\<lparr>payload := resumed_payload E spec (part_length E d co) (payload j)\<rparr>))
      | _ \<Rightarrow> fresh_journal E spec (journal_path co))"

definition evidence_of :: "journal \<Rightarrow> resume_evidence" where
  "evidence_of j =
     \<lparr>re_durable = durable (payload j), re_total = jp_total (payload j), re_etag = jf_etag (jp_fingerprint (payload j)),
      re_last_modified = Option.bind (last_modified_unix (jp_fingerprint (payload j))) (\<lambda>u. if u < 2 ^ 63 then Some (int u) else None),
      re_urls = [jf_final_url (jp_fingerprint (payload j))]\<rparr>"

definition sync_fingerprint :: "job_node option \<Rightarrow> journal \<Rightarrow> journal" where
  "sync_fingerprint node j =
     (case node of
        None \<Rightarrow> j
      | Some n \<Rightarrow>
          let pl = payload j; fp = jp_fingerprint pl;
              fp1 = fp\<lparr>jf_content_length := jn_total_length n\<rparr>;
              fp2 = (case fingerprint_etag n of
                       None \<Rightarrow> fp1
                     | Some t \<Rightarrow> (case jf_etag fp1 of None \<Rightarrow> fp1\<lparr>jf_etag := Some t\<rparr> | Some _ \<Rightarrow> fp1))
          in mark_dirty (j\<lparr>payload := pl\<lparr>jp_total := opt_or (jn_total_length n) (jp_total pl), jp_fingerprint := fp2\<rparr>\<rparr>))"

definition persist :: "'u loop_env \<Rightarrow> fs \<Rightarrow> journal \<Rightarrow> unit res \<times> fs \<times> journal" where
  "persist E files j = persist_blocking (crc_of E) (to_bytes_of E) (io_of E) (io_part E) files j"

definition checkpoint_journal_at :: "'u loop_env \<Rightarrow> job_id \<Rightarrow> (journal \<Rightarrow> journal) \<Rightarrow> 'u loop \<Rightarrow> bool \<times> 'u loop" where
  "checkpoint_journal_at E job mutate l =
     (case Option.bind (job_state_of l job) st_journal of
        None \<Rightarrow> (False, l)
      | Some j \<Rightarrow>
          let (r, files, j') = persist E (lp_files l) (sync_fingerprint (job_of (lp_ctl l) job) (mutate j))
          in (r = Inr (), upd_state job (\<lambda>st. st\<lparr>st_journal := Some j'\<rparr>) (l\<lparr>lp_files := files\<rparr>)))"

definition checkpoint_journal :: "'u loop_env \<Rightarrow> job_id \<Rightarrow> 'u loop \<Rightarrow> bool \<times> 'u loop" where
  "checkpoint_journal E job l = checkpoint_journal_at E job mark_completed_durable l"

definition record_only :: "'u loop_env \<Rightarrow> job_id \<Rightarrow> byte_range \<Rightarrow> 'u loop \<Rightarrow> 'u loop" where
  "record_only E job r l =
     upd_state job (\<lambda>st. st\<lparr>st_journal := map_option (record_completed (unix_secs (wenv (ctl_env_of E))) r) (st_journal st)\<rparr>) l"

definition schedule_checkpoint :: "'u loop_env \<Rightarrow> job_id \<Rightarrow> duration \<Rightarrow> 'u loop \<Rightarrow> 'u loop" where
  "schedule_checkpoint E job interval l = l\<lparr>lp_timers := tq_schedule (loop_now E + interval) (CheckpointDue job) (lp_timers l)\<rparr>"

definition journal_probed :: "string option \<Rightarrow> system_time option \<Rightarrow> u64 option \<Rightarrow> journal \<Rightarrow> journal" where
  "journal_probed et lm len j =
     (let pl = payload j
      in mark_dirty (j\<lparr>payload := pl\<lparr>jp_fingerprint := (jp_fingerprint pl)\<lparr>jf_etag := et,
             last_modified_unix := map_option (\<lambda>t. if t < 0 then 0 else nat t) lm, jf_content_length := len\<rparr>, jp_total := len\<rparr>\<rparr>))"

definition record_progress :: "'u loop_env \<Rightarrow> 'u observation \<Rightarrow> 'u loop \<Rightarrow> 'u loop" where
  "record_progress E obs l =
     (case obs of
        Probed job _ _ _ len et lm _ _ \<Rightarrow> upd_state job (\<lambda>st. st\<lparr>st_journal := map_option (journal_probed et lm len) (st_journal st)\<rparr>) l
      | AssignmentVerified job _ r _ _ _ \<Rightarrow>
          (case job_of (lp_ctl l) job of
             None \<Rightarrow> l
           | Some n \<Rightarrow>
               (case jn_durability n of
                  CrashSafe \<Rightarrow> snd (checkpoint_journal_at E job (\<lambda>j. mark_completed_durable
                      (record_completed (unix_secs (wenv (ctl_env_of E))) r j)) l)
                | Periodic interval \<Rightarrow> schedule_checkpoint E job interval (record_only E job r l)
                | Relaxed \<Rightarrow> record_only E job r l))
      | _ \<Rightarrow> l)"

section \<open>Sending\<close>

definition send_command :: "'u loop_env \<Rightarrow> nat \<Rightarrow> 'u shard_command \<Rightarrow> 'u loop \<Rightarrow> send_result \<times> 'u loop" where
  "send_command E k cmd l =
     (let r = mailbox E (lp_sends l) k; l1 = l\<lparr>lp_sends := lp_sends l + 1\<rparr>
      in (r, if r = Sent then l1\<lparr>sent_commands := sent_commands l1 @ [(k, cmd)]\<rparr> else l1))"

definition send_shard :: "'u loop_env \<Rightarrow> nat \<Rightarrow> 'u shard_command \<Rightarrow> 'u loop \<Rightarrow> bool \<times> 'u loop" where
  "send_shard E k cmd l =
     (if lp_shards l \<le> k then (False, l)
      else case send_command E k cmd l of
             (Sent, l1) \<Rightarrow> (True, l1)
           | (r, l1) \<Rightarrow>
               (False, observe (DispatchFailed (if r = Mailbox_Full then Op_StartAssignment else Op_CloseConnection) None None None None) l1))"

definition broadcast :: "'u loop_env \<Rightarrow> 'u shard_command \<Rightarrow> 'u loop \<Rightarrow> 'u loop" where
  "broadcast E cmd l = foldl (\<lambda>m k. snd (send_command E k cmd m)) l [0..<lp_shards l]"

text \<open>The bounded wait for the acknowledgements changes nothing in the loop.\<close>

definition close_lanes_everywhere :: "'u loop_env \<Rightarrow> string \<Rightarrow> 'u loop \<Rightarrow> 'u loop" where
  "close_lanes_everywhere E part l = broadcast E (Cmd_CloseLane part) l"

definition shard_of_connection :: "'u loop \<Rightarrow> connection_id \<Rightarrow> nat" where
  "shard_of_connection l conn = (case sm_get (connections (world (lp_ctl l))) conn of None \<Rightarrow> 0 | Some c \<Rightarrow> cn_shard c)"

definition build_target :: "'u loop \<Rightarrow> origin_id \<Rightarrow> nat \<Rightarrow> connect_target option" where
  "build_target l i ep =
     (case (sm_get (origins (world (lp_ctl l))) i, sm_get (endpoints (world (lp_ctl l))) ep) of
        (Some n, Some e) \<Rightarrow> Some \<lparr>ct_key = on_key n, ct_addr = address e, ct_sni = host (on_key n), ct_tls = (scheme (on_key n) = ''https'')\<rparr>
      | _ \<Rightarrow> None)"

text \<open>Only a strong, quoted entity tag is used.\<close>

definition strong_tag :: "string \<Rightarrow> bool" where
  "strong_tag t \<longleftrightarrow> take 2 t \<noteq> ''W/'' \<and> take 1 t = [CHR 0x22]"

definition build_source_context :: "'u loop_env \<Rightarrow> 'u loop \<Rightarrow> job_id \<Rightarrow> nat \<Rightarrow> 'u source_context option" where
  "build_source_context E l job src =
     (case (job_of (lp_ctl l) job, sm_get (sources (world (lp_ctl l))) src) of
        (Some j, Some s) \<Rightarrow>
          map_option (\<lambda>u. \<lparr>sc_url = u, sc_if_range = (case fingerprint_etag j of Some t \<Rightarrow> if strong_tag t then Some t else None | None \<Rightarrow> None),
              sc_allow_compressed = allow_compressed (jn_policy j), sc_extra_headers = sn_headers s, sc_deadline = jn_deadline j\<rparr>)
            (url_parse (ctl_env_of E) (sn_url s))
      | _ \<Rightarrow> None)"

definition source_context_or_invalid :: "'u loop_env \<Rightarrow> 'u loop \<Rightarrow> job_id \<Rightarrow> nat \<Rightarrow> 'u source_context" where
  "source_context_or_invalid E l job src =
     (case build_source_context E l job src of
        Some c \<Rightarrow> c
      | None \<Rightarrow> \<lparr>sc_url = invalid_url E, sc_if_range = None, sc_allow_compressed = False, sc_extra_headers = [], sc_deadline = None\<rparr>)"

definition source_for_connection :: "'u loop \<Rightarrow> job_id \<Rightarrow> connection_id \<Rightarrow> nat option" where
  "source_for_connection l job conn =
     (let c = sm_get (connections (world (lp_ctl l))) conn
      in case job_of (lp_ctl l) job of
           None \<Rightarrow> None
         | Some j \<Rightarrow>
             (case Option.bind c serving_source of
                Some sid \<Rightarrow> Some sid
              | None \<Rightarrow>
                  opt_or
                    (List.find (\<lambda>sid. case sm_get (sources (world (lp_ctl l))) sid of
                                        None \<Rightarrow> False | Some s \<Rightarrow> Some (sn_origin s) = map_option cn_origin c) (active_sources j))
                    (active_source j)))"

definition context_of :: "'u loop \<Rightarrow> job_id \<Rightarrow> job_context" where
  "context_of l job = (case lp_contexts l job of Some c \<Rightarrow> c | None \<Rightarrow> context_new None)"

section \<open>Ends of jobs\<close>

definition fail_error :: "string \<Rightarrow> error" where
  "fail_error m = (if m = CANCELLED_SENTINEL then Cancelled else if m = DEADLINE_SENTINEL then DeadlineExceeded else error_destination m)"

definition remove_journal :: "'u loop_env \<Rightarrow> job_id \<Rightarrow> 'u loop \<Rightarrow> 'u loop" where
  "remove_journal E job l =
     (case Option.bind (job_state_of l job) st_journal of
        None \<Rightarrow> l
      | Some j \<Rightarrow> if io_of E Remove_File = None then l\<lparr>lp_files := (lp_files l)(j_path j := None)\<rparr> else l)"

definition finish_loop_job :: "'u loop_env \<Rightarrow> job_id \<Rightarrow> (error + job_outcome) \<Rightarrow> 'u loop \<Rightarrow> 'u loop" where
  "finish_loop_job E job outcome l =
     (let ok = (case outcome of Inr _ \<Rightarrow> True | Inl _ \<Rightarrow> False);
          l1 = (if ok then remove_journal E job l else snd (checkpoint_journal E job l))
      in case job_state_of l1 job of
           None \<Rightarrow> l1
         | Some st \<Rightarrow>
             let final = (case outcome of Inr out \<Rightarrow> progress_new (jo_bytes out) (Some (jo_bytes out)) None | Inl _ \<Rightarrow> None);
                 l2 = l1\<lparr>lp_jobs := sm_remove job (lp_jobs l1),
                         closed_progress := closed_progress l1 @ (case st_progress st of None \<Rightarrow> [] | Some p \<Rightarrow> [(job, close final p)]),
                         replies := replies l1 @ [(Some job, outcome)]\<rparr>
             in drop_coordinator (st_coordinator st) (set_context job (if ok then FINISHED else CANCELLED) l2))"

definition discard_state :: "job_id \<Rightarrow> 'u loop \<Rightarrow> 'u loop" where
  "discard_state job l =
     (case job_state_of l job of
        None \<Rightarrow> l
      | Some st \<Rightarrow> drop_coordinator (st_coordinator st) (set_context job CANCELLED (l\<lparr>lp_jobs := sm_remove job (lp_jobs l)\<rparr>)))"

section \<open>Routing\<close>

definition route_open :: "'u loop_env \<Rightarrow> connection_id \<Rightarrow> origin_id \<Rightarrow> nat \<Rightarrow> nat \<Rightarrow> bool \<Rightarrow> u16 option \<Rightarrow> 'u loop \<Rightarrow> 'u loop" where
  "route_open E conn i ep k h3 alt l =
     (case build_target l i ep of
        None \<Rightarrow> l
      | Some t \<Rightarrow>
          let t1 = (case alt of None \<Rightarrow> t | Some p \<Rightarrow> t\<lparr>ct_addr := (ct_addr t)\<lparr>sa_port := p\<rparr>\<rparr>)
          in snd (send_shard E k (Cmd_OpenConnection conn t1 h3) l))"

definition route_probe :: "'u loop_env \<Rightarrow> job_id \<Rightarrow> connection_id \<Rightarrow> nat option \<Rightarrow> 'u loop \<Rightarrow> 'u loop" where
  "route_probe E job conn src l =
     (case opt_or src (Option.bind (job_of (lp_ctl l) job) active_source) of
        None \<Rightarrow> l
      | Some sid \<Rightarrow>
          (case (build_source_context E l job sid, job_state_of l job) of
             (Some c, Some _) \<Rightarrow> snd (send_shard E (shard_of_connection l conn) (Cmd_Probe job conn sid c (context_of l job)) l)
           | _ \<Rightarrow> l))"

definition work_of :: "'u loop_env \<Rightarrow> 'u loop \<Rightarrow> job_id \<Rightarrow> nat \<Rightarrow> bool \<Rightarrow> 'u work" where
  "work_of E l job src frontier =
     \<lparr>wk_source = source_context_or_invalid E l job src, wk_source_id = src, wk_context = context_of l job, wk_frontier = frontier\<rparr>"

definition route_start :: "'u loop_env \<Rightarrow> job_id \<Rightarrow> assignment_ref \<Rightarrow> connection_id \<Rightarrow> byte_range \<Rightarrow> u32 \<Rightarrow> bool \<Rightarrow> 'u loop \<Rightarrow> 'u loop" where
  "route_start E job a conn rg overlap frontier l =
     (case (job_state_of l job, source_for_connection l job conn) of
        (Some st, Some src) \<Rightarrow>
          let node = job_of (lp_ctl l) job;
              attempt = (case Option.bind (Option.bind node plan) (\<lambda>p. sm_get (assignments p) (ar_assignment a)) of None \<Rightarrow> 0 | Some x \<Rightarrow> a_attempt x);
              is_resume = (case node of None \<Rightarrow> False | Some j \<Rightarrow> verify_on_resume (jn_integrity j) \<and> resumed_bytes j > 0)
          in snd (send_shard E (shard_of_connection l conn)
               (Cmd_StartRange job a attempt rg overlap is_resume conn (st_part_path st) (work_of E l job src frontier)) l)
      | _ \<Rightarrow> l)"

definition route_full_body :: "'u loop_env \<Rightarrow> job_id \<Rightarrow> assignment_ref \<Rightarrow> connection_id \<Rightarrow> bool \<Rightarrow> 'u loop \<Rightarrow> 'u loop" where
  "route_full_body E job a conn frontier l =
     (case (job_state_of l job, source_for_connection l job conn) of
        (Some st, Some src) \<Rightarrow>
          snd (send_shard E (shard_of_connection l conn) (Cmd_StartFullBody job 0 a conn (st_part_path st) (work_of E l job src frontier)) l)
      | _ \<Rightarrow> l)"

definition route_sample :: "'u loop_env \<Rightarrow> job_id \<Rightarrow> nat \<Rightarrow> connection_id \<Rightarrow> byte_range \<Rightarrow> 'u loop \<Rightarrow> 'u loop" where
  "route_sample E job src conn rg l =
     (case (job_state_of l job, build_source_context E l job src) of
        (Some st, Some c) \<Rightarrow>
          snd (send_shard E (shard_of_connection l conn) (Cmd_SampleMirror job src conn rg c (st_part_path st) (context_of l job)) l)
      | _ \<Rightarrow> l)"

text \<open>A coordinator that travels in a command that is not taken is dropped with it.\<close>

definition route_commit :: "'u loop_env \<Rightarrow> job_id \<Rightarrow> u64 \<Rightarrow> digest_check option \<Rightarrow> 'u loop \<Rightarrow> 'u loop" where
  "route_commit E job len integrity l =
     (case job_state_of l job of
        None \<Rightarrow> l
      | Some st \<Rightarrow>
          if st_shared st then
            let (taken, l1) = send_shard E 0 (Cmd_CommitSharedDestination job len integrity) l
            in observe (case (if taken then commit_ack E job else Ack_Lost) of
                          Acked (Inr dg) \<Rightarrow> DestinationCommitted job len dg
                        | Acked (Inl e) \<Rightarrow> DestinationFailed job (destination_failure_from_error e)
                        | Ack_Lost \<Rightarrow> DestinationFailed job DestinationError) l1
          else
            (case st_coordinator st of
               None \<Rightarrow> observe (DestinationCommitted job len None) l
             | Some co \<Rightarrow>
                 let l1 = close_lanes_everywhere E (st_part_path st) (upd_state job (\<lambda>st. st\<lparr>st_coordinator := None\<rparr>) l);
                     (taken, l2) = send_shard E 0 (Cmd_CommitDestination job (st_part_path st) co len integrity (jc_durability (context_of l job))) l1
                 in if taken then l2 else drop_coordinator (Some co) l2))"

definition route_reset :: "'u loop_env \<Rightarrow> job_id \<Rightarrow> 'u loop \<Rightarrow> 'u loop" where
  "route_reset E job l =
     (case Option.bind (job_state_of l job) st_journal of
        None \<Rightarrow> l
      | Some j \<Rightarrow>
          let (_, files, j') = persist E (lp_files l) (clear_ranges j)
          in upd_state job (\<lambda>st. st\<lparr>st_journal := Some j'\<rparr>) (l\<lparr>lp_files := files\<rparr>))"

text \<open>Every action but the request for credentials, which calls the controller again.\<close>

fun route_action :: "'u loop_env \<Rightarrow> action \<Rightarrow> 'u loop \<Rightarrow> 'u loop" where
  "route_action E (Act_Resolve i h p) l = l\<lparr>sent_resolves := sent_resolves l @ [(i, h, p)]\<rparr>"
| "route_action E (OpenConnection conn i ep k h3 alt) l = route_open E conn i ep k h3 alt l"
| "route_action E (CloseConnection conn) l = broadcast E (Cmd_CloseConnection conn) l"
| "route_action E (Act_Probe job conn src) l = route_probe E job conn src l"
| "route_action E (StartAssignment job a conn rg overlap frontier) l = route_start E job a conn rg overlap frontier l"
| "route_action E (StartFullBody job a conn frontier) l = route_full_body E job a conn frontier l"
| "route_action E (SampleMirror job src conn rg) l = route_sample E job src conn rg l"
| "route_action E (ResetResumeData job) l = route_reset E job l"
| "route_action E (ReportSourceQuarantined job srcs reason) l = l"
| "route_action E (TruncateAssignment job a conn new_end) l = snd (send_shard E (shard_of_connection l conn) (Cmd_TruncateAssignment a new_end) l)"
| "route_action E (RequestCredentialRefresh job url st attempt) l = l"
| "route_action E (CommitDestination job len integrity) l = route_commit E job len integrity l"
| "route_action E (DiscardDestination job) l = discard_state job l"
| "route_action E (FailJob job m) l = finish_loop_job E job (Inl (fail_error m)) l"
| "route_action E (CompleteJob job n dg r) l = finish_loop_job E job (Inr \<lparr>jo_bytes = n, jo_digest = dg, jo_resumed_bytes = r\<rparr>) l"
| "route_action E (ScheduleTimer at_t ev) l = l\<lparr>lp_timers := tq_schedule at_t ev (lp_timers l)\<rparr>"

text \<open>The observation a request for credentials leads to.\<close>

definition refresh_answer :: "'u loop_env \<Rightarrow> action \<Rightarrow> 'u loop \<Rightarrow> 'u observation option" where
  "refresh_answer E a l =
     (case a of
        RequestCredentialRefresh job url st attempt \<Rightarrow>
          map_option (\<lambda>x. case (if st_refresher x then refresh_source E job url st attempt else None) of
                            Some (u, hs) \<Rightarrow> SourceRefreshed job u hs
                          | None \<Rightarrow> CredentialRefreshFailed job st) (job_state_of l job)
      | _ \<Rightarrow> None)"

partial_function (option) route_actions :: "'u loop_env \<Rightarrow> action list \<Rightarrow> 'u loop \<Rightarrow> 'u loop option" where
  "route_actions E as l =
     (case as of
        [] \<Rightarrow> Some l
      | a # bs \<Rightarrow>
          (case refresh_answer E a l of
             None \<Rightarrow> route_actions E bs (route_action E a l)
           | Some ob \<Rightarrow>
               (case handle (ctl_env_of E) ob (loop_now E) (lp_ctl l) of
                  None \<Rightarrow> None
                | Some (cs, c) \<Rightarrow> Option.bind (route_actions E cs (l\<lparr>lp_ctl := c\<rparr>)) (\<lambda>l1. route_actions E bs l1))))"

definition handle_and_route :: "'u loop_env \<Rightarrow> 'u observation \<Rightarrow> 'u loop \<Rightarrow> 'u loop option" where
  "handle_and_route E ob l =
     Option.bind (handle (ctl_env_of E) ob (loop_now E) (lp_ctl l)) (\<lambda>(as, c). route_actions E as (l\<lparr>lp_ctl := c\<rparr>))"

section \<open>Admission\<close>

definition reject :: "'u loop_env \<Rightarrow> error \<Rightarrow> error \<Rightarrow> coordinator option \<Rightarrow> 'u loop \<Rightarrow> 'u loop" where
  "reject E e1 e2 co l = drop_coordinator co (l\<lparr>admissions := admissions l @ [Inl e1], replies := replies l @ [(None, Inl e2)]\<rparr>)"

definition lease_message :: "lease_error \<Rightarrow> string" where
  "lease_message e =
     (case e of Busy k \<Rightarrow> ''destination '' @ [CHR 0x27] @ k @ [CHR 0x27] @ '' is in use by another active job'' | NoSource \<Rightarrow> ''job has no source'')"

definition open_coordinator :: "'u loop_env \<Rightarrow> string option \<Rightarrow> 'u loop \<Rightarrow> coordinator option res \<times> 'u loop" where
  "open_coordinator E p l =
     (case p of
        None \<Rightarrow> (Inr None, l)
      | Some q \<Rightarrow>
          (case open_blocking (file_env_of E) (file_destination_options_new q) (lp_disk l) of
             (Inl e, d) \<Rightarrow> (Inl e, l\<lparr>lp_disk := d\<rparr>)
           | (Inr c, d) \<Rightarrow> (Inr (Some c), l\<lparr>lp_disk := d\<rparr>)))"

definition insert_state :: "job_id \<Rightarrow> job_state \<Rightarrow> job_context \<Rightarrow> 'u loop \<Rightarrow> 'u loop" where
  "insert_state job st c l = l\<lparr>lp_jobs := (job, st) # sm_remove job (lp_jobs l), lp_contexts := (lp_contexts l)(job \<mapsto> c)\<rparr>"

definition attach_shared :: "'u loop_env \<Rightarrow> job_id \<Rightarrow> (destination_caps \<times> destination_hints) option \<Rightarrow> 'u loop \<Rightarrow> unit res \<times> 'u loop" where
  "attach_shared E job snk l =
     (case snk of
        None \<Rightarrow> (Inr (), l)
      | Some (caps, hints) \<Rightarrow>
          (case set_sink_properties job caps hints (world (lp_ctl l)) of
             (Inl e, w) \<Rightarrow> (Inl e, l\<lparr>lp_ctl := (lp_ctl l)\<lparr>world := w\<rparr>\<rparr>)
           | (Inr _, w) \<Rightarrow> (Inr (), broadcast E (Cmd_AttachDestination job) (l\<lparr>lp_ctl := (lp_ctl l)\<lparr>world := w\<rparr>\<rparr>))))"

text \<open>The part of an admission behind the world model's: the state of the job, its destination, the
  answer, the first observation.\<close>

definition begin_job :: "'u loop_env \<Rightarrow> 'u control_command \<Rightarrow> coordinator option \<Rightarrow> job_id \<Rightarrow> 'u loop \<Rightarrow> 'u loop option" where
  "begin_job E cmd co job l =
     (let spec = cc_spec cmd;
          j = Option.bind co (\<lambda>c. discover_resume E (lp_files l) (lp_disk l) c spec);
          st = \<lparr>st_coordinator = co, st_part_path = (case co of None \<Rightarrow> [] | Some c \<Rightarrow> co_part_path c), st_journal = j,
                st_shared = (cc_shared cmd \<noteq> None), st_refresher = cc_refresher cmd, st_progress = cc_progress cmd\<rparr>;
          l1 = insert_state job st (with_durability (js_deadline spec) (js_persistence spec)) l
      in if co \<noteq> None \<and> j = None then None
         else
           case attach_shared E job (cc_shared cmd) l1 of
             (Inl e, l2) \<Rightarrow> Some (l2\<lparr>admissions := admissions l2 @ [Inl e]\<rparr>)
           | (Inr _, l2) \<Rightarrow>
               handle_and_route E (JobAdmitted job spec (map_option evidence_of j)) (l2\<lparr>admissions := admissions l2 @ [Inr job]\<rparr>))"

definition admit_command :: "'u loop_env \<Rightarrow> 'u control_command \<Rightarrow> 'u loop \<Rightarrow> 'u loop option" where
  "admit_command E cmd l =
     (case open_coordinator E (cc_final_path cmd) l of
        (Inl e, l1) \<Rightarrow> Some (reject E e (error_destination (show_error E e)) None l1)
      | (Inr co, l1) \<Rightarrow>
          if engine_max_jobs (lp_ctl l1) \<le> length (jobs (world (lp_ctl l1)))
          then Some (reject E (error_destination ''engine job limit reached'') (error_destination ''engine job limit reached'') co l1)
          else
            (case admit_job (wenv (ctl_env_of E)) (url_ops_of (ctl_env_of E)) (blake3_of (ctl_env_of E)) (cc_spec cmd)
                    (cc_destination_key cmd) (world (lp_ctl l1)) of
               None \<Rightarrow> None
             | Some (Inl e, w) \<Rightarrow>
                 Some (reject E (error_destination (lease_message e)) (error_destination (lease_message e)) co
                   (l1\<lparr>lp_ctl := (lp_ctl l1)\<lparr>world := w\<rparr>\<rparr>))
             | Some (Inr (job, _), w) \<Rightarrow>
                 let l2 = l1\<lparr>lp_ctl := (lp_ctl l1)\<lparr>world := w\<rparr>\<rparr>
                 in case set_destination_part_path job w of
                      Inl e \<Rightarrow> Some (reject E e (error_destination (show_error E e)) co l2)
                    | Inr _ \<Rightarrow> begin_job E cmd co job l2))"

section \<open>Snapshots and progress\<close>

datatype snapshot_phase = Snap_Created | Snap_Probing | Snap_Transferring | Snap_Committing | Snap_Completed | Snap_Cancelling | Snap_Failed

fun phase_snapshot :: "job_phase \<Rightarrow> snapshot_phase" where
  "phase_snapshot Created = Snap_Created"
| "phase_snapshot Probing = Snap_Probing"
| "phase_snapshot Transferring = Snap_Transferring"
| "phase_snapshot Committing = Snap_Committing"
| "phase_snapshot Completed = Snap_Completed"
| "phase_snapshot Cancelling = Snap_Cancelling"
| "phase_snapshot Failing = Snap_Cancelling"
| "phase_snapshot Failed = Snap_Failed"

record job_snapshot =
  js_phase :: snapshot_phase
  js_total_length :: "u64 option"
  js_verified_bytes :: u64
  js_resumed_bytes :: u64
  receive_rate_bps :: "f64 option"
  active_connections :: nat
  active_streams :: nat
  js_protocols :: "protocol list"

definition build_snapshot :: "'u loop_env \<Rightarrow> 'u loop \<Rightarrow> job_id \<Rightarrow> job_snapshot option" where
  "build_snapshot E l job =
     (case job_of (lp_ctl l) job of
        None \<Rightarrow> None
      | Some j \<Rightarrow>
          let cs = filter (\<lambda>c. cn_origin c = jn_origin j \<and> status c = Ready) (map snd (connections (world (lp_ctl l))));
              stats = map_option (rate_stats (exp_of (ctl_env_of E))) (plan j)
          in Some \<lparr>js_phase = phase_snapshot (phase j), js_total_length = jn_total_length j,
               js_verified_bytes = (case plan j of None \<Rightarrow> 0 | Some p \<Rightarrow> bytes_done p), js_resumed_bytes = resumed_bytes j,
               receive_rate_bps = (case stats of None \<Rightarrow> None | Some s \<Rightarrow> if is_warm s then Some (ev_mean s) else None),
               active_connections = length cs, active_streams = (case plan j of None \<Rightarrow> 0 | Some p \<Rightarrow> length (assignments p)),
               js_protocols = foldl (\<lambda>ps c. if cn_protocol c \<in> set ps then ps else ps @ [cn_protocol c]) [] cs\<rparr>)"

record engine_snapshot =
  es_active_jobs :: nat
  es_physical_connections :: nat
  es_active_streams :: nat
  es_protocol_counts :: "(protocol \<times> nat) list"
  es_active_origins :: nat
  es_memory_used :: u64
  es_memory_limit :: u64

text \<open>The counts are in the order of the names of the protocols; the memory budget is the engine's.\<close>

definition build_engine_snapshot :: "memory_budget \<Rightarrow> 'u loop \<Rightarrow> engine_snapshot" where
  "build_engine_snapshot mem l =
     (let js = map snd (jobs (world (lp_ctl l))); cs = map snd (connections (world (lp_ctl l)));
          per = (\<lambda>p. length (filter (\<lambda>c. cn_protocol c = p) cs))
      in \<lparr>es_active_jobs = length (filter (\<lambda>j. \<not> is_terminal (phase j) \<and> phase j \<noteq> Cancelling) js),
          es_physical_connections = length cs,
          es_active_streams = sum_list (map (\<lambda>j. case plan j of None \<Rightarrow> 0 | Some p \<Rightarrow> length (assignments p)) js),
          es_protocol_counts = filter (\<lambda>(_, n). n > 0) (map (\<lambda>p. (p, per p)) [Http1_1, Http2, Http3]),
          es_active_origins = length (remdups (map cn_origin cs)), es_memory_used = mb_used mem, es_memory_limit = mb_limit mem\<rparr>)"

text \<open>\<open>None\<close> is the panic of the report.\<close>

definition publish_progress :: "'u loop_env \<Rightarrow> job_id \<Rightarrow> 'u loop \<Rightarrow> 'u loop option" where
  "publish_progress E job l =
     (case (Option.bind (job_state_of l job) st_progress, build_snapshot E l job) of
        (Some p, Some s) \<Rightarrow>
          map_option (\<lambda>r. upd_state job (\<lambda>st. st\<lparr>st_progress := Some (publish r p)\<rparr>) l)
            (progress_new (js_verified_bytes s) (js_total_length s) (receive_rate_bps s))
      | _ \<Rightarrow> Some l)"

section \<open>Rounds\<close>

fun progress_job :: "'u observation \<Rightarrow> job_id option" where
  "progress_job (Probed job _ _ _ _ _ _ _ _) = Some job"
| "progress_job (AssignmentVerified job _ _ _ _ _) = Some job"
| "progress_job _ = None"

definition on_observation :: "'u loop_env \<Rightarrow> 'u observation \<Rightarrow> 'u loop \<Rightarrow> 'u loop option" where
  "on_observation E ob l =
     (let l1 = record_progress E ob l
      in case handle (ctl_env_of E) ob (loop_now E) (lp_ctl l1) of
           None \<Rightarrow> None
         | Some (as, c) \<Rightarrow>
             Option.bind (case progress_job ob of None \<Rightarrow> Some (l1\<lparr>lp_ctl := c\<rparr>) | Some job \<Rightarrow> publish_progress E job (l1\<lparr>lp_ctl := c\<rparr>))
               (\<lambda>l2. route_actions E as l2))"

definition on_cancel_request :: "'u loop_env \<Rightarrow> job_id \<Rightarrow> 'u loop \<Rightarrow> 'u loop option" where
  "on_cancel_request E job l =
     handle_and_route E (JobCancelled job) (if job_state_of l job = None then l else set_context job CANCELLED l)"

definition on_timer_event :: "'u loop_env \<Rightarrow> timer_event \<Rightarrow> 'u loop \<Rightarrow> 'u loop option" where
  "on_timer_event E ev l =
     handle_and_route E (TimerExpired ev) (case ev of CheckpointDue job \<Rightarrow> snd (checkpoint_journal E job l) | _ \<Rightarrow> l)"

definition drain_timers :: "'u loop_env \<Rightarrow> 'u loop \<Rightarrow> 'u loop option" where
  "drain_timers E l =
     (case drain_expired (loop_now E) (lp_timers l) of
        (evs, q) \<Rightarrow> foldl (\<lambda>m ev. Option.bind m (on_timer_event E ev)) (Some (l\<lparr>lp_timers := q\<rparr>)) evs)"

text \<open>A request to shut down cancels every job the loop knows.\<close>

definition on_shutdown :: "'u loop_env \<Rightarrow> 'u loop \<Rightarrow> 'u loop option" where
  "on_shutdown E l = foldl (\<lambda>m job. Option.bind m (handle_and_route E (JobCancelled job))) (Some l) (map fst (lp_jobs l))"

text \<open>What happens behind the loop: every waiter that is left is answered.\<close>

definition drain_jobs :: "'u loop \<Rightarrow> 'u loop" where
  "drain_jobs l =
     foldl (\<lambda>m (job, st). drop_coordinator (st_coordinator st)
               ((set_context job CANCELLED m)\<lparr>replies := replies m @ [(Some job, Inl (Runtime Runtime_EngineGone))]\<rparr>))
       (l\<lparr>lp_jobs := []\<rparr>) (lp_jobs l)"

text \<open>The events of a round, in any order and with any environment.\<close>

inductive loop_step :: "'u url_ops \<Rightarrow> 'u loop \<Rightarrow> 'u loop \<Rightarrow> bool" for U where
  step_admit: "admit_command E cmd l = Some l' \<Longrightarrow> url_ops_of (ctl_env_of E) = U \<Longrightarrow> fresh_alloc (wenv (ctl_env_of E)) \<Longrightarrow> loop_step U l l'"
| step_cancel: "on_cancel_request E job l = Some l' \<Longrightarrow> url_ops_of (ctl_env_of E) = U \<Longrightarrow> fresh_alloc (wenv (ctl_env_of E)) \<Longrightarrow> loop_step U l l'"
| step_observe: "on_observation E ob l = Some l' \<Longrightarrow> (\<nexists>job spec ev. ob = JobAdmitted job spec ev) \<Longrightarrow>
     url_ops_of (ctl_env_of E) = U \<Longrightarrow> fresh_alloc (wenv (ctl_env_of E)) \<Longrightarrow> loop_step U l l'"
| step_timers: "drain_timers E l = Some l' \<Longrightarrow> url_ops_of (ctl_env_of E) = U \<Longrightarrow> fresh_alloc (wenv (ctl_env_of E)) \<Longrightarrow> loop_step U l l'"
| step_shutdown: "on_shutdown E l = Some l' \<Longrightarrow> url_ops_of (ctl_env_of E) = U \<Longrightarrow> fresh_alloc (wenv (ctl_env_of E)) \<Longrightarrow> loop_step U l l'"

end
