(* ===== verification/Control_Props.thy ===== *)
theory Control_Props
  imports Control Controller_Props File_Props
begin

text \<open>
  What the control thread promises its callers: who waits, who is answered, what a lost command and a
  lost process cost.
\<close>

section \<open>The books of the loop\<close>

text \<open>What the waiters depend on; most of the loop's operations leave it alone.\<close>

definition loop_books :: "'u loop \<Rightarrow> controller \<times> job_id list \<times> (job_id option \<times> (error + job_outcome)) list \<times> (error + job_id) list" where
  "loop_books l = (lp_ctl l, map fst (lp_jobs l), replies l, admissions l)"

lemma books_fields: "loop_books l' = loop_books l \<longleftrightarrow>
    lp_ctl l' = lp_ctl l \<and> map fst (lp_jobs l') = map fst (lp_jobs l) \<and> replies l' = replies l \<and> admissions l' = admissions l"
  by (simp add: loop_books_def)

lemma keys_update: "map fst (sm_update k f m) = map fst m"
  by (induction m) (auto simp: sm_update_def)

lemma keys_remove: "map fst (sm_remove k m) = filter (\<lambda>i. i \<noteq> k) (map fst m)"
  by (induction m) (auto simp: sm_remove_def)

lemma books_updates [simp]:
  "loop_books (l\<lparr>lp_timers := q\<rparr>) = loop_books l" "loop_books (l\<lparr>lp_files := fs\<rparr>) = loop_books l"
  "loop_books (l\<lparr>lp_disk := d\<rparr>) = loop_books l" "loop_books (l\<lparr>lp_sends := n\<rparr>) = loop_books l"
  "loop_books (l\<lparr>sent_commands := cs\<rparr>) = loop_books l" "loop_books (l\<lparr>sent_observations := os\<rparr>) = loop_books l"
  "loop_books (l\<lparr>sent_resolves := rs\<rparr>) = loop_books l" "loop_books (l\<lparr>lp_contexts := cx\<rparr>) = loop_books l"
  "loop_books (l\<lparr>closed_progress := ps\<rparr>) = loop_books l"
  by (simp_all add: loop_books_def)

lemma books_small [simp]:
  "loop_books (upd_state job f l) = loop_books l" "loop_books (set_context job v l) = loop_books l"
  "loop_books (drop_coordinator co l) = loop_books l" "loop_books (observe ob l) = loop_books l"
  by (simp_all add: upd_state_def set_context_def drop_coordinator_def observe_def keys_update loop_books_def split: option.splits)

lemma books_send_command [simp]: "loop_books (snd (send_command E k cmd l)) = loop_books l"
  by (simp add: send_command_def Let_def)

lemma books_send [simp]: "loop_books (snd (send_shard E k cmd l)) = loop_books l"
proof -
  obtain r l1 where t: "send_command E k cmd l = (r, l1)" by fastforce
  then have "loop_books l1 = loop_books l" by (metis books_send_command snd_conv)
  then show ?thesis by (simp add: send_shard_def t split: send_result.splits)
qed

lemma books_broadcast [simp]: "loop_books (broadcast E cmd l) = loop_books l"
proof -
  have "loop_books (foldl (\<lambda>m k. snd (send_command E k cmd m)) m ks) = loop_books m" for m ks
    by (induction ks arbitrary: m) simp_all
  then show ?thesis by (simp add: broadcast_def)
qed

lemma books_checkpoint [simp]: "loop_books (snd (checkpoint_journal_at E job f l)) = loop_books l"
  "loop_books (snd (checkpoint_journal E job l)) = loop_books l"
  by (auto simp: checkpoint_journal_def checkpoint_journal_at_def Let_def split: option.splits prod.splits)

lemma books_journal [simp]:
  "loop_books (record_only E job r l) = loop_books l" "loop_books (schedule_checkpoint E job d l) = loop_books l"
  "loop_books (remove_journal E job l) = loop_books l" "loop_books (record_progress E ob l) = loop_books l"
proof -
  show rest: "loop_books (record_only E job r l) = loop_books l" "loop_books (schedule_checkpoint E job d l) = loop_books l"
    "loop_books (remove_journal E job l) = loop_books l" for l :: "'a loop" and job r d
    by (simp_all add: record_only_def schedule_checkpoint_def remove_journal_def split: option.splits)
  show "loop_books (record_progress E ob l) = loop_books l"
    by (simp add: record_progress_def rest split: observation.splits option.splits durability.splits)
qed

lemma books_routed [simp]:
  "loop_books (route_open E conn i ep k h3 alt l) = loop_books l" "loop_books (route_probe E job conn src l) = loop_books l"
  "loop_books (route_start E job a conn rg ov fr l) = loop_books l" "loop_books (route_full_body E job a conn fr l) = loop_books l"
  "loop_books (route_sample E job sid conn rg l) = loop_books l" "loop_books (route_reset E job l) = loop_books l"
  by (simp_all add: route_open_def route_probe_def route_start_def route_full_body_def route_sample_def route_reset_def Let_def
      split: option.splits prod.splits)

lemma books_commit [simp]: "loop_books (route_commit E job len integrity l) = loop_books l"
proof -
  have "loop_books m' = loop_books m" if "send_shard E k cmd m = (b, m')" for m m' :: "'a loop" and k cmd b
    using books_send [of E k cmd m] that by simp
  note snd_b = this
  show ?thesis
    by (auto simp: route_commit_def Let_def close_lanes_everywhere_def split: option.splits prod.splits dest!: snd_b)
qed

lemma books_finish: "loop_books (finish_loop_job E job out l) =
    (lp_ctl l, filter (\<lambda>i. i \<noteq> job) (map fst (lp_jobs l)),
     (if job \<in> fst ` set (lp_jobs l) then replies l @ [(Some job, out)] else replies l), admissions l)"
proof -
  have gone: "loop_books (finish_loop_job E job out l) = (lp_ctl m, filter (\<lambda>i. i \<noteq> job) (map fst (lp_jobs m)),
     (if job \<in> fst ` set (lp_jobs m) then replies m @ [(Some job, out)] else replies m), admissions m)"
    if "m = (case out of Inr _ \<Rightarrow> remove_journal E job l | Inl _ \<Rightarrow> snd (checkpoint_journal E job l))" for m
  proof -
    have m: "(if (case out of Inr _ \<Rightarrow> True | Inl _ \<Rightarrow> False) then remove_journal E job l else snd (checkpoint_journal E job l)) = m"
      using that by (simp split: sum.splits)
    show ?thesis
    proof (cases "job_state_of m job")
      case None
      then have "job \<notin> fst ` set (lp_jobs m)" by (simp add: job_state_of_def sm_get_def map_of_eq_None_iff)
      moreover from this have "filter (\<lambda>i. i \<noteq> job) (map fst (lp_jobs m)) = map fst (lp_jobs m)" by (auto intro: filter_True)
      ultimately show ?thesis by (simp add: finish_loop_job_def m None) (simp add: loop_books_def)
    next
      case (Some st)
      then have "job \<in> fst ` set (lp_jobs m)" using map_of_SomeD by (force simp: job_state_of_def sm_get_def)
      then show ?thesis by (simp add: finish_loop_job_def m Some Let_def) (simp add: loop_books_def keys_remove)
    qed
  qed
  have "loop_books (case out of Inr _ \<Rightarrow> remove_journal E job l | Inl _ \<Rightarrow> snd (checkpoint_journal E job l)) = loop_books l"
    by (simp split: sum.splits)
  then show ?thesis using gone [OF refl] by (simp add: loop_books_def) (metis (no_types, lifting) image_set)
qed

lemma books_discard: "loop_books (discard_state job l) = (lp_ctl l, filter (\<lambda>i. i \<noteq> job) (map fst (lp_jobs l)), replies l, admissions l)"
proof (cases "job_state_of l job")
  case None
  then have "job \<notin> fst ` set (lp_jobs l)" by (simp add: job_state_of_def sm_get_def map_of_eq_None_iff)
  then have "filter (\<lambda>i. i \<noteq> job) (map fst (lp_jobs l)) = map fst (lp_jobs l)" by (auto intro: filter_True)
  then show ?thesis by (simp add: discard_state_def None) (simp add: loop_books_def)
next
  case (Some st)
  then show ?thesis by (simp add: discard_state_def) (simp add: loop_books_def keys_remove)
qed

lemma books_publish: "publish_progress E job l = Some l' \<Longrightarrow> loop_books l' = loop_books l"
  by (auto simp: publish_progress_def split: option.splits)

section \<open>Waiters\<close>

text \<open>How many answers a job's waiter was sent, and how many jobs were admitted under an identifier.\<close>

definition answer_count :: "'u loop \<Rightarrow> job_id \<Rightarrow> nat" where
  "answer_count l job = length (filter (\<lambda>r. fst r = Some job) (replies l))"

definition admitted :: "'u loop \<Rightarrow> job_id \<Rightarrow> nat" where
  "admitted l job = count_list (admissions l) (Inr job)"

definition waits :: "'u loop \<Rightarrow> job_id set" where
  "waits l = fst ` set (lp_jobs l)"

definition jobs_of :: "'u loop \<Rightarrow> job_id set" where
  "jobs_of l = fst ` set (jobs (world (lp_ctl l)))"

text \<open>\<open>X\<close> are the jobs that ended and whose end is not routed yet.\<close>

definition loop_inv :: "'u url_ops \<Rightarrow> job_id set \<Rightarrow> 'u loop \<Rightarrow> bool" where
  "loop_inv U X l \<longleftrightarrow> ctl_reach U (lp_ctl l) \<and> distinct (map fst (lp_jobs l)) \<and> waits l \<subseteq> jobs_of l \<union> X \<and>
     (\<forall>job. answer_count l job + (if job \<in> waits l then 1 else 0) \<le> admitted l job)"

lemma waits_keys: "waits l = set (map fst (lp_jobs l))"
  by (simp add: waits_def)

lemma inv_books: "loop_books l' = loop_books l \<Longrightarrow> loop_inv U X l' = loop_inv U X l"
  by (simp add: books_fields loop_inv_def waits_keys jobs_of_def answer_count_def admitted_def)

lemma inv_count: "loop_inv U X l \<Longrightarrow> answer_count l i + (if i \<in> waits l then 1 else 0) \<le> admitted l i"
  by (simp add: loop_inv_def)

lemma inv_mono: "loop_inv U X l \<Longrightarrow> X \<subseteq> Y \<Longrightarrow> loop_inv U Y l"
  by (auto simp: loop_inv_def)

lemma inv_finish:
  assumes "loop_inv U (insert job X) l"
  shows "loop_inv U X (finish_loop_job E job out l)"
proof -
  define m where "m = finish_loop_job E job out l"
  have m: "lp_ctl m = lp_ctl l" "map fst (lp_jobs m) = filter (\<lambda>i. i \<noteq> job) (map fst (lp_jobs l))" "admissions m = admissions l"
    "replies m = (if job \<in> waits l then replies l @ [(Some job, out)] else replies l)"
    using books_finish [of E job out l] by (simp_all add: m_def loop_books_def waits_def)
  have w: "waits m = waits l - {job}" using m(2) by (auto simp: waits_keys)
  have "answer_count m i + (if i \<in> waits m then 1 else 0) \<le> admitted m i" for i
    using inv_count [OF assms, of i] by (simp add: w m answer_count_def admitted_def split: if_splits)
  then show ?thesis using assms m(1,2) w unfolding m_def [symmetric] by (auto simp: loop_inv_def jobs_of_def)
qed

lemma inv_discard:
  assumes "loop_inv U X l"
  shows "loop_inv U X (discard_state job l)"
proof -
  define m where "m = discard_state job l"
  have m: "lp_ctl m = lp_ctl l" "map fst (lp_jobs m) = filter (\<lambda>i. i \<noteq> job) (map fst (lp_jobs l))" "admissions m = admissions l"
    "replies m = replies l"
    using books_discard [of job l] by (simp_all add: m_def loop_books_def)
  have w: "waits m = waits l - {job}" using m(2) by (auto simp: waits_keys)
  have "answer_count m i + (if i \<in> waits m then 1 else 0) \<le> admitted m i" for i
    using inv_count [OF assms, of i] by (simp add: w m answer_count_def admitted_def split: if_splits)
  then show ?thesis using assms m(1,2) w unfolding m_def [symmetric] by (auto simp: loop_inv_def jobs_of_def)
qed

lemma books_route: "ended_job a = None \<Longrightarrow> (\<And>job. a \<noteq> DiscardDestination job) \<Longrightarrow> loop_books (route_action E a l) = loop_books l"
  by (cases a) auto

lemma inv_route:
  assumes "loop_inv U (set (ended (a # bs)) \<union> X) l"
  shows "loop_inv U (set (ended bs) \<union> X) (route_action E a l)"
proof (cases "ended_job a")
  case None
  then have "loop_inv U (set (ended bs) \<union> X) l" using assms by simp
  then show ?thesis using inv_books [OF books_route [OF None]] inv_discard by (cases "\<exists>job. a = DiscardDestination job") auto
next
  case (Some job)
  then have "loop_inv U (insert job (set (ended bs) \<union> X)) l" using assms by simp
  then show ?thesis using Some inv_finish by (cases a) auto
qed

text \<open>The jobs of the controller before an observation are its jobs after it and those that ended.\<close>

lemma handle_keys:
  assumes "ctl_reach U s" "fresh_alloc (wenv C)" "obs_ok obs s" "handle C obs now s = Some (as, t)"
  shows "fst ` set (jobs (world s)) = fst ` set (jobs (world t)) \<union> set (ended as)"
proof -
  obtain u where u: "ctl_steps (wenv C) (s\<lparr>acts := []\<rparr>) u" "as = acts u" "t = u\<lparr>acts := []\<rparr>"
    by (rule handle_steps [OF assms(2-4)])
  have "job_ledger u = job_ledger (s\<lparr>acts := []\<rparr>)" by (rule ledger_steps [OF u(1) assms(2)]) (simp add: ctl_reach_inv [OF assms(1)])
  then have "mset (map fst (jobs (world s))) = mset (map fst (jobs (world t)) @ ended as)" by (simp add: job_ledger_def u(2,3))
  then show ?thesis by (metis image_set mset_eq_setD set_append)
qed

lemma inv_handle:
  assumes "loop_inv U X l" "url_ops_of (ctl_env_of E) = U" "fresh_alloc (wenv (ctl_env_of E))" "obs_ok ob (lp_ctl l)"
    and "handle (ctl_env_of E) ob now (lp_ctl l) = Some (as, c)"
  shows "loop_inv U (set (ended as) \<union> X) (l\<lparr>lp_ctl := c\<rparr>)"
proof -
  have r: "ctl_reach U (lp_ctl l)" using assms(1) by (simp add: loop_inv_def)
  have "ctl_reach U c" by (rule reach_handle [OF r assms(2-5)])
  moreover have "jobs_of l = jobs_of (l\<lparr>lp_ctl := c\<rparr>) \<union> set (ended as)"
    using handle_keys [OF r assms(3-5)] by (simp add: jobs_of_def)
  ultimately show ?thesis using assms(1) by (auto simp: loop_inv_def waits_def answer_count_def admitted_def)
qed

lemma refresh_obs_ok: "refresh_answer E a l = Some ob \<Longrightarrow> obs_ok ob s"
  by (auto simp: refresh_answer_def split: action.splits option.splits prod.splits if_splits)

lemma refresh_not_ended: "refresh_answer E a l = Some ob \<Longrightarrow> ended (a # bs) = ended bs"
  by (auto simp: refresh_answer_def split: action.splits)

lemma inv_route_actions:
  assumes "route_actions E as l = Some l'" "url_ops_of (ctl_env_of E) = U" "fresh_alloc (wenv (ctl_env_of E))"
    and "loop_inv U (set (ended as) \<union> X) l"
  shows "loop_inv U X l'"
  using assms
proof (induction arbitrary: X rule: route_actions.raw_induct [rotated, consumes 1])
  case (1 route_actions E as l l' X)
  show ?case
  proof (cases as)
    case Nil
    then show ?thesis using 1(2,5) by simp
  next
    case (Cons a bs)
    show ?thesis
    proof (cases "refresh_answer E a l")
      case None
      then have "route_actions E bs (route_action E a l) = Some l'" using 1(2) Cons by simp
      from 1(1) [OF this 1(3,4) inv_route] show ?thesis using 1(5) Cons by blast
    next
      case (Some ob)
      obtain cs c l1 where h: "handle (ctl_env_of E) ob (loop_now E) (lp_ctl l) = Some (cs, c)"
        and r: "route_actions E cs (l\<lparr>lp_ctl := c\<rparr>) = Some l1" "route_actions E bs l1 = Some l'"
        using 1(2) Cons Some by (auto split: option.splits bind_splits)
      have "loop_inv U (set (ended bs) \<union> X) l" using 1(5) refresh_not_ended [OF Some] by (simp add: Cons)
      then have "loop_inv U (set (ended cs) \<union> (set (ended bs) \<union> X)) (l\<lparr>lp_ctl := c\<rparr>)"
        by (rule inv_handle [OF _ 1(3,4) refresh_obs_ok [OF Some] h])
      then show ?thesis using 1(1) [OF r(1) 1(3,4)] 1(1) [OF r(2) 1(3,4)] by blast
    qed
  qed
qed

lemma inv_handle_and_route:
  assumes "handle_and_route E ob l = Some l'" "url_ops_of (ctl_env_of E) = U" "fresh_alloc (wenv (ctl_env_of E))"
    "loop_inv U {} l" "obs_ok ob (lp_ctl l)"
  shows "loop_inv U {} l'"
  using assms inv_handle [OF assms(4,2,3,5)] inv_route_actions
  by (fastforce simp: handle_and_route_def split: bind_splits)

section \<open>Reachable loops\<close>

inductive loop_reach :: "'u url_ops \<Rightarrow> 'u loop \<Rightarrow> bool" for U where
  loop_started: "loop_reach U (loop_start E n limits ctxt prof files d)"
| loop_stepped: "loop_reach U l \<Longrightarrow> loop_step U l l' \<Longrightarrow> loop_reach U l'"

lemma inv_start: "loop_inv U {} (loop_start E n limits ctxt prof files d)"
proof -
  have "ctl_reach U (lp_ctl (loop_start E n limits ctxt prof files d))"
  proof -
    have c: "ctl_reach U (s\<lparr>world := snd (set_network_context W k (world s))\<rparr>)" if "ctl_reach U s" for s W k
      using reach_context [OF that, of W k] by (cases "set_network_context W k (world s)") simp
    have p: "ctl_reach U (s\<lparr>world := import_profiles W pr (world s)\<rparr>)" if "ctl_reach U s" for s W pr
      by (rule reach_profile [OF that])
    have "ctl_reach U (set_engine_limits limits (with_shards (loop_now E) n))" by (rule reach_start)
    note this c [OF this] p [OF this] p [OF c [OF this]]
    then show ?thesis by (simp add: loop_start_def Let_def split: option.splits)
  qed
  then show ?thesis by (simp add: loop_inv_def loop_start_def Let_def waits_def answer_count_def)
qed

section \<open>Admissions\<close>

lemma admit_keys:
  assumes E: "fresh_alloc E" and ok: "world_ok w" and a: "admit_job E U blake3 spec key w = Some (r, w')"
  shows "case r of
      Inl _ \<Rightarrow> jobs w' = jobs w
    | Inr (job, _) \<Rightarrow> sm_get (jobs w) job = None \<and> (\<exists>j. sm_get (jobs w') job = Some j \<and> jn_total_length j = None) \<and>
        (\<forall>k. k \<noteq> job \<longrightarrow> sm_get (jobs w') k = sm_get (jobs w) k)"
proof -
  obtain d w1 where c: "claim_destination E key w = Some (d, w1)" using a by (auto simp: admit_job_def split: option.splits prod.splits)
  have c1: "jobs w1 = jobs w" using c claim_destination_ok(2) [OF E ok c]
    by (auto simp: claim_destination_def Let_def split: option.splits prod.splits)
  show ?thesis
  proof (cases "d = None \<or> js_sources spec = []")
    case True
    then show ?thesis using a c c1 by (auto simp: admit_job_def split: option.splits)
  next
    case False
    then obtain dest where dest: "d = Some dest" by auto
    obtain art as where ar: "sm_add E (\<lambda>_. None) (artifacts w1) = (art, as)" by fastforce
    obtain ids w2 where sr: "admit_sources E U blake3 art (js_sources spec) (w1\<lparr>artifacts := as\<rparr>) = (ids, w2)" by fastforce
    obtain job js where jb: "sm_add E (job_new U spec art (map fst ids) (snd (hd ids)) dest) (jobs w2) = (job, js)" by fastforce
    have j2: "jobs w2 = jobs w" using admit_sources_connections [OF sr E] c1 by simp
    have "keys_ok (jobs w2)" using ok j2 by (simp add: world_ok_def maps_ok_def)
    note jl = sm_add_laws(2,3) [OF E this jb]
    have "r = Inr (job, art)" "jobs w' = js" using a False by (auto simp: admit_job_def c dest ar sr jb)
    then show ?thesis using jl j2 by (simp add: job_new_def)
  qed
qed

lemma jobs_of_keys: "jobs_of l = set (map fst (jobs (world (lp_ctl l))))"
  by (simp add: jobs_of_def)

lemma jobs_of_get: "job \<in> jobs_of l \<longleftrightarrow> sm_get (jobs (world (lp_ctl l))) job \<noteq> None"
  by (simp add: jobs_of_def sm_get_def map_of_eq_None_iff)

text \<open>A shared destination changes only properties of its job's sink.\<close>

lemma attach_keeps:
  assumes "attach_shared E job snk l = (r, l')" "ctl_reach U (lp_ctl l)" "job_of (lp_ctl l) job = Some j" "jn_total_length j = None"
  shows "r = Inr ()" "ctl_reach U (lp_ctl l')" "jobs_of l' = jobs_of l" "map fst (lp_jobs l') = map fst (lp_jobs l)"
    "replies l' = replies l" "admissions l' = admissions l" "\<exists>j'. job_of (lp_ctl l') job = Some j' \<and> jn_total_length j' = None"
proof -
  have "r = Inr () \<and> ctl_reach U (lp_ctl l') \<and> jobs_of l' = jobs_of l \<and> map fst (lp_jobs l') = map fst (lp_jobs l) \<and>
    replies l' = replies l \<and> admissions l' = admissions l \<and> (\<exists>j'. job_of (lp_ctl l') job = Some j' \<and> jn_total_length j' = None)"
  proof (cases snk)
    case None
    then show ?thesis using assms by (simp add: attach_shared_def)
  next
    case (Some p)
    obtain caps hints where p: "p = (caps, hints)" by fastforce
    define w where "w = (world (lp_ctl l))\<lparr>jobs := sm_update job (\<lambda>j. j\<lparr>sink_caps := caps, sink_hints := hints\<rparr>) (jobs (world (lp_ctl l)))\<rparr>"
    have sp: "set_sink_properties job caps hints (world (lp_ctl l)) = (Inr (), w)"
      using assms(3) by (simp add: set_sink_properties_def job_of_def w_def)
    have reach: "ctl_reach U ((lp_ctl l)\<lparr>world := w\<rparr>)" by (rule reach_sink [OF assms(2) sp])
    have l': "r = Inr ()" "loop_books l' = loop_books (l\<lparr>lp_ctl := (lp_ctl l)\<lparr>world := w\<rparr>\<rparr>)"
      using assms(1) by (auto simp: attach_shared_def Some p sp)
    have "jobs_of l' = jobs_of l" using l'(2) by (simp add: books_fields jobs_of_keys w_def keys_update del: set_map)
    then show ?thesis using l' reach assms(3,4) by (auto simp: books_fields job_of_def w_def sm_get_update)
  qed
  then show "r = Inr ()" "ctl_reach U (lp_ctl l')" "jobs_of l' = jobs_of l" "map fst (lp_jobs l') = map fst (lp_jobs l)"
    "replies l' = replies l" "admissions l' = admissions l" "\<exists>j'. job_of (lp_ctl l') job = Some j' \<and> jn_total_length j' = None" by auto
qed

lemma inv_begin:
  assumes "begin_job E cmd co job l = Some l'" "url_ops_of (ctl_env_of E) = U" "fresh_alloc (wenv (ctl_env_of E))"
    and inv: "loop_inv U {} l" "job \<notin> waits l" and j: "job_of (lp_ctl l) job = Some j" "jn_total_length j = None"
  shows "loop_inv U {} l'"
proof -
  define jr where "jr = Option.bind co (\<lambda>c. discover_resume E (lp_files l) (lp_disk l) c (cc_spec cmd))"
  obtain st cx where b: "(case attach_shared E job (cc_shared cmd) (insert_state job st cx l) of
             (Inl e, l2) \<Rightarrow> Some (l2\<lparr>admissions := admissions l2 @ [Inl e]\<rparr>)
           | (Inr _, l2) \<Rightarrow> handle_and_route E (JobAdmitted job (cc_spec cmd) (map_option evidence_of jr)) (l2\<lparr>admissions := admissions l2 @ [Inr job]\<rparr>)) = Some l'"
    using assms(1) unfolding begin_job_def Let_def jr_def [symmetric] by (auto split: if_splits)
  define l1 where "l1 = insert_state job st cx l"
  obtain r l2 where at: "attach_shared E job (cc_shared cmd) l1 = (r, l2)" by fastforce
  have l1: "lp_ctl l1 = lp_ctl l" "map fst (lp_jobs l1) = job # map fst (lp_jobs l)" "replies l1 = replies l" "admissions l1 = admissions l"
    using inv(2) by (auto simp: l1_def insert_state_def keys_remove waits_keys intro!: filter_True)
  have cr: "ctl_reach U (lp_ctl l1)" using inv(1) by (simp add: l1 loop_inv_def)
  note k = attach_keeps [OF at cr, unfolded l1(1), OF j]
  let ?l3 = "l2\<lparr>admissions := admissions l2 @ [Inr job]\<rparr>"
  have w: "waits ?l3 = insert job (waits l)" using k(4) l1(2) by (simp add: waits_keys)
  have "job \<in> jobs_of l" using j(1) by (simp add: jobs_of_get job_of_def)
  then have sub: "waits ?l3 \<subseteq> jobs_of ?l3" using inv(1) k(3) l1(1) by (auto simp: w loop_inv_def jobs_of_def)
  have cnt: "answer_count ?l3 i + (if i \<in> waits ?l3 then 1 else 0) \<le> admitted ?l3 i" for i
    using inv_count [OF inv(1), of i] inv(2) unfolding w by (auto simp: k(5,6) l1(3,4) answer_count_def admitted_def split: if_splits)
  have "distinct (map fst (lp_jobs ?l3))" using inv k(4) l1(2) by (simp add: loop_inv_def waits_keys)
  then have i3: "loop_inv U {} ?l3" using k(2) sub cnt by (simp add: loop_inv_def)
  have "handle_and_route E (JobAdmitted job (cc_spec cmd) (map_option evidence_of jr)) ?l3 = Some l'"
    using b at k(1) by (simp add: l1_def)
  moreover have "obs_ok (JobAdmitted job (cc_spec cmd) ev) (lp_ctl ?l3)" for ev using k(7) by (cases ev) auto
  ultimately show ?thesis using inv_handle_and_route [OF _ assms(2,3) i3] by blast
qed

lemma inv_world:
  assumes "loop_inv U {} l" "ctl_reach U ((lp_ctl l)\<lparr>world := w\<rparr>)" "set (map fst (jobs (world (lp_ctl l)))) \<subseteq> set (map fst (jobs w))"
  shows "loop_inv U {} (l\<lparr>lp_ctl := (lp_ctl l)\<lparr>world := w\<rparr>\<rparr>)"
proof -
  have "waits l \<subseteq> set (map fst (jobs w))" using assms(1,3) unfolding loop_inv_def jobs_of_keys by blast
  then show ?thesis using assms(1,2) by (simp add: loop_inv_def waits_def answer_count_def admitted_def jobs_of_def)
qed

lemma inv_reject: "loop_inv U {} l \<Longrightarrow> loop_inv U {} (reject E e1 e2 co l)"
proof -
  assume i: "loop_inv U {} l"
  let ?m = "l\<lparr>admissions := admissions l @ [Inl e1], replies := replies l @ [(None, Inl e2)]\<rparr>"
  have "loop_inv U {} ?m" using i by (simp add: loop_inv_def waits_def answer_count_def admitted_def jobs_of_def)
  then show ?thesis using inv_books [of "reject E e1 e2 co l" ?m] by (simp add: reject_def)
qed

lemma inv_open: "open_coordinator E p l = (r, l') \<Longrightarrow> loop_inv U X l \<Longrightarrow> loop_inv U X l'"
  using inv_books [of l' l U X] by (auto simp: open_coordinator_def split: option.splits prod.splits sum.splits)

lemma inv_admit:
  assumes "admit_command E cmd l = Some l'" and U: "url_ops_of (ctl_env_of E) = U" and fresh: "fresh_alloc (wenv (ctl_env_of E))"
    and "loop_inv U {} l"
  shows "loop_inv U {} l'"
proof -
  obtain r l1 where o: "open_coordinator E (cc_final_path cmd) l = (r, l1)" by fastforce
  note i1 = inv_open [OF o assms(4)]
  show ?thesis
  proof (cases "(\<exists>e. r = Inl e) \<or> engine_max_jobs (lp_ctl l1) \<le> length (jobs (world (lp_ctl l1)))")
    case True
    then show ?thesis using assms(1) o i1 by (auto simp: admit_command_def inv_reject split: sum.splits if_splits)
  next
    case False
    then obtain co where co: "r = Inr co" by (cases r) auto
    let ?A = "admit_job (wenv (ctl_env_of E)) (url_ops_of (ctl_env_of E)) (blake3_of (ctl_env_of E)) (cc_spec cmd)
                    (cc_destination_key cmd) (world (lp_ctl l1))"
    obtain q w where a: "?A = Some (q, w)" using assms(1) o co False by (auto simp: admit_command_def split: option.splits)
    have c1: "ctl_reach U (lp_ctl l1)" using i1 by (simp add: loop_inv_def)
    have c2: "ctl_reach U ((lp_ctl l1)\<lparr>world := w\<rparr>)" by (rule reach_admit [OF c1 fresh]) (use a U in simp)
    have ok: "world_ok (world (lp_ctl l1))" using ctl_reach_inv [OF c1] by (simp add: ctl_inv_def ctl_ok_def)
    note k = admit_keys [OF fresh ok a]
    have "sm_get (jobs w) i \<noteq> None" if "sm_get (jobs (world (lp_ctl l1))) i \<noteq> None" for i
      using k that by (cases q; cases "i = fst (projr q)") (auto split: prod.splits)
    then have "set (map fst (jobs (world (lp_ctl l1)))) \<subseteq> set (map fst (jobs w))"
      by (auto simp: sm_get_def map_of_eq_None_iff image_iff subset_iff)
    note i2 = inv_world [OF i1 c2 this]
    show ?thesis
    proof (cases q)
      case (Inl e)
      then show ?thesis using assms(1) o co False a inv_reject [OF i2] by (auto simp: admit_command_def split: if_splits)
    next
      case (Inr ja)
      obtain job art where ja: "ja = (job, art)" by fastforce
      let ?l2 = "l1\<lparr>lp_ctl := (lp_ctl l1)\<lparr>world := w\<rparr>\<rparr>"
      obtain j where j: "sm_get (jobs (world (lp_ctl l1))) job = None" "sm_get (jobs w) job = Some j" "jn_total_length j = None"
        using k by (auto simp: Inr ja)
      have b: "begin_job E cmd co job ?l2 = Some l'"
        using assms(1) o co False a j(2) by (simp add: admit_command_def Inr ja set_destination_part_path_def)
      have "job \<notin> jobs_of l1" using j(1) by (simp add: jobs_of_get)
      then have "job \<notin> waits ?l2" using i1 by (auto simp: loop_inv_def waits_def)
      then show ?thesis by (rule inv_begin [OF b U fresh i2]) (use j in \<open>simp_all add: job_of_def\<close>)
    qed
  qed
qed

lemma inv_observation:
  assumes "on_observation E ob l = Some l'" "url_ops_of (ctl_env_of E) = U" "fresh_alloc (wenv (ctl_env_of E))"
    "loop_inv U {} l" "obs_ok ob (lp_ctl l)"
  shows "loop_inv U {} l'"
proof -
  let ?l1 = "record_progress E ob l"
  have i1: "loop_inv U {} ?l1" using assms(4) inv_books [OF books_journal(4)] by blast
  have c1: "lp_ctl ?l1 = lp_ctl l" using books_journal(4) [of E ob l] by (simp only: books_fields)
  obtain as c l2 where h: "handle (ctl_env_of E) ob (loop_now E) (lp_ctl ?l1) = Some (as, c)"
    and l2: "(case progress_job ob of None \<Rightarrow> Some (?l1\<lparr>lp_ctl := c\<rparr>) | Some job \<Rightarrow> publish_progress E job (?l1\<lparr>lp_ctl := c\<rparr>)) = Some l2"
    and r: "route_actions E as l2 = Some l'"
    using assms(1) by (auto simp: on_observation_def Let_def split: option.splits bind_splits)
  have "loop_books l2 = loop_books (?l1\<lparr>lp_ctl := c\<rparr>)" using l2 by (auto dest: books_publish split: option.splits)
  moreover have "loop_inv U (set (ended as) \<union> {}) (?l1\<lparr>lp_ctl := c\<rparr>)"
    by (rule inv_handle [OF i1 assms(2,3) _ h]) (simp add: c1 assms(5))
  ultimately have "loop_inv U (set (ended as) \<union> {}) l2" using inv_books by blast
  then show ?thesis by (rule inv_route_actions [OF r assms(2,3)])
qed

lemma inv_foldl:
  assumes "\<And>x m m'. f x m = Some m' \<Longrightarrow> P m \<Longrightarrow> P m'" "foldl (\<lambda>m x. Option.bind m (f x)) (Some l) xs = Some l'" "P l"
  shows "P l'"
proof -
  have none: "foldl (\<lambda>m x. Option.bind m (f x)) None xs = None" for xs by (induction xs) auto
  show ?thesis using assms(2,3)
  proof (induction xs arbitrary: l)
    case (Cons x xs)
    then show ?case using assms(1) by (cases "f x l") (auto simp: none)
  qed simp
qed

lemma inv_loop_step: "loop_step U l l' \<Longrightarrow> loop_inv U {} l \<Longrightarrow> loop_inv U {} l'"
proof (induction rule: loop_step.induct)
  case (step_admit E cmd l l')
  then show ?case using inv_admit by blast
next
  case (step_cancel E job l l')
  have "loop_inv U {} (if job_state_of l job = None then l else set_context job CANCELLED l)"
    using step_cancel(4) inv_books [OF books_small(2), of U "{}" job CANCELLED l] by simp
  then show ?case using step_cancel(1) inv_handle_and_route [OF _ step_cancel(2,3)] by (auto simp: on_cancel_request_def)
next
  case (step_observe E ob l l')
  have "obs_ok ob (lp_ctl l)" using step_observe(2) by (cases ob) auto
  then show ?case using step_observe inv_observation by blast
next
  case (step_timers E l l')
  obtain evs q where d: "drain_expired (loop_now E) (lp_timers l) = (evs, q)" by fastforce
  have "loop_inv U {} m'" if "on_timer_event E ev m = Some m'" "loop_inv U {} m" for ev m m'
  proof -
    have "loop_inv U {} (case ev of CheckpointDue job \<Rightarrow> snd (checkpoint_journal E job m) | _ \<Rightarrow> m)"
      using that(2) inv_books [OF books_checkpoint(2), of U "{}" E _ m] by (cases ev) auto
    then show ?thesis using inv_handle_and_route [OF that(1) [unfolded on_timer_event_def] step_timers(2,3)] by simp
  qed
  from inv_foldl [of "on_timer_event E" "loop_inv U {}", OF this] show ?case
    using step_timers(1,4) inv_books [OF books_updates(1)] by (force simp: drain_timers_def d)
next
  case (step_shutdown E l l')
  have "loop_inv U {} m'" if "handle_and_route E (JobCancelled job) m = Some m'" "loop_inv U {} m" for job m m'
    by (rule inv_handle_and_route [OF that(1) step_shutdown(2,3) that(2)]) simp
  from inv_foldl [of "\<lambda>job. handle_and_route E (JobCancelled job)" "loop_inv U {}", OF this] show ?case
    using step_shutdown(1,4) by (auto simp: on_shutdown_def)
qed

lemma reach_inv: "loop_reach U l \<Longrightarrow> loop_inv U {} l"
  by (induction rule: loop_reach.induct) (auto intro: inv_start inv_loop_step)

lemma drained_books: "lp_jobs (drain_jobs l) = [] \<and> admissions (drain_jobs l) = admissions l \<and>
    replies (drain_jobs l) = replies l @ map (\<lambda>(job, _). (Some job, Inl (Runtime Runtime_EngineGone))) (lp_jobs l)"
proof -
  let ?f = "\<lambda>m (job, st). drop_coordinator (st_coordinator st)
               ((set_context job CANCELLED m)\<lparr>replies := replies m @ [(Some job, Inl (Runtime Runtime_EngineGone))]\<rparr>)"
  have one: "lp_jobs (?f m x) = lp_jobs m \<and> admissions (?f m x) = admissions m \<and>
      replies (?f m x) = replies m @ [(Some (fst x), Inl (Runtime Runtime_EngineGone))]" for m :: "'a loop" and x
    by (cases x) (auto simp: drop_coordinator_def set_context_def split: option.splits)
  have many: "lp_jobs (foldl ?f m xs) = lp_jobs m \<and> admissions (foldl ?f m xs) = admissions m \<and>
      replies (foldl ?f m xs) = replies m @ map (\<lambda>(job, _). (Some job, Inl (Runtime Runtime_EngineGone))) xs" for m :: "'a loop" and xs
    by (induction xs arbitrary: m) (use one in \<open>auto simp: case_prod_unfold\<close>)
  show ?thesis unfolding drain_jobs_def using many [of "l\<lparr>lp_jobs := []\<rparr>" "lp_jobs l"] by simp
qed

text \<open>A loop with two shards that admitted a job on \<open>http://h\<close>, for the examples.\<close>

definition demo_E :: "string loop_env" where
  "demo_E = \<lparr>ctl_env_of = demo_C, mailbox = (\<lambda>_ _. Sent), commit_ack = (\<lambda>_. Ack_Lost), refresh_source = (\<lambda>_ _ _ _. None),
     file_env_of = demo_F, show_error = (\<lambda>_. []), invalid_url = [], to_bytes_of = (\<lambda>_. Some []), from_bytes_of = (\<lambda>_. None),
     crc_of = (\<lambda>_. 0), io_of = (\<lambda>_. None), io_part = 0, read_error = (\<lambda>_. None)\<rparr>"

definition demo_command :: "string control_command" where
  "demo_command = \<lparr>cc_spec = job_spec_new ''h'', cc_destination_key = ''d'', cc_final_path = None, cc_shared = None, cc_refresher = False,
     cc_progress = None\<rparr>"

definition demo_loop0 :: "string loop" where
  "demo_loop0 = loop_start demo_E 2 engine_limits_default None None Map.empty demo_disk"

lemma demo_loop0_ctl: "(lp_ctl demo_loop0)\<lparr>world := demo_world\<rparr> = demo_ctl" "world (lp_ctl demo_loop0) = world_new"
  by (simp_all add: demo_loop0_def loop_start_def demo_E_def demo_C_def demo_env_def demo_ctl_def set_engine_limits_def with_shards_def)

lemma demo_admission: "\<exists>as c. handle demo_C (JobAdmitted 1 (job_spec_new ''h'') None) 0 demo_ctl = Some (as, c) \<and>
    as = [Act_Resolve 1 ''h'' 80]"
  by (simp add: handle_def react_def on_job_admitted_def Let_def job_of_def demo_job sm_get_def bump_generation_def upd_job_def
      origin_of_def demo_origin job_new_def origin_new_def emit_def sm_update_def)

lemma demo_loop1: "\<exists>l. admit_command demo_E demo_command demo_loop0 = Some l \<and> map fst (lp_jobs l) = [1] \<and> admissions l = [Inr 1] \<and>
    replies l = [] \<and> sent_resolves l = [(1, ''h'', 80)]"
proof -
  obtain c where h: "handle demo_C (JobAdmitted 1 (job_spec_new ''h'') None) 0 demo_ctl = Some ([Act_Resolve 1 ''h'' 80], c)"
    using demo_admission by blast
  have sels: "ctl_env_of demo_E = demo_C" "wenv demo_C = demo_env" "url_ops_of demo_C = demo_url" "blake3_of demo_C = take 32"
    "inst_now demo_env = 0" by (simp_all add: demo_E_def demo_C_def demo_env_def)
  have "jobs world_new = []" "engine_max_jobs (lp_ctl demo_loop0) \<noteq> 0"
    by (simp_all add: world_new_def demo_loop0_def loop_start_def set_engine_limits_def with_shards_def engine_limits_default_def)
  moreover have "set_destination_part_path 1 demo_world = Inr ()"
    using demo_world_parts(1) by (cases "jobs demo_world") (auto simp: set_destination_part_path_def sm_get_def)
  moreover have "lp_jobs demo_loop0 = []" "admissions demo_loop0 = []" "replies demo_loop0 = []" "sent_resolves demo_loop0 = []"
    by (simp_all add: demo_loop0_def loop_start_def)
  ultimately show ?thesis
    by (simp add: admit_command_def open_coordinator_def demo_command_def sels demo_loop0_ctl demo_admitted begin_job_def
        insert_state_def attach_shared_def handle_and_route_def h route_actions.simps refresh_answer_def sm_remove_def Let_def del: One_nat_def)
qed

text \<open>C4: In every state of the control loop, a job whose caller waits is still a job of the controller,
  so that its end will be routed; no caller is answered more often than its job was admitted; and
  the drain behind the loop answers every caller that is left exactly once more, and leaves none.\<close>

theorem no_waiter_is_forgotten:
  assumes "loop_reach U l"
  shows "waits l \<subseteq> jobs_of l \<and> distinct (map fst (lp_jobs l)) \<and> waits (drain_jobs l) = {} \<and>
    answer_count (drain_jobs l) job = answer_count l job + (if job \<in> waits l then 1 else 0) \<and>
    answer_count (drain_jobs l) job \<le> admitted l job"
proof -
  have inv: "loop_inv U {} l" by (rule reach_inv [OF assms])
  have cnt: "length (filter (\<lambda>r. fst r = Some job) (map (\<lambda>(job, _). (Some job, e)) xs)) = count_list (map fst xs) job" for e and xs :: "(job_id \<times> job_state) list"
    by (induction xs) auto
  have "count_list xs job = (if job \<in> set xs then 1 else 0)" if "distinct xs" for xs using that by (induction xs) auto
  then have "count_list (map fst (lp_jobs l)) job = (if job \<in> waits l then 1 else 0)"
    using inv by (simp add: loop_inv_def waits_keys del: set_map)
  then have "answer_count (drain_jobs l) job = answer_count l job + (if job \<in> waits l then 1 else 0)"
    by (simp only: answer_count_def drained_books [THEN conjunct2, THEN conjunct2] filter_append length_append cnt)
  then show ?thesis using inv_count [OF inv, of job] inv drained_books [of l] by (auto simp: loop_inv_def waits_def)
qed

theorem no_waiter_is_forgotten_witness:
  "\<exists>l. admit_command demo_E demo_command demo_loop0 = Some l \<and> waits l = {1} \<and> 1 \<in> jobs_of l \<and> answer_count (drain_jobs l) 1 = 1"
proof -
  obtain l where l: "admit_command demo_E demo_command demo_loop0 = Some l" "map fst (lp_jobs l) = [1]" "replies l = []"
    using demo_loop1 by (elim exE conjE)
  have "loop_step demo_url demo_loop0 l" by (rule step_admit [OF l(1)]) (simp_all add: demo_E_def demo_C_def demo_env_fresh)
  moreover have "loop_reach demo_url demo_loop0" unfolding demo_loop0_def by (rule loop_started)
  ultimately have "loop_reach demo_url l" by (rule loop_stepped [rotated])
  note w = no_waiter_is_forgotten [OF this, of 1]
  have wl: "waits l = {1}" using l(2) by (simp add: waits_keys del: set_map)
  then have "1 \<in> jobs_of l" using w by blast
  moreover have "answer_count l 1 = 0" by (simp add: answer_count_def l(3))
  ultimately show ?thesis using l(1) w by (intro exI [of _ l]) (simp add: wl)
qed

section \<open>Lost answers and lost commands\<close>

lemma acts_grow: "ctl_step E s t \<Longrightarrow> \<exists>bs. acts t = acts s @ bs"
proof (induction rule: ctl_step.induct)
  case (c_claim s c now b t)
  then show ?case using claim_one_books(5) by blast
qed (auto simp: emit_def dial_connection_def allocate_connection_def Let_def upd_conn_def inc_shard_load_def acts_drop upd_world_def
    upd_job_def set_plan_def upd_source_def release_assignment_slot_def split: option.splits prod.splits if_splits)

lemma acts_grow_steps: "ctl_steps E s t \<Longrightarrow> \<exists>bs. acts t = acts s @ bs"
proof (induction rule: rtranclp_induct)
  case (step t u)
  then show ?case using acts_grow [OF step(2)] by force
qed simp

text \<open>C16: When the server's file changed, the controller has the destination discarded before it reports
  the failure. The loop forgets the caller with the destination: the failure that follows reaches
  nobody and no final progress is published, while the failure alone would have been reported.\<close>

theorem invalidated_artifact_reaches_nobody:
  assumes "act_on_disposition W job assign r (InvalidateArtifact reason) rp attempt mx conn now s = Some t" "job_of s job = Some j"
    and "job \<in> waits l"
  shows "\<exists>bs l'. acts t = acts s @ [DiscardDestination job, FailJob job (''artifact invalidated: '' @ reason)] @ bs \<and>
    route_actions E [DiscardDestination job, FailJob job (''artifact invalidated: '' @ reason)] l = Some l' \<and>
    replies l' = replies l \<and> closed_progress l' = closed_progress l \<and> job \<notin> waits l' \<and>
    map_option replies (route_actions E [FailJob job (''artifact invalidated: '' @ reason)] l) =
      Some (replies l @ [(Some job, Inl (fail_error (''artifact invalidated: '' @ reason)))])"
proof -
  let ?m = "''artifact invalidated: '' @ reason"
  let ?s1 = "emit (FailJob job ?m) (upd_world (remove_job job) (emit (DiscardDestination job) s))"
  have "job_of (emit (DiscardDestination job) s) job = Some j" using assms(2) by (simp add: job_of_def emit_def)
  then have "ensure_probes W (jn_origin j) (inst_now W) ?s1 = Some t"
    using assms(1) by (simp add: act_on_disposition_def finish_job_def)
  from acts_grow_steps [OF steps_ensure [OF this rtranclp.rtrancl_refl]]
  obtain bs where bs: "acts t = acts s @ [DiscardDestination job, FailJob job ?m] @ bs" by (auto simp: emit_def upd_world_def)
  define l1 where "l1 = discard_state job l"
  have l1: "map fst (lp_jobs l1) = filter (\<lambda>i. i \<noteq> job) (map fst (lp_jobs l))" "replies l1 = replies l"
    using books_discard [of job l] by (simp_all add: l1_def loop_books_def)
  have none: "job \<notin> waits l1" using l1(1) by (simp add: waits_keys del: set_map)
  have cp: "closed_progress l1 = closed_progress l"
    by (simp add: l1_def discard_state_def drop_coordinator_def set_context_def split: option.splits)
  have st: "job_state_of l1 job = None" using none by (simp add: job_state_of_def sm_get_def map_of_eq_None_iff waits_def)
  then have "finish_loop_job E job (Inl (fail_error ?m)) l1 = l1"
    by (simp add: finish_loop_job_def checkpoint_journal_def checkpoint_journal_at_def)
  then have r: "route_actions E [DiscardDestination job, FailJob job ?m] l = Some l1"
    by (simp add: route_actions.simps refresh_answer_def l1_def)
  have "map_option replies (route_actions E [FailJob job ?m] l) = Some (replies l @ [(Some job, Inl (fail_error ?m))])"
    using books_finish [of E job "Inl (fail_error ?m)" l] assms(3)
    by (simp add: route_actions.simps refresh_answer_def loop_books_def waits_def)
  then show ?thesis using bs r l1(2) cp none by blast
qed

theorem invalidated_artifact_reaches_nobody_witness:
  "\<exists>l t bs l'. admit_command demo_E demo_command demo_loop0 = Some l \<and> waits l = {1} \<and>
     act_on_disposition demo_env 1 None \<lparr>r_start = 0, r_end = 1\<rparr> (InvalidateArtifact ''changed'') None 0 6 None 0 demo_ctl = Some t \<and>
     acts t = [DiscardDestination 1, FailJob 1 ''artifact invalidated: changed''] @ bs \<and>
     route_actions demo_E [DiscardDestination 1, FailJob 1 ''artifact invalidated: changed''] l = Some l' \<and>
     replies l' = [] \<and> waits l' \<inter> {1} = {}"
proof -
  obtain l where l: "admit_command demo_E demo_command demo_loop0 = Some l" "map fst (lp_jobs l) = [1]" "replies l = []"
    using demo_loop1 by (elim exE conjE)
  have w: "waits l = {1}" using l(2) by (simp add: waits_keys del: set_map)
  have acts0: "acts demo_ctl = []" by (simp add: demo_ctl_def set_engine_limits_def with_shards_def)
  have "\<exists>t. act_on_disposition demo_env 1 None \<lparr>r_start = 0, r_end = 1\<rparr> (InvalidateArtifact ''changed'') None 0 6 None 0 demo_ctl = Some t"
    by (simp add: act_on_disposition_def finish_job_def job_of_def demo_job sm_get_def emit_def upd_world_def
        ensure_probes_def origin_of_def job_new_def remove_job_def demo_origin origin_new_def sm_remove_def)
  then obtain t where t: "act_on_disposition demo_env 1 None \<lparr>r_start = 0, r_end = 1\<rparr> (InvalidateArtifact ''changed'') None 0 6 None 0 demo_ctl = Some t"
    by blast
  obtain j where "job_of demo_ctl 1 = Some j" by (simp add: job_of_def demo_job sm_get_def)
  from invalidated_artifact_reaches_nobody [OF t this, of l demo_E] w acts0 l(3) obtain bs l' where
    "acts t = [DiscardDestination 1, FailJob 1 ''artifact invalidated: changed''] @ bs"
    "route_actions demo_E [DiscardDestination 1, FailJob 1 ''artifact invalidated: changed''] l = Some l'" "replies l' = []" "1 \<notin> waits l'"
    by auto
  then show ?thesis using l(1) w t by blast
qed

text \<open>A command that a shard's full mailbox does not take is lost: the loop tells the controller, but
  without the job, the assignment and the connection, and the controller that handles this changes
  nothing, so an assignment that was started stays with a worker that never heard of it.\<close>

lemma full_mailbox_strands_the_command:
  assumes "k < lp_shards l" "mailbox E (lp_sends l) k = Mailbox_Full"
  shows "\<exists>l' ob. send_shard E k cmd l = (False, l') \<and> sent_commands l' = sent_commands l \<and>
    sent_observations l' = sent_observations l @ [ob] \<and> (\<forall>C now s. handle C ob now s = Some ([], s\<lparr>acts := []\<rparr>))"
  using assms
  by (simp add: send_shard_def send_command_def observe_def handle_def react_def on_dispatch_failed_def undo_dispatch_def opt_or_def)

section \<open>Resuming\<close>

lemma inserted_ranges:
  "normalized s \<Longrightarrow> normalized (foldl rs_insert s rs) \<and> rs_set (foldl rs_insert s rs) = rs_set s \<union> list_set rs"
proof (induction rs arbitrary: s)
  case (Cons r rs)
  then show ?case using rs_insert_correct [OF Cons(2), of r] by (auto simp: list_set_def)
qed (simp add: list_set_def)

lemma surviving_ranges_set: "normalized (surviving_ranges n s) \<and> rs_set (surviving_ranges n s) = (\<Union>r\<in>{r \<in> set (ranges s). r_end r \<le> n}. br_set r)"
  using inserted_ranges [OF normalized_new, of "filter (\<lambda>r. r_end r \<le> n) (ranges s)"]
  by (simp add: surviving_ranges_def list_set_def rs_set_new)

lemma surviving_ranges_below: "rs_set (surviving_ranges n s) \<subseteq> {x. x < n}"
  using surviving_ranges_set [of n s] by (auto simp: br_set_def)

lemma nothing_lost:
  assumes "normalized s" "rs_set s \<subseteq> {x. unat x < len}" "len < 2 ^ 64"
  shows "rs_set (surviving_ranges (of_nat len) s) = rs_set s"
proof -
  have "r_end r \<le> of_nat len" if "r \<in> set (ranges s)" for r
  proof -
    have lt: "r_start r < r_end r" using assms(1) that by (auto simp: normalized_def norm_list_def)
    then have "r_end r - 1 \<in> br_set r" by (auto simp: br_set_def word_le_nat_alt word_less_nat_alt unat_sub_if' split: if_splits)
    then have "r_end r - 1 \<in> rs_set s" using that by (auto simp: rs_set_def list_set_def)
    then have "unat (r_end r - 1) < len" using assms(2) by auto
    then show ?thesis using lt assms(3) by (simp add: word_le_nat_alt word_less_nat_alt unat_of_nat unat_sub_if' split: if_splits)
  qed
  then show ?thesis using surviving_ranges_set [of "of_nat len" s] by (auto simp: rs_set_def list_set_def)
qed

lemma fresh_journal_durable: "fresh_journal E spec p = Some j \<Longrightarrow> durable (payload j) = rs_new \<and> jp_completed (payload j) = rs_new"
  by (auto simp: fresh_journal_def journal_create_def payload_new_def Let_def split: list.splits)

lemma resumed_ranges:
  "durable (resumed_payload E spec n pl) = surviving_ranges n (durable pl)"
  "jp_completed (resumed_payload E spec n pl) = surviving_ranges n (durable pl)"
  by (simp_all add: resumed_payload_def Let_def split: list.splits)

text \<open>C6: Whatever the journal on the disk says, a resumed job starts from bytes the partial file has: the
  ranges handed to the controller end within the file, they are normalized, and nothing else counts
  as completed.\<close>

theorem resume_trusts_only_present_bytes:
  assumes "discover_resume E files d co spec = Some j"
  shows "rs_set (re_durable (evidence_of j)) \<subseteq>
      {x. unat x < (case content_of d (co_part_path co) of None \<Rightarrow> 0 | Some b \<Rightarrow> length b)} \<and>
    normalized (re_durable (evidence_of j)) \<and> jp_completed (payload j) = re_durable (evidence_of j)"
proof (cases "\<exists>q. fresh_journal E spec q = Some j")
  case True
  then obtain q where "fresh_journal E spec q = Some j" by blast
  from fresh_journal_durable [OF this] show ?thesis by (simp add: evidence_of_def normalized_new rs_set_new)
next
  case False
  let ?len = "case content_of d (co_part_path co) of None \<Rightarrow> 0 | Some b \<Rightarrow> length b"
  from assms False obtain j0 where "j = mark_dirty (j0\<lparr>payload := resumed_payload E spec (part_length E d co) (payload j0)\<rparr>)"
    by (auto simp: discover_resume_def split: sum.splits option.splits if_splits)
  then have j: "durable (payload j) = surviving_ranges (part_length E d co) (durable (payload j0))"
    "jp_completed (payload j) = surviving_ranges (part_length E d co) (durable (payload j0))"
    by (simp_all add: mark_dirty_def resumed_ranges)
  have "unat (part_length E d co) \<le> ?len"
    by (simp add: part_length_def unat_of_nat split: option.splits)
  then have "{x. x < part_length E d co} \<subseteq> {x. unat x < ?len}" by (auto simp: word_less_nat_alt)
  then show ?thesis using surviving_ranges_below [of "part_length E d co" "durable (payload j0)"]
    surviving_ranges_set [of "part_length E d co" "durable (payload j0)"] by (auto simp: evidence_of_def j)
qed

text \<open>The partial file of the examples has five bytes; this journal claims more.\<close>

definition demo_overclaim :: journal_payload where
  "demo_overclaim = demo_payload\<lparr>durable := \<lparr>ranges = [\<lparr>r_start = 0, r_end = 4\<rparr>, \<lparr>r_start = 6, r_end = 9\<rparr>], covered = 7\<rparr>\<rparr>"

theorem resume_trusts_only_present_bytes_witness:
  "\<exists>j. discover_resume (demo_E\<lparr>from_bytes_of := \<lambda>_. Some demo_overclaim\<rparr>) (Map.empty(journal_path demo_co \<mapsto> frame (\<lambda>_. 0) []))
       demo_disk demo_co (job_spec_new ''h'') = Some j \<and>
     rs_set (re_durable (evidence_of j)) = {0..<4} \<and> rs_set (re_durable (evidence_of j)) \<subseteq> {x. unat x < 5}"
proof -
  let ?E = "demo_E\<lparr>from_bytes_of := \<lambda>_. Some demo_overclaim\<rparr>"
  have c: "content_of demo_disk (co_part_path demo_co) = Some [9, 9, 9, 9, 9]" by (simp add: content_of_def demo_sels)
  have "part_length ?E demo_disk demo_co = 5" by (simp add: part_length_def c [unfolded demo_sels] demo_E_def demo_sels)
  moreover have "read_journal ?E (Map.empty(journal_path demo_co \<mapsto> frame (\<lambda>_. 0) [])) (journal_path demo_co) =
      Inr (Some \<lparr>j_path = journal_path demo_co, payload = demo_overclaim, dirty = False\<rparr>)"
    using load_frame [of "[]" 18 "\<lambda>_. 0" "\<lambda>_. Some demo_overclaim" "journal_path demo_co"]
    by (simp add: read_journal_def read_fs_def demo_E_def length_frame)
  ultimately obtain j where j: "discover_resume ?E (Map.empty(journal_path demo_co \<mapsto> frame (\<lambda>_. 0) [])) demo_disk demo_co (job_spec_new ''h'') = Some j"
    "durable (payload j) = surviving_ranges 5 (durable demo_overclaim)"
    by (simp add: discover_resume_def c mark_dirty_def resumed_ranges)
  have "{r \<in> set (ranges (durable demo_overclaim)). r_end r \<le> 5} = {\<lparr>r_start = 0, r_end = 4\<rparr>}" by (auto simp: demo_overclaim_def)
  then have "rs_set (re_durable (evidence_of j)) = {0..<4}"
    using surviving_ranges_set [of 5 "durable demo_overclaim"] by (simp add: evidence_of_def j(2) br_set_def)
  then show ?thesis using resume_trusts_only_present_bytes [OF j(1)] j(1) c by auto
qed

text \<open>The record a crash-safe job writes for a verified range.\<close>

definition crash_safe_record :: "'u loop_env \<Rightarrow> job_node \<Rightarrow> byte_range \<Rightarrow> journal \<Rightarrow> journal" where
  "crash_safe_record E n r j = sync_fingerprint (Some n) (mark_completed_durable (record_completed (unix_secs (wenv (ctl_env_of E))) r j))"

lemma crash_safe_record_parts:
  "durable (payload (crash_safe_record E n r j)) = rs_insert (jp_completed (payload j)) r"
  "j_path (crash_safe_record E n r j) = j_path j" "dirty (crash_safe_record E n r j)"
  by (simp_all add: crash_safe_record_def sync_fingerprint_def mark_completed_durable_def record_completed_def mark_dirty_def Let_def
      split: option.splits)

lemma crash_safe_written:
  assumes "job_of (lp_ctl l) job = Some n" "jn_durability n = CrashSafe" "job_state_of l job = Some st" "st_journal st = Some j"
    and "\<And>c. io_of E c = None" "to_bytes_of E (payload (crash_safe_record E n r j)) = Some body"
  shows "lp_files (record_progress E (AssignmentVerified job a r smp conn reusable) l) (j_path j) = Some (frame (crc_of E) body)"
proof -
  have "persist E (lp_files l) (crash_safe_record E n r j) =
      (Inr (), (lp_files l)(j_path j @ ''.tmp'' := None, j_path j \<mapsto> frame (crc_of E) body), (crash_safe_record E n r j)\<lparr>dirty := False\<rparr>)"
    using assms(5,6) crash_safe_record_parts(2,3) [of E n r j]
    by (simp add: persist_def persist_blocking_def persist_blocking_inner_def sync_parent_def Let_def)
  then show ?thesis using assms(1-4)
    by (simp add: record_progress_def checkpoint_journal_at_def crash_safe_record_def upd_state_def)
qed

text \<open>C5: A crash-safe job loses nothing that was verified: once a verified range was observed, a loop that
  starts later, whatever happened to the rest of the first one, resumes from exactly the bytes that
  were completed before and the bytes of the range, as long as the partial file still has them and
  the serializer reads back what it wrote.\<close>

theorem crash_safe_progress_survives:
  assumes "job_of (lp_ctl l) job = Some n" "jn_durability n = CrashSafe" "job_state_of l job = Some st" "st_journal st = Some j"
    and "\<And>c. io_of E c = None" "to_bytes_of E (payload (crash_safe_record E n r j)) = Some body"
    and "normalized (jp_completed (payload j))" "br_set r \<noteq> {}"
    and "from_bytes_of E' body = Some (payload (crash_safe_record E n r j))" "length body < 2 ^ 32" "crc_of E' = crc_of E"
    and "read_error E' (j_path j) = None" "fails (file_env_of E') Stat_Part = None"
    and "journal_path co = j_path j" "content_of d (co_part_path co) = Some b" "length b < 2 ^ 64"
    and "rs_set (jp_completed (payload j)) \<union> br_set r \<subseteq> {x. unat x < length b}"
  shows "\<exists>j'. discover_resume E' (lp_files (record_progress E (AssignmentVerified job a r smp conn reusable) l)) d co spec = Some j' \<and>
    rs_set (re_durable (evidence_of j')) = rs_set (jp_completed (payload j)) \<union> br_set r"
proof -
  let ?fs = "lp_files (record_progress E (AssignmentVerified job a r smp conn reusable) l)"
  let ?R = "crash_safe_record E n r j"
  have f: "?fs (j_path j) = Some (frame (crc_of E) body)" by (rule crash_safe_written [OF assms(1-6)])
  have "take (18 + length body) (frame (crc_of E) body) = frame (crc_of E) body" by (simp add: length_frame)
  then have rd: "read_journal E' ?fs (journal_path co) = Inr (Some \<lparr>j_path = j_path j, payload = payload ?R, dirty = False\<rparr>)"
    using load_frame [OF assms(10), of "18 + length body" "crc_of E" "from_bytes_of E'" "j_path j"] assms(9,11,12,14) f
    by (simp add: read_journal_def read_fs_def)
  have pl: "part_length E' d co = of_nat (length b)" using assms(13,15) by (simp add: part_length_def)
  obtain x where "x \<in> br_set r" using assms(8) by blast
  then have "length b \<noteq> 0" using assms(17) by auto
  moreover have "unat (part_length E' d co) = length b" using assms(16) by (simp add: pl unat_of_nat)
  ultimately have nz: "part_length E' d co \<noteq> 0" by auto
  have ins: "normalized (rs_insert (jp_completed (payload j)) r)" "rs_set (rs_insert (jp_completed (payload j)) r) = rs_set (jp_completed (payload j)) \<union> br_set r"
    using rs_insert_correct [OF assms(7), of r] by auto
  have "rs_set (surviving_ranges (of_nat (length b)) (durable (payload ?R))) = rs_set (jp_completed (payload j)) \<union> br_set r"
    unfolding crash_safe_record_parts(1) using nothing_lost [OF ins(1) _ assms(16)] ins(2) assms(17) by simp
  then show ?thesis using rd nz assms(15)
    by (simp add: discover_resume_def evidence_of_def mark_dirty_def resumed_ranges pl)
qed

theorem crash_safe_progress_survives_witness:
  "\<forall>a smp conn reusable. \<exists>l E' j'. discover_resume E' (lp_files (record_progress demo_E (AssignmentVerified 1 a \<lparr>r_start = 0, r_end = 4\<rparr> smp conn reusable) l))
       demo_disk demo_co (job_spec_new ''h'') = Some j' \<and> rs_set (re_durable (evidence_of j')) = {0..<4}"
proof (intro allI)
  fix a smp conn reusable
  let ?r = "\<lparr>r_start = 0, r_end = 4 :: u64\<rparr>"
  let ?j = "journal_create (journal_path demo_co) demo_payload"
  let ?st = "\<lparr>st_coordinator = None, st_part_path = [], st_journal = Some ?j, st_shared = False, st_refresher = False, st_progress = None\<rparr>"
  let ?l = "demo_loop0\<lparr>lp_ctl := upd_job 1 (\<lambda>j. j\<lparr>jn_durability := CrashSafe\<rparr>) demo_ctl, lp_jobs := [(1, ?st)]\<rparr>"
  obtain n where n: "job_of (lp_ctl ?l) 1 = Some n" "jn_durability n = CrashSafe"
    by (simp add: job_of_def upd_job_def sm_get_update demo_job) (simp add: sm_get_def)
  let ?E' = "demo_E\<lparr>from_bytes_of := \<lambda>_. Some (payload (crash_safe_record demo_E n ?r ?j))\<rparr>"
  have st: "job_state_of ?l 1 = Some ?st" by (simp add: job_state_of_def sm_get_def)
  have c: "content_of demo_disk (co_part_path demo_co) = Some [9, 9, 9, 9, 9]" by (simp add: content_of_def demo_sels)
  have br: "br_set ?r = {0..<4}" "rs_set (jp_completed (payload ?j)) = {}" "normalized (jp_completed (payload ?j))"
    by (simp_all add: br_set_def journal_create_def demo_payload_def payload_new_def rs_set_new normalized_new)
  have "\<exists>j'. discover_resume ?E' (lp_files (record_progress demo_E (AssignmentVerified 1 a ?r smp conn reusable) ?l)) demo_disk demo_co
      (job_spec_new ''h'') = Some j' \<and> rs_set (re_durable (evidence_of j')) = rs_set (jp_completed (payload ?j)) \<union> br_set ?r"
  proof (rule crash_safe_progress_survives [where body = "[]", OF n st _ _ _ br(3) _ _ _ _ _ _ _ c])
    have "(0::u64) \<in> {0..<4}" by simp
    then show "br_set ?r \<noteq> {}" unfolding br(1) by blast
    show "rs_set (jp_completed (payload ?j)) \<union> br_set ?r \<subseteq> {x. unat x < length [9, 9, 9, 9, 9::u8]}"
      unfolding br by (auto simp: word_less_nat_alt)
  qed (simp_all add: demo_E_def journal_create_def demo_sels)
  then show "\<exists>l E' j'. discover_resume E' (lp_files (record_progress demo_E (AssignmentVerified 1 a ?r smp conn reusable) l))
       demo_disk demo_co (job_spec_new ''h'') = Some j' \<and> rs_set (re_durable (evidence_of j')) = {0..<4}"
    unfolding br Un_empty_left by blast
qed

end
