(* ===== verification/Spec2Isabelle.thy ===== *)
theory Spec2Isabelle
  imports Segment_Props Timers Provenance Http_Range Capacity Journal Job_Context Progress Controller_Choice Controller_Probes Shard_Props Control_Props
begin

text \<open>
  A verification of \<^bold>\<open>xde\<close>, a segmented download engine written in Rust (the crate under
  \<^verbatim>\<open>src/crates/xde/src\<close>; file names below are relative to it).

  \<^bold>\<open>The program.\<close> An application submits a job: an artifact, the sources that serve it, a
  destination and policies. The control thread keeps a model of the world (jobs, origins, endpoints,
  connections, destinations) and a segment plan per job, and turns observations into actions; shards
  own the connections and run one range request per assignment; bytes go through a global memory
  budget to a destination, directly or through a reordering adapter; a journal makes progress survive
  a crash. Ranges that fail are deferred and retried, slow workers lose the tail of their range to
  fast ones, and every response is checked against what the other responses said about the
  artifact.

  \<^bold>\<open>Conventions.\<close> Machine integers are words of their width and wrap as the release profile does;
  panics of the code are the value \<open>None\<close> and errors are the left side of a sum. \<open>f64\<close> is IEEE
  binary64 on rationals with correct rounding. Instants and durations are nanoseconds. Code that is
  not in the repository is a parameter with the documented law it needs as a hypothesis: slot map
  keys (\<open>slotmap\<close>), \<open>url\<close>, \<open>http\<close>, \<open>httpdate\<close>, \<open>postcard\<close>, \<open>crc32c\<close>, \<open>blake3\<close>, the exponential
  function, the clocks and the file system's failures. Concurrent code is a step relation whose steps
  are the atomic actions of the source, and a property of it holds in every state any interleaving
  reaches.

  \<^bold>\<open>The theories.\<close>
  \<^item> \<open>Prelude\<close>, \<open>Text\<close>, \<open>Float64\<close>: integers, strings and floating point of the standard library.
  \<^item> \<open>Ranges\<close> (\<^verbatim>\<open>core/ranges.rs\<close>): byte ranges and range sets. The locale \<open>byte_set\<close> states what a set
    of byte ranges promises, \<open>canonical_byte_set\<close> adds that the representation is unique, and both
    are interpreted on the range set; it refines sets of bytes.
  \<^item> \<open>Rates\<close>, \<open>Policy\<close> (\<^verbatim>\<open>core/units.rs\<close>, \<^verbatim>\<open>ewma.rs\<close>, \<^verbatim>\<open>metrics.rs\<close>, \<^verbatim>\<open>policy.rs\<close>): rates, decayed
    averages, transfer samples, policies, backoff.
  \<^item> \<open>Segment\<close>, \<open>Segment_Inv\<close>, \<open>Segment_Steps\<close>, \<open>Segment_Props\<close> (\<^verbatim>\<open>core/segment.rs\<close>): the segment plan.
    \<open>Segment_Inv\<close> proves that every operation keeps the ownership invariant; \<open>Segment_Steps\<close> has the
    step relations of arbitrary callers and of the controller; \<open>Segment_Props\<close> the properties. The
    locale \<open>key_store\<close> is what the plan and the world model need of a slot map.
  \<^item> \<open>Timers\<close> (\<^verbatim>\<open>core/timers.rs\<close>): the timer queue, with the locale \<open>expiry_queue\<close>; \<open>Provenance\<close>
    (\<^verbatim>\<open>core/provenance.rs\<close>): who wrote a byte first.
  \<^item> \<open>Errors\<close> (\<^verbatim>\<open>core/error.rs\<close>, \<^verbatim>\<open>disposition.rs\<close>), \<open>Http_Range\<close> (\<^verbatim>\<open>http/range.rs\<close>), \<open>Representation\<close>
    (\<^verbatim>\<open>core/representation.rs\<close>, \<^verbatim>\<open>integrity/overlap.rs\<close>): errors and what is done about them, the
    Content-Range header, the identity of a representation.
  \<^item> \<open>Memory_Budget\<close> (\<^verbatim>\<open>storage/transfer.rs\<close>), \<open>Reorder\<close> (\<^verbatim>\<open>storage/reorder.rs\<close>), \<open>Capacity\<close>
    (\<^verbatim>\<open>storage/capacity.rs\<close>): memory, order of delivery and capacity of a destination.
  \<^item> \<open>Journal\<close> (\<^verbatim>\<open>storage/journal.rs\<close>): the resume journal, its framing and its atomic replacement.
  \<^item> \<open>Job_Spec\<close> (\<^verbatim>\<open>core/spec.rs\<close>, \<^verbatim>\<open>ids.rs\<close>, \<^verbatim>\<open>sink.rs\<close>), \<open>Job_Context\<close> (\<^verbatim>\<open>core/context.rs\<close>), \<open>Progress\<close>
    (\<^verbatim>\<open>progress.rs\<close>): requests, the shared state of a job, progress reports.
  \<^item> \<open>World\<close>, \<open>World_Ops\<close>, \<open>World_Props\<close> (\<^verbatim>\<open>core/world.rs\<close>, the persisted part of \<^verbatim>\<open>profile.rs\<close>): the
    nodes, the operations, and the invariant of all reachable worlds.

  \<^item> \<open>Controller\<close>, \<open>Controller_Ops\<close>, \<open>Controller_Adaptive\<close>, \<open>Controller_Handle\<close>, \<open>Controller_Observe\<close>
    (\<^verbatim>\<open>core/controller.rs\<close>): the observations and actions, the state, the helpers that open, drop and
    assign connections, the adaptive topology, and \<open>handle\<close>, the handler of every observation.
    \<open>Controller_Steps\<close> relates it to the step relations of the plan and the world; \<open>Controller_Inv\<close>,
    \<open>Controller_Books\<close> and \<open>Controller_Props\<close> carry the invariants through every handler;
    \<open>Controller_Choice\<close> and \<open>Controller_Probes\<close> treat the choice of the next job, resume evidence,
    redirects and the probing loop.
  \<^item> \<open>File_Destination\<close>, \<open>File_Props\<close> (\<^verbatim>\<open>storage/file.rs\<close>, \<^verbatim>\<open>storage/lane.rs\<close>): partial files, lanes,
    the lock, the commit and its digest check, on a disk with failing calls. The locale \<open>random_access\<close>
    says what a write does to a file.
  \<^item> \<open>Fetch\<close>, \<open>Fetch_Props\<close> (\<^verbatim>\<open>http/mod.rs\<close>, \<^verbatim>\<open>http/fetch.rs\<close>, \<^verbatim>\<open>http/probe.rs\<close>): requests, the checks of
    an answer, the delivery of its body to a sink. The locale \<open>artifact_sink\<close> is what a sink promises
    to the fetch; it is used with a log, with the lanes of a shard and with the comparing sink.
  \<^item> \<open>Conn_Pool\<close>, \<open>Shard_Work\<close>, \<open>Shard_Props\<close>, \<open>Shard\<close> (\<^verbatim>\<open>shard.rs\<close>, the sessions of
    \<^verbatim>\<open>net/connector.rs\<close>): the pool of a connection, the sinks and runs of a shard, its commands and
    tasks. The locale \<open>shared_part\<close> is what tasks that write one partial file owe each other; lanes
    satisfy it.
  \<^item> \<open>Control\<close>, \<open>Control_Props\<close> (\<^verbatim>\<open>control.rs\<close>, \<^verbatim>\<open>snapshot.rs\<close>): the loop of the control thread around
    the controller: admission, resume discovery, checkpoints, the routing of every action, the rounds
    as a step relation and the drain behind the loop. What is sent is a log; whether a mailbox takes a
    command is a parameter.

  \<^bold>\<open>What is shown.\<close> Invariants of every reachable state (ownership of bytes, the memory budget, the
  relations of the world model, the books of the controller, the waiting callers); functional behaviour of
  the operations against sets of bytes, first-writer relations, stable sorting; round trips of the
  formats; error and boundary behaviour; liveness (an idle plan gives work, disjoint chunks are
  delivered, nobody sleeps through the end of a job or waits for a free session). Across components:
  the bytes of a fetch arrive in the sink, a range that is reported as verified is in the partial
  file, only complete plans are committed, what is committed is what was verified, and what a
  crash-safe job verified is resumed after a crash. Behaviours
  that contradict the comments are stated as they are. Loops that may not end are partial functions,
  and that they return is a theorem of its own (\<open>fetch_returns\<close>, \<open>ensure_probes_returns\<close>); no model
  uses fuel.

  \<^bold>\<open>Not modelled.\<close> Sockets, TLS, DNS and the HTTP protocol stacks (calls of third-party libraries);
  the Windows branches of the file code; threads, channels with their time-outs and the asynchronous
  runtime; \<^verbatim>\<open>engine.rs\<close>, which starts the threads, and the handles it gives out; telemetry events and
  the file of stored profiles; message texts.
\<close>

end
